(* ===== verification/Prelude.thy ===== *)
theory Prelude
  imports Main "HOL-Library.Word" "HOL-Library.Sublist"
begin

text \<open>
  Shared vocabulary of the development: bytes, the outcome of a Go call (a
  value, an error value or a run-time panic), client errors with their numeric
  code, and the generic lemmas on lists, options and outcomes that the component
  theories use.

  A Go function that returns \<open>(T, error)\<close> is modelled by a function into
  \<open>(error, T) go\<close>; the constructor \<open>Panic\<close> is a nil dereference, a failed
  type assertion, an index out of range or an explicit panic.
\<close>

unbundle bit_operations_syntax

section \<open>Bytes, identifiers and errors\<close>

type_synonym byte = "8 word"
type_synonym bytes = "byte list"

text \<open>A pointer to a heap object; \<open>None\<close> of \<open>addr option\<close> is the nil pointer.\<close>

type_synonym addr = nat

text \<open>
  \<open>onet.ClientError\<close>: a numeric code and a message
  (\<open>NewClientErrorCode\<close> of \<open>imported/onet/websocket.go\<close>).
\<close>

record client_error =
  ce_code :: int
  ce_msg :: string

abbreviation NewClientErrorCode :: "int \<Rightarrow> string \<Rightarrow> client_error" where
  "NewClientErrorCode c m \<equiv> \<lparr>ce_code = c, ce_msg = m\<rparr>"

section \<open>Outcomes of Go calls\<close>

datatype ('e, 'a) go = Ret 'a | Err 'e | Panic

fun go_bind :: "('e, 'a) go \<Rightarrow> ('a \<Rightarrow> ('e, 'b) go) \<Rightarrow> ('e, 'b) go" where
  "go_bind (Ret a) f = f a"
| "go_bind (Err e) f = Err e"
| "go_bind Panic f = Panic"

text \<open>Change of error type, where a caller wraps the callee's error.\<close>

fun go_err :: "('e \<Rightarrow> 'f) \<Rightarrow> ('e, 'a) go \<Rightarrow> ('f, 'a) go" where
  "go_err w (Ret a) = Ret a"
| "go_err w (Err e) = Err (w e)"
| "go_err w Panic = Panic"

text \<open>Dereference of a possibly nil value: nil panics.\<close>

definition deref :: "'a option \<Rightarrow> ('e, 'a) go" where
  "deref x = (case x of None \<Rightarrow> Panic | Some a \<Rightarrow> Ret a)"

text \<open>Indexing a slice: out of range panics.\<close>

definition index :: "'a list \<Rightarrow> int \<Rightarrow> ('e, 'a) go" where
  "index xs i = (if 0 \<le> i \<and> i < int (length xs) then Ret (xs ! nat i) else Panic)"

text \<open>Assignment to a slice element: out of range panics.\<close>

definition assign :: "'a list \<Rightarrow> int \<Rightarrow> 'a \<Rightarrow> ('e, 'a list) go" where
  "assign xs i v = (if 0 \<le> i \<and> i < int (length xs) then Ret (xs[nat i := v]) else Panic)"

text \<open>A loop over a slice whose body may fail: the first failure ends it.\<close>

fun go_fold :: "('a \<Rightarrow> 'b \<Rightarrow> ('e, 'b) go) \<Rightarrow> 'a list \<Rightarrow> 'b \<Rightarrow> ('e, 'b) go" where
  "go_fold f [] b = Ret b"
| "go_fold f (x # xs) b = go_bind (f x b) (go_fold f xs)"

text \<open>A loop that appends one result per element.\<close>

fun go_map :: "('a \<Rightarrow> ('e, 'b) go) \<Rightarrow> 'a list \<Rightarrow> ('e, 'b list) go" where
  "go_map f [] = Ret []"
| "go_map f (x # xs) = go_bind (f x) (\<lambda>y. go_bind (go_map f xs) (\<lambda>ys. Ret (y # ys)))"

named_theorems go_simps \<open>rewriting of Go outcomes and slice accesses\<close>

lemma go_bind_eq_Ret: "go_bind m f = Ret b \<longleftrightarrow> (\<exists>a. m = Ret a \<and> f a = Ret b)"
  by (cases m) auto

lemma go_bind_eq_Err: "go_bind m f = Err e \<longleftrightarrow> m = Err e \<or> (\<exists>a. m = Ret a \<and> f a = Err e)"
  by (cases m) auto

lemma go_bind_eq_Panic: "go_bind m f = Panic \<longleftrightarrow> m = Panic \<or> (\<exists>a. m = Ret a \<and> f a = Panic)"
  by (cases m) auto

lemma go_err_eq_Ret [simp]: "go_err w m = Ret a \<longleftrightarrow> m = Ret a"
  by (cases m) auto

lemma go_err_eq_Err: "go_err w m = Err f \<longleftrightarrow> (\<exists>e. m = Err e \<and> f = w e)"
  by (cases m) auto

lemma go_bind_assoc: "go_bind (go_bind m f) g = go_bind m (\<lambda>a. go_bind (f a) g)"
  by (cases m) auto

lemma go_bind_Ret_right [simp]: "go_bind m Ret = m"
  by (cases m) auto

lemma go_bind_cong [fundef_cong]:
  "m = m' \<Longrightarrow> (\<And>a. m' = Ret a \<Longrightarrow> f a = g a) \<Longrightarrow> go_bind m f = go_bind m' g"
  by (cases m') auto

lemma deref_simps [simp]: "deref None = Panic" "deref (Some a) = Ret a"
  by (simp_all add: deref_def)

lemma deref_eq_Ret: "deref x = Ret a \<longleftrightarrow> x = Some a"
  by (cases x) auto

lemma index_Ret [simp]: "i < length xs \<Longrightarrow> index xs (int i) = Ret (xs ! i)"
  by (simp add: index_def)

lemma index_eq_Ret:
  "index xs i = Ret a \<longleftrightarrow> 0 \<le> i \<and> i < int (length xs) \<and> a = xs ! nat i"
  by (auto simp: index_def)

lemma assign_Ret [simp]: "i < length xs \<Longrightarrow> assign xs (int i) v = Ret (xs[i := v])"
  by (simp add: assign_def)

lemma assign_eq_Ret:
  "assign xs i v = Ret ys \<longleftrightarrow> 0 \<le> i \<and> i < int (length xs) \<and> ys = xs[nat i := v]"
  by (auto simp: assign_def)

lemmas go_eqs = go_bind_eq_Ret go_bind_eq_Err go_bind_eq_Panic deref_eq_Ret index_eq_Ret
  assign_eq_Ret

declare go_eqs [go_simps]

lemma go_fold_cong [fundef_cong]:
  "xs = ys \<Longrightarrow> b = c \<Longrightarrow> (\<And>x b. x \<in> set ys \<Longrightarrow> f x b = g x b) \<Longrightarrow>
    go_fold f xs b = go_fold g ys c"
proof (induction ys arbitrary: xs b c)
  case Nil
  then show ?case by simp
next
  case (Cons y ys)
  then show ?case by (auto intro!: go_bind_cong)
qed

lemma go_map_cong [fundef_cong]:
  "xs = ys \<Longrightarrow> (\<And>x. x \<in> set ys \<Longrightarrow> f x = g x) \<Longrightarrow> go_map f xs = go_map g ys"
  by (induction ys arbitrary: xs) auto

lemma go_fold_append: "go_fold f (xs @ ys) b = go_bind (go_fold f xs b) (go_fold f ys)"
  by (induction xs arbitrary: b) (auto simp: go_bind_assoc intro!: go_bind_cong)

lemma go_fold_inv:
  assumes "go_fold f xs b = Ret c" and "P b"
    and "\<And>x b c. x \<in> set xs \<Longrightarrow> P b \<Longrightarrow> f x b = Ret c \<Longrightarrow> P c"
  shows "P c"
  using assms
proof (induction xs arbitrary: b)
  case Nil
  then show ?case by simp
next
  case (Cons x xs)
  then show ?case by (auto simp: go_bind_eq_Ret)
qed

lemma go_map_eq_Ret:
  "go_map f xs = Ret ys \<longleftrightarrow> list_all2 (\<lambda>x y. f x = Ret y) xs ys"
proof (induction xs arbitrary: ys)
  case Nil
  then show ?case by auto
next
  case (Cons x xs)
  then show ?case by (cases ys) (auto simp: go_bind_eq_Ret)
qed

lemma go_map_map: "(\<And>x. x \<in> set xs \<Longrightarrow> f x = Ret (g x)) \<Longrightarrow> go_map f xs = Ret (map g xs)"
  by (induction xs) auto

lemma go_map_length: "go_map f xs = Ret ys \<Longrightarrow> length ys = length xs"
  by (auto simp: go_map_eq_Ret list_all2_lengthD)

lemma go_map_append: "go_map f (xs @ ys) =
    go_bind (go_map f xs) (\<lambda>as. go_bind (go_map f ys) (\<lambda>bs. Ret (as @ bs)))"
  by (induction xs) (auto simp: go_bind_assoc)

lemma go_map_Err_if:
  "x \<in> set xs \<Longrightarrow> f x = Err e \<Longrightarrow> (\<And>y. y \<in> set xs \<Longrightarrow> f y \<noteq> Panic) \<Longrightarrow>
    \<exists>e'. go_map f xs = Err e'"
proof (induction xs)
  case Nil
  then show ?case by simp
next
  case (Cons y ys)
  show ?case
  proof (cases "f y")
    case (Ret a)
    with Cons.prems have "x \<in> set ys" by auto
    with Cons have "\<exists>e'. go_map f ys = Err e'" by auto
    with Ret show ?thesis by auto
  next
    case (Err e')
    then show ?thesis by simp
  next
    case Panic
    with Cons.prems(3) show ?thesis by auto
  qed
qed

section \<open>Lists\<close>

text \<open>First element of a list for which a lookup answers: a Go range loop with an early return.\<close>

fun find_map :: "('a \<Rightarrow> 'b option) \<Rightarrow> 'a list \<Rightarrow> 'b option" where
  "find_map f [] = None"
| "find_map f (x # xs) = (case f x of Some y \<Rightarrow> Some y | None \<Rightarrow> find_map f xs)"

lemma find_map_None: "find_map f xs = None \<longleftrightarrow> (\<forall>x \<in> set xs. f x = None)"
  by (induction xs) (auto split: option.splits)

lemma find_map_Some: "find_map f xs = Some y \<Longrightarrow> \<exists>x \<in> set xs. f x = Some y"
  by (induction xs) (auto split: option.splits)

lemma find_map_unique:
  assumes "x \<in> set xs" and "f x = Some y" and "\<And>z w. z \<in> set xs \<Longrightarrow> f z = Some w \<Longrightarrow> w = y"
  shows "find_map f xs = Some y"
proof (cases "find_map f xs")
  case None
  with assms(1,2) show ?thesis by (auto simp: find_map_None)
next
  case (Some w)
  then obtain z where "z \<in> set xs" "f z = Some w" by (auto dest: find_map_Some)
  with assms(3) Some show ?thesis by auto
qed

lemma map_nth_upt: "map (\<lambda>i. xs ! i) [0..<length xs] = xs"
  by (rule map_nth)

lemma nth_list_update_fold_same:
  "distinct is \<Longrightarrow> set is \<subseteq> {..<length xs} \<Longrightarrow> j < length xs \<Longrightarrow>
    fold (\<lambda>i ys. ys[i := f i]) is xs ! j = (if j \<in> set is then f j else xs ! j)"
proof (induction "is" arbitrary: xs)
  case Nil
  then show ?case by simp
next
  case (Cons i "is")
  then show ?case by (auto simp: nth_list_update)
qed

section \<open>Actions on a state\<close>

text \<open>
  A Go call that reads and changes the state of its receiver: the outcome and the
  state it leaves, which is also there after an error.
\<close>

type_synonym ('st, 'e, 'a) act = "'st \<Rightarrow> ('e, 'a) go \<times> 'st"

definition act_bind :: "('st, 'e, 'a) act \<Rightarrow> ('a \<Rightarrow> ('st, 'e, 'b) act) \<Rightarrow> ('st, 'e, 'b) act" where
  "act_bind m f st =
    (case m st of (Ret a, st') \<Rightarrow> f a st' | (Err e, st') \<Rightarrow> (Err e, st') | (Panic, st') \<Rightarrow> (Panic, st'))"

definition act_ret :: "'a \<Rightarrow> ('st, 'e, 'a) act" where
  "act_ret a st = (Ret a, st)"

definition act_go :: "('e, 'a) go \<Rightarrow> ('st, 'e, 'a) act" where
  "act_go m st = (m, st)"

text \<open>A loop over a slice whose body acts on the state.\<close>

fun act_iter :: "('a \<Rightarrow> ('st, 'e, unit) act) \<Rightarrow> 'a list \<Rightarrow> ('st, 'e, unit) act" where
  "act_iter f [] = act_ret ()"
| "act_iter f (x # xs) = act_bind (f x) (\<lambda>_. act_iter f xs)"

lemma act_simps [simp]:
  "act_bind (act_ret a) f = f a"
  "act_ret a st = (Ret a, st)" "act_go m st = (m, st)"
  by (auto simp: act_bind_def act_ret_def act_go_def)

lemma act_bind_simps:
  "m st = (Ret a, st') \<Longrightarrow> act_bind m f st = f a st'"
  "m st = (Err e, st') \<Longrightarrow> act_bind m f st = (Err e, st')"
  "m st = (Panic, st') \<Longrightarrow> act_bind m f st = (Panic, st')"
  by (auto simp: act_bind_def)

lemma act_bind_eq_Ret:
  "act_bind m f st = (Ret b, st') \<longleftrightarrow> (\<exists>a st1. m st = (Ret a, st1) \<and> f a st1 = (Ret b, st'))"
  by (auto simp: act_bind_def split: prod.splits go.splits)

text \<open>A relation between the states before and after that every action of a loop keeps.\<close>

lemma act_bind_rel:
  assumes "act_bind m f st = (r, st')" and "\<And>x. R x x" and "\<And>x y z. R x y \<Longrightarrow> R y z \<Longrightarrow> R x z"
    and "\<And>r1 st1. m st = (r1, st1) \<Longrightarrow> R st st1" and "\<And>a st1 r2 st2. f a st1 = (r2, st2) \<Longrightarrow> R st1 st2"
  shows "R st st'"
proof -
  obtain r1 st1 where m: "m st = (r1, st1)" by force
  show ?thesis
  proof (cases r1)
    case (Ret a)
    then have "f a st1 = (r, st')" using m assms(1) by (simp add: act_bind_def)
    then show ?thesis using assms(3) assms(4) [OF m] assms(5) by blast
  qed (use m assms(1) assms(4) [OF m] in \<open>auto simp: act_bind_def\<close>)
qed

end
