(* ===== verification/Schnorr.thy ===== *)
theory Schnorr
  imports Sha256
begin

text \<open>
  The cryptographic suite as a parameter, and the two files that are written
  directly on top of it: \<open>imported/onet/crypto/schnorr.go\<close> and \<open>util.go\<close>.

  The suite (\<open>gopkg.in/dedis/crypto.v0\<close>, not part of this repository) is a
  record of functions. Scalars are elements of a commutative ring and points of
  an abelian group: \<open>+\<close>, \<open>-\<close> and \<open>0\<close> of the type classes are the methods
  \<open>Add\<close>, \<open>Sub\<close>, \<open>Neg\<close>, \<open>Null\<close> of \<open>abstract.Point\<close> and \<open>Add\<close>, \<open>Sub\<close>,
  \<open>Mul\<close>, \<open>Neg\<close> of \<open>abstract.Scalar\<close>. Randomness drawn from \<open>random.Stream\<close>
  is an argument of the function that draws it.
\<close>

section \<open>The suite\<close>

record ('p, 's) suite =
  su_Base :: 'p
  su_Mul :: "'s \<Rightarrow> 'p \<Rightarrow> 'p"
    \<comment> \<open>\<open>Point().Mul(P, s)\<close>; a nil \<open>P\<close> stands for the base point\<close>
  su_PointBytes :: "'p \<Rightarrow> (string, bytes) go"
    \<comment> \<open>\<open>MarshalBinary\<close>\<close>
  su_Challenge :: "bytes \<Rightarrow> bytes \<Rightarrow> 's"
    \<comment> \<open>a scalar picked from \<open>Cipher(key)\<close> after \<open>Message(nil, nil, msg)\<close>\<close>
  su_PickCipher :: "bytes \<Rightarrow> 'p"
    \<comment> \<open>\<open>Point().Pick(nil, Cipher(label))\<close>\<close>
  su_Pick :: "bytes \<Rightarrow> nat \<Rightarrow> 'p \<times> bytes"
    \<comment> \<open>\<open>Point().Pick(data, rand)\<close>: a point that embeds a prefix, and the rest\<close>
  su_PickLen :: "'p \<Rightarrow> int"
  su_Data :: "'p \<Rightarrow> (string, bytes) go"
    \<comment> \<open>\<open>Data()\<close>: the bytes embedded in a point\<close>
  su_Seal :: "bytes \<Rightarrow> bytes \<Rightarrow> bytes"
    \<comment> \<open>\<open>Cipher(key).Seal(nil, msg)\<close>\<close>
  su_Open :: "bytes \<Rightarrow> bytes \<Rightarrow> (string, bytes) go"
    \<comment> \<open>\<open>Cipher(key).Open(nil, ctext)\<close>\<close>

text \<open>
  Documented behaviour of the suite, as named hypotheses: scalar multiplication
  is an action of the scalars on the points (\<open>suite_laws\<close>), \<open>Data\<close> undoes
  \<open>Pick\<close> and \<open>Pick\<close> embeds at most \<open>PickLen\<close> bytes (\<open>embed_laws\<close>), and
  \<open>Open\<close> undoes \<open>Seal\<close> (\<open>cipher_laws\<close>).
\<close>

definition suite_laws :: "('p :: ab_group_add, 's :: comm_ring_1, 'm) suite_scheme \<Rightarrow> bool" where
  "suite_laws S \<longleftrightarrow>
    (\<forall>a b P. su_Mul S (a + b) P = su_Mul S a P + su_Mul S b P) \<and>
    (\<forall>a b P. su_Mul S (a * b) P = su_Mul S a (su_Mul S b P)) \<and>
    (\<forall>a P Q. su_Mul S a (P + Q) = su_Mul S a P + su_Mul S a Q)"

definition embed_laws :: "('p, 's, 'm) suite_scheme \<Rightarrow> bool" where
  "embed_laws S \<longleftrightarrow>
    (\<forall>d r p rest. d \<noteq> [] \<and> su_Pick S d r = (p, rest) \<longrightarrow>
       0 < su_PickLen S p \<and> rest = drop (nat (su_PickLen S p)) d \<and>
       su_Data S p = Ret (take (nat (su_PickLen S p)) d))"

definition cipher_laws :: "('p, 's, 'm) suite_scheme \<Rightarrow> bool" where
  "cipher_laws S \<longleftrightarrow> (\<forall>k m. su_Open S k (su_Seal S k m) = Ret m)"

lemma suite_lawsD:
  assumes "suite_laws S"
  shows "su_Mul S (a + b) P = su_Mul S a P + su_Mul S b P"
    and "su_Mul S (a * b) P = su_Mul S a (su_Mul S b P)"
    and "su_Mul S a (P + Q) = su_Mul S a P + su_Mul S a Q"
  using assms by (auto simp: suite_laws_def)

lemma su_Mul_zero: "suite_laws S \<Longrightarrow> su_Mul S a 0 = 0"
  using suite_lawsD(3) [of S a 0 0] by simp

lemma su_Mul_zero_left: "suite_laws S \<Longrightarrow> su_Mul S 0 P = 0"
  using suite_lawsD(1) [of S 0 0 P] by simp

lemma su_Mul_uminus:
  assumes "suite_laws S"
  shows "su_Mul S (- a) P = - su_Mul S a P"
proof -
  have "su_Mul S (- a) P + su_Mul S a P = 0"
    using suite_lawsD(1) [OF assms, of "- a" a P] su_Mul_zero_left [OF assms] by simp
  then show ?thesis by (simp add: eq_neg_iff_add_eq_0)
qed

lemma su_Mul_diff:
  assumes "suite_laws S"
  shows "su_Mul S (a - b) P = su_Mul S a P - su_Mul S b P"
  using suite_lawsD(1) [OF assms, of a "- b" P] su_Mul_uminus [OF assms] by simp

lemma su_Mul_commute:
  fixes S :: "('p :: ab_group_add, 's :: comm_ring_1, 'm) suite_scheme"
  assumes "suite_laws S"
  shows "su_Mul S a (su_Mul S b P) = su_Mul S b (su_Mul S a P)"
  using suite_lawsD(2) [OF assms, of a b P] suite_lawsD(2) [OF assms, of b a P]
  by (simp add: mult.commute)

lemmas su_Mul_simps = suite_lawsD su_Mul_zero su_Mul_zero_left su_Mul_uminus su_Mul_diff

section \<open>Schnorr signatures (imported/onet/crypto/schnorr.go)\<close>

record 's SchnorrSig =
  sig_Challenge :: 's
  sig_Response :: 's

text \<open>\<open>hash\<close>: the challenge derived from a commitment and a message.\<close>

definition schnorr_hash :: "('p, 's, 'm) suite_scheme \<Rightarrow> 'p \<Rightarrow> bytes \<Rightarrow> (string, 's) go" where
  "schnorr_hash S r msg = go_bind (su_PointBytes S r) (\<lambda>rBuf. Ret (su_Challenge S rBuf msg))"

text \<open>\<open>SignSchnorr\<close>; the nonce \<open>k\<close> is the scalar picked from \<open>random.Stream\<close>.\<close>

definition SignSchnorr ::
  "('p, 's :: comm_ring_1, 'm) suite_scheme \<Rightarrow> 's \<Rightarrow> 's \<Rightarrow> bytes \<Rightarrow> (string, 's SchnorrSig) go" where
  "SignSchnorr S k private msg =
    (let r = su_Mul S k (su_Base S) in
     go_bind (schnorr_hash S r msg) (\<lambda>e.
       let xe = private * e; s = k - xe in
       Ret \<lparr>sig_Challenge = e, sig_Response = s\<rparr>))"

definition VerifySchnorr ::
  "('p :: ab_group_add, 's :: comm_ring_1, 'm) suite_scheme \<Rightarrow> 'p \<Rightarrow> bytes \<Rightarrow> 's SchnorrSig \<Rightarrow>
    (string, unit) go" where
  "VerifySchnorr S public msg sg =
    (let gs = su_Mul S (sig_Response sg) (su_Base S);
         ye = su_Mul S (sig_Challenge sg) public;
         rv = gs + ye in
     go_bind (schnorr_hash S rv msg) (\<lambda>e.
       if e \<noteq> sig_Challenge sg
       then Err ''Signature not valid: Reconstructed challenge isn't equal to challenge in signature''
       else Ret ()))"

text \<open>\<open>SchnorrSig.MarshalBinary\<close>; the scalar encoding is the suite's.\<close>

definition SchnorrSig_MarshalBinary ::
  "('s \<Rightarrow> (string, bytes) go) \<Rightarrow> 's SchnorrSig \<Rightarrow> (string, bytes) go" where
  "SchnorrSig_MarshalBinary scalarBytes ss =
    go_bind (scalarBytes (sig_Challenge ss)) (\<lambda>cbuf.
      go_bind (scalarBytes (sig_Response ss)) (\<lambda>rbuf. Ret (cbuf @ rbuf)))"

section \<open>Helpers of the ots package (util.go)\<close>

definition CreatePointH :: "('p, 's, 'm) suite_scheme \<Rightarrow> 'p \<Rightarrow> (string, 'p) go" where
  "CreatePointH S pubKey =
    go_bind (su_PointBytes S pubKey) (\<lambda>binPubKey.
      let labelHash = Sum256 binPubKey in Ret (su_PickCipher S labelHash))"

definition SignMessage ::
  "('p, 's :: comm_ring_1, 'm) suite_scheme \<Rightarrow> 's \<Rightarrow> bytes \<Rightarrow> 's \<Rightarrow> (string, 's SchnorrSig) go" where
  "SignMessage S k msg privKey = (let msgHash = Sum256 msg in SignSchnorr S k privKey msgHash)"

text \<open>The public key of a private key, \<open>Point().Mul(nil, x)\<close>.\<close>

definition public_of :: "('p, 's, 'm) suite_scheme \<Rightarrow> 's \<Rightarrow> 'p" where
  "public_of S x = su_Mul S x (su_Base S)"

section \<open>The contract of a signature scheme\<close>

text \<open>
  What the clients of \<open>schnorr.go\<close> rely on: a signature made with a private key
  verifies under its public key, and signing fails only when the commitment
  cannot be marshalled.
\<close>

locale signature_scheme =
  fixes pub :: "'su \<Rightarrow> 's \<Rightarrow> 'p"
    and sign :: "'su \<Rightarrow> 's \<Rightarrow> 's \<Rightarrow> bytes \<Rightarrow> (string, 'sg) go"
    and verify :: "'su \<Rightarrow> 'p \<Rightarrow> bytes \<Rightarrow> 'sg \<Rightarrow> (string, unit) go"
    and laws :: "'su \<Rightarrow> bool"
    and marshals :: "'su \<Rightarrow> bool"
  assumes sign_verifies: "laws S \<Longrightarrow> sign S k x msg = Ret sg \<Longrightarrow> verify S (pub S x) msg sg = Ret ()"
    and sign_total: "marshals S \<Longrightarrow> \<exists>sg. sign S k x msg = Ret sg"
begin

text \<open>A range loop over a list of keys that stops at the first key that verifies.\<close>

lemma sign_verifies_in_list:
  assumes "laws S" and "sign S k x msg = Ret sg" and "pub S x \<in> set pks"
  shows "\<exists>pk \<in> set pks. verify S pk msg sg = Ret ()"
  using assms sign_verifies by blast

lemma signed_verifies:
  assumes "laws S" and "marshals S"
  obtains sg where "sign S k x msg = Ret sg" and "verify S (pub S x) msg sg = Ret ()"
  using assms sign_total sign_verifies by blast

end

text \<open>The suite marshals every point.\<close>

definition point_marshals :: "('p, 's, 'm) suite_scheme \<Rightarrow> bool" where
  "point_marshals S \<longleftrightarrow> (\<forall>P. \<exists>b. su_PointBytes S P = Ret b)"

lemma commitment_recovered:
  assumes "suite_laws S"
  shows "su_Mul S (k - x * e) (su_Base S) + su_Mul S e (public_of S x) = su_Mul S k (su_Base S)"
  by (simp add: public_of_def su_Mul_simps [OF assms] su_Mul_commute [OF assms, of e x])

lemma SignSchnorr_Ret:
  "SignSchnorr S k x msg = Ret sg \<longleftrightarrow>
    (\<exists>e. schnorr_hash S (su_Mul S k (su_Base S)) msg = Ret e \<and>
      sg = \<lparr>sig_Challenge = e, sig_Response = k - x * e\<rparr>)"
  by (auto simp: SignSchnorr_def Let_def go_bind_eq_Ret)

lemma schnorr_sign_verifies:
  assumes "suite_laws S" and "SignSchnorr S k x msg = Ret sg"
  shows "VerifySchnorr S (public_of S x) msg sg = Ret ()"
  using assms by (auto simp: SignSchnorr_Ret VerifySchnorr_def Let_def commitment_recovered)

lemma schnorr_sign_total:
  assumes "point_marshals S"
  shows "\<exists>sg. SignSchnorr S k x msg = Ret sg"
  using assms by (auto simp: SignSchnorr_Ret schnorr_hash_def go_bind_eq_Ret point_marshals_def)

interpretation schnorr: signature_scheme public_of SignSchnorr VerifySchnorr suite_laws point_marshals
  by unfold_locales (auto intro: schnorr_sign_verifies schnorr_sign_total)

lemma CreatePointH_Ret: "point_marshals S \<Longrightarrow> \<exists>h. CreatePointH S pk = Ret h"
  by (auto simp: CreatePointH_def Let_def go_bind_eq_Ret point_marshals_def)

section \<open>A concrete suite\<close>

text \<open>
  A suite over the integers that satisfies every law: scalars and points are
  integers, the base point is 1 and scalar multiplication is multiplication. A
  point embeds one byte. It shows that the hypotheses can be met together.
\<close>

definition int_suite :: "(int, int) suite" where
  "int_suite =
    \<lparr>su_Base = 1,
     su_Mul = (*),
     su_PointBytes = (\<lambda>P. Ret [word_of_int P]),
     su_Challenge = (\<lambda>k m. 7),
     su_PickCipher = (\<lambda>l. int (length l)),
     su_Pick = (\<lambda>d r. (case d of [] \<Rightarrow> (0, []) | b # bs \<Rightarrow> (uint b, bs))),
     su_PickLen = (\<lambda>P. 1),
     su_Data = (\<lambda>P. Ret [word_of_int P]),
     su_Seal = (\<lambda>k m. m),
     su_Open = (\<lambda>k c. Ret c)\<rparr>"

lemma int_suite_laws [simp]:
  "suite_laws int_suite" "embed_laws int_suite" "cipher_laws int_suite" "point_marshals int_suite"
  by (auto simp: suite_laws_def embed_laws_def cipher_laws_def point_marshals_def int_suite_def
      algebra_simps split: list.splits)

end
