(* ===== verification/Embedding.thy ===== *)
theory Embedding
  imports Schnorr
begin

text \<open>
  The contract of the point embedding loops. Both \<open>EncodeKey\<close>
  (\<open>protocol/onchain.go\<close>) and \<open>elGamalEncrypt\<close> (\<open>otssmc/protocol.go\<close>) cut a
  byte string into pieces, embed each piece in a point and hide the point under
  a mask that the reader can compute. The readers subtract the mask and collect
  the embedded bytes, either stopping at the first error (\<open>DecodeKey\<close>) or
  ignoring errors (\<open>ElGamalDecrypt\<close>).
\<close>

text \<open>The embedded bytes of a point, an error read as no bytes.\<close>

definition data_or_nil :: "('p, 's, 'm) suite_scheme \<Rightarrow> 'p \<Rightarrow> bytes" where
  "data_or_nil S P = (case su_Data S P of Ret b \<Rightarrow> b | _ \<Rightarrow> [])"

locale masked_embedding =
  fixes mask :: "('p :: ab_group_add, 's :: comm_ring_1) suite \<Rightarrow> 'k \<Rightarrow> 'p"
    and enc :: "('p, 's) suite \<Rightarrow> (nat \<Rightarrow> nat) \<Rightarrow> 'k \<Rightarrow> bytes \<Rightarrow> 'p list option"
  assumes enc_total: "embed_laws S \<Longrightarrow> \<exists>Cs. enc S rnd k msg = Some Cs"
    and enc_pieces: "embed_laws S \<Longrightarrow> enc S rnd k msg = Some Cs \<Longrightarrow>
      \<exists>pieces. concat pieces = msg \<and>
        list_all2 (\<lambda>C piece. su_Data S (C - mask S k) = Ret piece) Cs pieces"
begin

lemma strict_decode:
  assumes "embed_laws S" and "enc S rnd k msg = Some Cs"
  obtains pieces where "go_map (\<lambda>C. su_Data S (C - mask S k)) Cs = Ret pieces"
    and "concat pieces = msg"
  using enc_pieces [OF assms] by (auto simp: go_map_eq_Ret)

lemma lenient_decode:
  assumes "embed_laws S" and "enc S rnd k msg = Some Cs"
  shows "concat (map (\<lambda>C. data_or_nil S (C - mask S k)) Cs) = msg"
proof -
  obtain pieces where p: "concat pieces = msg"
    and l: "list_all2 (\<lambda>C piece. su_Data S (C - mask S k) = Ret piece) Cs pieces"
    using enc_pieces [OF assms] by auto
  from l have "map (\<lambda>C. data_or_nil S (C - mask S k)) Cs = pieces"
    by (induction rule: list_all2_induct) (auto simp: data_or_nil_def)
  with p show ?thesis by simp
qed

end

lemma embed_lawsD:
  assumes "embed_laws S" and "d \<noteq> []" and "su_Pick S d r = (p, rest)"
  shows "0 < su_PickLen S p" and "rest = drop (nat (su_PickLen S p)) d"
    and "su_Data S p = Ret (take (nat (su_PickLen S p)) d)"
  using assms unfolding embed_laws_def by blast+

end
