(* ===== verification/Onchain.thy ===== *)
theory Onchain
  imports Embedding
begin

text \<open>
  \<open>protocol/onchain.go\<close> (encoding of a symmetric key under the collective key,
  and its recovery) and \<open>protocol/ocs.go\<close> with \<open>protocol/ocs_struct.go\<close> (the
  re-encryption protocol of the nodes that share the collective key).
\<close>

section \<open>EncodeKey and DecodeKey\<close>

text \<open>
  The loop of \<open>EncodeKey\<close>: \<open>i\<close> counts the draws from \<open>random.Stream\<close>. It
  ends only if \<open>Pick\<close> consumes data, so it is a partial function.
\<close>

partial_function (option) EncodeKey_loop ::
  "('p :: ab_group_add, 's) suite \<Rightarrow> (nat \<Rightarrow> nat) \<Rightarrow> 'p \<Rightarrow> 's \<Rightarrow> nat \<Rightarrow> bytes \<Rightarrow> 'p list \<Rightarrow>
    'p list option" where
  "EncodeKey_loop S rnd X r i rem Cs =
    (if rem = [] then Some Cs
     else (case su_Pick S rem (rnd i) of (kp, rem') \<Rightarrow>
       let C = su_Mul S r X in EncodeKey_loop S rnd X r (Suc i) rem' (Cs @ [C + kp])))"

definition EncodeKey ::
  "('p :: ab_group_add, 's) suite \<Rightarrow> 's \<Rightarrow> (nat \<Rightarrow> nat) \<Rightarrow> 'p \<Rightarrow> bytes \<Rightarrow> ('p \<times> 'p list) option" where
  "EncodeKey S r rnd X key =
    (let U = su_Mul S r (su_Base S) in
     map_option (\<lambda>Cs. (U, Cs)) (EncodeKey_loop S rnd X r 0 key []))"

definition DecodeKey ::
  "('p :: ab_group_add, 's :: comm_ring_1) suite \<Rightarrow> 'p \<Rightarrow> 'p list \<Rightarrow> 'p \<Rightarrow> 's \<Rightarrow> (string, bytes) go" where
  "DecodeKey S X Cs XhatEnc xc =
    (let xcInv = - xc;
         XhatDec = su_Mul S xcInv X;
         Xhat = XhatEnc + XhatDec;
         XhatInv = - Xhat in
     go_bind (go_map (\<lambda>C. su_Data S (C + XhatInv)) Cs) (\<lambda>parts. Ret (concat parts)))"

lemma EncodeKey_loop_pieces:
  assumes "embed_laws S"
  shows "\<exists>Cs' pieces. EncodeKey_loop S rnd X r i rem Cs = Some (Cs @ Cs') \<and> concat pieces = rem \<and>
    list_all2 (\<lambda>C piece. su_Data S (C - su_Mul S r X) = Ret piece) Cs' pieces"
proof (induction "length rem" arbitrary: i rem Cs rule: less_induct)
  case less
  show ?case
  proof (cases "rem = []")
    case True
    then show ?thesis
      by (intro exI [of _ "[]"]) (simp add: EncodeKey_loop.simps)
  next
    case False
    obtain kp rem' where pick: "su_Pick S rem (rnd i) = (kp, rem')" by force
    note d = embed_lawsD [OF assms False pick]
    have "length rem' < length rem"
      using d(1,2) False by simp
    from less [OF this, of "Suc i" "Cs @ [su_Mul S r X + kp]"] obtain Cs' pieces
      where IH: "EncodeKey_loop S rnd X r (Suc i) rem' (Cs @ [su_Mul S r X + kp])
          = Some (Cs @ [su_Mul S r X + kp] @ Cs')"
        "concat pieces = rem'"
        "list_all2 (\<lambda>C piece. su_Data S (C - su_Mul S r X) = Ret piece) Cs' pieces"
      by auto
    have step: "EncodeKey_loop S rnd X r i rem Cs = Some (Cs @ (su_Mul S r X + kp) # Cs')"
      using False pick IH(1) by (simp add: EncodeKey_loop.simps [of S rnd X r i rem Cs] Let_def)
    have "concat (take (nat (su_PickLen S kp)) rem # pieces) = rem"
      using IH(2) d(2) by simp
    moreover have "list_all2 (\<lambda>C piece. su_Data S (C - su_Mul S r X) = Ret piece)
        ((su_Mul S r X + kp) # Cs') (take (nat (su_PickLen S kp)) rem # pieces)"
      using IH(3) d(3) by simp
    ultimately show ?thesis using step by blast
  qed
qed

interpretation encode_key: masked_embedding "\<lambda>S k. su_Mul S (snd k) (fst k)"
  "\<lambda>S rnd k msg. EncodeKey_loop S rnd (fst k) (snd k) 0 msg []"
proof unfold_locales
  fix S :: "('p :: ab_group_add, 's :: comm_ring_1) suite" and rnd and k :: "'p \<times> 's" and msg
  assume S: "embed_laws S"
  note pieces = EncodeKey_loop_pieces [OF S, of rnd "fst k" "snd k" 0 msg "[]"]
  show "\<exists>Cs. EncodeKey_loop S rnd (fst k) (snd k) 0 msg [] = Some Cs"
    using pieces by auto
  show "\<exists>pieces. concat pieces = msg \<and>
      list_all2 (\<lambda>C piece. su_Data S (C - su_Mul S (snd k) (fst k)) = Ret piece) Cs pieces"
    if "EncodeKey_loop S rnd (fst k) (snd k) 0 msg [] = Some Cs" for Cs
    using pieces that by auto
qed

text \<open>The mask that \<open>DecodeKey\<close> computes from the re-encrypted commitment.\<close>

lemma DecodeKey_mask:
  assumes "suite_laws S" and "X = su_Mul S x (su_Base S)"
    and "XhatEnc = su_Mul S x (su_Mul S r (su_Base S) + public_of S xc)"
  shows "XhatEnc + su_Mul S (- xc) X = su_Mul S r X"
proof -
  let ?B = "su_Base S"
  have "XhatEnc = su_Mul S r X + su_Mul S xc X"
    using assms(2,3) suite_lawsD(3) [OF assms(1)] su_Mul_commute [OF assms(1), of x r ?B]
      su_Mul_commute [OF assms(1), of x xc ?B]
    by (simp add: public_of_def)
  then show ?thesis by (simp add: su_Mul_uminus [OF assms(1)])
qed

lemma DecodeKey_EncodeKey:
  assumes "suite_laws S" and "embed_laws S"
    and "X = su_Mul S x (su_Base S)"
    and enc: "EncodeKey S r rnd X key = Some (U, Cs)"
    and "XhatEnc = su_Mul S x (U + public_of S xc)"
  shows "DecodeKey S X Cs XhatEnc xc = Ret key"
proof -
  have U: "U = su_Mul S r (su_Base S)" and loop: "EncodeKey_loop S rnd X r 0 key [] = Some Cs"
    using enc by (auto simp: EncodeKey_def Let_def)
  have mask: "XhatEnc + su_Mul S (- xc) X = su_Mul S r X"
    using DecodeKey_mask [OF assms(1,3)] assms(5) U by blast
  obtain pieces where "go_map (\<lambda>C. su_Data S (C - su_Mul S r X)) Cs = Ret pieces" "concat pieces = key"
    using encode_key.strict_decode [OF assms(2), of rnd "(X, r)" key Cs] loop by auto
  then show ?thesis
    using mask by (simp add: DecodeKey_def Let_def)
qed

section \<open>Messages and state of the OCS protocol\<close>

text \<open>\<open>share.PubShare\<close>: the index of a share and its value.\<close>

record 'p PubShare =
  ps_I :: int
  ps_V :: 'p

text \<open>\<open>protocol.SharedSecret\<close> (\<open>dkg_struct.go\<close>).\<close>

record ('p, 's) SharedSecret =
  ss_Index :: int
  ss_V :: 's
  ss_X :: 'p

record 'p Reencrypt =
  re_U :: 'p
  re_Xc :: 'p

record 'p ReencryptReply =
  rr_Ui :: "'p PubShare"

text \<open>
  \<open>OCS\<close>: the embedded tree node is represented by \<open>ocs_List\<close>, the number of
  nodes of \<open>List()\<close>; nil pointers are \<open>None\<close>.
\<close>

record ('p, 's) OCS =
  ocs_Shared :: "('p, 's) SharedSecret option"
  ocs_U :: "'p option"
  ocs_Xc :: 'p
  ocs_Done :: bool
  ocs_Uis :: "'p PubShare option list"
  ocs_List :: nat

definition NewOCS :: "nat \<Rightarrow> 'p \<Rightarrow> ('p, 's) OCS" where
  "NewOCS n nilXc =
    \<lparr>ocs_Shared = None, ocs_U = None, ocs_Xc = nilXc, ocs_Done = False, ocs_Uis = [], ocs_List = n\<rparr>"

definition getUi ::
  "('p :: ab_group_add, 's) suite \<Rightarrow> ('p, 's) OCS \<Rightarrow> 'p \<Rightarrow> 'p \<Rightarrow> (string, 'p PubShare) go" where
  "getUi S oc U Xc =
    go_bind (deref (ocs_Shared oc)) (\<lambda>shared.
      let v = su_Mul S (ss_V shared) U; v' = v + su_Mul S (ss_V shared) Xc in
      Ret \<lparr>ps_I = ss_Index shared, ps_V = v'\<rparr>)"

text \<open>\<open>Start\<close> returns the message that is broadcast to all other nodes.\<close>

definition OCS_Start :: "('p, 's) OCS \<Rightarrow> (string, 'p Reencrypt) go" where
  "OCS_Start oc =
    (case ocs_Shared oc of
       None \<Rightarrow> Err ''please initialize Shared first''
     | Some _ \<Rightarrow>
       (case ocs_U oc of
          None \<Rightarrow> Err ''please initialize U first''
        | Some U \<Rightarrow> Ret \<lparr>re_U = U, re_Xc = ocs_Xc oc\<rparr>))"

text \<open>\<open>reencrypt\<close>: the reply of a child to its parent; no reply if the share fails.\<close>

definition reencrypt ::
  "('p :: ab_group_add, 's) suite \<Rightarrow> ('p, 's) OCS \<Rightarrow> 'p Reencrypt \<Rightarrow>
    (string, 'p ReencryptReply option) go" where
  "reencrypt S oc r =
    (case getUi S oc (re_U r) (re_Xc r) of
       Ret ui \<Rightarrow> Ret (Some \<lparr>rr_Ui = ui\<rparr>)
     | Err _ \<Rightarrow> Ret None
     | Panic \<Rightarrow> Panic)"

text \<open>
  \<open>reencryptReply\<close>: the root collects the replies of all its children. The own
  share is stored at position 0, every other one at its index.
\<close>

definition reencryptReply ::
  "('p :: ab_group_add, 's) suite \<Rightarrow> ('p, 's) OCS \<Rightarrow> 'p ReencryptReply list \<Rightarrow>
    (string, ('p, 's) OCS) go" where
  "reencryptReply S oc rr =
    (let Uis = replicate (ocs_List oc) None in
     go_bind (deref (ocs_U oc)) (\<lambda>U.
     go_bind (getUi S oc U (ocs_Xc oc)) (\<lambda>own.
     go_bind (assign Uis 0 (Some own)) (\<lambda>Uis0.
     go_bind (go_fold (\<lambda>r us. assign us (ps_I (rr_Ui r)) (Some (rr_Ui r))) rr Uis0) (\<lambda>Uis'.
     Ret (oc\<lparr>ocs_Uis := Uis', ocs_Done := True\<rparr>))))))"

section \<open>The shares the root collects\<close>

text \<open>The share of node \<open>i\<close> for a re-encryption of \<open>U\<close> to \<open>Xc\<close>, with secret shares \<open>vs\<close>.\<close>

definition reenc_share ::
  "('p :: ab_group_add, 's) suite \<Rightarrow> 's list \<Rightarrow> 'p \<Rightarrow> 'p \<Rightarrow> nat \<Rightarrow> 'p PubShare" where
  "reenc_share S vs U Xc i = \<lparr>ps_I = int i, ps_V = su_Mul S (vs ! i) (U + Xc)\<rparr>"

text \<open>Slot \<open>i\<close> holds the share of node \<open>i\<close> or nothing.\<close>

definition slots_ok :: "(nat \<Rightarrow> 'a) \<Rightarrow> 'a option list \<Rightarrow> bool" where
  "slots_ok f us \<longleftrightarrow> (\<forall>i < length us. \<forall>s. us ! i = Some s \<longrightarrow> s = f i)"

lemma fold_assign_shares:
  fixes S :: "('p :: ab_group_add, 's) suite"
  assumes "set is \<subseteq> {..<length us}"
  shows "\<exists>us'. go_fold (\<lambda>r us. assign us (ps_I (rr_Ui r)) (Some (rr_Ui r)))
      (map (\<lambda>i. \<lparr>rr_Ui = reenc_share S vs U Xc i\<rparr>) is) us = (Ret us' :: (string, 'p PubShare option list) go) \<and> length us' = length us \<and>
    (\<forall>j < length us. us' ! j = (if j \<in> set is then Some (reenc_share S vs U Xc j) else us ! j))"
  using assms
proof (induction "is" arbitrary: us)
  case Nil
  then show ?case by simp
next
  case (Cons i "is")
  let ?us = "us[i := Some (reenc_share S vs U Xc i)]"
  have "set is \<subseteq> {..<length ?us}" using Cons.prems by simp
  from Cons.IH [OF this] obtain us' where
    "go_fold (\<lambda>r us. assign us (ps_I (rr_Ui r)) (Some (rr_Ui r)))
      (map (\<lambda>i. \<lparr>rr_Ui = reenc_share S vs U Xc i\<rparr>) is) ?us = (Ret us' :: (string, 'p PubShare option list) go)"
    "length us' = length us"
    "\<forall>j < length us. us' ! j = (if j \<in> set is then Some (reenc_share S vs U Xc j) else ?us ! j)"
    unfolding length_list_update by blast
  moreover have "assign us (int i) (Some (reenc_share S vs U Xc i)) = Ret ?us"
    using Cons.prems by simp
  ultimately show ?case
    using Cons.prems by (auto simp: reenc_share_def nth_list_update)
qed

text \<open>
  The root with index \<open>j\<close> puts its own share in slot 0, where the reply of node 0
  overwrites it unless \<open>j = 0\<close>: at most the slot \<open>j\<close> stays empty, whatever the
  order of the replies.
\<close>

lemma reencryptReply_slots:
  fixes S :: "('p :: ab_group_add, 's :: comm_ring_1) suite"
  assumes root: "ocs_Shared oc = Some \<lparr>ss_Index = int j, ss_V = vs ! j, ss_X = X\<rparr>"
    and U: "ocs_U oc = Some U" and j: "j < ocs_List oc"
    and others: "set is = {..<ocs_List oc} - {j}" and S: "suite_laws S"
  shows "\<exists>oc'. reencryptReply S oc
      (map (\<lambda>i. \<lparr>rr_Ui = reenc_share S vs U (ocs_Xc oc) i\<rparr>) is) = Ret oc' \<and>
    ocs_Done oc' \<and> length (ocs_Uis oc') = ocs_List oc \<and>
    (\<forall>i < ocs_List oc. ocs_Uis oc' ! i =
      (if i = j \<and> j \<noteq> 0 then None else Some (reenc_share S vs U (ocs_Xc oc) i)))"
proof -
  let ?n = "ocs_List oc"
  let ?own = "reenc_share S vs U (ocs_Xc oc) j"
  have own: "getUi S oc U (ocs_Xc oc) = Ret ?own"
    using root by (simp add: getUi_def reenc_share_def Let_def suite_lawsD(3) [OF S])
  let ?us0 = "(replicate ?n None)[0 := Some ?own]"
  have us0: "assign (replicate ?n None) 0 (Some ?own) = (Ret ?us0 :: (string, 'p PubShare option list) go)"
    using j by (simp add: assign_def)
  have "set is \<subseteq> {..<length ?us0}" using others by auto
  from fold_assign_shares [OF this, of S vs U "ocs_Xc oc"] obtain us' where us':
    "go_fold (\<lambda>r us. assign us (ps_I (rr_Ui r)) (Some (rr_Ui r)))
      (map (\<lambda>i. \<lparr>rr_Ui = reenc_share S vs U (ocs_Xc oc) i\<rparr>) is) ?us0 = (Ret us' :: (string, 'p PubShare option list) go)"
    "length us' = ?n"
    "\<forall>i < ?n. us' ! i = (if i \<in> set is then Some (reenc_share S vs U (ocs_Xc oc) i) else ?us0 ! i)"
    unfolding length_list_update length_replicate by blast
  have "\<forall>i < ?n. us' ! i =
      (if i = j \<and> j \<noteq> 0 then None else Some (reenc_share S vs U (ocs_Xc oc) i))"
    using us'(3) others j by (auto simp: nth_list_update)
  moreover have "reencryptReply S oc
      (map (\<lambda>i. \<lparr>rr_Ui = reenc_share S vs U (ocs_Xc oc) i\<rparr>) is) =
      Ret (oc\<lparr>ocs_Uis := us', ocs_Done := True\<rparr>)"
    using us'(1) own us0 U by (simp add: reencryptReply_def Let_def)
  ultimately show ?thesis
    using us'(2) by (intro exI [of _ "oc\<lparr>ocs_Uis := us', ocs_Done := True\<rparr>"]) simp
qed

section \<open>Recovery of the re-encrypted commitment\<close>

text \<open>
  A Shamir sharing: node \<open>i\<close> holds the value at \<open>i + 1\<close> of the polynomial with
  coefficients \<open>cs\<close>; the secret is the constant coefficient.
\<close>

fun poly_eval :: "'s :: comm_ring_1 list \<Rightarrow> 's \<Rightarrow> 's" where
  "poly_eval [] x = 0"
| "poly_eval (c # cs) x = c + x * poly_eval cs x"

definition sharing :: "'s :: comm_ring_1 list \<Rightarrow> nat \<Rightarrow> 's list" where
  "sharing cs n = map (\<lambda>i. poly_eval cs (of_nat (i + 1))) [0..<n]"

text \<open>
  \<open>share.RecoverCommit\<close> (not part of this repository): given at least \<open>t\<close> shares
  of a point \<open>P\<close> that lie on a polynomial with at most \<open>t\<close> coefficients, it
  returns \<open>P\<close> multiplied by the secret.
\<close>

definition recovers_commit ::
  "('p :: ab_group_add, 's :: comm_ring_1) suite \<Rightarrow>
    ('p PubShare option list \<Rightarrow> int \<Rightarrow> int \<Rightarrow> (string, 'p) go) \<Rightarrow> 's list \<Rightarrow> nat \<Rightarrow> bool" where
  "recovers_commit S rec cs n \<longleftrightarrow>
    (\<forall>P us t. length us = n \<and> length cs \<le> t \<and> t \<le> length (filter (\<lambda>u. u \<noteq> None) us) \<and>
       slots_ok (\<lambda>i. \<lparr>ps_I = int i, ps_V = su_Mul S (sharing cs n ! i) P\<rparr>) us \<longrightarrow>
       rec us (int t) (int n) = Ret (su_Mul S (hd cs) P))"

lemma length_filter_all_but_one:
  assumes "\<And>i. i < length us \<Longrightarrow> i \<noteq> j \<Longrightarrow> us ! i \<noteq> None"
  shows "length us - 1 \<le> length (filter (\<lambda>u. u \<noteq> None) us)"
proof -
  have "{i. i < length us \<and> us ! i = None} \<subseteq> {j}"
    using assms by (metis (mono_tags, lifting) mem_Collect_eq singletonI subsetI)
  then have "card {i. i < length us \<and> us ! i = None} \<le> card {j}"
    by (intro card_mono) auto
  then have "length (filter (\<lambda>u. u = None) us) \<le> 1"
    by (simp add: length_filter_conv_card)
  then show ?thesis
    using sum_length_filter_compl [of "\<lambda>u. u = None" us] by linarith
qed

lemma recovered_from_replies:
  assumes "recovers_commit S rec cs n" and "length us = n" and "0 < n" and "length cs \<le> n - 1"
    and "\<forall>i < n. us ! i = (if i = j \<and> j \<noteq> 0 then None
      else Some (reenc_share S (sharing cs n) U Xc i))"
  shows "rec us (int n - 1) (int n) = Ret (su_Mul S (hd cs) (U + Xc))"
proof -
  have "n - 1 \<le> length (filter (\<lambda>u. u \<noteq> None) us)"
    using length_filter_all_but_one [of us j] assms(2,5) by auto
  moreover have "slots_ok (\<lambda>i. \<lparr>ps_I = int i, ps_V = su_Mul S (sharing cs n ! i) (U + Xc)\<rparr>) us"
    using assms(2,5) by (auto simp: slots_ok_def reenc_share_def split: if_splits)
  ultimately have "rec us (int (n - 1)) (int n) = Ret (su_Mul S (hd cs) (U + Xc))"
    using assms(1,2,4) unfolding recovers_commit_def by blast
  then show ?thesis using assms(3) by (simp add: of_nat_diff)
qed

end
