(* ===== verification/Roster_Tree.thy ===== *)
theory Roster_Tree
  imports Schnorr "HOL-Library.Multiset"
begin

text \<open>
  Rosters and trees of \<open>imported/onet/tree.go\<close>, with \<open>ServerIdentity\<close> of
  \<open>imported/onet/network/struct.go\<close>. A \<open>TreeNode\<close> is a datatype of its fields;
  the parent link, which the code sets to the enclosing node, is the position in
  the enclosing tree and is passed where an operation reads it. UUIDs drawn by
  \<open>uuid.NewV4\<close> are arguments; \<open>uuid.NewV5\<close> (a package outside the repository)
  is a function parameter.
\<close>

type_synonym uuid = "128 word"

section \<open>Server identities and rosters\<close>

record 'p ServerIdentity =
  si_Public :: 'p
  si_ID :: uuid
  si_Address :: string
  si_Description :: string

definition NewServerIdentity ::
  "(string \<Rightarrow> uuid) \<Rightarrow> ('p \<Rightarrow> string) \<Rightarrow> 'p \<Rightarrow> string \<Rightarrow> 'p ServerIdentity" where
  "NewServerIdentity newV5 pointString public address =
    (let url = ''https://dedis.epfl.ch/'' @ ''id/'' @ pointString public in
     \<lparr>si_Public = public, si_ID = newV5 url, si_Address = address, si_Description = ''''\<rparr>)"

definition ServerIdentity_Equal :: "'p ServerIdentity \<Rightarrow> 'p ServerIdentity \<Rightarrow> bool" where
  "ServerIdentity_Equal si e2 \<longleftrightarrow> si_Public si = si_Public e2"

record 'p Roster =
  ro_ID :: uuid
  ro_List :: "'p ServerIdentity list"
  ro_Aggregate :: 'p

fun aggregate_loop :: "'p :: ab_group_add ServerIdentity list \<Rightarrow> 'p \<Rightarrow> 'p" where
  "aggregate_loop [] agg = agg"
| "aggregate_loop (e # ids) agg = aggregate_loop ids (agg + si_Public e)"

definition NewRoster :: "uuid \<Rightarrow> 'p :: ab_group_add ServerIdentity list \<Rightarrow> 'p Roster" where
  "NewRoster newV4 ids = \<lparr>ro_ID = newV4, ro_List = ids, ro_Aggregate = aggregate_loop ids 0\<rparr>"

text \<open>\<open>Roster.Search\<close>: the first entry with that id, or \<open>-1\<close> and nil.\<close>

fun Search_from :: "int \<Rightarrow> uuid \<Rightarrow> 'p ServerIdentity list \<Rightarrow> int \<times> 'p ServerIdentity option" where
  "Search_from i eID [] = (- 1, None)"
| "Search_from i eID (e # es) = (if si_ID e = eID then (i, Some e) else Search_from (i + 1) eID es)"

definition Roster_Search :: "'p Roster \<Rightarrow> uuid \<Rightarrow> int \<times> 'p ServerIdentity option" where
  "Roster_Search el eID = Search_from 0 eID (ro_List el)"

text \<open>\<open>Roster.Get\<close>: its guard lets \<open>idx = len(el.List)\<close> through, which then panics.\<close>

definition Roster_Get :: "'p Roster \<Rightarrow> int \<Rightarrow> (string, 'p ServerIdentity option) go" where
  "Roster_Get el idx =
    (if idx < 0 \<or> idx > int (length (ro_List el)) then Ret None
     else go_bind (index (ro_List el) idx) (\<lambda>e. Ret (Some e)))"

definition Publics :: "'p Roster \<Rightarrow> 'p list" where
  "Publics el = map si_Public (ro_List el)"

definition RandomServerIdentity :: "nat \<Rightarrow> 'p Roster \<Rightarrow> 'p ServerIdentity option" where
  "RandomServerIdentity r el =
    (if ro_List el = [] then None else Some (ro_List el ! (r mod length (ro_List el))))"

lemma Search_from_hit:
  assumes "i < length es" and "si_ID (es ! i) = eID" and "\<And>j. j < i \<Longrightarrow> si_ID (es ! j) \<noteq> eID"
  shows "Search_from b eID es = (b + int i, Some (es ! i))"
  using assms
proof (induction es arbitrary: b i)
  case Nil
  then show ?case by simp
next
  case (Cons e es)
  show ?case
  proof (cases i)
    case 0
    with Cons.prems show ?thesis by simp
  next
    case (Suc k)
    have "si_ID e \<noteq> eID" using Cons.prems(3) [of 0] Suc by simp
    moreover have "Search_from (b + 1) eID es = (b + 1 + int k, Some (es ! k))"
    proof (rule Cons.IH)
      show "k < length es" and "si_ID (es ! k) = eID" using Cons.prems Suc by auto
      show "si_ID (es ! j) \<noteq> eID" if "j < k" for j using Cons.prems(3) [of "Suc j"] Suc that by simp
    qed
    ultimately show ?thesis using Suc by simp
  qed
qed

lemma Search_from_miss: "eID \<notin> si_ID ` set es \<Longrightarrow> Search_from b eID es = (- 1, None)"
  by (induction es arbitrary: b) auto

lemma Search_from_distinct:
  assumes "distinct (map si_ID es)" and "i < length es"
  shows "Search_from b (si_ID (es ! i)) es = (b + int i, Some (es ! i))"
proof (rule Search_from_hit)
  show "si_ID (es ! j) \<noteq> si_ID (es ! i)" if "j < i" for j
    using assms that nth_eq_iff_index_eq [of "map si_ID es" j i] by auto
qed (use assms in auto)

lemma Roster_Search_distinct:
  "distinct (map si_ID (ro_List el)) \<Longrightarrow> i < length (ro_List el) \<Longrightarrow>
    Roster_Search el (si_ID (ro_List el ! i)) = (int i, Some (ro_List el ! i))"
  by (simp add: Roster_Search_def Search_from_distinct)

lemma aggregate_loop_sum: "aggregate_loop ids agg = agg + sum_list (map si_Public ids)"
  by (induction ids arbitrary: agg) (auto simp: algebra_simps)

section \<open>Tree nodes\<close>

text \<open>
  \<open>TreeNode\<close>: id, server identity (nil when a received tree names an unknown
  server), roster index, children, aggregate key of the subtree.
\<close>

datatype 'p TreeNode =
  TreeNode (tn_ID: uuid) (tn_SI: "'p ServerIdentity option") (tn_RosterIndex: int)
    (tn_Children: "'p TreeNode list") (tn_Aggregate: 'p)

definition NewTreeNode :: "uuid \<Rightarrow> int \<Rightarrow> 'p :: zero ServerIdentity \<Rightarrow> 'p TreeNode" where
  "NewTreeNode newV4 entityIdx ni = TreeNode newV4 (Some ni) entityIdx [] 0"

definition IsLeaf :: "'p TreeNode \<Rightarrow> bool" where
  "IsLeaf t \<longleftrightarrow> tn_Children t = []"

definition IsRoot :: "'p TreeNode option \<Rightarrow> bool" where
  "IsRoot parent \<longleftrightarrow> parent = None"

definition AddChild :: "'p TreeNode \<Rightarrow> 'p TreeNode \<Rightarrow> 'p TreeNode" where
  "AddChild t c = (case t of TreeNode i si x cs a \<Rightarrow> TreeNode i si x (cs @ [c]) a)"

text \<open>\<open>Visit\<close>: depth-first, the callback threads a state.\<close>

fun Visit :: "int \<Rightarrow> (int \<Rightarrow> 'p TreeNode \<Rightarrow> 'st \<Rightarrow> 'st) \<Rightarrow> 'p TreeNode \<Rightarrow> 'st \<Rightarrow> 'st" where
  "Visit firstDepth fn (TreeNode i si x cs a) st =
    fold (\<lambda>c. Visit (firstDepth + 1) fn c) cs (fn firstDepth (TreeNode i si x cs a) st)"

definition SubtreeCount :: "'p TreeNode \<Rightarrow> int" where
  "SubtreeCount t = Visit 0 (\<lambda>_ _ ret. ret + 1) t (- 1)"

definition AggregatePublic :: "'p :: ab_group_add TreeNode \<Rightarrow> (string, 'p) go" where
  "AggregatePublic t =
    Visit 0 (\<lambda>_ tn agg. go_bind agg (\<lambda>a. go_bind (deref (tn_SI tn)) (\<lambda>si. Ret (a + si_Public si))))
      t (Ret 0)"

function TreeNode_Equal :: "'p TreeNode \<Rightarrow> 'p TreeNode \<Rightarrow> (string, bool) go" where
  "TreeNode_Equal (TreeNode i si x cs a) t2 =
    (if i \<noteq> tn_ID t2 then Ret False
     else go_bind (deref si) (\<lambda>s. go_bind (deref (tn_SI t2)) (\<lambda>s2.
       if si_ID s \<noteq> si_ID s2 then Ret False
       else if length cs \<noteq> length (tn_Children t2) then Ret False
       else go_fold (\<lambda>(c, c2) b. if b then TreeNode_Equal c c2 else Ret False)
              (zip cs (tn_Children t2)) True)))"
  by pat_completeness auto
termination
  by (relation "measure (\<lambda>(t, t2). size t)")
    (auto dest!: set_zip_leftD intro: size_list_estimation simp: less_Suc_eq_le
      elim!: size_list_estimation' [THEN le_trans])

definition IsConnectedTo ::
  "'p TreeNode option \<Rightarrow> 'p TreeNode \<Rightarrow> 'p ServerIdentity \<Rightarrow> bool" where
  "IsConnectedTo parent t si \<longleftrightarrow>
    (case parent of Some q \<Rightarrow> (case tn_SI q of Some s \<Rightarrow> ServerIdentity_Equal s si | None \<Rightarrow> False)
     | None \<Rightarrow> False) \<or>
    (\<exists>c \<in> set (tn_Children t). case tn_SI c of Some s \<Rightarrow> ServerIdentity_Equal s si | None \<Rightarrow> False)"

text \<open>\<open>computeSubtreeAggregate\<close>: fills the aggregate of every node, bottom-up.\<close>

fun computeSubtreeAggregate :: "'p :: ab_group_add TreeNode \<Rightarrow> (string, 'p TreeNode) go" where
  "computeSubtreeAggregate (TreeNode i si x cs a) =
    go_bind (deref si) (\<lambda>s.
      go_bind (go_map computeSubtreeAggregate cs) (\<lambda>cs'.
        let aggregate = fold (\<lambda>c agg. agg + tn_Aggregate c) cs' (0 + si_Public s) in
        Ret (TreeNode i si x cs' aggregate)))"

section \<open>Trees\<close>

record 'p Tree =
  tree_ID :: uuid
  tree_Roster :: "'p Roster option"
  tree_Root :: "'p TreeNode option"

text \<open>
  \<open>NewTree\<close>; \<open>uuidString\<close> and \<open>newV5\<close> are the methods of the uuid package. A nil
  root panics.
\<close>

definition NewTree ::
  "(string \<Rightarrow> uuid) \<Rightarrow> (uuid \<Rightarrow> string) \<Rightarrow> 'p :: ab_group_add Roster \<Rightarrow> 'p TreeNode option \<Rightarrow>
    (string, 'p Tree) go" where
  "NewTree newV5 uuidString el r =
    go_bind (deref r) (\<lambda>root.
      let url = ''https://dedis.epfl.ch/'' @ ''tree/'' @ uuidString (ro_ID el) @ uuidString (tn_ID root) in
      go_bind (computeSubtreeAggregate root) (\<lambda>root'.
        Ret \<lparr>tree_ID = newV5 url, tree_Roster = Some el, tree_Root = Some root'\<rparr>))"

definition Tree_Search :: "'p Tree \<Rightarrow> uuid \<Rightarrow> (string, 'p TreeNode option) go" where
  "Tree_Search t tn =
    go_bind (deref (tree_Root t)) (\<lambda>root.
      Ret (Visit 0 (\<lambda>d tns ret. if tn_ID tns = tn then Some tns else ret) root None))"

definition Tree_List :: "'p Tree \<Rightarrow> (string, 'p TreeNode list) go" where
  "Tree_List t = go_bind (deref (tree_Root t)) (\<lambda>root. Ret (Visit 0 (\<lambda>d tns ret. ret @ [tns]) root []))"

definition Tree_Size :: "'p Tree \<Rightarrow> (string, int) go" where
  "Tree_Size t = go_bind (deref (tree_Root t)) (\<lambda>root. Ret (Visit 0 (\<lambda>d tn size. size + 1) root 0))"

fun IsNary :: "'p TreeNode \<Rightarrow> int \<Rightarrow> bool" where
  "IsNary (TreeNode i si x cs a) N =
    (let nChild = int (length cs) in
     if nChild \<noteq> N \<and> nChild \<noteq> 0 then False else list_all (\<lambda>c. IsNary c N) cs)"

definition IsBinary :: "'p TreeNode \<Rightarrow> bool" where
  "IsBinary root = IsNary root 2"

definition UsesList :: "'p Tree \<Rightarrow> (string, bool) go" where
  "UsesList t =
    go_bind (Tree_List t) (\<lambda>nodes.
    go_bind (deref (tree_Roster t)) (\<lambda>el.
    go_fold (\<lambda>p b. if b then
        go_fold (\<lambda>n found. if found then Ret True else
            go_bind (deref (tn_SI n)) (\<lambda>s. Ret (si_ID s = si_ID p))) nodes False
      else Ret False) (ro_List el) True))"

definition Tree_Equal :: "'p Tree \<Rightarrow> 'p Tree \<Rightarrow> (string, bool) go" where
  "Tree_Equal t t2 =
    (if tree_ID t \<noteq> tree_ID t2 then Ret False
     else go_bind (deref (tree_Roster t)) (\<lambda>r. go_bind (deref (tree_Roster t2)) (\<lambda>r2.
       if ro_ID r \<noteq> ro_ID r2 then Ret False
       else go_bind (deref (tree_Root t)) (\<lambda>a. go_bind (deref (tree_Root t2)) (TreeNode_Equal a)))))"

section \<open>Marshalled trees\<close>

datatype TreeMarshal =
  TreeMarshal (tm_TreeNodeID: uuid) (tm_TreeID: uuid) (tm_ServerIdentityID: uuid)
    (tm_RosterID: uuid) (tm_Children: "TreeMarshal list")

text \<open>\<open>TreeMarshalCopyTree\<close>: a node without identity makes the code dereference nil.\<close>

fun TreeMarshalCopyTree :: "'p TreeNode \<Rightarrow> (string, TreeMarshal) go" where
  "TreeMarshalCopyTree (TreeNode i si x cs a) =
    go_bind (deref si) (\<lambda>s.
      go_bind (go_map TreeMarshalCopyTree cs) (\<lambda>tms. Ret (TreeMarshal i 0 (si_ID s) 0 tms)))"

definition MakeTreeMarshal :: "'p Tree \<Rightarrow> (string, TreeMarshal) go" where
  "MakeTreeMarshal t =
    (case tree_Roster t of
       None \<Rightarrow> Ret (TreeMarshal 0 0 0 0 [])
     | Some el \<Rightarrow>
       go_bind (deref (tree_Root t)) (\<lambda>root.
         go_bind (TreeMarshalCopyTree root) (\<lambda>tm. Ret (TreeMarshal 0 (tree_ID t) 0 (ro_ID el) [tm]))))"

fun MakeTreeFromList :: "TreeMarshal \<Rightarrow> 'p :: zero Roster \<Rightarrow> 'p TreeNode" where
  "MakeTreeFromList (TreeMarshal n tid sid rid cs) el =
    (case Roster_Search el sid of (idx, ent) \<Rightarrow>
      TreeNode n ent idx (map (\<lambda>c. MakeTreeFromList c el) cs) 0)"

definition MakeTree :: "TreeMarshal \<Rightarrow> 'p :: ab_group_add Roster \<Rightarrow> (string, 'p Tree) go" where
  "MakeTree tm el =
    (if ro_ID el \<noteq> tm_RosterID tm then Err ''Not correct Roster-Id''
     else go_bind (index (tm_Children tm) 0) (\<lambda>c.
       go_bind (computeSubtreeAggregate (MakeTreeFromList c el)) (\<lambda>root.
         Ret \<lparr>tree_ID = tm_TreeID tm, tree_Roster = Some el, tree_Root = Some root\<rparr>)))"

text \<open>
  \<open>NewTreeFromMarshal\<close>; \<open>parse\<close> is \<open>network.Unmarshal\<close>, with \<open>None\<close> for a
  message of another type. When \<open>MakeTree\<close> fails its nil tree is dereferenced.
\<close>

definition NewTreeFromMarshal ::
  "(bytes \<Rightarrow> (string, TreeMarshal option) go) \<Rightarrow> bytes \<Rightarrow> 'p :: ab_group_add Roster \<Rightarrow>
    (string, 'p Tree) go" where
  "NewTreeFromMarshal parse buf el =
    go_bind (parse buf) (\<lambda>pm.
      case pm of
        None \<Rightarrow> Err ''Didn't receive TreeMarshal-struct''
      | Some tm \<Rightarrow>
        (case MakeTree tm el of
           Ret t \<Rightarrow> go_bind (deref (tree_Root t)) (\<lambda>root.
             go_bind (computeSubtreeAggregate root) (\<lambda>root'. Ret (t\<lparr>tree_Root := Some root'\<rparr>)))
         | Err _ \<Rightarrow> Panic
         | Panic \<Rightarrow> Panic))"

section \<open>Generated trees\<close>

text \<open>The bounds of the parts that \<open>addNary\<close> cuts its range into.\<close>

lemma part_bounds:
  assumes "0 \<le> (diff :: int)" and "n < nat N"
  shows "0 \<le> diff * int n div N" and "diff * int n div N \<le> diff * (int n + 1) div N"
    and "diff * (int n + 1) div N \<le> diff"
proof -
  have N: "0 < N" and n: "int n + 1 \<le> N" using assms(2) by auto
  show "0 \<le> diff * int n div N"
    using assms(1) N by (simp add: pos_imp_zdiv_nonneg_iff)
  show "diff * int n div N \<le> diff * (int n + 1) div N"
    using assms(1) N by (intro zdiv_mono1) (auto simp: mult_left_mono)
  have "diff * (int n + 1) \<le> diff * N" using assms(1) n by (intro mult_left_mono) auto
  then have "diff * (int n + 1) div N \<le> diff * N div N" using N by (intro zdiv_mono1) auto
  then show "diff * (int n + 1) div N \<le> diff" using N by simp
qed

lemma part_smaller:
  assumes "start \<le> end" and "n < nat N"
  shows "nat ((start + (end - start) * (int n + 1) div N) - (start + (end - start) * int n div N + 1) + 1)
    < nat (end - start + 1)"
  using part_bounds [of "end - start" n N] assms by auto

text \<open>
  \<open>addNary\<close>: the node for position \<open>start\<close> and, below it, the rest of the range
  \<open>start + 1 .. end\<close> cut into \<open>N\<close> consecutive parts. \<open>ids i\<close> is the id drawn for the
  node at position \<open>i\<close> (each position is visited once, in order). Callers start at
  0, so indices are never negative.
\<close>

function addNary ::
  "(int \<Rightarrow> uuid) \<Rightarrow> 'p :: zero Roster \<Rightarrow> int \<Rightarrow> int \<Rightarrow> int \<Rightarrow> 'p TreeNode option" where
  "addNary ids el N start end =
    (if \<not> (start \<le> end \<and> end < int (length (ro_List el))) then None
     else
       (let diff = end - start in
        Some (TreeNode (ids start) (Some (ro_List el ! nat start)) start
          (concat (map (\<lambda>n. case addNary ids el N (start + diff * int n div N + 1)
                                 (start + diff * (int n + 1) div N) of
                              None \<Rightarrow> [] | Some c \<Rightarrow> [c])
                       [0..<nat N]))
          0)))"
  by pat_completeness auto

termination
  by (relation "measure (\<lambda>(ids, el, N, start, end). nat (end - start + 1))")
    (use part_smaller in auto)

declare addNary.simps [simp del]

definition GenerateNaryTree ::
  "(string \<Rightarrow> uuid) \<Rightarrow> (uuid \<Rightarrow> string) \<Rightarrow> (int \<Rightarrow> uuid) \<Rightarrow> 'p :: ab_group_add Roster \<Rightarrow> int \<Rightarrow>
    (string, 'p Tree) go" where
  "GenerateNaryTree newV5 uuidString ids el N =
    (let root = addNary ids el N 0 (int (length (ro_List el)) - 1) in NewTree newV5 uuidString el root)"

definition GenerateBinaryTree ::
  "(string \<Rightarrow> uuid) \<Rightarrow> (uuid \<Rightarrow> string) \<Rightarrow> (int \<Rightarrow> uuid) \<Rightarrow> 'p :: ab_group_add Roster \<Rightarrow>
    (string, 'p Tree) go" where
  "GenerateBinaryTree newV5 uuidString ids el = GenerateNaryTree newV5 uuidString ids el 2"

text \<open>\<open>GenerateNaryTreeWithRoot\<close>: nil when the root is not in the roster.\<close>

definition GenerateNaryTreeWithRoot ::
  "(string \<Rightarrow> uuid) \<Rightarrow> (uuid \<Rightarrow> string) \<Rightarrow> uuid \<Rightarrow> (int \<Rightarrow> uuid) \<Rightarrow> 'p :: ab_group_add Roster \<Rightarrow> int \<Rightarrow>
    'p ServerIdentity \<Rightarrow> (string, 'p Tree option) go" where
  "GenerateNaryTreeWithRoot newV5 uuidString newV4 ids el N root =
    (let rootIndex = fst (Roster_Search el (si_ID root)) in
     if rootIndex < 0 then Ret None
     else
       (let cList = ro_List el;
            onlyRoot = [cList ! nat rootIndex];
            uptoRoot = take (nat rootIndex) cList;
            afterRoot = drop (nat rootIndex + 1) cList;
            list = onlyRoot @ uptoRoot @ afterRoot in
        go_bind (GenerateNaryTree newV5 uuidString ids (NewRoster newV4 list) N) (\<lambda>t. Ret (Some t))))"

section \<open>Depth-first order\<close>

text \<open>The nodes of a tree with their depths, in the order \<open>Visit\<close> calls back.\<close>

fun dfs :: "int \<Rightarrow> 'p TreeNode \<Rightarrow> (int \<times> 'p TreeNode) list" where
  "dfs d (TreeNode i si x cs a) = (d, TreeNode i si x cs a) # concat (map (dfs (d + 1)) cs)"

fun preorder :: "'p TreeNode \<Rightarrow> 'p TreeNode list" where
  "preorder (TreeNode i si x cs a) = TreeNode i si x cs a # concat (map preorder cs)"

lemma Visit_dfs: "Visit d fn t st = fold (\<lambda>(k, n). fn k n) (dfs d t) st"
proof (induction d fn t st rule: Visit.induct)
  case (1 d fn i si x cs a st)
  have "fold (\<lambda>c. Visit (d + 1) fn c) xs st' = fold (\<lambda>(k, n). fn k n) (concat (map (dfs (d + 1)) xs)) st'"
    if "set xs \<subseteq> set cs" for xs st'
    using that 1 by (induction xs arbitrary: st') auto
  then show ?case by simp
qed

lemma map_snd_dfs: "map snd (dfs d t) = preorder t"
proof (induction t arbitrary: d)
  case (TreeNode i si x cs a)
  have "map snd (concat (map (dfs (d + 1)) cs)) = concat (map preorder cs)"
    using TreeNode by (auto simp: map_concat intro!: arg_cong [of _ _ concat] map_cong)
  then show ?case by simp
qed

lemma fold_map_snd: "fold (\<lambda>(k, n). f n) xs st = fold f (map snd xs) st"
  by (induction xs arbitrary: st) auto

lemma Visit_preorder: "Visit 0 (\<lambda>_. f) t st = fold f (preorder t) st"
  by (simp add: Visit_dfs fold_map_snd map_snd_dfs)

lemma fold_snoc: "fold (\<lambda>n ns. ns @ [n]) xs ys = ys @ xs"
  by (induction xs arbitrary: ys) auto

lemma fold_count: "fold (\<lambda>_ k. k + 1) xs (n :: int) = n + int (length xs)"
  by (induction xs arbitrary: n) auto

lemma Tree_List_preorder: "tree_Root t = Some root \<Longrightarrow> Tree_List t = Ret (preorder root)"
  by (simp add: Tree_List_def Visit_preorder fold_snoc)

lemma Tree_Size_length: "tree_Root t = Some root \<Longrightarrow> Tree_Size t = Ret (int (length (preorder root)))"
  by (simp add: Tree_Size_def Visit_preorder fold_count)

lemma SubtreeCount_length: "SubtreeCount t = int (length (preorder t)) - 1"
  by (simp add: SubtreeCount_def Visit_preorder fold_count)

section \<open>A generated tree covers its roster\<close>

lemma upto_append: "a \<le> b + 1 \<Longrightarrow> b \<le> c \<Longrightarrow> [a..b] @ [b + 1..c] = [a..c :: int]"
  using upto_split2 [of a b c] by (cases "a = b + 1") auto

lemma map_concat_nested:
  "map f (concat (map g (concat (map h ns)))) = concat (map (\<lambda>n. map f (concat (map g (h n)))) ns)"
  by (induction ns) auto

lemma parts_concat:
  assumes "0 \<le> diff" and "k \<le> nat N" and "0 < N"
  shows "concat (map (\<lambda>n. [start + diff * int n div N + 1..start + diff * (int n + 1) div N]) [0..<k])
    = [start + 1..start + diff * int k div N]"
  using assms(2)
proof (induction k)
  case 0
  then show ?case by simp
next
  case (Suc k)
  note b = part_bounds [OF assms(1), of k N]
  have "concat (map (\<lambda>n. [start + diff * int n div N + 1..start + diff * (int n + 1) div N]) [0..<Suc k])
      = [start + 1..start + diff * int k div N]
        @ [start + diff * int k div N + 1..start + diff * (int k + 1) div N]"
    using Suc by simp
  also have "\<dots> = [start + 1..start + diff * (int k + 1) div N]"
    using b Suc.prems by (intro upto_append) auto
  finally show ?case by (simp add: add.commute)
qed

definition node_list :: "'p TreeNode option \<Rightarrow> 'p TreeNode list" where
  "node_list t = (case t of None \<Rightarrow> [] | Some c \<Rightarrow> [c])"

lemma addNary_unfold:
  assumes "start \<le> end" and "end < int (length (ro_List el))"
  shows "addNary ids el N start end = Some (TreeNode (ids start) (Some (ro_List el ! nat start)) start
    (concat (map (\<lambda>n. node_list (addNary ids el N (start + (end - start) * int n div N + 1)
        (start + (end - start) * (int n + 1) div N))) [0..<nat N])) 0)"
  using assms by (simp add: addNary.simps [of ids el N start "end"] node_list_def Let_def)

lemma addNary_None: "\<not> (start \<le> end \<and> end < int (length (ro_List el))) \<Longrightarrow>
    addNary ids el N start end = None"
  by (simp add: addNary.simps [of ids el N start "end"])

text \<open>Depth-first, the nodes of the generated tree are the positions of the range in order.\<close>

lemma addNary_preorder:
  assumes "0 < N" and "0 \<le> start" and "end < int (length (ro_List el))"
  shows "map tn_RosterIndex (concat (map preorder (node_list (addNary ids el N start end)))) = [start..end]"
  using assms
proof (induction ids el N start "end" rule: addNary.induct)
  case (1 ids el N start "end")
  show ?case
  proof (cases "start \<le> end")
    case False
    then show ?thesis by (simp add: addNary_None node_list_def)
  next
    case True
    let ?d = "end - start"
    let ?c = "\<lambda>n. addNary ids el N (start + ?d * int n div N + 1) (start + ?d * (int n + 1) div N)"
    have IH: "map tn_RosterIndex (concat (map preorder (node_list (?c n))))
        = [start + ?d * int n div N + 1..start + ?d * (int n + 1) div N]" if "n < nat N" for n
      using "1.IH" [of ?d n] part_bounds [of ?d n N] True "1.prems" that by auto
    have "map tn_RosterIndex (concat (map preorder (concat (map (\<lambda>n. node_list (?c n)) [0..<nat N]))))
        = concat (map (\<lambda>n. map tn_RosterIndex (concat (map preorder (node_list (?c n))))) [0..<nat N])"
      by (rule map_concat_nested)
    also have "\<dots> = concat (map (\<lambda>n. [start + ?d * int n div N + 1..start + ?d * (int n + 1) div N])
        [0..<nat N])"
      using IH by (intro arg_cong [of _ _ concat] map_cong) auto
    also have "\<dots> = [start + 1..end]"
      using parts_concat [of ?d "nat N" N start] True "1.prems"(1) by simp
    finally show ?thesis
      using addNary_unfold [OF True "1.prems"(3)] upto_rec1 [OF True]
      by (simp add: node_list_def del: upto.simps)
  qed
qed

text \<open>Every node of the generated tree carries the server of its position.\<close>

fun node_wf :: "'p Roster \<Rightarrow> 'p TreeNode \<Rightarrow> bool" where
  "node_wf el (TreeNode i si x cs a) \<longleftrightarrow>
    0 \<le> x \<and> x < int (length (ro_List el)) \<and> si = Some (ro_List el ! nat x) \<and> list_all (node_wf el) cs"

lemma addNary_wf:
  assumes "0 \<le> start" and "addNary ids el N start end = Some t"
  shows "node_wf el t"
  using assms
proof (induction ids el N start "end" arbitrary: t rule: addNary.induct)
  case (1 ids el N start "end")
  then have range: "start \<le> end" "end < int (length (ro_List el))"
    by (auto simp: addNary.simps [of ids el N start "end"] split: if_splits)
  let ?d = "end - start"
  let ?c = "\<lambda>n. addNary ids el N (start + ?d * int n div N + 1) (start + ?d * (int n + 1) div N)"
  have "node_wf el u" if "n < nat N" and "?c n = Some u" for n u
    using "1.IH" [of ?d n u] part_bounds [of ?d n N] range "1.prems"(1) that by auto
  then show ?case
    using "1.prems" addNary_unfold [OF range] range
    by (auto simp: list_all_iff node_list_def split: option.splits)
qed

section \<open>Aggregate keys\<close>

lemma fold_aggregate:
  "fold (\<lambda>c agg. agg + tn_Aggregate c) cs (b :: 'p :: ab_group_add) = b + sum_list (map tn_Aggregate cs)"
  by (induction cs arbitrary: b) (auto simp: algebra_simps)

fun node_publics :: "'p TreeNode \<Rightarrow> 'p list" where
  "node_publics (TreeNode i si x cs a) =
    (case si of None \<Rightarrow> [] | Some s \<Rightarrow> [si_Public s]) @ concat (map node_publics cs)"

lemma sum_list_concat_map:
  "sum_list (concat (map f xs)) = sum_list (map (\<lambda>x. sum_list (f x)) xs)" for f :: "'a \<Rightarrow> 'p :: ab_group_add list"
  by (induction xs) auto

text \<open>The computed aggregate of a node is the sum of the keys below it; nothing else changes.\<close>

fun strip :: "'p :: zero TreeNode \<Rightarrow> 'p TreeNode" where
  "strip (TreeNode i si x cs a) = TreeNode i si x (map strip cs) 0"

lemma computeSubtreeAggregate_sum:
  assumes "computeSubtreeAggregate t = Ret t'"
  shows "tn_Aggregate t' = sum_list (node_publics t) \<and> strip t' = strip t"
  using assms
proof (induction t arbitrary: t')
  case (TreeNode i si x cs a)
  then obtain s cs' where s: "si = Some s" and cs': "go_map computeSubtreeAggregate cs = Ret cs'"
    and t': "t' = TreeNode i si x cs' (fold (\<lambda>c agg. agg + tn_Aggregate c) cs' (0 + si_Public s))"
    by (auto simp: go_bind_eq_Ret deref_eq_Ret Let_def)
  from cs' have l: "list_all2 (\<lambda>c c'. computeSubtreeAggregate c = Ret c') cs cs'"
    by (simp add: go_map_eq_Ret)
  then have "map tn_Aggregate cs' = map (\<lambda>c. sum_list (node_publics c)) cs \<and> map strip cs' = map strip cs"
    using TreeNode.IH by (induction rule: list_all2_induct) auto
  then show ?case
    using s t' by (simp add: fold_aggregate sum_list_concat_map)
qed

lemma computeSubtreeAggregate_strip:
  "computeSubtreeAggregate (strip t) = computeSubtreeAggregate (t :: 'p :: ab_group_add TreeNode)"
proof (induction t)
  case (TreeNode i si x cs a)
  have "go_map computeSubtreeAggregate (map strip cs) = go_map computeSubtreeAggregate cs"
    using TreeNode.IH by (induction cs) auto
  then show ?case by simp
qed

lemma computeSubtreeAggregate_total:
  assumes "node_wf el t"
  shows "\<exists>t'. computeSubtreeAggregate t = Ret t'"
  using assms
proof (induction t)
  case (TreeNode i si x cs a)
  then have "\<forall>c \<in> set cs. \<exists>c'. computeSubtreeAggregate c = Ret c'"
    by (auto simp: list_all_iff)
  then obtain f where "\<forall>c \<in> set cs. computeSubtreeAggregate c = Ret (f c)" by metis
  then have "go_map computeSubtreeAggregate cs = Ret (map f cs)"
    by (intro go_map_map) auto
  then show ?case using TreeNode.prems by (simp add: Let_def)
qed

lemma node_wf_strip: "node_wf el (strip t) \<longleftrightarrow> node_wf el t"
  by (induction t) (auto simp: list_all_iff)

lemma node_publics_preorder:
  assumes "node_wf el t"
  shows "node_publics t = map (\<lambda>n. si_Public (ro_List el ! nat (tn_RosterIndex n))) (preorder t)"
  using assms
proof (induction t)
  case (TreeNode i si x cs a)
  then have "map node_publics cs
      = map (\<lambda>c. map (\<lambda>n. si_Public (ro_List el ! nat (tn_RosterIndex n))) (preorder c)) cs"
    by (intro map_cong refl) (auto simp: list_all_iff)
  then have "concat (map node_publics cs)
      = map (\<lambda>n. si_Public (ro_List el ! nat (tn_RosterIndex n))) (concat (map preorder cs))"
    by (simp only: map_concat map_map comp_def)
  then show ?case using TreeNode.prems by simp
qed

section \<open>Marshalling round trip\<close>

lemma MakeTreeFromList_Copy:
  assumes "node_wf el t" and "distinct (map si_ID (ro_List el))"
  shows "\<exists>tm. TreeMarshalCopyTree t = Ret tm \<and> MakeTreeFromList tm el = strip t"
  using assms(1)
proof (induction t)
  case (TreeNode i si x cs a)
  then have "\<forall>c \<in> set cs. \<exists>tm. TreeMarshalCopyTree c = Ret tm \<and> MakeTreeFromList tm el = strip c"
    by (auto simp: list_all_iff)
  then obtain f where f: "\<forall>c \<in> set cs. TreeMarshalCopyTree c = Ret (f c) \<and> MakeTreeFromList (f c) el = strip c"
    by metis
  then have "go_map TreeMarshalCopyTree cs = Ret (map f cs)" by (intro go_map_map) auto
  moreover have "Roster_Search el (si_ID (ro_List el ! nat x)) = (x, Some (ro_List el ! nat x))"
    using Roster_Search_distinct [OF assms(2), of "nat x"] TreeNode.prems by auto
  ultimately show ?case
    using TreeNode.prems f by (auto simp: comp_def)
qed

lemma MakeTree_MakeTreeMarshal:
  assumes "NewTree newV5 us el (Some n) = Ret t" and "node_wf el n"
    and "distinct (map si_ID (ro_List el))"
  shows "go_bind (MakeTreeMarshal t) (\<lambda>tm. MakeTree tm el) = Ret t"
proof -
  obtain n' where n': "computeSubtreeAggregate n = Ret n'" and t: "tree_Root t = Some n'"
    "tree_Roster t = Some el"
    using assms(1) by (auto simp: NewTree_def Let_def go_bind_eq_Ret)
  have strip: "strip n' = strip n" using computeSubtreeAggregate_sum [OF n'] by simp
  then have "node_wf el n'" using assms(2) node_wf_strip by metis
  then obtain tm where tm: "TreeMarshalCopyTree n' = Ret tm" "MakeTreeFromList tm el = strip n'"
    using MakeTreeFromList_Copy assms(3) by blast
  have "computeSubtreeAggregate (strip n') = Ret n'"
    using strip n' computeSubtreeAggregate_strip by metis
  then show ?thesis
    using tm t by (cases t) (simp add: MakeTreeMarshal_def MakeTree_def index_def)
qed

section \<open>Properties of the generated trees\<close>

lemma preorder_strip: "preorder (strip t) = map strip (preorder t)"
proof (induction t)
  case (TreeNode i si x cs a)
  then show ?case by (simp add: map_concat comp_def cong: map_cong)
qed

lemma strip_fields [simp]:
  "tn_ID (strip t) = tn_ID t" "tn_SI (strip t) = tn_SI t" "tn_RosterIndex (strip t) = tn_RosterIndex t"
  "tn_Children (strip t) = map strip (tn_Children t)"
  by (cases t; simp)+

lemma strip_eq_preorder:
  assumes "strip t = strip u" and "\<And>n. f (strip n) = f n"
  shows "map f (preorder t) = map f (preorder u)"
proof -
  have "map f (preorder t) = map f (preorder (strip t))" for t
    using assms(2) by (simp add: preorder_strip)
  then show ?thesis using assms(1) by metis
qed

lemma node_wf_preorder: "node_wf el t \<Longrightarrow> n \<in> set (preorder t) \<Longrightarrow> node_wf el n"
  by (induction t) (auto simp: list_all_iff)

lemma node_wfD:
  "node_wf el n \<Longrightarrow> tn_SI n = Some (ro_List el ! nat (tn_RosterIndex n))"
  by (cases n) auto

lemma map_nth_upto: "map (\<lambda>i. f (xs ! nat i)) [0..int (length xs) - 1] = map f xs"
  by (rule nth_equalityI) auto

text \<open>The nodes of a generated tree: one per server, in roster order.\<close>

lemma GenerateNaryTree_root:
  fixes el :: "'p :: ab_group_add Roster"
  assumes "0 < N" and "ro_List el \<noteq> []"
  obtains n root t where "addNary ids el N 0 (int (length (ro_List el)) - 1) = Some n"
    and "computeSubtreeAggregate n = Ret root"
    and "GenerateNaryTree newV5 us ids el N = Ret t" and "tree_Root t = Some root"
    and "tree_Roster t = Some el" and "node_wf el n"
    and "map tn_RosterIndex (preorder n) = [0..int (length (ro_List el)) - 1]"
    and "strip root = strip n"
proof -
  let ?e = "int (length (ro_List el)) - 1"
  have pos: "0 \<le> ?e" using assms(2) by (cases "ro_List el") auto
  then obtain n where n: "addNary ids el N 0 ?e = Some n"
    using addNary_unfold [of 0 ?e el ids N] by auto
  have wf: "node_wf el n" using addNary_wf [OF _ n] by simp
  then obtain root where root: "computeSubtreeAggregate n = Ret root"
    using computeSubtreeAggregate_total by blast
  have "map tn_RosterIndex (preorder n) = [0..?e]"
    using addNary_preorder [OF assms(1), of 0 ?e el ids] n by (simp add: node_list_def)
  moreover have "strip root = strip n"
    using computeSubtreeAggregate_sum [OF root] by simp
  ultimately show ?thesis
    using that [OF n root _ _ _ wf] n root
    by (simp add: GenerateNaryTree_def NewTree_def Let_def)
qed

lemma generated_servers:
  fixes el :: "'p :: ab_group_add Roster"
  assumes "node_wf el n" and "map tn_RosterIndex (preorder n) = [0..int (length (ro_List el)) - 1]"
    and "strip root = strip n"
  shows "map tn_SI (preorder root) = map Some (ro_List el)"
proof -
  have "map tn_SI (preorder root) = map tn_SI (preorder n)"
    using assms(3) by (rule strip_eq_preorder) simp
  also have "\<dots> = map (\<lambda>i. Some (ro_List el ! nat i)) (map tn_RosterIndex (preorder n))"
    using node_wfD node_wf_preorder [OF assms(1)] by (auto simp: comp_def)
  also have "\<dots> = map Some (ro_List el)"
    using map_nth_upto [of Some "ro_List el"] assms(2) by simp
  finally show ?thesis .
qed

definition ex_si :: "int \<Rightarrow> int ServerIdentity" where
  "ex_si k = \<lparr>si_Public = k, si_ID = word_of_int k, si_Address = ''tcp://h:1'', si_Description = ''''\<rparr>"

definition ex_roster :: "int Roster" where
  "ex_roster = NewRoster 9 (map ex_si [1, 2, 3, 4])"

lemma ex_roster_List [simp]: "ro_List ex_roster = map ex_si [1, 2, 3, 4]"
  by (simp add: ex_roster_def NewRoster_def)

lemma ex_roster_distinct: "distinct (map si_ID (ro_List ex_roster))"
  by (simp add: ex_si_def)

text \<open>C28: \<open>GenerateNaryTree\<close> on a non-empty roster and a positive branching factor
  returns a tree that lists every server of the roster exactly once, depth-first in the
  order of the roster, and whose size is the size of the roster.\<close>

theorem GenerateNaryTree_covers_roster:
  fixes el :: "'p :: ab_group_add Roster"
  assumes "0 < N" and "ro_List el \<noteq> []"
  shows "\<exists>t nodes. GenerateNaryTree newV5 us ids el N = Ret t \<and> Tree_List t = Ret nodes \<and>
    map tn_SI nodes = map Some (ro_List el) \<and> Tree_Size t = Ret (int (length (ro_List el)))"
proof -
  obtain n root t where t: "GenerateNaryTree newV5 us ids el N = Ret t" "tree_Root t = Some root"
    and wf: "node_wf el n" and pre: "map tn_RosterIndex (preorder n) = [0..int (length (ro_List el)) - 1]"
    and st: "strip root = strip n"
    using GenerateNaryTree_root [OF assms, of ids newV5 us] by metis
  note nodes = generated_servers [OF wf pre st]
  from nodes have "length (preorder root) = length (ro_List el)" by (metis length_map)
  then show ?thesis
    using t nodes Tree_List_preorder [of t root] Tree_Size_length [of t root] by auto
qed

theorem GenerateNaryTree_covers_roster_witness:
  "\<exists>t nodes. GenerateNaryTree (\<lambda>_. 1) (\<lambda>_. []) word_of_int ex_roster 2 = Ret t \<and> Tree_List t = Ret nodes \<and>
    map tn_SI nodes = map Some (ro_List ex_roster) \<and> Tree_Size t = Ret (int (length (ro_List ex_roster)))"
  by (rule GenerateNaryTree_covers_roster) auto

text \<open>C29: the aggregate key that \<open>NewTree\<close> computes for the root of a generated tree is the
  aggregate key of a roster made of the same servers, the sum of their public keys.\<close>

theorem GenerateNaryTree_aggregate:
  fixes el :: "'p :: ab_group_add Roster"
  assumes "0 < N" and "ro_List el \<noteq> []"
  shows "\<exists>t root. GenerateNaryTree newV5 us ids el N = Ret t \<and> tree_Root t = Some root \<and>
    tn_Aggregate root = ro_Aggregate (NewRoster newID (ro_List el)) \<and>
    tn_Aggregate root = sum_list (Publics el)"
proof -
  obtain n root t where t: "GenerateNaryTree newV5 us ids el N = Ret t" "tree_Root t = Some root"
    and n: "computeSubtreeAggregate n = Ret root"
    and wf: "node_wf el n" and pre: "map tn_RosterIndex (preorder n) = [0..int (length (ro_List el)) - 1]"
    using GenerateNaryTree_root [OF assms, of ids newV5 us] by metis
  have "node_publics n = map (\<lambda>i. si_Public (ro_List el ! nat i)) (map tn_RosterIndex (preorder n))"
    using node_publics_preorder [OF wf] by (simp add: comp_def)
  also have "\<dots> = Publics el"
    using map_nth_upto [of si_Public "ro_List el"] pre by (simp add: Publics_def)
  finally have "tn_Aggregate root = sum_list (Publics el)"
    using computeSubtreeAggregate_sum [OF n] by simp
  then show ?thesis
    using t by (auto simp: NewRoster_def aggregate_loop_sum Publics_def)
qed

theorem GenerateNaryTree_aggregate_witness:
  "\<exists>t root. GenerateNaryTree (\<lambda>_. 1) (\<lambda>_. []) word_of_int ex_roster 2 = Ret t \<and> tree_Root t = Some root \<and>
    tn_Aggregate root = ro_Aggregate (NewRoster 5 (ro_List ex_roster)) \<and>
    tn_Aggregate root = sum_list (Publics ex_roster)"
  by (rule GenerateNaryTree_aggregate) auto

text \<open>C30: a generated tree that is sent as a \<open>TreeMarshal\<close> is rebuilt by the receiver, from
  the roster alone, as the same tree: ids, servers, roster indices, shape and aggregate keys.\<close>

theorem GenerateNaryTree_marshal_roundtrip:
  fixes el :: "'p :: ab_group_add Roster"
  assumes "0 < N" and "ro_List el \<noteq> []" and "distinct (map si_ID (ro_List el))"
  shows "\<exists>t tm. GenerateNaryTree newV5 us ids el N = Ret t \<and> MakeTreeMarshal t = Ret tm \<and>
    MakeTree tm el = Ret t"
proof -
  obtain n t where n: "addNary ids el N 0 (int (length (ro_List el)) - 1) = Some n"
    and t: "GenerateNaryTree newV5 us ids el N = Ret t" and wf: "node_wf el n"
    using GenerateNaryTree_root [OF assms(1,2), of ids newV5 us] by metis
  then have "NewTree newV5 us el (Some n) = Ret t"
    by (simp add: GenerateNaryTree_def)
  from MakeTree_MakeTreeMarshal [OF this wf assms(3)] show ?thesis
    using t by (auto simp: go_bind_eq_Ret)
qed

theorem GenerateNaryTree_marshal_roundtrip_witness:
  "\<exists>t tm. GenerateNaryTree (\<lambda>_. 1) (\<lambda>_. []) word_of_int ex_roster 2 = Ret t \<and> MakeTreeMarshal t = Ret tm \<and>
    MakeTree tm ex_roster = Ret t"
  using GenerateNaryTree_marshal_roundtrip [OF _ _ ex_roster_distinct, of 2] by simp

section \<open>Star trees\<close>

text \<open>With a branching factor of at least the number of other nodes every part has one node.\<close>

lemma part_le_one:
  assumes "0 \<le> (diff :: int)" and "diff \<le> N" and "0 < N"
  shows "diff * (int n + 1) div N \<le> diff * int n div N + 1"
proof -
  have "diff * (int n + 1) \<le> diff * int n + N" using assms by (simp add: algebra_simps)
  then have "diff * (int n + 1) div N \<le> (diff * int n + N) div N"
    using assms(3) by (rule zdiv_mono1)
  moreover have "(diff * int n + N) div N = diff * int n div N + 1"
    using assms(3) by (rule div_add_self2 [OF less_imp_neq [THEN not_sym]])
  ultimately show ?thesis by simp
qed

lemma addNary_leaf:
  assumes "addNary ids el N start end = Some c" and "end \<le> start"
  shows "IsLeaf c"
proof -
  from assms have range: "start = end" "end < int (length (ro_List el))"
    by (auto simp: addNary.simps [of ids el N start "end"] split: if_splits)
  have "addNary ids el N (end + 1) end = None" by (simp add: addNary_None)
  then show ?thesis
    using assms(1) addNary_unfold [of start "end" el ids N] range
    by (auto simp: IsLeaf_def node_list_def)
qed

lemma addNary_star:
  assumes "0 < N" and "end - start \<le> N" and "addNary ids el N start end = Some t"
  shows "list_all IsLeaf (tn_Children t)"
proof -
  from assms(3) have range: "start \<le> end" "end < int (length (ro_List el))"
    by (auto simp: addNary.simps [of ids el N start "end"] split: if_splits)
  have "IsLeaf c" if "addNary ids el N (start + (end - start) * int n div N + 1)
      (start + (end - start) * (int n + 1) div N) = Some c" for c n
    using addNary_leaf [OF that] part_le_one [of "end - start" N n] assms(1,2) range(1) by simp
  then show ?thesis
    using assms(3) addNary_unfold [OF range, of ids N]
    by (auto simp: list_all_iff node_list_def split: option.splits)
qed

lemma computeSubtreeAggregate_children:
  assumes "computeSubtreeAggregate t = Ret t'" and "list_all IsLeaf (tn_Children t)"
  shows "list_all IsLeaf (tn_Children t')"
proof -
  have "map strip (tn_Children t') = map strip (tn_Children t)"
    using computeSubtreeAggregate_sum [OF assms(1)] by (metis strip_fields(4))
  moreover have "IsLeaf (strip c) \<longleftrightarrow> IsLeaf c" for c :: "'a TreeNode"
    by (simp add: IsLeaf_def)
  then have "list_all IsLeaf (map strip cs) \<longleftrightarrow> list_all IsLeaf cs" for cs :: "'a TreeNode list"
    by (simp add: list_all_iff)
  ultimately show ?thesis using assms(2) by metis
qed

lemma Search_from_found:
  assumes "Search_from b eID es = (i, Some e)"
  shows "b \<le> i \<and> nat (i - b) < length es \<and> es ! nat (i - b) = e \<and> si_ID e = eID"
  using assms
proof (induction es arbitrary: b)
  case (Cons a es)
  then show ?case
    by (auto simp: nth_Cons nat_diff_distrib' split: if_splits nat.splits)
      (smt (verit, best) Suc_nat_eq_nat_zadd1 diff_Suc_1 nat_less_eq_zless)+
qed simp

lemma Search_from_member:
  assumes "eID \<in> si_ID ` set es" and "0 \<le> b"
  shows "\<exists>i e. Search_from b eID es = (i, Some e) \<and> 0 \<le> i"
  using assms by (induction es arbitrary: b) auto

text \<open>\<open>GenerateNaryTreeWithRoot\<close>, as the services call it with a branching factor of at
  least the number of other servers, returns a star for a server of the roster: the asked
  server is the root, every other server is a direct child and a leaf, and the tree holds
  exactly the servers of the roster. For a server outside the roster it returns nil.\<close>

theorem GenerateNaryTreeWithRoot_star:
  fixes el :: "'p :: ab_group_add Roster"
  assumes "0 < N" and "int (length (ro_List el)) - 1 \<le> N"
  shows "if si_ID si \<in> si_ID ` set (ro_List el)
    then \<exists>t root. GenerateNaryTreeWithRoot newV5 us newID ids el N si = Ret (Some t) \<and>
      tree_Root t = Some root \<and> map_option si_ID (tn_SI root) = Some (si_ID si) \<and>
      list_all IsLeaf (tn_Children root) \<and>
      mset (map tn_SI (preorder root)) = mset (map Some (ro_List el))
    else GenerateNaryTreeWithRoot newV5 us newID ids el N si = Ret None"
proof (cases "si_ID si \<in> si_ID ` set (ro_List el)")
  case False
  then show ?thesis
    by (simp add: GenerateNaryTreeWithRoot_def Roster_Search_def Search_from_miss)
next
  case True
  then obtain i e where s: "Search_from 0 (si_ID si) (ro_List el) = (i, Some e)" "0 \<le> i"
    using Search_from_member by fastforce
  let ?k = "nat i" and ?L = "ro_List el"
  have k: "?k < length ?L" "si_ID (?L ! ?k) = si_ID si"
    using Search_from_found [OF s(1)] by auto
  define L' where "L' = ?L ! ?k # take ?k ?L @ drop (?k + 1) ?L"
  let ?el = "NewRoster newID L'"
  have el: "ro_List ?el = L'" and ne: "L' \<noteq> []" by (simp_all add: NewRoster_def L'_def)
  have perm: "mset L' = mset ?L"
    using id_take_nth_drop [OF k(1)] by (simp add: L'_def) (metis mset.simps(2) mset_append union_mset_add_mset_right)
  then have len: "length L' = length ?L" by (metis mset_eq_length)
  obtain n root t where n: "addNary ids ?el N 0 (int (length L') - 1) = Some n"
    and t: "GenerateNaryTree newV5 us ids ?el N = Ret t" "tree_Root t = Some root"
    and c: "computeSubtreeAggregate n = Ret root" and wf: "node_wf ?el n"
    and pre: "map tn_RosterIndex (preorder n) = [0..int (length L') - 1]" and st: "strip root = strip n"
    using GenerateNaryTree_root [OF assms(1), of ?el ids newV5 us] ne el by metis
  have gen: "GenerateNaryTreeWithRoot newV5 us newID ids el N si = Ret (Some t)"
    using s t(1) by (simp add: GenerateNaryTreeWithRoot_def Roster_Search_def L'_def)
  have star: "list_all IsLeaf (tn_Children root)"
    using computeSubtreeAggregate_children [OF c addNary_star [OF assms(1) _ n]] assms(2) len by simp
  have SI: "map tn_SI (preorder root) = map Some L'"
    using generated_servers [OF wf _ st] pre el by simp
  have "tn_SI root = Some (?L ! ?k)" using SI by (cases root) (simp add: L'_def)
  moreover have "mset (map tn_SI (preorder root)) = mset (map Some ?L)"
    unfolding SI using perm by simp
  ultimately show ?thesis using True gen t(2) star k(2) by simp
qed

theorem GenerateNaryTreeWithRoot_star_witness:
  "if si_ID (ex_si 3) \<in> si_ID ` set (ro_List ex_roster)
    then \<exists>t root. GenerateNaryTreeWithRoot (\<lambda>_. 1) (\<lambda>_. []) 6 word_of_int ex_roster 4 (ex_si 3) = Ret (Some t) \<and>
      tree_Root t = Some root \<and> map_option si_ID (tn_SI root) = Some (si_ID (ex_si 3)) \<and>
      list_all IsLeaf (tn_Children root) \<and>
      mset (map tn_SI (preorder root)) = mset (map Some (ro_List ex_roster))
    else GenerateNaryTreeWithRoot (\<lambda>_. 1) (\<lambda>_. []) 6 word_of_int ex_roster 4 (ex_si 3) = Ret None"
  by (rule GenerateNaryTreeWithRoot_star) auto

text \<open>\<open>Roster.Get\<close> promises nil for an index error. It returns the server at every valid
  index and nil below zero and above the length, but at the index equal to the length its
  guard lets the access through and the code panics.\<close>

theorem Roster_Get_cases:
  "Roster_Get el idx =
    (if idx < 0 then Ret None
     else if idx < int (length (ro_List el)) then Ret (Some (ro_List el ! nat idx))
     else if idx = int (length (ro_List el)) then Panic
     else Ret None)"
  by (simp add: Roster_Get_def index_def)

end
