(* ===== verification/Ocs_Data.thy ===== *)
theory Ocs_Data
  imports Onchain Roster_Tree
begin

text \<open>
  The data of \<open>onchain-secrets/struct.go\<close>: the contents of the blocks of an
  on-chain-secrets skipchain, the requests and the replies of the service, and
  the decoding of block data.

  Pointers that the code tests against nil are options; a nil byte slice is the
  empty list. The skipchain package is not part of this repository: a
  \<open>SkipBlock\<close> has the fields that the code reads, and the package's methods are
  the fields of \<open>skipchain_ops\<close>.
\<close>

section \<open>Skipchain types\<close>

type_synonym SkipBlockID = bytes

record BlockLink =
  bl_Hash :: SkipBlockID
  bl_Signature :: bytes

record 'p SkipBlock =
  sb_Hash :: SkipBlockID
  sb_Index :: int
  sb_BackLinkIDs :: "SkipBlockID list"
  sb_ForwardLink :: "BlockLink list"
  sb_ChildSL :: "SkipBlockID list"
  sb_ParentBlockID :: SkipBlockID
  sb_GenesisID :: SkipBlockID
  sb_Roster :: "'p Roster option"
  sb_Data :: bytes

record 'p skipchain_ops =
  sk_SkipChainID :: "'p SkipBlock \<Rightarrow> SkipBlockID"
  sk_GetForwardLen :: "'p SkipBlock \<Rightarrow> int"
  sk_AddForward :: "'p SkipBlock \<Rightarrow> BlockLink \<Rightarrow> 'p SkipBlock"
  sk_GetForward :: "'p SkipBlock \<Rightarrow> int \<Rightarrow> BlockLink option"
  sk_VerifySignature :: "BlockLink \<Rightarrow> 'p list \<Rightarrow> (string, unit) go"
  sk_VerifyForwardSignatures :: "'p SkipBlock \<Rightarrow> (string, unit) go"
  sk_CalculateHash :: "'p SkipBlock \<Rightarrow> SkipBlockID"
  sk_IsNull :: "SkipBlockID \<Rightarrow> bool"
  sk_Equal :: "SkipBlockID \<Rightarrow> SkipBlockID \<Rightarrow> bool"
  sk_ErrorBlockInProgress :: int

text \<open>
  Documented behaviour of the package that the bunches rely on: \<open>AddForward\<close>
  appends a link and changes nothing else, \<open>GetForwardLen\<close> counts the links,
  the chain of a block does not depend on its links to later blocks and
  children, and \<open>Equal\<close> compares bytes.
\<close>

definition skipchain_laws :: "'p skipchain_ops \<Rightarrow> bool" where
  "skipchain_laws K \<longleftrightarrow>
    (\<forall>sb fl. sk_AddForward K sb fl = sb\<lparr>sb_ForwardLink := sb_ForwardLink sb @ [fl]\<rparr>) \<and>
    (\<forall>sb. sk_GetForwardLen K sb = int (length (sb_ForwardLink sb))) \<and>
    (\<forall>sb fls cs. sk_SkipChainID K (sb\<lparr>sb_ForwardLink := fls, sb_ChildSL := cs\<rparr>) = sk_SkipChainID K sb) \<and>
    (\<forall>a b. sk_Equal K a b \<longleftrightarrow> a = b)"

lemma skipchain_lawsD:
  assumes "skipchain_laws K"
  shows "sk_AddForward K sb fl = sb\<lparr>sb_ForwardLink := sb_ForwardLink sb @ [fl]\<rparr>"
    and "sk_GetForwardLen K sb = int (length (sb_ForwardLink sb))"
    and "sk_SkipChainID K (sb\<lparr>sb_ForwardLink := fls, sb_ChildSL := cs\<rparr>) = sk_SkipChainID K sb"
    and "sk_Equal K a b \<longleftrightarrow> a = b"
  using assms by (auto simp: skipchain_laws_def)

text \<open>An instance over plain fields, for concrete inputs.\<close>

definition plain_ops :: "'p skipchain_ops" where
  "plain_ops =
    \<lparr>sk_SkipChainID = (\<lambda>sb. if sb_Index sb = 0 then sb_Hash sb else sb_GenesisID sb),
     sk_GetForwardLen = (\<lambda>sb. int (length (sb_ForwardLink sb))),
     sk_AddForward = (\<lambda>sb fl. sb\<lparr>sb_ForwardLink := sb_ForwardLink sb @ [fl]\<rparr>),
     sk_GetForward = (\<lambda>sb i. if 0 \<le> i \<and> i < int (length (sb_ForwardLink sb))
        then Some (sb_ForwardLink sb ! nat i) else None),
     sk_VerifySignature = (\<lambda>fl pks. if bl_Signature fl = [] then Err ''no signature'' else Ret ()),
     sk_VerifyForwardSignatures = (\<lambda>sb. Ret ()),
     sk_CalculateHash = sb_Hash,
     sk_IsNull = (\<lambda>b. b = []),
     sk_Equal = (=),
     sk_ErrorBlockInProgress = 4010\<rparr>"

lemma plain_ops_laws [simp]: "skipchain_laws plain_ops"
  by (simp add: skipchain_laws_def plain_ops_def)

lemma plain_ops_simps:
  "sk_SkipChainID plain_ops sb = (if sb_Index sb = 0 then sb_Hash sb else sb_GenesisID sb)"
  "sk_GetForwardLen plain_ops sb = int (length (sb_ForwardLink sb))"
  "sk_AddForward plain_ops sb fl = sb\<lparr>sb_ForwardLink := sb_ForwardLink sb @ [fl]\<rparr>"
  "sk_VerifySignature plain_ops fl pks = (if bl_Signature fl = [] then Err ''no signature'' else Ret ())"
  "sk_ErrorBlockInProgress plain_ops = 4010"
  by (simp_all add: plain_ops_def)

section \<open>Block contents\<close>

text \<open>\<open>pvss.PubVerShare\<close>: a public share and its proof, which only the pvss package reads.\<close>

record 'p PubVerShare =
  pvs_S :: "'p PubShare"
  pvs_P :: bytes

record 'p OTSWrite =
  ow_G :: 'p
  ow_SCPublicKeys :: "'p list"
  ow_EncShares :: "'p PubVerShare list"
  ow_EncProofs :: "'p list"
  ow_HashEnc :: bytes
  ow_ReaderPk :: 'p

record ('p, 's) DataOTSWrite =
  dow_Data :: "'p OTSWrite option"
  dow_Signature :: "'s SchnorrSig option"

record 'p DataOCSWrite =
  dw_Data :: bytes
  dw_U :: 'p
  dw_Cs :: "'p list"
  dw_Readers :: bytes

record ('p, 's) DataOCSReaders =
  dr_ID :: bytes
  dr_Readers :: "'p list"
  dr_Admins :: "'p list"
  dr_Threshold :: int
  dr_Signature :: "'s SchnorrSig option"

record ('p, 's) DataOCSRead =
  rd_DataID :: SkipBlockID
  rd_Public :: 'p
  rd_Signature :: "'s SchnorrSig option"

record ('p, 's) DataOCS =
  do_Write :: "'p DataOCSWrite option"
  do_Read :: "('p, 's) DataOCSRead option"
  do_Readers :: "('p, 's) DataOCSReaders option"
  do_OTSWrite :: "('p, 's) DataOTSWrite option"

definition empty_DataOCS :: "('p, 's) DataOCS" where
  "empty_DataOCS = \<lparr>do_Write = None, do_Read = None, do_Readers = None, do_OTSWrite = None\<rparr>"

record 'p ReadDoc =
  rdoc_Reader :: 'p
  rdoc_ReadID :: SkipBlockID
  rdoc_DataID :: SkipBlockID

record 'p SkipChainURL =
  scu_Roster :: "'p Roster option"
  scu_Genesis :: SkipBlockID

definition NewSkipChainURL :: "'p skipchain_ops \<Rightarrow> 'p SkipBlock \<Rightarrow> 'p SkipChainURL" where
  "NewSkipChainURL K sb = \<lparr>scu_Roster = sb_Roster sb, scu_Genesis = sk_SkipChainID K sb\<rparr>"

text \<open>The error codes \<open>iota + 4000\<close>.\<close>

definition ErrorParameter :: int where
  "ErrorParameter = 4000"

definition ErrorProtocol :: int where
  "ErrorProtocol = 4001"

section \<open>Decoding of block data\<close>

text \<open>
  A decoded network message, by the type the code asserts: block contents, a
  skipblock or something else.
\<close>

datatype ('p, 's) message =
  M_DataOCS "('p, 's) DataOCS" | M_SkipBlock "'p SkipBlock" | M_Other

text \<open>\<open>network.Unmarshal\<close>: an error, or a message that may be nil.\<close>

type_synonym ('p, 's) unmarshal = "bytes \<Rightarrow> (string, ('p, 's) message option) go"

definition NewDataOCS ::
  "('p, 's) unmarshal \<Rightarrow> bytes \<Rightarrow> (string, ('p, 's) DataOCS option) go" where
  "NewDataOCS unmarshal b =
    (case unmarshal b of
       Panic \<Rightarrow> Panic
     | Err _ \<Rightarrow> Ret None
     | Ret None \<Rightarrow> Ret None
     | Ret (Some (M_DataOCS dw)) \<Rightarrow> Ret (Some dw)
     | Ret (Some _) \<Rightarrow> Ret None)"

text \<open>\<open>DataOCS.String\<close>; \<open>fmtPoint\<close>, \<open>fmtNat\<close> and \<open>fmtHex\<close> are the verbs \<open>%s\<close>, \<open>%d\<close> and \<open>%x\<close>.\<close>

definition DataOCS_String ::
  "('p \<Rightarrow> string) \<Rightarrow> (nat \<Rightarrow> string) \<Rightarrow> (bytes \<Rightarrow> string) \<Rightarrow> ('p, 's) DataOCS option \<Rightarrow> string" where
  "DataOCS_String fmtPoint fmtNat fmtHex x =
    (case x of
       None \<Rightarrow> ''nil-pointer''
     | Some dw \<Rightarrow>
       (case do_Write dw of
          Some w \<Rightarrow> ''Write: data-length of '' @ fmtNat (length (dw_Data w))
        | None \<Rightarrow>
          (case do_Read dw of
             Some r \<Rightarrow> ''Read: '' @ fmtPoint (rd_Public r) @ '' read data '' @ fmtHex (rd_DataID r)
           | None \<Rightarrow> ''all nil DataOCS'')))"

text \<open>Decoding panics only where \<open>Unmarshal\<close> does, and yields contents only of its own type.\<close>

lemma NewDataOCS_Some:
  "NewDataOCS unmarshal b = Ret (Some d) \<longleftrightarrow> unmarshal b = Ret (Some (M_DataOCS d))"
  by (auto simp: NewDataOCS_def split: go.splits option.splits message.splits)

lemma NewDataOCS_not_Err [simp]: "NewDataOCS unmarshal b \<noteq> Err e"
  by (auto simp: NewDataOCS_def split: go.splits option.splits message.splits)

lemma NewDataOCS_Panic: "NewDataOCS unmarshal b = Panic \<longleftrightarrow> unmarshal b = Panic"
  by (auto simp: NewDataOCS_def split: go.splits option.splits message.splits)

section \<open>Requests and replies\<close>

record 'p CreateSkipchainsRequest =
  csr_Roster :: "'p Roster"

record 'p CreateSkipchainsReply =
  csy_OCS :: "'p SkipBlock"
  csy_X :: 'p

record ('p, 's) OTSWriteRequest =
  owr_Write :: "('p, 's) DataOTSWrite option"
  owr_Readers :: "('p, 's) DataOCSReaders option"
  owr_OCS :: SkipBlockID

record ('p, 's) WriteRequest =
  wr_Write :: "'p DataOCSWrite option"
  wr_Readers :: "('p, 's) DataOCSReaders option"
  wr_OCS :: SkipBlockID

record ('p, 's) ReadRequest =
  rq_Read :: "('p, 's) DataOCSRead option"
  rq_OCS :: SkipBlockID

record SharedPublicRequest =
  spr_Genesis :: SkipBlockID

record 'p SharedPublicReply =
  spy_X :: 'p

record DecryptKeyRequest =
  dkr_Read :: SkipBlockID

record 'p DecryptKeyReply =
  dky_Cs :: "'p list"
  dky_XhatEnc :: 'p
  dky_X :: 'p

record GetReadRequests =
  grr_Start :: SkipBlockID
  grr_Count :: int

record 'p GetReadRequestsReply =
  gry_Documents :: "'p ReadDoc list"

record 'p GetBunchReply =
  gby_Bunches :: "'p SkipBlock option list"

end
