(* ===== verification/Bunch.thy ===== *)
theory Bunch
  imports Ocs_Data
begin

text \<open>
  \<open>onchain-secrets/bunch.go\<close>: the blocks of one skipchain
  (\<open>SkipBlockBunch\<close>) and the bunches of all skipchains of a node
  (\<open>SBBStorage\<close>).

  Blocks are shared objects: a bunch holds pointers to them, \<open>Latest\<close> usually
  points to an entry of the map, and \<open>Store\<close> updates a known block in place.
  The model keeps them in an explicit heap, a list of blocks indexed by address;
  allocation appends. A bunch is reached only through its storage, under the key
  it was created with, so the key stands for the pointer to the bunch. A range
  over a Go map visits the keys in an unspecified order, which is an argument.
\<close>

type_synonym 'p heap = "'p SkipBlock list"

record SkipBlockBunch =
  sbb_GenesisID :: SkipBlockID
  sbb_Latest :: addr
  sbb_SkipBlocks :: "SkipBlockID \<rightharpoonup> addr"
  sbb_Parents :: "SkipBlockID \<rightharpoonup> SkipBlockID"

section \<open>Operations on one bunch\<close>

definition NewSkipBlockBunch :: "'p skipchain_ops \<Rightarrow> 'p heap \<Rightarrow> addr \<Rightarrow> SkipBlockBunch" where
  "NewSkipBlockBunch K h a =
    \<lparr>sbb_GenesisID = sk_SkipChainID K (h ! a), sbb_Latest = a,
     sbb_SkipBlocks = [sb_Hash (h ! a) \<mapsto> a], sbb_Parents = Map.empty\<rparr>"

definition Bunch_GetByID :: "SkipBlockBunch \<Rightarrow> SkipBlockID \<Rightarrow> addr option" where
  "Bunch_GetByID sbb sbID = sbb_SkipBlocks sbb sbID"

text \<open>
  The loop of \<open>Store\<close> over the new forward-links: each one is verified against the
  roster of the known block and added to it; a bad signature stops the loop and
  keeps the links added so far. The flag is false when a signature is wrong.
\<close>

fun add_forward_links ::
  "'p skipchain_ops \<Rightarrow> addr \<Rightarrow> BlockLink list \<Rightarrow> 'p heap \<Rightarrow> (string, bool \<times> 'p heap) go" where
  "add_forward_links K old [] h = Ret (True, h)"
| "add_forward_links K old (fl # fls) h =
    go_bind (deref (sb_Roster (h ! old))) (\<lambda>roster.
      case sk_VerifySignature K fl (Publics roster) of
        Panic \<Rightarrow> Panic
      | Err _ \<Rightarrow> Ret (False, h)
      | Ret _ \<Rightarrow> add_forward_links K old fls (h[old := sk_AddForward K (h ! old) fl]))"

text \<open>The last step of \<open>Store\<close> on a known block: the children it does not have yet.\<close>

definition add_children :: "addr \<Rightarrow> addr \<Rightarrow> 'p heap \<Rightarrow> 'p heap" where
  "add_children a old h =
    (let sb = h ! a; sbOld = h ! old in
     if length (sb_ChildSL sb) > length (sb_ChildSL sbOld)
     then h[old := sbOld\<lparr>sb_ChildSL := sb_ChildSL sbOld @
       drop (length (sb_ChildSL sbOld)) (sb_ChildSL sb)\<rparr>]
     else h)"

text \<open>\<open>Store\<close>; the result is the hash of the block, or nil.\<close>

definition Bunch_Store ::
  "'p skipchain_ops \<Rightarrow> 'p heap \<Rightarrow> SkipBlockBunch \<Rightarrow> addr \<Rightarrow>
    (string, SkipBlockID \<times> 'p heap \<times> SkipBlockBunch) go" where
  "Bunch_Store K h sbb a =
    (case sbb_SkipBlocks sbb (sb_Hash (h ! a)) of
       Some old \<Rightarrow>
         go_bind
           (if sk_GetForwardLen K (h ! a) > sk_GetForwardLen K (h ! old)
            then add_forward_links K old
              (drop (length (sb_ForwardLink (h ! old))) (sb_ForwardLink (h ! a))) h
            else Ret (True, h))
           (\<lambda>(ok, h').
             if \<not> ok then Ret ([], h', sbb)
             else (let h'' = add_children a old h' in Ret (sb_Hash (h'' ! a), h'', sbb)))
     | None \<Rightarrow>
         (let sbb1 = sbb\<lparr>sbb_SkipBlocks := (sbb_SkipBlocks sbb)(sb_Hash (h ! a) \<mapsto> a)\<rparr>;
              sbb2 = (if sb_Index (h ! a) > sb_Index (h ! sbb_Latest sbb1)
                      then sbb1\<lparr>sbb_Latest := a\<rparr> else sbb1) in
          Ret (sb_Hash (h ! a), h, sbb2)))"

definition Bunch_Length :: "SkipBlockBunch \<Rightarrow> int" where
  "Bunch_Length sbb = int (card (dom (sbb_SkipBlocks sbb)))"

text \<open>\<open>GetResponsible\<close>; nil makes the code panic.\<close>

definition GetResponsible ::
  "'p skipchain_ops \<Rightarrow> 'p heap \<Rightarrow> SkipBlockBunch \<Rightarrow> addr option \<Rightarrow> (string, addr) go" where
  "GetResponsible K h sbb sb =
    go_bind (deref sb) (\<lambda>a.
      if sb_Index (h ! a) = 0 then
        if sk_IsNull K (sb_ParentBlockID (h ! a)) then Ret a
        else
          (case Bunch_GetByID sbb (sb_ParentBlockID (h ! a)) of
             None \<Rightarrow> Err ''No Roster and no parent''
           | Some ret \<Rightarrow> Ret ret)
      else
        (case sb_BackLinkIDs (h ! a) of
           [] \<Rightarrow> Err ''Invalid block: no backlink''
         | b # _ \<Rightarrow>
           (case Bunch_GetByID sbb b of
              None \<Rightarrow> Err ''Didn't find responsible''
            | Some prev \<Rightarrow> Ret prev)))"

text \<open>
  \<open>VerifyLinks\<close>. A previous block without forward-links makes \<open>GetForward(0)\<close> nil,
  whose field the code reads.
\<close>

definition VerifyLinks ::
  "'p skipchain_ops \<Rightarrow> 'p heap \<Rightarrow> SkipBlockBunch \<Rightarrow> addr \<Rightarrow> (string, unit) go" where
  "VerifyLinks K h sbb a =
    (let sb = h ! a in
     if sb_BackLinkIDs sb = [] then Err ''need at least one backlink''
     else go_bind (go_err (\<lambda>e. ''Wrong signatures: '' @ e) (sk_VerifyForwardSignatures K sb)) (\<lambda>_.
       go_bind
         (if sk_IsNull K (sb_ParentBlockID sb) then Ret ()
          else
            (case Bunch_GetByID sbb (sb_ParentBlockID sb) of
               None \<Rightarrow> Err ''Didn't find parent''
             | Some parent \<Rightarrow>
               go_bind (sk_VerifyForwardSignatures K (h ! parent)) (\<lambda>_.
                 if list_ex (\<lambda>child. sk_Equal K child (sb_Hash sb)) (sb_ChildSL (h ! parent))
                 then Ret () else Err ''parent doesn't know about us'')))
         (\<lambda>_.
            if sb_Index sb = 0 then Ret ()
            else
              (case Bunch_GetByID sbb (hd (sb_BackLinkIDs sb)) of
                 None \<Rightarrow>
                   if sk_GetForwardLen K sb > 0 then Ret ()
                   else Err ''Didn't find height-0 skipblock in sbm''
               | Some back \<Rightarrow>
                   go_bind (sk_VerifyForwardSignatures K (h ! back)) (\<lambda>_.
                     go_bind (deref (sk_GetForward K (h ! back) 0)) (\<lambda>fl.
                       if sk_Equal K (bl_Hash fl) (sb_Hash sb) then Ret ()
                       else Err ''didn't find our block in forward-links''))))))"

text \<open>\<open>hex.EncodeToString\<close> and the verb \<open>%x\<close> of a byte slice.\<close>

definition hex_digit :: "byte \<Rightarrow> char" where
  "hex_digit d = ''0123456789abcdef'' ! unat d"

definition hex_EncodeToString :: "bytes \<Rightarrow> string" where
  "hex_EncodeToString bs = concat (map (\<lambda>b. [hex_digit (drop_bit 4 b), hex_digit (b AND 15)]) bs)"

text \<open>A range over the blocks of a bunch, in the order \<open>ord\<close> of the keys, that returns at a match.\<close>

definition find_block ::
  "'p heap \<Rightarrow> SkipBlockBunch \<Rightarrow> (string \<Rightarrow> bool) \<Rightarrow> SkipBlockID list \<Rightarrow> addr option" where
  "find_block h sbb P ord =
    find_map (\<lambda>k. case sbb_SkipBlocks sbb k of
        None \<Rightarrow> None
      | Some a \<Rightarrow> if P (hex_EncodeToString (sb_Hash (h ! a))) then Some a else None) ord"

definition Bunch_GetFuzzy ::
  "'p heap \<Rightarrow> SkipBlockBunch \<Rightarrow> string \<Rightarrow> SkipBlockID list \<Rightarrow> SkipBlockID list \<Rightarrow> SkipBlockID list \<Rightarrow>
    addr option" where
  "Bunch_GetFuzzy h sbb frag ord1 ord2 ord3 =
    (case find_block h sbb (\<lambda>s. prefix frag s) ord1 of
       Some a \<Rightarrow> Some a
     | None \<Rightarrow>
       (case find_block h sbb (\<lambda>s. suffix frag s) ord2 of
          Some a \<Rightarrow> Some a
        | None \<Rightarrow> find_block h sbb (\<lambda>s. sublist frag s) ord3))"

section \<open>Operations on the storage\<close>

record SBBStorage =
  sbs_Bunches :: "SkipBlockID \<rightharpoonup> SkipBlockBunch"

definition NewSBBStorage :: SBBStorage where
  "NewSBBStorage = \<lparr>sbs_Bunches = Map.empty\<rparr>"

text \<open>\<open>AddBunch\<close>: the key of the new bunch, or nil if the chain is known.\<close>

definition AddBunch ::
  "'p skipchain_ops \<Rightarrow> 'p heap \<Rightarrow> SBBStorage \<Rightarrow> addr \<Rightarrow> SkipBlockID option \<times> SBBStorage" where
  "AddBunch K h s a =
    (let k = sk_SkipChainID K (h ! a) in
     if sbs_Bunches s k \<noteq> None then (None, s)
     else (Some k, s\<lparr>sbs_Bunches := (sbs_Bunches s)(k \<mapsto> NewSkipBlockBunch K h a)\<rparr>))"

definition SBBStorage_Store ::
  "'p skipchain_ops \<Rightarrow> 'p heap \<Rightarrow> SBBStorage \<Rightarrow> addr \<Rightarrow> (string, 'p heap \<times> SBBStorage) go" where
  "SBBStorage_Store K h s a =
    (let k = sk_SkipChainID K (h ! a);
         bunch = (case sbs_Bunches s k of Some b \<Rightarrow> b | None \<Rightarrow> NewSkipBlockBunch K h a) in
     go_bind (Bunch_Store K h bunch a) (\<lambda>(_, h', bunch').
       Ret (h', s\<lparr>sbs_Bunches := (sbs_Bunches s)(k \<mapsto> bunch')\<rparr>)))"

definition SBBStorage_GetByID :: "SBBStorage \<Rightarrow> SkipBlockID list \<Rightarrow> SkipBlockID \<Rightarrow> addr option" where
  "SBBStorage_GetByID s ord bid =
    find_map (\<lambda>g. case sbs_Bunches s g of None \<Rightarrow> None | Some b \<Rightarrow> Bunch_GetByID b bid) ord"

text \<open>
  \<open>GetReg\<close>; \<open>compile\<close> is \<open>regexp.Compile\<close>, which returns the matcher. The order is
  that of the bunches, each with that of its blocks.
\<close>

definition GetReg ::
  "(string \<Rightarrow> (string \<Rightarrow> bool) option) \<Rightarrow> 'p heap \<Rightarrow> SBBStorage \<Rightarrow>
    (SkipBlockID \<times> SkipBlockID list) list \<Rightarrow> string \<Rightarrow> addr option" where
  "GetReg compile h s ord idRe =
    (case compile idRe of
       None \<Rightarrow> None
     | Some re \<Rightarrow>
       find_map (\<lambda>(g, ks). case sbs_Bunches s g of
           None \<Rightarrow> None | Some b \<Rightarrow> find_block h b re ks) ord)"

definition SBBStorage_GetFuzzy ::
  "(string \<Rightarrow> (string \<Rightarrow> bool) option) \<Rightarrow> 'p heap \<Rightarrow> SBBStorage \<Rightarrow>
    (SkipBlockID \<times> SkipBlockID list) list \<Rightarrow> string \<Rightarrow> addr option" where
  "SBBStorage_GetFuzzy compile h s ord frag =
    (case GetReg compile h s ord (''^'' @ frag) of
       Some sb \<Rightarrow> Some sb
     | None \<Rightarrow>
       (case GetReg compile h s ord (frag @ ''$'') of
          Some sb \<Rightarrow> Some sb
        | None \<Rightarrow> GetReg compile h s ord frag))"

definition GetBunch :: "SBBStorage \<Rightarrow> SkipBlockID \<Rightarrow> SkipBlockBunch option" where
  "GetBunch s genesis = sbs_Bunches s genesis"

definition GetFromGenesisByID :: "SBBStorage \<Rightarrow> SkipBlockID \<Rightarrow> SkipBlockID \<Rightarrow> addr option" where
  "GetFromGenesisByID s genesis bid =
    (case GetBunch s genesis of None \<Rightarrow> None | Some sbc \<Rightarrow> Bunch_GetByID sbc bid)"

definition GetLatest :: "SBBStorage \<Rightarrow> SkipBlockID \<Rightarrow> addr option" where
  "GetLatest s genesis =
    (case sbs_Bunches s genesis of Some b \<Rightarrow> Some (sbb_Latest b) | None \<Rightarrow> None)"

section \<open>What Store may change\<close>

text \<open>A block without its links to later blocks and to children: \<open>Store\<close> never changes it.\<close>

definition core :: "'p SkipBlock \<Rightarrow> 'p SkipBlock" where
  "core sb = sb\<lparr>sb_ForwardLink := [], sb_ChildSL := []\<rparr>"

lemma core_simps [simp]:
  "sb_Hash (core sb) = sb_Hash sb" "sb_Index (core sb) = sb_Index sb"
  "sb_BackLinkIDs (core sb) = sb_BackLinkIDs sb" "sb_ParentBlockID (core sb) = sb_ParentBlockID sb"
  "sb_GenesisID (core sb) = sb_GenesisID sb" "sb_Roster (core sb) = sb_Roster sb"
  "sb_Data (core sb) = sb_Data sb"
  "core (sb\<lparr>sb_ForwardLink := fls\<rparr>) = core sb" "core (sb\<lparr>sb_ChildSL := cs\<rparr>) = core sb"
  by (simp_all add: core_def)

lemma core_nth:
  assumes "map core h' = map core h" and "a < length h"
  shows "core (h' ! a) = core (h ! a)"
  using assms by (metis length_map nth_map)

lemma core_fields:
  assumes "core sb = core sb'"
  shows "sb_Hash sb = sb_Hash sb'" and "sb_Index sb = sb_Index sb'" and "sb_Roster sb = sb_Roster sb'"
    and "sb_Data sb = sb_Data sb'"
  using assms by (metis core_simps)+

lemma core_chain:
  assumes "skipchain_laws K" and "core sb = core sb'"
  shows "sk_SkipChainID K sb = sk_SkipChainID K sb'"
  using skipchain_lawsD(3) [OF assms(1), where fls = "[]" and cs = "[]"] assms(2) unfolding core_def by metis

lemma map_core_update:
  "core v = core (h ! a) \<Longrightarrow> map core (h[a := v]) = map core h"
  by (cases "a < length h") (simp_all add: map_update list_update_same_conv list_update_beyond)

lemma add_forward_links_spec:
  assumes "skipchain_laws K" and "old < length h"
    and "add_forward_links K old fls h = Ret (ok, h')"
  shows "map core h' = map core h \<and> (\<forall>b. b \<noteq> old \<longrightarrow> h' ! b = h ! b) \<and>
    sb_ChildSL (h' ! old) = sb_ChildSL (h ! old) \<and>
    (\<exists>n \<le> length fls. sb_ForwardLink (h' ! old) = sb_ForwardLink (h ! old) @ take n fls \<and>
      (ok \<longleftrightarrow> n = length fls))"
  using assms(2,3)
proof (induction fls arbitrary: h)
  case Nil
  then show ?case by auto
next
  case (Cons fl fls)
  from Cons.prems(2) obtain roster where roster: "sb_Roster (h ! old) = Some roster"
    by (auto simp: go_bind_eq_Ret deref_eq_Ret)
  show ?case
  proof (cases "sk_VerifySignature K fl (Publics roster)")
    case Panic
    then show ?thesis using Cons.prems(2) roster by simp
  next
    case (Err e)
    then show ?thesis using Cons.prems(2) roster by (auto intro!: exI [of _ 0])
  next
    case (Ret u)
    let ?h = "h[old := sk_AddForward K (h ! old) fl]"
    have h: "?h ! old = (h ! old)\<lparr>sb_ForwardLink := sb_ForwardLink (h ! old) @ [fl]\<rparr>"
      using Cons.prems(1) by (simp add: skipchain_lawsD(1) [OF assms(1)])
    have "add_forward_links K old fls ?h = Ret (ok, h')"
      using Ret roster Cons.prems(2) by auto
    with Cons.IH [of ?h] Cons.prems(1) obtain n where
      "map core h' = map core ?h" "\<forall>b. b \<noteq> old \<longrightarrow> h' ! b = ?h ! b"
      "sb_ChildSL (h' ! old) = sb_ChildSL (?h ! old)" "n \<le> length fls"
      "sb_ForwardLink (h' ! old) = sb_ForwardLink (?h ! old) @ take n fls" "ok \<longleftrightarrow> n = length fls"
      by auto
    moreover have "map core ?h = map core h"
      by (rule map_core_update) (simp add: skipchain_lawsD(1) [OF assms(1)])
    ultimately show ?thesis using h by (auto intro!: exI [of _ "Suc n"])
  qed
qed

text \<open>
  A known block after \<open>Store\<close>: its links only grow, and every added link comes
  from the block that was passed.
\<close>

definition extends :: "'a list \<Rightarrow> 'a list \<Rightarrow> 'a list \<Rightarrow> bool" where
  "extends old offered new \<longleftrightarrow>
    prefix old new \<and> length new \<le> max (length old) (length offered) \<and>
    (\<forall>i. length old \<le> i \<and> i < length new \<longrightarrow> new ! i = offered ! i)"

lemma extends_refl [simp]: "extends xs ys xs"
  by (auto simp: extends_def)

lemma extends_take:
  "length old \<le> length offered \<Longrightarrow> extends old offered (old @ take n (drop (length old) offered))"
  by (auto simp: extends_def nth_append)

lemma extends_drop:
  "length old \<le> length offered \<Longrightarrow> extends old offered (old @ drop (length old) offered)"
  using extends_take [of old offered "length offered"] by simp

lemma add_children_spec:
  assumes "old < length h"
  shows "map core (add_children a old h) = map core h" and "b \<noteq> old \<Longrightarrow> add_children a old h ! b = h ! b"
    and "sb_ForwardLink (add_children a old h ! old) = sb_ForwardLink (h ! old)"
    and "extends (sb_ChildSL (h ! old)) (sb_ChildSL (h ! a)) (sb_ChildSL (add_children a old h ! old))"
    and "length (sb_ChildSL (h ! a)) \<le> length (sb_ChildSL (add_children a old h ! old))"
  using assms map_core_update [of _ h old]
    extends_drop [of "sb_ChildSL (h ! old)" "sb_ChildSL (h ! a)"]
  by (simp_all add: add_children_def Let_def)

lemma Bunch_Store_known:
  assumes "skipchain_laws K" and "a < length h" and "old < length h"
    and "sbb_SkipBlocks sbb (sb_Hash (h ! a)) = Some old"
    and "Bunch_Store K h sbb a = Ret (r, h', sbb')"
  shows "sbb' = sbb" and "map core h' = map core h" and "\<forall>b. b \<noteq> old \<longrightarrow> h' ! b = h ! b"
    and "extends (sb_ForwardLink (h ! old)) (sb_ForwardLink (h ! a)) (sb_ForwardLink (h' ! old))"
    and "extends (sb_ChildSL (h ! old)) (sb_ChildSL (h ! a)) (sb_ChildSL (h' ! old))"
    and "r = [] \<or> r = sb_Hash (h ! a) \<and>
      length (sb_ForwardLink (h ! a)) \<le> length (sb_ForwardLink (h' ! old)) \<and>
      length (sb_ChildSL (h ! a)) \<le> length (sb_ChildSL (h' ! old))"
proof -
  let ?more = "sk_GetForwardLen K (h ! a) > sk_GetForwardLen K (h ! old)"
  let ?fls = "drop (length (sb_ForwardLink (h ! old))) (sb_ForwardLink (h ! a))"
  define m where "m = (if ?more then add_forward_links K old ?fls h else Ret (True, h))"
  have "Bunch_Store K h sbb a = go_bind m (\<lambda>(ok, h'). if \<not> ok then Ret ([], h', sbb)
      else (let h'' = add_children a old h' in Ret (sb_Hash (h'' ! a), h'', sbb)))"
    unfolding Bunch_Store_def m_def assms(4) option.case ..
  with assms(5) obtain ok h1 where step: "m = Ret (ok, h1)"
    and res: "(if \<not> ok then ([], h1, sbb)
      else (sb_Hash (add_children a old h1 ! a), add_children a old h1, sbb)) = (r, h', sbb')"
    by (cases m) (auto simp: Let_def split: if_splits)
  have l: "sk_GetForwardLen K sb = int (length (sb_ForwardLink sb))" for sb
    by (rule skipchain_lawsD(2) [OF assms(1)])
  have links: "map core h1 = map core h" "\<forall>b. b \<noteq> old \<longrightarrow> h1 ! b = h ! b"
    "sb_ChildSL (h1 ! old) = sb_ChildSL (h ! old)"
    "extends (sb_ForwardLink (h ! old)) (sb_ForwardLink (h ! a)) (sb_ForwardLink (h1 ! old))"
    "ok \<Longrightarrow> length (sb_ForwardLink (h ! a)) \<le> length (sb_ForwardLink (h1 ! old))"
    using step add_forward_links_spec [OF assms(1,3), of ?fls ok h1]
    by (auto simp: m_def l split: if_splits intro!: extends_take extends_drop)
  have len: "old < length h1" using links(1) assms(3) by (metis length_map)
  have child: "sb_ChildSL (h1 ! a) = sb_ChildSL (h ! a)"
    using links(2,3) by (cases "a = old") auto
  note kids = add_children_spec [OF len, where a = a]
  have hash: "sb_Hash (add_children a old h1 ! a) = sb_Hash (h ! a)"
    using core_nth [of "add_children a old h1" h a] kids(1) links(1) assms(2) core_fields(1) by metis
  have eqs: "sbb' = sbb" "h' = (if ok then add_children a old h1 else h1)"
    "r = (if ok then sb_Hash (add_children a old h1 ! a) else [])"
    using res by (auto split: if_splits)
  show "sbb' = sbb" by (rule eqs(1))
  show "map core h' = map core h" using eqs(2) links(1) kids(1) by simp
  show "\<forall>b. b \<noteq> old \<longrightarrow> h' ! b = h ! b" using eqs(2) links(2) kids(2) by simp
  show "extends (sb_ForwardLink (h ! old)) (sb_ForwardLink (h ! a)) (sb_ForwardLink (h' ! old))"
    using eqs(2) links(4) kids(3) by simp
  show "extends (sb_ChildSL (h ! old)) (sb_ChildSL (h ! a)) (sb_ChildSL (h' ! old))"
    using eqs(2) links(3) child kids(4) by simp
  show "r = [] \<or> r = sb_Hash (h ! a) \<and>
      length (sb_ForwardLink (h ! a)) \<le> length (sb_ForwardLink (h' ! old)) \<and>
      length (sb_ChildSL (h ! a)) \<le> length (sb_ChildSL (h' ! old))"
    using eqs links(5) kids(3,5) hash child by simp
qed

section \<open>The invariant of a bunch\<close>

text \<open>
  Every entry of the map is filed under the hash of its block, and \<open>Latest\<close> is a
  block of the highest index, with a copy in the map.
\<close>

definition bunch_ok :: "'p heap \<Rightarrow> SkipBlockBunch \<Rightarrow> bool" where
  "bunch_ok h sbb \<longleftrightarrow>
    finite (dom (sbb_SkipBlocks sbb)) \<and>
    (\<forall>k a. sbb_SkipBlocks sbb k = Some a \<longrightarrow>
      a < length h \<and> sb_Hash (h ! a) = k \<and> sb_Index (h ! a) \<le> sb_Index (h ! sbb_Latest sbb)) \<and>
    sbb_Latest sbb < length h \<and>
    (\<exists>a. sbb_SkipBlocks sbb (sb_Hash (h ! sbb_Latest sbb)) = Some a \<and>
      sb_Index (h ! a) = sb_Index (h ! sbb_Latest sbb))"

lemma bunch_okD:
  assumes "bunch_ok h sbb" and "sbb_SkipBlocks sbb k = Some a"
  shows "a < length h" and "sb_Hash (h ! a) = k" and "sb_Index (h ! a) \<le> sb_Index (h ! sbb_Latest sbb)"
  using assms by (auto simp: bunch_ok_def)

lemma bunch_ok_heap:
  assumes "bunch_ok h sbb" and "map core h' = map core h"
  shows "bunch_ok h' sbb"
proof -
  have len: "length h' = length h" using assms(2) by (metis length_map)
  have eq: "sb_Hash (h' ! a) = sb_Hash (h ! a)" "sb_Index (h' ! a) = sb_Index (h ! a)" if "a < length h" for a
    using core_nth [OF assms(2) that] core_fields by blast+
  show ?thesis
    using assms(1) eq len unfolding bunch_ok_def by auto
qed

lemma bunch_ok_alloc:
  assumes "bunch_ok h sbb"
  shows "bunch_ok (h @ [sb]) sbb"
  using assms unfolding bunch_ok_def by (auto simp: nth_append less_Suc_eq)

lemma NewSkipBlockBunch_ok: "a < length h \<Longrightarrow> bunch_ok h (NewSkipBlockBunch K h a)"
  by (auto simp: bunch_ok_def NewSkipBlockBunch_def)

lemma Bunch_Store_new:
  assumes "sbb_SkipBlocks sbb (sb_Hash (h ! a)) = None" and "Bunch_Store K h sbb a = Ret (r, h', sbb')"
  shows "r = sb_Hash (h ! a)" and "h' = h"
    and "sbb_SkipBlocks sbb' = (sbb_SkipBlocks sbb)(sb_Hash (h ! a) \<mapsto> a)"
    and "sbb_Latest sbb' = (if sb_Index (h ! a) > sb_Index (h ! sbb_Latest sbb) then a else sbb_Latest sbb)"
    and "sbb_GenesisID sbb' = sbb_GenesisID sbb"
  using assms by (auto simp: Bunch_Store_def Let_def split: if_splits)

lemma Bunch_Store_GenesisID:
  assumes "Bunch_Store K h sbb a = Ret (r, h', sbb')"
  shows "sbb_GenesisID sbb' = sbb_GenesisID sbb"
proof (cases "sbb_SkipBlocks sbb (sb_Hash (h ! a))")
  case None
  then show ?thesis using Bunch_Store_new(5) assms by blast
next
  case (Some old)
  then show ?thesis
    using assms by (auto simp: Bunch_Store_def go_bind_eq_Ret Let_def split: if_splits)
qed

lemma Bunch_Store_new_ok:
  assumes "bunch_ok h sbb" and "a < length h" and "sbb_SkipBlocks sbb (sb_Hash (h ! a)) = None"
    and "Bunch_Store K h sbb a = Ret (r, h', sbb')"
  shows "bunch_ok h sbb'"
proof -
  note new = Bunch_Store_new [OF assms(3,4)]
  have "sb_Index (h ! b) \<le> sb_Index (h ! sbb_Latest sbb')" if "sbb_SkipBlocks sbb' k = Some b" for k b
    using that new(3,4) bunch_okD(3) [OF assms(1)] by (force split: if_splits)
  moreover have "\<exists>b. sbb_SkipBlocks sbb' (sb_Hash (h ! sbb_Latest sbb')) = Some b \<and>
      sb_Index (h ! b) = sb_Index (h ! sbb_Latest sbb')"
    using assms(1,3) new(3,4) by (auto simp: bunch_ok_def)
  ultimately show ?thesis
    using assms(1,2) new(3,4) by (auto simp: bunch_ok_def)
qed

text \<open>What \<open>Store\<close> does to the heap and the map, known or new block alike.\<close>

lemma Bunch_Store_effect:
  assumes "skipchain_laws K" and "bunch_ok h sbb" and "a < length h" and sb: "h ! a = sb"
    and "Bunch_Store K h sbb a = Ret (r, h', sbb')"
  shows "map core h' = map core h \<and>
    (\<forall>b. sbb_SkipBlocks sbb (sb_Hash sb) \<noteq> Some b \<longrightarrow> h' ! b = h ! b) \<and>
    sbb_SkipBlocks sbb' = (case sbb_SkipBlocks sbb (sb_Hash sb) of
      None \<Rightarrow> (sbb_SkipBlocks sbb)(sb_Hash sb \<mapsto> a) | Some _ \<Rightarrow> sbb_SkipBlocks sbb) \<and>
    bunch_ok h' sbb' \<and>
    sb_Index (h' ! sbb_Latest sbb') = (case sbb_SkipBlocks sbb (sb_Hash sb) of
      None \<Rightarrow> max (sb_Index (h ! sbb_Latest sbb)) (sb_Index sb)
    | Some _ \<Rightarrow> sb_Index (h ! sbb_Latest sbb))"
proof (cases "sbb_SkipBlocks sbb (sb_Hash sb)")
  case None
  then have None': "sbb_SkipBlocks sbb (sb_Hash (h ! a)) = None" using sb by simp
  then show ?thesis
    using Bunch_Store_new [OF None' assms(5)] Bunch_Store_new_ok [OF assms(2,3) None' assms(5)] sb None by simp
next
  case (Some old)
  then have Some': "sbb_SkipBlocks sbb (sb_Hash (h ! a)) = Some old" using sb by simp
  note known = Bunch_Store_known [OF assms(1,3) bunch_okD(1) [OF assms(2) Some] Some' assms(5)]
  have "sbb_Latest sbb < length h" using assms(2) by (simp add: bunch_ok_def)
  then have "sb_Index (h' ! sbb_Latest sbb) = sb_Index (h ! sbb_Latest sbb)"
    using core_nth [OF known(2)] core_fields(2) by blast
  then show ?thesis
    using Some known(1,2,3) bunch_ok_heap [OF assms(2) known(2)] by auto
qed

section \<open>The contract of a block store\<close>

text \<open>
  What the service relies on: a stored block can be looked up under its key, the
  first block stored under a key stays there up to its links, and no other entry
  changes.
\<close>

locale block_store =
  fixes inv :: "'st \<Rightarrow> bool"
    and lookup :: "'st \<Rightarrow> 'k \<Rightarrow> 'p SkipBlock option"
    and key :: "'st \<Rightarrow> 'p SkipBlock \<Rightarrow> 'k"
    and store :: "'st \<Rightarrow> 'p SkipBlock \<Rightarrow> (string, 'st) go"
  assumes store_inv: "inv st \<Longrightarrow> store st sb = Ret st' \<Longrightarrow> inv st'"
    and store_key: "store st sb = Ret st' \<Longrightarrow> key st' = key st"
    and store_lookup: "inv st \<Longrightarrow> store st sb = Ret st' \<Longrightarrow>
      map_option core (lookup st' (key st sb))
        = Some (core (case lookup st (key st sb) of None \<Rightarrow> sb | Some old \<Rightarrow> old))"
    and store_other: "inv st \<Longrightarrow> store st sb = Ret st' \<Longrightarrow> k \<noteq> key st sb \<Longrightarrow> lookup st' k = lookup st k"
begin

lemma store_mono:
  assumes "inv st" and "store st sb = Ret st'" and "lookup st k = Some b"
  shows "map_option core (lookup st' k) = Some (core b)"
  using store_lookup [OF assms(1,2)] store_other [OF assms(1,2), of k] assms(3)
  by (cases "k = key st sb") auto

lemma store_all_mono:
  assumes "inv st" and "go_fold (\<lambda>sb st. store st sb) sbs st = Ret st'" and "lookup st k = Some b"
  shows "map_option core (lookup st' k) = Some (core b)"
  using assms
proof (induction sbs arbitrary: st b)
  case (Cons sb sbs)
  then obtain st1 where 1: "store st sb = Ret st1" "go_fold (\<lambda>sb st. store st sb) sbs st1 = Ret st'"
    by (auto simp: go_bind_eq_Ret)
  with Cons.prems store_mono obtain b1 where "lookup st1 k = Some b1" "core b1 = core b" by blast
  with Cons.IH [OF store_inv [OF Cons.prems(1) 1(1)] 1(2)] show ?case by metis
qed simp

lemma store_all_inv:
  assumes "inv st" and "go_fold (\<lambda>sb st. store st sb) sbs st = Ret st'"
  shows "inv st' \<and> key st' = key st"
  using assms
proof (induction sbs arbitrary: st)
  case (Cons sb sbs)
  then obtain st1 where "store st sb = Ret st1" "go_fold (\<lambda>sb st. store st sb) sbs st1 = Ret st'"
    by (auto simp: go_bind_eq_Ret)
  with Cons.IH [of st1] Cons.prems(1) store_inv store_key show ?case by metis
qed simp

text \<open>
  A sequence of stores makes every one of its blocks available, in whatever order
  they come, as long as no two blocks with different contents have the same key.
\<close>

lemma store_all_lookup:
  assumes "inv st" and "go_fold (\<lambda>sb st. store st sb) sbs st = Ret st'" and "sb \<in> set sbs"
    and "\<And>sb'. sb' \<in> set sbs \<Longrightarrow> key st sb' = key st sb \<Longrightarrow> core sb' = core sb"
    and "\<And>b. lookup st (key st sb) = Some b \<Longrightarrow> core b = core sb"
  shows "map_option core (lookup st' (key st sb)) = Some (core sb)"
  using assms
proof (induction sbs arbitrary: st)
  case (Cons x sbs)
  from Cons.prems(2) obtain st1
    where 1: "store st x = Ret st1" "go_fold (\<lambda>sb st. store st sb) sbs st1 = Ret st'"
    by (auto simp: go_bind_eq_Ret)
  note inv1 = store_inv [OF Cons.prems(1) 1(1)] and key1 = store_key [OF 1(1)]
  have new: "map_option core (lookup st1 (key st sb)) = Some (core sb)" if "key st x = key st sb"
    using store_lookup [OF Cons.prems(1) 1(1)] that Cons.prems(4) [of x] Cons.prems(5)
    by (auto split: option.splits)
  show ?case
  proof (cases "key st x = key st sb")
    case True
    then obtain b where "lookup st1 (key st sb) = Some b" "core b = core sb" using new by auto
    then show ?thesis using store_all_mono [OF inv1 1(2)] by metis
  next
    case False
    then have "lookup st1 (key st sb) = lookup st (key st sb)"
      using store_other [OF Cons.prems(1) 1(1)] by metis
    then show ?thesis
      using Cons.IH [OF inv1 1(2)] Cons.prems(3,4,5) False key1 by (metis set_ConsD list.set_intros(2))
  qed
qed simp

end

text \<open>Storing a block value: the block is allocated, then stored.\<close>

type_synonym 'p bunch_st = "'p skipchain_ops \<times> 'p heap \<times> SkipBlockBunch"
type_synonym 'p storage_st = "'p skipchain_ops \<times> 'p heap \<times> SBBStorage"

fun bunch_inv :: "'p bunch_st \<Rightarrow> bool" where
  "bunch_inv (K, h, sbb) \<longleftrightarrow> skipchain_laws K \<and> bunch_ok h sbb"

fun bunch_lookup :: "'p bunch_st \<Rightarrow> SkipBlockID \<Rightarrow> 'p SkipBlock option" where
  "bunch_lookup (K, h, sbb) k = map_option ((!) h) (Bunch_GetByID sbb k)"

fun bunch_store :: "'p bunch_st \<Rightarrow> 'p SkipBlock \<Rightarrow> (string, 'p bunch_st) go" where
  "bunch_store (K, h, sbb) sb =
    go_bind (Bunch_Store K (h @ [sb]) sbb (length h)) (\<lambda>(r, h', sbb'). Ret (K, h', sbb'))"

lemma bunch_lookup_other:
  assumes "bunch_ok h sbb" and "\<forall>b. sbb_SkipBlocks sbb k \<noteq> Some b \<longrightarrow> h' ! b = (h @ [sb]) ! b"
    and "sbb_SkipBlocks sbb k' = Some a'" and "k' \<noteq> k"
  shows "h' ! a' = h ! a'"
proof -
  have "sbb_SkipBlocks sbb k \<noteq> Some a'" and "a' < length h"
    using bunch_okD(1) [OF assms(1,3)] bunch_okD(2) [OF assms(1)] assms(3,4) by blast+
  then show ?thesis using assms(2) by (simp add: nth_append)
qed

lemma bunch_lookup_stored:
  assumes "bunch_ok h sbb" and "map core h' = map core (h @ [sb])"
    and "blocks' = (case sbb_SkipBlocks sbb (sb_Hash sb) of
      None \<Rightarrow> (sbb_SkipBlocks sbb)(sb_Hash sb \<mapsto> length h) | Some _ \<Rightarrow> sbb_SkipBlocks sbb)"
  shows "map_option core (map_option ((!) h') (blocks' (sb_Hash sb)))
    = Some (core (case map_option ((!) h) (sbb_SkipBlocks sbb (sb_Hash sb)) of None \<Rightarrow> sb | Some old \<Rightarrow> old))"
proof (cases "sbb_SkipBlocks sbb (sb_Hash sb)")
  case None
  then show ?thesis using assms(3) core_nth [OF assms(2), of "length h"] by simp
next
  case (Some a)
  then have "a < length h" using bunch_okD(1) [OF assms(1)] by blast
  then show ?thesis
    using assms(3) Some core_nth [OF assms(2), of a] by (simp add: nth_append)
qed

interpretation bunch: block_store bunch_inv bunch_lookup "\<lambda>_. sb_Hash" bunch_store
proof unfold_locales
  fix st st' :: "'p bunch_st" and sb :: "'p SkipBlock"
  assume inv: "bunch_inv st" and store: "bunch_store st sb = Ret st'"
  obtain K h sbb where st: "st = (K, h, sbb)" by (cases st)
  then obtain r h' sbb' where eq: "Bunch_Store K (h @ [sb]) sbb (length h) = Ret (r, h', sbb')"
    and st': "st' = (K, h', sbb')"
    using store by (auto simp: go_bind_eq_Ret)
  have K: "skipchain_laws K" and ok: "bunch_ok h sbb" using inv st by simp_all
  note e = Bunch_Store_effect [OF K bunch_ok_alloc [OF ok] _ nth_append_length eq, simplified]
  show "bunch_inv st'" using e K st' by simp
  show "map_option core (bunch_lookup st' (sb_Hash sb))
      = Some (core (case bunch_lookup st (sb_Hash sb) of None \<Rightarrow> sb | Some old \<Rightarrow> old))"
    using bunch_lookup_stored [OF ok, of h' sb "sbb_SkipBlocks sbb'"] e
    unfolding st st' bunch_lookup.simps Bunch_GetByID_def by simp
  show "bunch_lookup st' k = bunch_lookup st k" if "k \<noteq> sb_Hash sb" for k
  proof -
    have "sbb_SkipBlocks sbb' k = sbb_SkipBlocks sbb k"
      using conjunct1 [OF conjunct2 [OF conjunct2 [OF e]]] that by (simp split: option.splits)
    moreover have "h' ! a = h ! a" if "sbb_SkipBlocks sbb k = Some a" for a
      using bunch_lookup_other [OF ok _ that \<open>k \<noteq> sb_Hash sb\<close>] e by blast
    ultimately show ?thesis
      unfolding st st' bunch_lookup.simps Bunch_GetByID_def by (cases "sbb_SkipBlocks sbb k") simp_all
  qed
qed simp

section \<open>The invariant of the storage\<close>

text \<open>Every bunch is well-formed and holds blocks of the chain it is filed under.\<close>

definition storage_ok :: "'p skipchain_ops \<Rightarrow> 'p heap \<Rightarrow> SBBStorage \<Rightarrow> bool" where
  "storage_ok K h s \<longleftrightarrow>
    (\<forall>g b. sbs_Bunches s g = Some b \<longrightarrow>
      bunch_ok h b \<and> sbb_GenesisID b = g \<and>
      (\<forall>k a. sbb_SkipBlocks b k = Some a \<longrightarrow> sk_SkipChainID K (h ! a) = g))"

lemma storage_okD:
  assumes "storage_ok K h s" and "sbs_Bunches s g = Some b"
  shows "bunch_ok h b" and "sbb_GenesisID b = g"
    and "sbb_SkipBlocks b k = Some a \<Longrightarrow> sk_SkipChainID K (h ! a) = g"
  using assms by (auto simp: storage_ok_def)

lemma storage_ok_alloc:
  assumes "storage_ok K h s"
  shows "storage_ok K (h @ [sb]) s"
  using assms bunch_ok_alloc bunch_okD(1) unfolding storage_ok_def by (fastforce simp: nth_append)

lemma NewSBBStorage_ok: "storage_ok K h NewSBBStorage"
  by (simp add: storage_ok_def NewSBBStorage_def)

definition bunch_of :: "'p skipchain_ops \<Rightarrow> 'p heap \<Rightarrow> SBBStorage \<Rightarrow> addr \<Rightarrow> SkipBlockBunch" where
  "bunch_of K h s a =
    (case sbs_Bunches s (sk_SkipChainID K (h ! a)) of Some b \<Rightarrow> b | None \<Rightarrow> NewSkipBlockBunch K h a)"

lemma bunch_of_ok:
  assumes "storage_ok K h s" and "a < length h"
  shows "bunch_ok h (bunch_of K h s a)" and "sbb_GenesisID (bunch_of K h s a) = sk_SkipChainID K (h ! a)"
    and "sbb_SkipBlocks (bunch_of K h s a) k = Some b \<Longrightarrow> sk_SkipChainID K (h ! b) = sk_SkipChainID K (h ! a)"
  using assms NewSkipBlockBunch_ok [of a h K] storage_okD [OF assms(1)]
  by (auto simp: bunch_of_def NewSkipBlockBunch_def split: option.splits if_splits)

lemma SBBStorage_Store_unfold:
  assumes "SBBStorage_Store K h s a = Ret (h', s')"
  obtains r b' where "Bunch_Store K h (bunch_of K h s a) a = Ret (r, h', b')"
    and "s' = s\<lparr>sbs_Bunches := (sbs_Bunches s)(sk_SkipChainID K (h ! a) \<mapsto> b')\<rparr>"
  using assms unfolding SBBStorage_Store_def Let_def bunch_of_def [symmetric]
  by (auto simp: go_bind_eq_Ret)

text \<open>The invariant after one bunch is updated by a store.\<close>

lemma storage_ok_update:
  assumes "skipchain_laws K" and "storage_ok K h s" and "map core h' = map core h"
    and "bunch_ok h' b'" and "sbb_GenesisID b' = g"
    and "\<And>k a. sbb_SkipBlocks b' k = Some a \<Longrightarrow> sk_SkipChainID K (h ! a) = g"
  shows "storage_ok K h' (s\<lparr>sbs_Bunches := (sbs_Bunches s)(g \<mapsto> b')\<rparr>)"
proof -
  have len: "length h' = length h" using assms(3) by (metis length_map)
  have chain: "sk_SkipChainID K (h' ! a) = sk_SkipChainID K (h ! a)" if "a < length h" for a
    using core_chain [OF assms(1) core_nth [OF assms(3) that]] .
  have "bunch_ok h' b \<and> sbb_GenesisID b = x \<and>
      (\<forall>k a. sbb_SkipBlocks b k = Some a \<longrightarrow> sk_SkipChainID K (h' ! a) = x)"
    if "((sbs_Bunches s)(g \<mapsto> b')) x = Some b" for x b
  proof (cases "x = g")
    case True
    then show ?thesis using that assms(4,5,6) chain len bunch_okD(1) [OF assms(4)] by auto
  next
    case False
    then have b: "sbs_Bunches s x = Some b" using that by simp
    show ?thesis
      using storage_okD [OF assms(2) b] bunch_ok_heap [OF _ assms(3)] chain bunch_okD(1) by metis
  qed
  then show ?thesis by (simp add: storage_ok_def)
qed

lemma Bunch_Store_chain:
  assumes "skipchain_laws K" and "bunch_ok h sbb" and "a < length h" and "h ! a = sb"
    and "Bunch_Store K h sbb a = Ret (r, h', sbb')"
    and "\<And>k b. sbb_SkipBlocks sbb k = Some b \<Longrightarrow> sk_SkipChainID K (h ! b) = g"
    and "sk_SkipChainID K sb = g" and "sbb_SkipBlocks sbb' k = Some b"
  shows "sk_SkipChainID K (h ! b) = g"
  using Bunch_Store_effect [OF assms(1-5)] assms(4,6,7,8) by (auto split: option.splits if_splits)

lemma SBBStorage_Store_ok:
  assumes "skipchain_laws K" and "storage_ok K h s" and "a < length h"
    and "SBBStorage_Store K h s a = Ret (h', s')"
  shows "storage_ok K h' s'"
proof -
  obtain r b' where b': "Bunch_Store K h (bunch_of K h s a) a = Ret (r, h', b')"
    and s': "s' = s\<lparr>sbs_Bunches := (sbs_Bunches s)(sk_SkipChainID K (h ! a) \<mapsto> b')\<rparr>"
    using SBBStorage_Store_unfold [OF assms(4)] .
  note of = bunch_of_ok [OF assms(2,3)]
  note e = Bunch_Store_effect [OF assms(1) of(1) assms(3) refl b']
  show ?thesis
    unfolding s'
    by (rule storage_ok_update [OF assms(1,2)])
      (use e Bunch_Store_GenesisID [OF b'] of(2)
        Bunch_Store_chain [OF assms(1) of(1) assms(3) refl b' of(3) refl] in auto)
qed

fun storage_inv :: "'p storage_st \<Rightarrow> bool" where
  "storage_inv (K, h, s) \<longleftrightarrow> skipchain_laws K \<and> storage_ok K h s"

fun storage_lookup :: "'p storage_st \<Rightarrow> SkipBlockID \<times> SkipBlockID \<Rightarrow> 'p SkipBlock option" where
  "storage_lookup (K, h, s) (g, k) = map_option ((!) h) (GetFromGenesisByID s g k)"

fun storage_key :: "'p storage_st \<Rightarrow> 'p SkipBlock \<Rightarrow> SkipBlockID \<times> SkipBlockID" where
  "storage_key (K, h, s) sb = (sk_SkipChainID K sb, sb_Hash sb)"

fun storage_store :: "'p storage_st \<Rightarrow> 'p SkipBlock \<Rightarrow> (string, 'p storage_st) go" where
  "storage_store (K, h, s) sb =
    go_bind (SBBStorage_Store K (h @ [sb]) s (length h)) (\<lambda>(h', s'). Ret (K, h', s'))"

lemma storage_store_unfold:
  assumes "storage_inv (K, h, s)" and "storage_store (K, h, s) sb = Ret st'"
  obtains r h' b b' where "st' = (K, h', s\<lparr>sbs_Bunches := (sbs_Bunches s)(sk_SkipChainID K sb \<mapsto> b')\<rparr>)"
    and "bunch_ok (h @ [sb]) b" and "Bunch_Store K (h @ [sb]) b (length h) = Ret (r, h', b')"
    and "b = (case sbs_Bunches s (sk_SkipChainID K sb) of Some b \<Rightarrow> b
      | None \<Rightarrow> NewSkipBlockBunch K (h @ [sb]) (length h))"
    and "\<And>k a. sbb_SkipBlocks b k = Some a \<Longrightarrow> sk_SkipChainID K ((h @ [sb]) ! a) = sk_SkipChainID K sb"
    and "skipchain_laws K" and "storage_ok K h s"
proof -
  have K: "skipchain_laws K" and ok: "storage_ok K h s" using assms(1) by simp_all
  from assms(2) obtain h' s' where st: "SBBStorage_Store K (h @ [sb]) s (length h) = Ret (h', s')"
    and st': "st' = (K, h', s')"
    by (auto simp: go_bind_eq_Ret)
  from SBBStorage_Store_unfold [OF st] obtain r b'
    where b': "Bunch_Store K (h @ [sb]) (bunch_of K (h @ [sb]) s (length h)) (length h) = Ret (r, h', b')"
      and s': "s' = s\<lparr>sbs_Bunches := (sbs_Bunches s)(sk_SkipChainID K sb \<mapsto> b')\<rparr>"
    unfolding nth_append_length .
  have len: "length h < length (h @ [sb])" by simp
  note of = bunch_of_ok [OF storage_ok_alloc [OF ok] len, unfolded nth_append_length]
  show ?thesis
    using that [OF _ of(1) b' _ of(3) K ok] st' s' by (simp add: bunch_of_def)
qed

lemma storage_lookup_same_chain:
  "storage_lookup (K, h, s\<lparr>sbs_Bunches := (sbs_Bunches s)(g \<mapsto> b)\<rparr>) (g, k) = map_option ((!) h) (sbb_SkipBlocks b k)"
  "g' \<noteq> g \<Longrightarrow> storage_lookup (K, h, s\<lparr>sbs_Bunches := (sbs_Bunches s)(g \<mapsto> b)\<rparr>) (g', k)
    = map_option ((!) h) (case sbs_Bunches s g' of None \<Rightarrow> None | Some b \<Rightarrow> sbb_SkipBlocks b k)"
  "storage_lookup (K, h, s) (g, k)
    = map_option ((!) h) (case sbs_Bunches s g of None \<Rightarrow> None | Some b \<Rightarrow> sbb_SkipBlocks b k)"
  by (simp_all add: GetFromGenesisByID_def GetBunch_def Bunch_GetByID_def split: option.splits)

lemma storage_store_other:
  assumes "storage_inv (K, h, s)" and "storage_store (K, h, s) sb = Ret st'"
    and "(g, k) \<noteq> (sk_SkipChainID K sb, sb_Hash sb)"
  shows "storage_lookup st' (g, k) = storage_lookup (K, h, s) (g, k)"
proof -
  let ?g = "sk_SkipChainID K sb" and ?h = "h @ [sb]"
  obtain r h' b b' where st': "st' = (K, h', s\<lparr>sbs_Bunches := (sbs_Bunches s)(?g \<mapsto> b')\<rparr>)"
    and b: "bunch_ok ?h b" "Bunch_Store K ?h b (length h) = Ret (r, h', b')"
      "b = (case sbs_Bunches s ?g of Some b \<Rightarrow> b | None \<Rightarrow> NewSkipBlockBunch K ?h (length h))"
      "\<And>k a. sbb_SkipBlocks b k = Some a \<Longrightarrow> sk_SkipChainID K (?h ! a) = ?g"
    and K: "skipchain_laws K" and ok: "storage_ok K h s"
    by (rule storage_store_unfold [OF assms(1,2)]) blast
  note e = Bunch_Store_effect [OF K b(1) _ nth_append_length b(2), simplified]
  have same: "h' ! a = h ! a" if "sbb_SkipBlocks b (sb_Hash sb) \<noteq> Some a" "a < length h" for a
    using e that by (simp add: nth_append)
  have old: "x < length h \<and> (g = ?g \<longrightarrow> sbb_SkipBlocks b k = Some x \<and> k \<noteq> sb_Hash sb) \<and>
      sk_SkipChainID K (h ! x) = g \<and> sb_Hash (h ! x) = k"
    if "sbs_Bunches s g = Some c" "sbb_SkipBlocks c k = Some x" for c x
    using storage_okD [OF ok that(1)] bunch_okD(1,2) [of h c k x] that b(3) assms(3) by auto
  have unchanged: "h' ! x = h ! x" if "sbs_Bunches s g = Some c" "sbb_SkipBlocks c k = Some x" for c x
  proof (rule same)
    show "sbb_SkipBlocks b (sb_Hash sb) \<noteq> Some x"
      using old [OF that] b(4) [of "sb_Hash sb" x] bunch_okD(2) [OF b(1), of "sb_Hash sb" x]
      by (auto simp: nth_append)
  qed (use old [OF that] in simp)
  have "sbb_SkipBlocks b' k = (case sbs_Bunches s ?g of None \<Rightarrow> None | Some c \<Rightarrow> sbb_SkipBlocks c k)"
    if "g = ?g"
    using e b(3) that assms(3) by (auto simp: NewSkipBlockBunch_def split: option.splits)
  then have "storage_lookup st' (g, k)
      = map_option ((!) h') (case sbs_Bunches s g of None \<Rightarrow> None | Some c \<Rightarrow> sbb_SkipBlocks c k)"
    unfolding st' by (cases "g = ?g") (simp_all del: storage_lookup.simps add: storage_lookup_same_chain(3))
  then show ?thesis
    unfolding storage_lookup_same_chain(3) using unchanged
    by (cases "sbs_Bunches s g") (auto intro!: option.map_cong)
qed

lemma storage_store_lookup:
  assumes "storage_inv (K, h, s)" and "storage_store (K, h, s) sb = Ret st'"
  shows "map_option core (storage_lookup st' (sk_SkipChainID K sb, sb_Hash sb)) = Some (core
    (case storage_lookup (K, h, s) (sk_SkipChainID K sb, sb_Hash sb) of None \<Rightarrow> sb | Some old \<Rightarrow> old))"
proof -
  let ?g = "sk_SkipChainID K sb" and ?h = "h @ [sb]"
  obtain r h' b b' where st': "st' = (K, h', s\<lparr>sbs_Bunches := (sbs_Bunches s)(?g \<mapsto> b')\<rparr>)"
    and b: "bunch_ok ?h b" "Bunch_Store K ?h b (length h) = Ret (r, h', b')"
      "b = (case sbs_Bunches s ?g of Some b \<Rightarrow> b | None \<Rightarrow> NewSkipBlockBunch K ?h (length h))"
    and K: "skipchain_laws K" and ok: "storage_ok K h s"
    using storage_store_unfold [OF assms(1,2)] by metis
  note e = Bunch_Store_effect [OF K b(1) _ nth_append_length b(2), simplified]
  have lk: "storage_lookup st' (?g, sb_Hash sb) = map_option ((!) h') (sbb_SkipBlocks b' (sb_Hash sb))"
    unfolding st' by (rule storage_lookup_same_chain)
  show ?thesis
  proof (cases "sbs_Bunches s ?g")
    case None
    then have "sbb_SkipBlocks b' (sb_Hash sb) = Some (length h)"
      using e b(3) by (simp add: NewSkipBlockBunch_def)
    then show ?thesis
      using None lk e core_nth [of h' ?h "length h"] by (simp add: storage_lookup_same_chain(3) del: storage_lookup.simps)
  next
    case (Some c)
    then have c: "c = b" using b(3) by simp
    show ?thesis
      using bunch_lookup_stored [OF storage_okD(1) [OF ok Some], of h' sb "sbb_SkipBlocks b'"] e
      unfolding lk storage_lookup_same_chain(3) Some c option.case map_append list.map by blast
  qed
qed

interpretation storage: block_store storage_inv storage_lookup storage_key storage_store
proof unfold_locales
  fix st st' :: "'p storage_st" and sb :: "'p SkipBlock" and k
  obtain K h s where st: "st = (K, h, s)" by (cases st)
  assume store: "storage_store st sb = Ret st'"
  then show "storage_key st' = storage_key st"
    using st by (auto simp: go_bind_eq_Ret fun_eq_iff)
  assume inv: "storage_inv st"
  show "storage_inv st'"
    using store inv st SBBStorage_Store_ok [of K "h @ [sb]" s "length h"] storage_ok_alloc [of K h s sb]
    by (auto simp: go_bind_eq_Ret)
  show "map_option core (storage_lookup st' (storage_key st sb))
      = Some (core (case storage_lookup st (storage_key st sb) of None \<Rightarrow> sb | Some old \<Rightarrow> old))"
    using storage_store_lookup store inv unfolding st storage_key.simps by blast
  show "storage_lookup st' k = storage_lookup st k" if "k \<noteq> storage_key st sb"
    using storage_store_other store inv that unfolding st storage_key.simps by (cases k) blast
qed

section \<open>Totality\<close>

text \<open>The known blocks have a roster and the signature check of the package does not panic.\<close>

definition checks_links :: "'p skipchain_ops \<Rightarrow> 'p heap \<Rightarrow> bool" where
  "checks_links K h \<longleftrightarrow>
    (\<forall>sb \<in> set h. sb_Roster sb \<noteq> None) \<and> (\<forall>fl pks. sk_VerifySignature K fl pks \<noteq> Panic)"

lemma checks_links_core:
  assumes "checks_links K h" and "map core h' = map core h"
  shows "checks_links K h'"
proof -
  have "map sb_Roster h' = map sb_Roster h"
    using arg_cong [OF assms(2), of "map sb_Roster"] by (simp add: comp_def)
  then have "sb_Roster ` set h' = sb_Roster ` set h" by (metis list.set_map)
  then show ?thesis using assms(1) unfolding checks_links_def by (metis imageI image_iff)
qed

lemma add_forward_links_total:
  assumes "skipchain_laws K" and "checks_links K h" and "old < length h"
  shows "\<exists>r. add_forward_links K old fls h = Ret r"
  using assms(2,3)
proof (induction fls arbitrary: h)
  case (Cons fl fls)
  then obtain roster where roster: "sb_Roster (h ! old) = Some roster"
    unfolding checks_links_def by (metis nth_mem not_None_eq)
  let ?h = "h[old := sk_AddForward K (h ! old) fl]"
  have core: "map core ?h = map core h"
    by (rule map_core_update) (simp add: skipchain_lawsD(1) [OF assms(1)])
  have "\<exists>r. add_forward_links K old fls ?h = Ret r"
    using Cons.IH [OF checks_links_core [OF Cons.prems(1) core]] Cons.prems(2) by simp
  moreover have "sk_VerifySignature K fl (Publics roster) \<noteq> Panic"
    using Cons.prems(1) by (simp add: checks_links_def)
  ultimately show ?case
    using roster by (cases "sk_VerifySignature K fl (Publics roster)") auto
qed auto

lemma Bunch_Store_total:
  assumes "skipchain_laws K" and "bunch_ok h sbb" and "checks_links K h"
  shows "\<exists>r h' sbb'. Bunch_Store K h sbb a = Ret (r, h', sbb')"
proof (cases "sbb_SkipBlocks sbb (sb_Hash (h ! a))")
  case None
  then show ?thesis by (auto simp: Bunch_Store_def Let_def)
next
  case (Some old)
  let ?fls = "drop (length (sb_ForwardLink (h ! old))) (sb_ForwardLink (h ! a))"
  obtain r where "add_forward_links K old ?fls h = Ret r"
    using add_forward_links_total [OF assms(1,3) bunch_okD(1) [OF assms(2) Some]] by blast
  then show ?thesis
    using Some by (cases r) (auto simp: Bunch_Store_def Let_def)
qed

section \<open>Properties of the bunches\<close>

definition ex_block :: "int \<Rightarrow> byte \<Rightarrow> BlockLink list \<Rightarrow> int SkipBlock" where
  "ex_block i k fls =
    \<lparr>sb_Hash = [k], sb_Index = i, sb_BackLinkIDs = (if i = 0 then [[0]] else [[k - 1]]), sb_ForwardLink = fls,
     sb_ChildSL = [], sb_ParentBlockID = [], sb_GenesisID = [1], sb_Roster = Some ex_roster, sb_Data = []\<rparr>"

definition ex_link :: "byte \<Rightarrow> BlockLink" where
  "ex_link k = \<lparr>bl_Hash = [k], bl_Signature = [9]\<rparr>"

text \<open>A genesis block in its bunch, and the same block again with a forward-link.\<close>

definition ex_heap :: "int heap" where
  "ex_heap = [ex_block 0 1 [], ex_block 0 1 [ex_link 2], ex_block 1 2 []]"

definition ex_bunch :: SkipBlockBunch where
  "ex_bunch = NewSkipBlockBunch plain_ops ex_heap 0"

lemma ex_bunch_ok: "bunch_ok ex_heap ex_bunch"
  unfolding ex_bunch_def by (rule NewSkipBlockBunch_ok) (simp add: ex_heap_def)

lemma ex_checks: "checks_links plain_ops ex_heap"
  by (simp add: checks_links_def ex_heap_def ex_block_def plain_ops_def)

text \<open>C25: \<open>SkipBlockBunch.Store\<close> returns and keeps the bunch well-formed: every block is filed
  under its hash, \<open>Latest\<close> has the highest index of the bunch and its index never
  decreases, and of the blocks in memory only the forward-links and children can change.\<close>

theorem Bunch_Store_invariant:
  assumes "skipchain_laws K" and "bunch_ok h sbb" and "a < length h" and "checks_links K h"
  shows "\<exists>r h' sbb'. Bunch_Store K h sbb a = Ret (r, h', sbb') \<and> bunch_ok h' sbb' \<and>
    sb_Index (h ! sbb_Latest sbb) \<le> sb_Index (h' ! sbb_Latest sbb') \<and> map core h' = map core h"
proof -
  obtain r h' sbb' where "Bunch_Store K h sbb a = Ret (r, h', sbb')"
    using Bunch_Store_total [OF assms(1,2,4)] by blast
  with Bunch_Store_effect [OF assms(1-3) refl this] show ?thesis by (auto split: option.splits)
qed

theorem Bunch_Store_invariant_witness:
  "\<exists>r h' sbb'. Bunch_Store plain_ops ex_heap ex_bunch 2 = Ret (r, h', sbb') \<and> bunch_ok h' sbb' \<and>
    sb_Index (ex_heap ! sbb_Latest ex_bunch) \<le> sb_Index (h' ! sbb_Latest sbb') \<and> map core h' = map core ex_heap"
  by (rule Bunch_Store_invariant [OF plain_ops_laws ex_bunch_ok _ ex_checks]) (simp add: ex_heap_def)

text \<open>storing a block that is already known adds the new forward-links and children to the
  block in the bunch. Links already there stay, added links are those offered at the same
  height; unless the result is nil the known block ends with all the links offered.\<close>

theorem Bunch_Store_known_links:
  assumes "skipchain_laws K" and "bunch_ok h sbb" and "a < length h"
    and "sbb_SkipBlocks sbb (sb_Hash (h ! a)) = Some old"
    and "Bunch_Store K h sbb a = Ret (r, h', sbb')"
  shows "extends (sb_ForwardLink (h ! old)) (sb_ForwardLink (h ! a)) (sb_ForwardLink (h' ! old)) \<and>
    extends (sb_ChildSL (h ! old)) (sb_ChildSL (h ! a)) (sb_ChildSL (h' ! old)) \<and> sbb' = sbb \<and>
    (r \<noteq> [] \<longrightarrow> r = sb_Hash (h ! a) \<and>
      length (sb_ForwardLink (h ! a)) \<le> length (sb_ForwardLink (h' ! old)) \<and>
      length (sb_ChildSL (h ! a)) \<le> length (sb_ChildSL (h' ! old)))"
  using Bunch_Store_known [OF assms(1,3) bunch_okD(1) [OF assms(2,4)] assms(4,5)] by blast

theorem Bunch_Store_known_links_witness:
  "extends (sb_ForwardLink (ex_heap ! 0)) (sb_ForwardLink (ex_heap ! 1)) [ex_link 2] \<and>
    Bunch_Store plain_ops ex_heap ex_bunch 1
      = Ret ([1], ex_heap[0 := ex_block 0 1 [ex_link 2]], ex_bunch)"
proof -
  have st: "Bunch_Store plain_ops ex_heap ex_bunch 1
      = Ret ([1], ex_heap[0 := ex_block 0 1 [ex_link 2]], ex_bunch)"
    by (simp add: Bunch_Store_def ex_bunch_def NewSkipBlockBunch_def ex_heap_def ex_block_def
        plain_ops_def ex_link_def add_children_def Let_def)
  have "extends (sb_ForwardLink (ex_heap ! 0)) (sb_ForwardLink (ex_heap ! 1))
      (sb_ForwardLink (ex_heap[0 := ex_block 0 1 [ex_link 2]] ! 0))"
    using Bunch_Store_known_links [OF plain_ops_laws ex_bunch_ok _ _ st, of 0]
    by (simp add: ex_heap_def ex_bunch_def NewSkipBlockBunch_def ex_block_def)
  then show ?thesis using st by (simp add: ex_heap_def ex_block_def)
qed

text \<open>after any sequence of \<open>SBBStorage.Store\<close> calls every stored block is found again under
  its chain and its hash, with the contents it had, whatever the order in which the blocks of
  the different chains arrive, provided that blocks with equal hash have equal contents.\<close>

theorem SBBStorage_store_all:
  assumes "skipchain_laws K" and "storage_ok K h s"
    and "go_fold (\<lambda>sb st. storage_store st sb) sbs (K, h, s) = Ret (K', h', s')" and "sb \<in> set sbs"
    and "\<forall>sb' \<in> set sbs. sb_Hash sb' = sb_Hash sb \<longrightarrow> core sb' = core sb"
    and "\<forall>b. storage_lookup (K, h, s) (sk_SkipChainID K sb, sb_Hash sb) = Some b \<longrightarrow> core b = core sb"
  shows "\<exists>a. GetFromGenesisByID s' (sk_SkipChainID K sb) (sb_Hash sb) = Some a \<and>
    core (h' ! a) = core sb \<and> storage_ok K h' s'"
proof -
  have inv: "storage_inv (K, h, s)" using assms(1,2) by simp
  have "storage_inv (K', h', s') \<and> storage_key (K', h', s') = storage_key (K, h, s)"
    by (rule storage.store_all_inv [OF inv assms(3)])
  then have K': "storage_ok K' h' s'" "sk_SkipChainID K' = sk_SkipChainID K" by (auto simp: fun_eq_iff)
  then have ok: "storage_ok K h' s'" by (simp add: storage_ok_def)
  have "map_option core (storage_lookup (K', h', s') (storage_key (K, h, s) sb)) = Some (core sb)"
    by (rule storage.store_all_lookup [OF inv assms(3,4)]) (use assms(5,6) in auto)
  then show ?thesis using ok by auto
qed

theorem SBBStorage_store_all_witness:
  "\<exists>h' s' a. go_fold (\<lambda>sb st. storage_store st sb) [ex_block 1 2 [], ex_block 0 1 []]
      (plain_ops, [], NewSBBStorage) = Ret (plain_ops, h', s') \<and>
    GetFromGenesisByID s' [1] [2] = Some a \<and> core (h' ! a) = core (ex_block 1 2 []) \<and>
    storage_ok plain_ops h' s'"
proof -
  have "\<exists>h' s'. go_fold (\<lambda>sb st. storage_store st sb) [ex_block 1 2 [], ex_block 0 1 []]
      (plain_ops, [], NewSBBStorage) = Ret (plain_ops, h', s')"
    by (simp add: SBBStorage_Store_def Bunch_Store_def NewSBBStorage_def NewSkipBlockBunch_def
        plain_ops_simps ex_block_def add_children_def Let_def)
  then obtain h' s' where st: "go_fold (\<lambda>sb st. storage_store st sb) [ex_block 1 2 [], ex_block 0 1 []]
      (plain_ops, [], NewSBBStorage) = Ret (plain_ops, h', s')" by blast
  have "\<exists>a. GetFromGenesisByID s' (sk_SkipChainID plain_ops (ex_block 1 2 [])) (sb_Hash (ex_block 1 2 [])) = Some a \<and>
    core (h' ! a) = core (ex_block 1 2 []) \<and> storage_ok plain_ops h' s'"
    by (rule SBBStorage_store_all [OF plain_ops_laws NewSBBStorage_ok st])
      (auto simp: ex_block_def GetFromGenesisByID_def GetBunch_def NewSBBStorage_def)
  then show ?thesis using st by (auto simp: ex_block_def plain_ops_simps)
qed

text \<open>The predecessor of a block that is not a genesis block, as \<open>VerifyLinks\<close> accepts it.\<close>

definition back_link_ok :: "'p skipchain_ops \<Rightarrow> 'p heap \<Rightarrow> SkipBlockBunch \<Rightarrow> 'p SkipBlock \<Rightarrow> bool" where
  "back_link_ok K h sbb sb \<longleftrightarrow>
    (case sbb_SkipBlocks sbb (hd (sb_BackLinkIDs sb)) of
       None \<Rightarrow> sb_ForwardLink sb \<noteq> []
     | Some b \<Rightarrow> sk_VerifyForwardSignatures K (h ! b) = Ret () \<and>
         (\<exists>fl. sk_GetForward K (h ! b) 0 = Some fl \<and> bl_Hash fl = sb_Hash sb))"

definition parent_link_ok :: "'p skipchain_ops \<Rightarrow> 'p heap \<Rightarrow> SkipBlockBunch \<Rightarrow> 'p SkipBlock \<Rightarrow> bool" where
  "parent_link_ok K h sbb sb \<longleftrightarrow>
    (\<exists>p. sbb_SkipBlocks sbb (sb_ParentBlockID sb) = Some p \<and>
      sk_VerifyForwardSignatures K (h ! p) = Ret () \<and> sb_Hash sb \<in> set (sb_ChildSL (h ! p)))"



text \<open>A range visits every key once, in some order.\<close>

definition range_order :: "('k \<rightharpoonup> 'v) \<Rightarrow> 'k list \<Rightarrow> bool" where
  "range_order m ord \<longleftrightarrow> distinct ord \<and> set ord = dom m"

lemma find_block_None:
  assumes "range_order (sbb_SkipBlocks sbb) ord"
  shows "find_block h sbb P ord = None \<longleftrightarrow>
    (\<forall>k a. sbb_SkipBlocks sbb k = Some a \<longrightarrow> \<not> P (hex_EncodeToString (sb_Hash (h ! a))))"
  using assms by (auto simp: find_block_def find_map_None range_order_def dom_def split: option.splits)

lemma find_block_Some:
  assumes "find_block h sbb P ord = Some a"
  shows "\<exists>k. sbb_SkipBlocks sbb k = Some a \<and> P (hex_EncodeToString (sb_Hash (h ! a)))"
  using find_map_Some [OF assms [unfolded find_block_def]] by (auto split: option.splits if_splits)

definition some_block :: "'p heap \<Rightarrow> SkipBlockBunch \<Rightarrow> (string \<Rightarrow> bool) \<Rightarrow> bool" where
  "some_block h sbb P \<longleftrightarrow> (\<exists>k a. sbb_SkipBlocks sbb k = Some a \<and> P (hex_EncodeToString (sb_Hash (h ! a))))"

text \<open>\<open>GetFuzzy\<close> finds a block whenever the fragment occurs in the hexadecimal id of one,
  whatever the order of the range loops; it prefers an id that starts with the fragment, then one
  that ends with it, then one that contains it, and returns nil only when there is none.\<close>

theorem Bunch_GetFuzzy_priority:
  assumes "range_order (sbb_SkipBlocks sbb) ord1" and "range_order (sbb_SkipBlocks sbb) ord2"
    and "range_order (sbb_SkipBlocks sbb) ord3"
  shows "case Bunch_GetFuzzy h sbb frag ord1 ord2 ord3 of
      None \<Rightarrow> \<not> some_block h sbb (sublist frag)
    | Some a \<Rightarrow> (\<exists>k. sbb_SkipBlocks sbb k = Some a) \<and>
        (let s = hex_EncodeToString (sb_Hash (h ! a)) in
         if some_block h sbb (prefix frag) then prefix frag s
         else if some_block h sbb (suffix frag) then suffix frag s else sublist frag s)"
proof -
  have none: "find_block h sbb P ord = None \<longleftrightarrow> \<not> some_block h sbb P"
    if "range_order (sbb_SkipBlocks sbb) ord" for P ord
    using find_block_None [OF that] by (auto simp: some_block_def)
  note some = find_block_Some [of h sbb]
  show ?thesis
  proof (cases "find_block h sbb (prefix frag) ord1")
    case (Some a)
    then show ?thesis using none [OF assms(1), of "prefix frag"] some [OF Some] by (auto simp: Bunch_GetFuzzy_def Let_def)
  next
    case pre: None
    show ?thesis
    proof (cases "find_block h sbb (suffix frag) ord2")
      case (Some a)
      then show ?thesis using pre none [OF assms(1), of "prefix frag"] none [OF assms(2), of "suffix frag"] some [OF Some]
        by (auto simp: Bunch_GetFuzzy_def Let_def)
    next
      case None
      then show ?thesis using pre none [OF assms(1), of "prefix frag"] none [OF assms(2), of "suffix frag"] none [OF assms(3), of "sublist frag"] some
        by (auto simp: Bunch_GetFuzzy_def Let_def split: option.splits)
    qed
  qed
qed

theorem Bunch_GetFuzzy_priority_witness:
  "case Bunch_GetFuzzy ex_heap ex_bunch ''1'' [[1]] [[1]] [[1]] of
      None \<Rightarrow> \<not> some_block ex_heap ex_bunch (sublist ''1'')
    | Some a \<Rightarrow> (\<exists>k. sbb_SkipBlocks ex_bunch k = Some a) \<and>
        (let s = hex_EncodeToString (sb_Hash (ex_heap ! a)) in
         if some_block ex_heap ex_bunch (prefix ''1'') then prefix ''1'' s
         else if some_block ex_heap ex_bunch (suffix ''1'') then suffix ''1'' s else sublist ''1'' s)"
  by (rule Bunch_GetFuzzy_priority)
    (simp_all add: range_order_def ex_bunch_def NewSkipBlockBunch_def ex_heap_def ex_block_def)

end
