(* ===== verification/Ocs_Service.thy ===== *)
theory Ocs_Service
  imports Bunch
begin

text \<open>
  The on-chain-secrets service, \<open>onchain-secrets/service.go\<close>: its storage, the
  handlers of the client requests, the verification function that the skipchain
  calls on every new block, and the handler of propagated blocks.

  The skipchain client, the propagation protocol, the decoder and the pvss
  package are parameters: fields of the record \<open>env\<close>, or arguments where the
  answer changes between calls. A handler acts on the state of the service. The
  calls of a handler run without another handler in between; every access to the
  storage is under \<open>saveMutex\<close>.
\<close>

section \<open>State\<close>

text \<open>\<open>Storage\<close>, with the heap that its block pointers lead to.\<close>

record ('p, 's) Storage =
  sto_heap :: "'p heap"
  sto_OCSs :: SBBStorage
  sto_Shared :: "bytes \<rightharpoonup> ('p, 's) SharedSecret"

text \<open>
  \<open>Service\<close>: the storage pointer (nil after a failed load), the identity of the
  conode and the saved image of the storage.
\<close>

record ('p, 's) Service =
  svc_Storage :: "('p, 's) Storage option"
  svc_ServerIdentity :: "'p ServerIdentity"
  svc_Saved :: "('p, 's) Storage option"

text \<open>The code outside the repository that the service calls.\<close>

record ('p, 's) env =
  env_suite :: "('p, 's) suite"
  env_ops :: "'p skipchain_ops"
  env_unmarshal :: "('p, 's) unmarshal"
  env_VerifyEncShareBatch ::
    "'p \<Rightarrow> 'p list \<Rightarrow> 'p list \<Rightarrow> 'p PubVerShare list \<Rightarrow> (string, 'p list \<times> 'p PubVerShare list) go"
  env_CreateGenesis :: "'p Roster \<Rightarrow> ('p, 's) DataOCS \<Rightarrow> (client_error, 'p SkipBlock) go"
  env_GetSingleBlock :: "'p Roster option \<Rightarrow> SkipBlockID \<Rightarrow> (client_error, 'p SkipBlock) go"
  env_RecoverCommit :: "'p PubShare option list \<Rightarrow> int \<Rightarrow> int \<Rightarrow> (string, 'p) go"
  env_Save :: "('p, 's) Storage \<Rightarrow> (string, unit) go"

text \<open>Access to the storage; a nil storage pointer panics.\<close>

definition get_storage :: "(('p, 's) Service, 'e, ('p, 's) Storage) act" where
  "get_storage s = (deref (svc_Storage s), s)"

definition put_storage :: "('p, 's) Storage \<Rightarrow> (('p, 's) Service, 'e, unit) act" where
  "put_storage st s = (Ret (), s\<lparr>svc_Storage := Some st\<rparr>)"

section \<open>Saving and loading\<close>

text \<open>\<open>save\<close>: an error is only logged.\<close>

definition Service_save :: "('p, 's) env \<Rightarrow> (('p, 's) Service, string, unit) act" where
  "Service_save E = act_bind get_storage (\<lambda>st s.
    (case env_Save E st of
       Ret _ \<Rightarrow> (Ret (), s\<lparr>svc_Saved := Some st\<rparr>)
     | Err _ \<Rightarrow> (Ret (), s)
     | Panic \<Rightarrow> (Panic, s)))"

text \<open>
  \<open>tryLoad\<close>; \<open>available\<close> is \<open>DataAvailable\<close> and \<open>load\<close> the result of \<open>Load\<close>, \<open>None\<close> for a
  message of another type. The assignment from the failed type assertion leaves
  a nil storage.
\<close>

definition Service_tryLoad ::
  "bool \<Rightarrow> (string, ('p, 's) Storage option) go \<Rightarrow> (('p, 's) Service, string, unit) act" where
  "Service_tryLoad available load s =
    (if \<not> available then (Ret (), s)
     else
       (case load of
          Panic \<Rightarrow> (Panic, s)
        | Err e \<Rightarrow> (Err e, s)
        | Ret None \<Rightarrow> (Err ''Data of wrong type'', s\<lparr>svc_Storage := None\<rparr>)
        | Ret (Some st) \<Rightarrow> (Ret (), s\<lparr>svc_Storage := Some st\<rparr>)))"

text \<open>\<open>newService\<close>: an error of \<open>tryLoad\<close> is only logged.\<close>

definition newService ::
  "'p ServerIdentity \<Rightarrow> bool \<Rightarrow> (string, ('p, 's) Storage option) go \<Rightarrow> (string, ('p, 's) Service) go" where
  "newService si available load =
    (let s = \<lparr>svc_Storage = Some \<lparr>sto_heap = [], sto_OCSs = NewSBBStorage, sto_Shared = Map.empty\<rparr>,
              svc_ServerIdentity = si, svc_Saved = None\<rparr> in
     case Service_tryLoad available load s of
       (Panic, _) \<Rightarrow> Panic
     | (_, s') \<Rightarrow> Ret s')"

section \<open>Adding a block to a bunch\<close>

text \<open>
  \<open>BunchAddBlock\<close> on the bunch with key \<open>g\<close>; \<open>store\<close> is \<open>StoreSkipBlock\<close> of the skipchain
  client, whose reply carries the new block. The result is the address of that block.
\<close>

definition BunchAddBlock ::
  "('p, 's) env \<Rightarrow> ('p SkipBlock \<Rightarrow> 'p Roster option \<Rightarrow> ('p, 's) DataOCS \<Rightarrow> (client_error, 'p SkipBlock) go) \<Rightarrow>
    SkipBlockID \<Rightarrow> 'p Roster option \<Rightarrow> ('p, 's) DataOCS \<Rightarrow> (('p, 's) Service, client_error, addr) act" where
  "BunchAddBlock E store g r data =
    act_bind get_storage (\<lambda>st.
    act_bind (act_go (deref (GetBunch (sto_OCSs st) g))) (\<lambda>bunch.
    act_bind (act_go (store (sto_heap st ! sbb_Latest bunch) r data)) (\<lambda>sbNew.
      let h = sto_heap st @ [sbNew]; a = length (sto_heap st) in
      (case Bunch_Store (env_ops E) h bunch a of
         Ret (bid, h', bunch') \<Rightarrow>
           act_bind (put_storage (st\<lparr>sto_heap := h',
               sto_OCSs := (sto_OCSs st)\<lparr>sbs_Bunches := (sbs_Bunches (sto_OCSs st))(g \<mapsto> bunch')\<rparr>\<rparr>))
             (\<lambda>_. if bid = [] then act_go (Err (NewClientErrorCode ErrorProtocol ''Couldn't add block to bunch''))
                  else act_ret a)
       | Err _ \<Rightarrow> act_go Panic
       | Panic \<Rightarrow> act_go Panic))))"

text \<open>
  The retry loop of the three handlers that add a block: it goes on as long as the
  skipchain answers \<open>ErrorBlockInProgress\<close>. \<open>store i\<close> is the client in the \<open>i\<close>-th round;
  \<open>None\<close> is a loop that never ends.
\<close>

partial_function (option) add_block_loop ::
  "('p, 's) env \<Rightarrow> (nat \<Rightarrow> 'p SkipBlock \<Rightarrow> 'p Roster option \<Rightarrow> ('p, 's) DataOCS \<Rightarrow> (client_error, 'p SkipBlock) go) \<Rightarrow>
    SkipBlockID \<Rightarrow> 'p Roster option \<Rightarrow> ('p, 's) DataOCS \<Rightarrow> nat \<Rightarrow> ('p, 's) Service \<Rightarrow>
    ((client_error, addr) go \<times> ('p, 's) Service) option" where
  "add_block_loop E store g r data i s =
    (case BunchAddBlock E (store i) g r data s of
       (Ret a, s') \<Rightarrow> Some (Ret a, s')
     | (Panic, s') \<Rightarrow> Some (Panic, s')
     | (Err cerr, s') \<Rightarrow>
         if ce_code cerr = sk_ErrorBlockInProgress (env_ops E)
         then add_block_loop E store g r data (i + 1) s'
         else Some (Err cerr, s'))"

text \<open>\<open>propagateOCS\<close>: the number of replies; it calls \<open>propagateOCSFunc\<close> on every node.\<close>

type_synonym ('p, 's) propagation =
  "'p Roster option \<Rightarrow> addr \<Rightarrow> (('p, 's) Service, string, int) act"

text \<open>
  The end of the three handlers: the new block is sent to the roster of the latest
  block. The number of replies is compared with the size of that roster, for a warning only.
\<close>

definition propagate_block ::
  "('p, 's) propagation \<Rightarrow> SkipBlockID \<Rightarrow> addr \<Rightarrow> (('p, 's) Service, client_error, 'p SkipBlock) act" where
  "propagate_block propagateOCS g a =
    act_bind get_storage (\<lambda>st.
    act_bind (act_go (deref (GetBunch (sto_OCSs st) g))) (\<lambda>bunch.
    act_bind (\<lambda>s. case propagateOCS (sb_Roster (sto_heap st ! sbb_Latest bunch)) a s of
        (Ret n, s') \<Rightarrow> (Ret n, s')
      | (Err e, s') \<Rightarrow> (Err (NewClientErrorCode ErrorProtocol e), s')
      | (Panic, s') \<Rightarrow> (Panic, s')) (\<lambda>replies.
    act_bind get_storage (\<lambda>st'.
    act_bind (act_go (deref (GetBunch (sto_OCSs st') g))) (\<lambda>bunch'.
    act_bind (act_go (deref (sb_Roster (sto_heap st' ! sbb_Latest bunch')))) (\<lambda>_.
    act_ret (sto_heap st' ! a)))))))"

text \<open>The part that the three handlers share; \<open>nobunch\<close> is the message for an unknown chain.\<close>

definition add_block_request ::
  "('p, 's) env \<Rightarrow> (nat \<Rightarrow> 'p SkipBlock \<Rightarrow> 'p Roster option \<Rightarrow> ('p, 's) DataOCS \<Rightarrow> (client_error, 'p SkipBlock) go) \<Rightarrow>
    ('p, 's) propagation \<Rightarrow> string \<Rightarrow> SkipBlockID \<Rightarrow> ('p, 's) DataOCS \<Rightarrow> ('p, 's) Service \<Rightarrow>
    ((client_error, 'p SkipBlock) go \<times> ('p, 's) Service) option" where
  "add_block_request E store propagateOCS nobunch g data s =
    (case svc_Storage s of
       None \<Rightarrow> Some (Panic, s)
     | Some st \<Rightarrow>
       (case GetBunch (sto_OCSs st) g of
          None \<Rightarrow> Some (Err (NewClientErrorCode ErrorParameter nobunch), s)
        | Some ocsBunch \<Rightarrow>
          (case Bunch_GetByID ocsBunch g of
             None \<Rightarrow> Some (Err (NewClientErrorCode ErrorParameter ''Didn't find block-skipchain''), s)
           | Some block \<Rightarrow>
             (case add_block_loop E store g (sb_Roster (sto_heap st ! block)) data 1 s of
                None \<Rightarrow> None
              | Some (Ret a, s') \<Rightarrow> Some (propagate_block propagateOCS g a s')
              | Some (Err e, s') \<Rightarrow> Some (Err e, s')
              | Some (Panic, s') \<Rightarrow> Some (Panic, s')))))"

section \<open>The handlers that add a block\<close>

definition Service_WriteRequest ::
  "('p, 's) env \<Rightarrow> (nat \<Rightarrow> 'p SkipBlock \<Rightarrow> 'p Roster option \<Rightarrow> ('p, 's) DataOCS \<Rightarrow> (client_error, 'p SkipBlock) go) \<Rightarrow>
    ('p, 's) propagation \<Rightarrow> ('p, 's) WriteRequest \<Rightarrow> ('p, 's) Service \<Rightarrow>
    ((client_error, 'p SkipBlock) go \<times> ('p, 's) Service) option" where
  "Service_WriteRequest E store propagateOCS req s =
    (let data = empty_DataOCS\<lparr>do_Write := wr_Write req, do_Readers := wr_Readers req\<rparr> in
     add_block_request E store propagateOCS ''didn't find that bunch'' (wr_OCS req) data s)"

definition Service_OTSWriteRequest ::
  "('p, 's) env \<Rightarrow> (nat \<Rightarrow> 'p SkipBlock \<Rightarrow> 'p Roster option \<Rightarrow> ('p, 's) DataOCS \<Rightarrow> (client_error, 'p SkipBlock) go) \<Rightarrow>
    ('p, 's) propagation \<Rightarrow> ('p, 's) OTSWriteRequest \<Rightarrow> ('p, 's) Service \<Rightarrow>
    ((client_error, 'p SkipBlock) go \<times> ('p, 's) Service) option" where
  "Service_OTSWriteRequest E store propagateOCS req s =
    (let data = empty_DataOCS\<lparr>do_OTSWrite := owr_Write req, do_Readers := owr_Readers req\<rparr> in
     add_block_request E store propagateOCS ''didn't find that bunch'' (owr_OCS req) data s)"

text \<open>\<open>ReadRequest\<close> logs the public key of the request first: a nil \<open>Read\<close> panics.\<close>

definition Service_ReadRequest ::
  "('p, 's) env \<Rightarrow> (nat \<Rightarrow> 'p SkipBlock \<Rightarrow> 'p Roster option \<Rightarrow> ('p, 's) DataOCS \<Rightarrow> (client_error, 'p SkipBlock) go) \<Rightarrow>
    ('p, 's) propagation \<Rightarrow> ('p, 's) ReadRequest \<Rightarrow> ('p, 's) Service \<Rightarrow>
    ((client_error, 'p SkipBlock) go \<times> ('p, 's) Service) option" where
  "Service_ReadRequest E store propagateOCS req s =
    (case rq_Read req of
       None \<Rightarrow> Some (Panic, s)
     | Some read \<Rightarrow>
       (let data = empty_DataOCS\<lparr>do_Read := Some read\<rparr> in
        add_block_request E store propagateOCS ''didn't find that block'' (rq_OCS req) data s))"

section \<open>Creation of a skipchain\<close>

text \<open>
  What became of the DKG that the handler starts: no protocol instance (its nil value is
  type-asserted), an error of \<open>Start\<close>, the end with the result of \<open>SharedSecret\<close>, or the timeout.
\<close>

datatype ('p, 's) dkg_outcome =
  DKG_NoInstance | DKG_StartError string | DKG_Done "(string, ('p, 's) SharedSecret) go" | DKG_Timeout

text \<open>
  \<open>CreateSkipchains\<close>; \<open>genTree\<close> is the call of \<open>GenerateNaryTreeWithRoot\<close>, \<open>runDKG\<close> the run of
  the DKG on that tree with the hash of the genesis block as configuration.
\<close>

definition Service_CreateSkipchains ::
  "('p, 's) env \<Rightarrow> ('p, 's) propagation \<Rightarrow>
    ('p Roster \<Rightarrow> int \<Rightarrow> 'p ServerIdentity \<Rightarrow> (string, 'p Tree option) go) \<Rightarrow>
    ('p Tree option \<Rightarrow> bytes \<Rightarrow> ('p, 's) dkg_outcome) \<Rightarrow>
    'p CreateSkipchainsRequest \<Rightarrow> (('p, 's) Service, client_error, 'p CreateSkipchainsReply) act" where
  "Service_CreateSkipchains E propagateOCS genTree runDKG req =
    act_bind (act_go (env_CreateGenesis E (csr_Roster req) empty_DataOCS)) (\<lambda>ocs.
    act_bind get_storage (\<lambda>st0.
    act_bind (put_storage (st0\<lparr>sto_heap := sto_heap st0 @ [ocs]\<rparr>)) (\<lambda>_.
    act_bind (\<lambda>s. case propagateOCS (Some (csr_Roster req)) (length (sto_heap st0)) s of
        (Ret n, s') \<Rightarrow> (Ret n, s')
      | (Err e, s') \<Rightarrow> (Err (NewClientErrorCode ErrorProtocol e), s')
      | (Panic, s') \<Rightarrow> (Panic, s')) (\<lambda>replies s.
    act_bind (act_go (go_err (NewClientErrorCode ErrorProtocol)
        (genTree (csr_Roster req) (int (length (ro_List (csr_Roster req)))) (svc_ServerIdentity s)))) (\<lambda>tree.
    (case runDKG tree (sb_Hash ocs) of
       DKG_NoInstance \<Rightarrow> act_go Panic
     | DKG_StartError e \<Rightarrow> act_go (Err (NewClientErrorCode ErrorProtocol e))
     | DKG_Timeout \<Rightarrow> act_go (Err (NewClientErrorCode ErrorProtocol ''dkg didn't finish in time''))
     | DKG_Done res \<Rightarrow>
         act_bind (act_go (go_err (NewClientErrorCode ErrorProtocol) res)) (\<lambda>shared.
         act_bind get_storage (\<lambda>st.
         act_bind (put_storage (st\<lparr>sto_Shared := (sto_Shared st)(sb_Hash ocs \<mapsto> shared)\<rparr>)) (\<lambda>_.
         act_ret \<lparr>csy_OCS = ocs, csy_X = ss_X shared\<rparr>))))) s))))"

section \<open>Handlers that read the storage\<close>

text \<open>
  One round of the loop of \<open>GetReadRequests\<close> on the current block: it ends the handler,
  continues at once (a read of another document when \<open>Count\<close> is 0), or goes on to the
  forward-links with the documents found.
\<close>

datatype 'p read_outcome =
  RS_Return "(client_error, 'p ReadDoc list) go" | RS_Continue | RS_Advance "'p ReadDoc list"

definition read_step ::
  "('p, 's) env \<Rightarrow> int \<Rightarrow> SkipBlockID \<Rightarrow> 'p SkipBlock \<Rightarrow> 'p ReadDoc list \<Rightarrow> 'p read_outcome" where
  "read_step E cnt doc current docs =
    (case env_unmarshal E (sb_Data current) of
       Panic \<Rightarrow> RS_Return Panic
     | Err _ \<Rightarrow> RS_Advance docs
     | Ret None \<Rightarrow> RS_Advance docs
     | Ret (Some (M_DataOCS dataOCS)) \<Rightarrow>
         (case do_Read dataOCS of
            None \<Rightarrow> RS_Advance docs
          | Some read \<Rightarrow>
              if cnt = 0 \<and> \<not> sk_Equal (env_ops E) (rd_DataID read) doc then RS_Continue
              else RS_Advance (docs @ [\<lparr>rdoc_Reader = rd_Public read, rdoc_ReadID = sb_Hash current,
                                       rdoc_DataID = rd_DataID read\<rparr>]))
     | Ret (Some _) \<Rightarrow>
         RS_Return (Err (NewClientErrorCode ErrorParameter ''unknown block in ocs-skipchain'')))"

text \<open>
  The loop: \<open>cur\<close> is \<open>current\<close> and \<open>docs\<close> the documents found. A forward-link to an unknown block
  makes \<open>current\<close> nil. \<open>None\<close> is a loop that never ends.
\<close>

partial_function (option) read_loop ::
  "('p, 's) env \<Rightarrow> ('p, 's) Storage \<Rightarrow> int \<Rightarrow> SkipBlockID \<Rightarrow> addr option \<Rightarrow> 'p ReadDoc list \<Rightarrow>
    (client_error, 'p ReadDoc list) go option" where
  "read_loop E st cnt doc cur docs =
    (if cnt = 0 \<or> int (length docs) < cnt then
       (case cur of
          None \<Rightarrow> Some Panic
        | Some a \<Rightarrow>
          (case read_step E cnt doc (sto_heap st ! a) docs of
             RS_Return r \<Rightarrow> Some r
           | RS_Continue \<Rightarrow> read_loop E st cnt doc (Some a) docs
           | RS_Advance docs' \<Rightarrow>
             (case sb_ForwardLink (sto_heap st ! a) of
                [] \<Rightarrow> Some (Ret docs')
              | fl # _ \<Rightarrow>
                read_loop E st cnt doc
                  (GetFromGenesisByID (sto_OCSs st) (sk_SkipChainID (env_ops E) (sto_heap st ! a)) (bl_Hash fl))
                  docs')))
     else Some (Ret docs))"

definition Service_GetReadRequests ::
  "('p, 's) env \<Rightarrow> SkipBlockID list \<Rightarrow> GetReadRequests \<Rightarrow> ('p, 's) Service \<Rightarrow>
    (client_error, 'p GetReadRequestsReply) go option" where
  "Service_GetReadRequests E ord req s =
    (case svc_Storage s of
       None \<Rightarrow> Some Panic
     | Some st \<Rightarrow>
       (case SBBStorage_GetByID (sto_OCSs st) ord (grr_Start req) of
          None \<Rightarrow> Some (Err (NewClientErrorCode ErrorParameter ''didn't find starting skipblock''))
        | Some a \<Rightarrow>
          (let current = sto_heap st ! a;
               start = (if grr_Count req = 0 then
                   go_bind (NewDataOCS (env_unmarshal E) (sb_Data current)) (\<lambda>d.
                     case d of
                       Some dataOCS \<Rightarrow>
                         if do_OTSWrite dataOCS = None then Err ''id is not a writer-block''
                         else Ret (sb_Hash current)
                     | None \<Rightarrow> Err ''id is not a writer-block'')
                 else Ret []) in
           (case start of
              Panic \<Rightarrow> Some Panic
            | Err e \<Rightarrow> Some (Err (NewClientErrorCode ErrorParameter e))
            | Ret doc \<Rightarrow>
                map_option (\<lambda>r. go_bind r (\<lambda>docs. Ret \<lparr>gry_Documents = docs\<rparr>))
                  (read_loop E st (grr_Count req) doc (Some a) [])))))"

definition Service_SharedPublic ::
  "SharedPublicRequest \<Rightarrow> ('p, 's) Service \<Rightarrow> (client_error, 'p SharedPublicReply) go" where
  "Service_SharedPublic req s =
    go_bind (deref (svc_Storage s)) (\<lambda>st.
      case sto_Shared st (spr_Genesis req) of
        None \<Rightarrow> Err (NewClientErrorCode ErrorParameter ''didn't find this skipchain'')
      | Some shared \<Rightarrow> Ret \<lparr>spy_X = ss_X shared\<rparr>)"

text \<open>
  \<open>DecryptKeyRequest\<close>. Unknown blocks are nil pointers whose data is read. \<open>createOCS\<close> is
  \<open>CreateProtocol\<close> on the tree, the OCS instance of this node; \<open>replies\<close> are the answers of the
  other nodes to the broadcast message of \<open>Start\<close>, delivered to \<open>reencryptReply\<close> all together.
\<close>

definition Service_DecryptKeyRequest ::
  "('p :: ab_group_add, 's) env \<Rightarrow> SkipBlockID list \<Rightarrow>
    ('p Roster \<Rightarrow> int \<Rightarrow> 'p ServerIdentity \<Rightarrow> (string, 'p Tree option) go) \<Rightarrow>
    ('p Tree option \<Rightarrow> (string, ('p, 's) OCS) go) \<Rightarrow>
    (SkipBlockID \<Rightarrow> 'p Reencrypt \<Rightarrow> 'p ReencryptReply list) \<Rightarrow>
    DecryptKeyRequest \<Rightarrow> ('p, 's) Service \<Rightarrow> (client_error, 'p DecryptKeyReply) go" where
  "Service_DecryptKeyRequest E ord genTree createOCS replies req s =
    go_bind (deref (svc_Storage s)) (\<lambda>st.
    go_bind (deref (SBBStorage_GetByID (sto_OCSs st) ord (dkr_Read req))) (\<lambda>ra.
    let readSB = sto_heap st ! ra in
    go_bind (go_err (NewClientErrorCode 0) (NewDataOCS (env_unmarshal E) (sb_Data readSB))) (\<lambda>rd.
    case (case rd of None \<Rightarrow> None | Some d \<Rightarrow> do_Read d) of
      None \<Rightarrow> Err (NewClientErrorCode ErrorParameter ''This is not a read-block'')
    | Some read \<Rightarrow>
      go_bind (deref (SBBStorage_GetByID (sto_OCSs st) ord (rd_DataID read))) (\<lambda>fa.
      let fileSB = sto_heap st ! fa in
      go_bind (go_err (NewClientErrorCode 0) (NewDataOCS (env_unmarshal E) (sb_Data fileSB))) (\<lambda>fd.
      case (case fd of None \<Rightarrow> None | Some d \<Rightarrow> do_Write d) of
        None \<Rightarrow> Err (NewClientErrorCode ErrorParameter ''Data-block is broken'')
      | Some write \<Rightarrow>
        go_bind (deref (sb_Roster fileSB)) (\<lambda>roster.
        let nodes = int (length (ro_List roster)) in
        go_err (NewClientErrorCode ErrorProtocol)
          (go_bind (genTree roster nodes (svc_ServerIdentity s)) (\<lambda>tree.
           go_bind (createOCS tree) (\<lambda>pi.
           let ocsProto = pi\<lparr>ocs_U := Some (dw_U write), ocs_Xc := rd_Public read,
                 ocs_Shared := sto_Shared st (sb_GenesisID fileSB)\<rparr> in
           go_bind (OCS_Start ocsProto) (\<lambda>msg.
           go_bind (reencryptReply (env_suite E) ocsProto (replies (sb_GenesisID fileSB) msg)) (\<lambda>ocsDone.
           go_bind (env_RecoverCommit E (ocs_Uis ocsDone) (nodes - 1) nodes) (\<lambda>XhatEnc.
           go_bind (deref (sto_Shared st (sb_GenesisID fileSB))) (\<lambda>shared.
           Ret \<lparr>dky_Cs = dw_Cs write, dky_XhatEnc = XhatEnc, dky_X = ss_X shared\<rparr>)))))))))))))"

definition Service_GetBunches ::
  "SkipBlockID list \<Rightarrow> ('p, 's) Service \<Rightarrow> (client_error, 'p GetBunchReply) go" where
  "Service_GetBunches ord s =
    go_bind (deref (svc_Storage s)) (\<lambda>st.
      Ret \<lparr>gby_Bunches = concat (map (\<lambda>g. case GetBunch (sto_OCSs st) g of
          None \<Rightarrow> []
        | Some b \<Rightarrow> [map_option ((!) (sto_heap st)) (Bunch_GetByID b (sbb_GenesisID b))]) ord)\<rparr>)"

section \<open>Protocol instances\<close>

datatype ('p, 's) proto_instance = PI_DKG "bytes option" | PI_OCS "('p, 's) OCS" | PI_nil

definition NameDKG :: string where
  "NameDKG = ''SetupDKG''"

definition NameOCS :: string where
  "NameOCS = ''OCS''"

text \<open>
  \<open>NewProtocol\<close>: \<open>newDKG\<close> and \<open>newOCS\<close> are the constructors of the protocol package on the tree
  node instance. The goroutine that waits for the DKG is \<open>store_shared\<close>.
\<close>

definition Service_NewProtocol ::
  "(string, unit) go \<Rightarrow> (string, ('p, 's) OCS) go \<Rightarrow> string \<Rightarrow> bytes option \<Rightarrow> ('p, 's) Service \<Rightarrow>
    (string, ('p, 's) proto_instance) go" where
  "Service_NewProtocol newDKG newOCS protocolName conf s =
    (if protocolName = NameDKG then
       go_bind newDKG (\<lambda>_. Ret (PI_DKG conf))
     else if protocolName = NameOCS then
       go_bind (deref (svc_Storage s)) (\<lambda>st.
       go_bind (deref conf) (\<lambda>data.
         case sto_Shared st data of
           None \<Rightarrow> Err ''didn't find skipchain''
         | Some shared \<Rightarrow> go_bind newOCS (\<lambda>ocs. Ret (PI_OCS (ocs\<lparr>ocs_Shared := Some shared\<rparr>)))))
     else Ret PI_nil)"

definition store_shared ::
  "bytes option \<Rightarrow> (string, ('p, 's) SharedSecret) go \<Rightarrow> (('p, 's) Service, string, unit) act" where
  "store_shared conf res =
    (case res of
       Panic \<Rightarrow> act_go Panic
     | Err _ \<Rightarrow> act_ret ()
     | Ret shared \<Rightarrow>
       act_bind get_storage (\<lambda>st.
       act_bind (act_go (deref conf)) (\<lambda>data.
         put_storage (st\<lparr>sto_Shared := (sto_Shared st)(data \<mapsto> shared)\<rparr>))))"

section \<open>Verification of new blocks\<close>

text \<open>The range of \<open>verifyOCS\<close> over the blocks of the chain, in the order \<open>ord\<close>, for the block that
  holds the document: its write and its readers.\<close>

fun find_write ::
  "('p, 's) env \<Rightarrow> 'p heap \<Rightarrow> SkipBlockBunch \<Rightarrow> SkipBlockID \<Rightarrow> SkipBlockID list \<Rightarrow>
    (string, (('p, 's) DataOTSWrite \<times> ('p, 's) DataOCSReaders option) option) go" where
  "find_write E h bunch dataID [] = Ret None"
| "find_write E h bunch dataID (k # ks) =
    (case sbb_SkipBlocks bunch k of
       None \<Rightarrow> find_write E h bunch dataID ks
     | Some a \<Rightarrow>
       go_bind (NewDataOCS (env_unmarshal E) (sb_Data (h ! a))) (\<lambda>wd.
         case wd of
           None \<Rightarrow> find_write E h bunch dataID ks
         | Some d \<Rightarrow>
           (case do_OTSWrite d of
              Some w \<Rightarrow> if sb_Hash (h ! a) = dataID then Ret (Some (w, do_Readers d))
                        else find_write E h bunch dataID ks
            | None \<Rightarrow> find_write E h bunch dataID ks)))"

text \<open>The range over the readers: the first key under which the signature is valid.\<close>

fun valid_reader ::
  "('p :: ab_group_add, 's :: comm_ring_1, 'm) suite_scheme \<Rightarrow> ('p, 's) DataOCSRead \<Rightarrow> 'p list \<Rightarrow> (string, bool) go" where
  "valid_reader S read [] = Ret False"
| "valid_reader S read (pk # pks) =
    go_bind (deref (rd_Signature read)) (\<lambda>sg.
      case VerifySchnorr S pk (rd_DataID read) sg of
        Panic \<Rightarrow> Panic
      | Err _ \<Rightarrow> valid_reader S read pks
      | Ret _ \<Rightarrow> Ret True)"

definition verifyOCS ::
  "('p :: ab_group_add, 's :: comm_ring_1) env \<Rightarrow> SkipBlockID list \<Rightarrow> ('p, 's) Service \<Rightarrow> 'p SkipBlock \<Rightarrow>
    (string, bool) go" where
  "verifyOCS E ord s sb =
    go_bind (NewDataOCS (env_unmarshal E) (sb_Data sb)) (\<lambda>d.
    case d of None \<Rightarrow> Ret False | Some dataOCS \<Rightarrow>
    go_bind (deref (svc_Storage s)) (\<lambda>st.
    let g = sk_SkipChainID (env_ops E) sb in
    case GetFromGenesisByID (sto_OCSs st) g g of None \<Rightarrow> Ret False | Some ga \<Rightarrow>
    let genesis = sto_heap st ! ga in
    go_bind (NewDataOCS (env_unmarshal E) (sb_Data genesis)) (\<lambda>gd.
    case gd of None \<Rightarrow> Ret False | Some ocsData \<Rightarrow>
    (case do_OTSWrite dataOCS of
       Some write \<Rightarrow>
         go_bind (deref (dow_Data write)) (\<lambda>data.
         (case CreatePointH (env_suite E) (ow_ReaderPk data) of
            Panic \<Rightarrow> Panic
          | Err _ \<Rightarrow> Ret False
          | Ret h \<Rightarrow>
            (case env_VerifyEncShareBatch E h (ow_SCPublicKeys data) (ow_EncProofs data) (ow_EncShares data) of
               Panic \<Rightarrow> Panic
             | Err _ \<Rightarrow> Ret False
             | Ret (_, validShares) \<Rightarrow> Ret (\<not> length validShares < length (ow_EncShares data)))))
     | None \<Rightarrow>
       (case do_Read dataOCS of
          None \<Rightarrow> Ret False
        | Some read \<Rightarrow>
          go_bind (deref (GetBunch (sto_OCSs st) (sb_Hash genesis))) (\<lambda>bunch.
          go_bind (find_write E (sto_heap st) bunch (rd_DataID read) ord) (\<lambda>w.
          (case w of
             None \<Rightarrow> Ret False
           | Some (write, None) \<Rightarrow> Ret False
           | Some (write, Some readersBlock) \<Rightarrow>
               valid_reader (env_suite E) read (dr_Readers readersBlock)))))))))"

section \<open>Propagated blocks\<close>

definition Service_Store :: "('p, 's) env \<Rightarrow> 'p SkipBlock \<Rightarrow> (('p, 's) Service, string, unit) act" where
  "Service_Store E sb =
    act_bind get_storage (\<lambda>st.
    act_bind (act_go (SBBStorage_Store (env_ops E) (sto_heap st @ [sb]) (sto_OCSs st) (length (sto_heap st))))
      (\<lambda>(h, ocss). put_storage (st\<lparr>sto_heap := h, sto_OCSs := ocss\<rparr>)))"

definition propagateOCSFunc ::
  "('p, 's) env \<Rightarrow> ('p, 's) message \<Rightarrow> (('p, 's) Service, string, unit) act" where
  "propagateOCSFunc E sbI =
    (case sbI of
       M_SkipBlock sb \<Rightarrow>
         act_bind (Service_Store E sb) (\<lambda>_.
           if sb_Index sb = 0 then act_ret ()
           else
             act_bind (act_iter (\<lambda>sbID.
                 case env_GetSingleBlock E (sb_Roster sb) sbID of
                   Ret sbNew \<Rightarrow> Service_Store E sbNew
                 | Err _ \<Rightarrow> act_ret ()
                 | Panic \<Rightarrow> act_go Panic) (sb_BackLinkIDs sb)) (\<lambda>_.
             Service_save E))
     | _ \<Rightarrow> act_ret ())"

section \<open>Access control\<close>

text \<open>The decoder does not panic.\<close>

definition decodes :: "('p, 's) env \<Rightarrow> bool" where
  "decodes E \<longleftrightarrow> (\<forall>b. env_unmarshal E b \<noteq> Panic)"

text \<open>The contents of a block, when it decodes to on-chain-secrets data.\<close>

definition data_of :: "('p, 's) env \<Rightarrow> 'p SkipBlock \<Rightarrow> ('p, 's) DataOCS option" where
  "data_of E sb = (case env_unmarshal E (sb_Data sb) of Ret (Some (M_DataOCS d)) \<Rightarrow> Some d | _ \<Rightarrow> None)"

lemma NewDataOCS_data_of: "decodes E \<Longrightarrow> NewDataOCS (env_unmarshal E) (sb_Data sb) = Ret (data_of E sb)"
  unfolding decodes_def NewDataOCS_def data_of_def
  by (auto split: go.splits option.splits message.splits)

text \<open>The write and the readers that the chain holds for a document id.\<close>

definition write_of ::
  "('p, 's) env \<Rightarrow> 'p heap \<Rightarrow> SkipBlockBunch \<Rightarrow> SkipBlockID \<Rightarrow>
    (('p, 's) DataOTSWrite \<times> ('p, 's) DataOCSReaders option) option" where
  "write_of E h bunch dataID =
    (case sbb_SkipBlocks bunch dataID of
       None \<Rightarrow> None
     | Some a \<Rightarrow> (case data_of E (h ! a) of
         None \<Rightarrow> None | Some d \<Rightarrow> map_option (\<lambda>w. (w, do_Readers d)) (do_OTSWrite d)))"

lemma find_write_spec:
  assumes "decodes E" and "bunch_ok h bunch"
  shows "find_write E h bunch dataID ks = Ret (if dataID \<in> set ks then write_of E h bunch dataID else None)"
proof (induction ks)
  case (Cons k ks)
  show ?case
  proof (cases "sbb_SkipBlocks bunch k")
    case None
    then show ?thesis using Cons by (auto simp: write_of_def)
  next
    case (Some a)
    then have "sb_Hash (h ! a) = k" using bunch_okD(2) [OF assms(2)] by blast
    then show ?thesis
      using Some Cons by (auto simp: NewDataOCS_data_of [OF assms(1)] write_of_def split: option.splits)
  qed
qed simp

lemma VerifySchnorr_no_panic: "point_marshals S \<Longrightarrow> VerifySchnorr S pk msg sg \<noteq> Panic"
  unfolding VerifySchnorr_def schnorr_hash_def Let_def point_marshals_def
  by (auto simp: go_bind_eq_Panic) (metis go.distinct(3))

lemma valid_reader_True:
  assumes "point_marshals S"
  shows "valid_reader S read pks = Ret True \<longleftrightarrow>
    (\<exists>sg. rd_Signature read = Some sg \<and> (\<exists>pk \<in> set pks. VerifySchnorr S pk (rd_DataID read) sg = Ret ()))"
proof (induction pks)
  case (Cons pk pks)
  show ?case
  proof (cases "rd_Signature read")
    case (Some sg)
    then show ?thesis
      using Cons VerifySchnorr_no_panic [OF assms, of pk "rd_DataID read" sg]
      by (cases "VerifySchnorr S pk (rd_DataID read) sg") auto
  qed simp
qed simp

text \<open>
  The right to read: the chain holds a block with that document id, with the readers of the
  document, and the request carries a valid signature of one of them on the id.
\<close>

definition may_read ::
  "('p :: ab_group_add, 's :: comm_ring_1) env \<Rightarrow> ('p, 's) Storage \<Rightarrow> SkipBlockID \<Rightarrow> ('p, 's) DataOCSRead \<Rightarrow> bool" where
  "may_read E st g read \<longleftrightarrow>
    (\<exists>bunch a d rs sg. GetBunch (sto_OCSs st) g = Some bunch \<and>
      Bunch_GetByID bunch (rd_DataID read) = Some a \<and> data_of E (sto_heap st ! a) = Some d \<and>
      do_OTSWrite d \<noteq> None \<and> do_Readers d = Some rs \<and> rd_Signature read = Some sg \<and>
      (\<exists>pk \<in> set (dr_Readers rs). VerifySchnorr (env_suite E) pk (rd_DataID read) sg = Ret ()))"

text \<open>The genesis block of the chain of a block is known and holds on-chain-secrets data.\<close>

definition known_genesis :: "('p, 's) env \<Rightarrow> ('p, 's) Storage \<Rightarrow> SkipBlockID \<Rightarrow> bool" where
  "known_genesis E st g \<longleftrightarrow>
    (\<exists>ga. GetFromGenesisByID (sto_OCSs st) g g = Some ga \<and> data_of E (sto_heap st ! ga) \<noteq> None)"

lemma GetFromGenesisByID_genesis:
  assumes "storage_ok K h s" and "GetFromGenesisByID s g g = Some ga"
  shows "sb_Hash (h ! ga) = g" and "\<exists>bunch. GetBunch s g = Some bunch \<and> bunch_ok h bunch"
proof -
  from assms(2) obtain bunch where b: "sbs_Bunches s g = Some bunch" "sbb_SkipBlocks bunch g = Some ga"
    by (auto simp: GetFromGenesisByID_def GetBunch_def Bunch_GetByID_def split: option.splits)
  have ok: "bunch_ok h bunch" by (rule storage_okD(1) [OF assms(1) b(1)])
  show "sb_Hash (h ! ga) = g" using bunch_okD(2) [OF ok b(2)] .
  show "\<exists>bunch. GetBunch s g = Some bunch \<and> bunch_ok h bunch"
    using b(1) ok by (auto simp: GetBunch_def)
qed

text \<open>What is left of \<open>verifyOCS\<close> for a block that holds a read and no write.\<close>

lemma verifyOCS_read_unfold:
  assumes "decodes E" and "svc_Storage s = Some st" and "storage_ok (env_ops E) (sto_heap st) (sto_OCSs st)"
    and "data_of E sb = Some d" and "do_OTSWrite d = None" and "do_Read d = Some read"
    and "g = sk_SkipChainID (env_ops E) sb"
    and "\<And>bunch. GetBunch (sto_OCSs st) g = Some bunch \<Longrightarrow> range_order (sbb_SkipBlocks bunch) ord"
  shows "verifyOCS E ord s sb =
    (if \<not> known_genesis E st g then Ret False
     else case write_of E (sto_heap st) (the (GetBunch (sto_OCSs st) g)) (rd_DataID read) of
         Some (_, Some rs) \<Rightarrow> valid_reader (env_suite E) read (dr_Readers rs)
       | _ \<Rightarrow> Ret False)"
proof (cases "GetFromGenesisByID (sto_OCSs st) g g")
  case None
  then show ?thesis
    using assms(2,4,7) by (simp add: verifyOCS_def NewDataOCS_data_of [OF assms(1)] known_genesis_def)
next
  case (Some ga)
  obtain bunch where hash: "sb_Hash (sto_heap st ! ga) = g" and b: "GetBunch (sto_OCSs st) g = Some bunch"
    and ok: "bunch_ok (sto_heap st) bunch"
    using GetFromGenesisByID_genesis [OF assms(3) Some] by blast
  have "rd_DataID read \<in> set ord \<or> sbb_SkipBlocks bunch (rd_DataID read) = None"
    using assms(8) [OF b] by (auto simp: range_order_def)
  then have "find_write E (sto_heap st) bunch (rd_DataID read) ord
      = Ret (write_of E (sto_heap st) bunch (rd_DataID read))"
    using find_write_spec [OF assms(1) ok] by (auto simp: write_of_def)
  then show ?thesis
    using assms(2,4,5,6,7) Some hash b
    by (auto simp: verifyOCS_def NewDataOCS_data_of [OF assms(1)] known_genesis_def split: option.splits)
qed

subsection \<open>A concrete service\<close>

definition ex_sig :: "int SchnorrSig" where
  "ex_sig = \<lparr>sig_Challenge = 7, sig_Response = 3\<rparr>"

definition ex_readers :: "(int, int) DataOCSReaders" where
  "ex_readers = \<lparr>dr_ID = [], dr_Readers = [5], dr_Admins = [], dr_Threshold = 0, dr_Signature = None\<rparr>"

definition ex_otswrite :: "int OTSWrite" where
  "ex_otswrite = \<lparr>ow_G = 1, ow_SCPublicKeys = [1], ow_EncShares = [\<lparr>pvs_S = \<lparr>ps_I = 0, ps_V = 4\<rparr>, pvs_P = []\<rparr>],
    ow_EncProofs = [6], ow_HashEnc = [], ow_ReaderPk = 5\<rparr>"

definition ex_read :: "(int, int) DataOCSRead" where
  "ex_read = \<lparr>rd_DataID = [2], rd_Public = 5, rd_Signature = Some ex_sig\<rparr>"

text \<open>A decoder with one code per kind of block: empty, write, read, and a read of another document.\<close>

definition ex_unmarshal :: "(int, int) unmarshal" where
  "ex_unmarshal b =
    (if b = [0] then Ret (Some (M_DataOCS empty_DataOCS))
     else if b = [1] then Ret (Some (M_DataOCS (empty_DataOCS
       \<lparr>do_OTSWrite := Some \<lparr>dow_Data = Some ex_otswrite, dow_Signature = Some ex_sig\<rparr>,
        do_Readers := Some ex_readers\<rparr>)))
     else if b = [2] then Ret (Some (M_DataOCS (empty_DataOCS\<lparr>do_Read := Some ex_read\<rparr>)))
     else if b = [3] then Ret (Some (M_DataOCS (empty_DataOCS\<lparr>do_Read := Some (ex_read\<lparr>rd_DataID := [9]\<rparr>)\<rparr>)))
     else Err ''not registered'')"

definition ex_env :: "(int, int) env" where
  "ex_env = \<lparr>env_suite = int_suite, env_ops = plain_ops, env_unmarshal = ex_unmarshal,
    env_VerifyEncShareBatch = (\<lambda>h X sH es. Ret (X, es)),
    env_CreateGenesis = (\<lambda>r d. Ret ((ex_block 0 1 [])\<lparr>sb_Data := [0]\<rparr>)),
    env_GetSingleBlock = (\<lambda>r i. Err (NewClientErrorCode 4100 ''not found'')),
    env_RecoverCommit = (\<lambda>us t n. Ret 0), env_Save = (\<lambda>st. Ret ())\<rparr>"

lemma ex_env_simps [simp]:
  "env_suite ex_env = int_suite" "env_ops ex_env = plain_ops" "env_unmarshal ex_env = ex_unmarshal"
  "env_VerifyEncShareBatch ex_env = (\<lambda>h X sH es. Ret (X, es))"
  "env_GetSingleBlock ex_env = (\<lambda>r i. Err (NewClientErrorCode 4100 ''not found''))"
  "env_Save ex_env = (\<lambda>st. Ret ())"
  by (simp_all add: ex_env_def)

lemma ex_decodes [simp]: "decodes ex_env"
  by (simp add: decodes_def ex_unmarshal_def)

definition ex_data_block :: "int \<Rightarrow> byte \<Rightarrow> BlockLink list \<Rightarrow> byte \<Rightarrow> int SkipBlock" where
  "ex_data_block i k fls d = (ex_block i k fls)\<lparr>sb_Data := [d]\<rparr>"

text \<open>A chain of three blocks: genesis, a write and a read of it.\<close>

definition ex_storage :: "(int, int) Storage" where
  "ex_storage =
    \<lparr>sto_heap = [ex_data_block 0 1 [ex_link 2] 0, ex_data_block 1 2 [ex_link 3] 1, ex_data_block 2 3 [] 2],
     sto_OCSs = \<lparr>sbs_Bunches = [[1] \<mapsto> \<lparr>sbb_GenesisID = [1], sbb_Latest = 2,
       sbb_SkipBlocks = [[1] \<mapsto> 0, [2] \<mapsto> 1, [3] \<mapsto> 2], sbb_Parents = Map.empty\<rparr>]\<rparr>,
     sto_Shared = Map.empty\<rparr>"

definition ex_service :: "(int, int) Service" where
  "ex_service = \<lparr>svc_Storage = Some ex_storage, svc_ServerIdentity = ex_si 1, svc_Saved = None\<rparr>"

lemma ex_service_Storage [simp]: "svc_Storage ex_service = Some ex_storage"
  by (simp add: ex_service_def)

lemmas ex_block_defs = ex_data_block_def ex_block_def ex_link_def

lemma ex_storage_ok: "storage_ok plain_ops (sto_heap ex_storage) (sto_OCSs ex_storage)"
  by (auto simp: storage_ok_def bunch_ok_def ex_storage_def ex_block_defs plain_ops_simps split: if_splits)

lemma ex_range_order:
  "GetBunch (sto_OCSs ex_storage) [1] = Some bunch \<Longrightarrow> range_order (sbb_SkipBlocks bunch) [[3], [2], [1]]"
  by (auto simp: GetBunch_def ex_storage_def range_order_def split: if_splits)

lemma ex_data_of:
  "data_of ex_env (ex_data_block i k fls 2) = Some (empty_DataOCS\<lparr>do_Read := Some ex_read\<rparr>)"
  "data_of ex_env (ex_data_block i k fls 0) = Some empty_DataOCS"
  by (simp_all add: data_of_def ex_data_block_def ex_unmarshal_def)

subsection \<open>Properties of verifyOCS\<close>

lemma verifyOCS_read_True:
  assumes "decodes E" and "point_marshals (env_suite E)" and "svc_Storage s = Some st"
    and "storage_ok (env_ops E) (sto_heap st) (sto_OCSs st)"
    and "data_of E sb = Some d" and "do_OTSWrite d = None" and "do_Read d = Some read"
    and "\<forall>bunch. GetBunch (sto_OCSs st) (sk_SkipChainID (env_ops E) sb) = Some bunch \<longrightarrow>
      range_order (sbb_SkipBlocks bunch) ord"
  shows "verifyOCS E ord s sb = Ret True \<longleftrightarrow>
    known_genesis E st (sk_SkipChainID (env_ops E) sb) \<and> may_read E st (sk_SkipChainID (env_ops E) sb) read"
proof -
  let ?g = "sk_SkipChainID (env_ops E) sb"
  note unfold = verifyOCS_read_unfold [OF assms(1,3-7) refl, of ord] assms(8)
  show ?thesis
  proof (cases "known_genesis E st ?g")
    case True
    then obtain bunch where b: "GetBunch (sto_OCSs st) ?g = Some bunch"
      using GetFromGenesisByID_genesis(2) [OF assms(4)] by (auto simp: known_genesis_def)
    show ?thesis
      using True unfold b valid_reader_True [OF assms(2)]
      by (auto simp: write_of_def may_read_def Bunch_GetByID_def split: option.splits)
  qed (use unfold in auto)
qed

text \<open>C5: access control. The verification function accepts a read block exactly when the
  genesis block of its chain is known and the chain holds a write block whose id is the requested
  document, with a list of readers, one of whose keys verifies the signature of the request on
  the document id. The order in which the blocks of the chain are visited does not matter.\<close>

theorem verifyOCS_read_iff:
  assumes "decodes E" and "point_marshals (env_suite E)" and "svc_Storage s = Some st"
    and "storage_ok (env_ops E) (sto_heap st) (sto_OCSs st)"
    and "data_of E sb = Some d" and "do_OTSWrite d = None" and "do_Read d = Some read"
    and "\<forall>bunch. GetBunch (sto_OCSs st) (sk_SkipChainID (env_ops E) sb) = Some bunch \<longrightarrow>
      range_order (sbb_SkipBlocks bunch) ord"
  shows "verifyOCS E ord s sb = Ret True \<longleftrightarrow>
    known_genesis E st (sk_SkipChainID (env_ops E) sb) \<and> may_read E st (sk_SkipChainID (env_ops E) sb) read"
  using assms by (rule verifyOCS_read_True)

theorem verifyOCS_read_iff_witness:
  "verifyOCS ex_env [[3], [2], [1]] ex_service (ex_data_block 3 4 [] 2) = Ret True \<longleftrightarrow>
    known_genesis ex_env ex_storage [1] \<and> may_read ex_env ex_storage [1] ex_read"
proof -
  have g: "sk_SkipChainID plain_ops (ex_data_block 3 4 [] 2) = [1]"
    by (simp add: plain_ops_simps ex_block_defs)
  show ?thesis
    using verifyOCS_read_iff [where E = ex_env and s = ex_service and st = ex_storage and sb = "ex_data_block 3 4 [] 2"
        and ord = "[[3], [2], [1]]" and read = ex_read] ex_storage_ok ex_range_order g
    by (simp add: ex_data_of empty_DataOCS_def)
qed

text \<open>a read request that carries a signature made with the private key of one of the
  readers of the document, on the id of the document, is accepted by the verification function.\<close>

theorem verifyOCS_accepts_signed_reader:
  assumes "decodes E" and "suite_laws (env_suite E)" and "point_marshals (env_suite E)"
    and "svc_Storage s = Some st" and "storage_ok (env_ops E) (sto_heap st) (sto_OCSs st)"
    and "data_of E sb = Some d" and "do_OTSWrite d = None" and "do_Read d = Some read"
    and "\<forall>bunch. GetBunch (sto_OCSs st) (sk_SkipChainID (env_ops E) sb) = Some bunch \<longrightarrow>
      range_order (sbb_SkipBlocks bunch) ord"
    and "known_genesis E st (sk_SkipChainID (env_ops E) sb)"
    and "GetFromGenesisByID (sto_OCSs st) (sk_SkipChainID (env_ops E) sb) (rd_DataID read) = Some a"
    and "data_of E (sto_heap st ! a) = Some wd" and "do_OTSWrite wd = Some w" and "do_Readers wd = Some rs"
    and "public_of (env_suite E) x \<in> set (dr_Readers rs)"
    and "SignSchnorr (env_suite E) k x (rd_DataID read) = Ret sg" and "rd_Signature read = Some sg"
  shows "verifyOCS E ord s sb = Ret True"
proof -
  have "\<exists>pk \<in> set (dr_Readers rs). VerifySchnorr (env_suite E) pk (rd_DataID read) sg = Ret ()"
    by (rule schnorr.sign_verifies_in_list [OF assms(2,16,15)])
  then have "may_read E st (sk_SkipChainID (env_ops E) sb) read"
    using assms(11-14,17) unfolding may_read_def GetFromGenesisByID_def
    by (auto split: option.splits)
  then show ?thesis
    using verifyOCS_read_True [OF assms(1,3-9)] assms(10) by simp
qed

theorem verifyOCS_accepts_signed_reader_witness:
  "verifyOCS ex_env [[3], [2], [1]] ex_service (ex_data_block 3 4 [] 2) = Ret True"
proof -
  have g: "sk_SkipChainID plain_ops (ex_data_block 3 4 [] 2) = [1]"
    by (simp add: plain_ops_simps ex_block_defs)
  have gen: "known_genesis ex_env ex_storage [1]"
    by (simp add: known_genesis_def GetFromGenesisByID_def GetBunch_def Bunch_GetByID_def ex_storage_def ex_data_of)
  have doc: "GetFromGenesisByID (sto_OCSs ex_storage) [1] [2] = Some 1"
    by (simp add: GetFromGenesisByID_def GetBunch_def Bunch_GetByID_def ex_storage_def)
  have wd: "data_of ex_env (sto_heap ex_storage ! 1) = Some (empty_DataOCS
      \<lparr>do_OTSWrite := Some \<lparr>dow_Data = Some ex_otswrite, dow_Signature = Some ex_sig\<rparr>, do_Readers := Some ex_readers\<rparr>)"
    by (simp add: ex_storage_def data_of_def ex_data_block_def ex_unmarshal_def)
  have sg: "SignSchnorr int_suite 38 5 [2] = Ret ex_sig"
    by (simp add: SignSchnorr_def schnorr_hash_def int_suite_def ex_sig_def)
  have read: "rd_DataID ex_read = [2]" "rd_Signature ex_read = Some ex_sig" by (simp_all add: ex_read_def)
  have pk: "public_of int_suite 5 \<in> set (dr_Readers ex_readers)"
    by (simp add: public_of_def int_suite_def ex_readers_def)
  show ?thesis
    by (rule verifyOCS_accepts_signed_reader [OF ex_decodes _ _ ex_service_Storage _ ex_data_of(1) _ _ _ _ _ wd])
      (use g gen doc sg read pk ex_storage_ok ex_range_order in \<open>auto simp: empty_DataOCS_def\<close>)
qed

text \<open>The check of the encrypted shares of a write.\<close>

definition shares_ok :: "('p, 's) env \<Rightarrow> 'p OTSWrite \<Rightarrow> bool" where
  "shares_ok E data \<longleftrightarrow>
    (\<exists>h K valid. CreatePointH (env_suite E) (ow_ReaderPk data) = Ret h \<and>
      env_VerifyEncShareBatch E h (ow_SCPublicKeys data) (ow_EncProofs data) (ow_EncShares data) = Ret (K, valid) \<and>
      length (ow_EncShares data) \<le> length valid)"

text \<open>C22: the verification function accepts a write of the one-time-secrets kind exactly when the
  genesis block of the chain is known and the batch check of its encrypted shares, on the point
  derived from the reader's key, finds all of them valid. Neither the writer's signature nor the
  list of readers takes part in the decision.\<close>

theorem verifyOCS_write_iff:
  assumes "decodes E" and "svc_Storage s = Some st"
    and "data_of E sb = Some d" and "do_OTSWrite d = Some w"
  shows "verifyOCS E ord s sb = Ret True \<longleftrightarrow>
    known_genesis E st (sk_SkipChainID (env_ops E) sb) \<and> (\<exists>data. dow_Data w = Some data \<and> shares_ok E data)"
proof (cases "dow_Data w")
  case None
  then show ?thesis
    using assms by (auto simp: verifyOCS_def NewDataOCS_data_of [OF assms(1)] known_genesis_def Let_def
        split: option.splits)
next
  case (Some data)
  then show ?thesis
    using assms
    by (auto simp: verifyOCS_def NewDataOCS_data_of [OF assms(1)] known_genesis_def shares_ok_def Let_def
        split: option.splits go.splits)
qed

theorem verifyOCS_write_iff_witness:
  "verifyOCS ex_env [] ex_service (ex_data_block 3 4 [] 1) = Ret True \<longleftrightarrow>
    known_genesis ex_env ex_storage (sk_SkipChainID (plain_ops :: int skipchain_ops) (ex_data_block 3 4 [] 1)) \<and>
    (\<exists>data. Some ex_otswrite = Some data \<and> shares_ok ex_env data)"
  using verifyOCS_write_iff [OF ex_decodes ex_service_Storage, of "ex_data_block 3 4 [] 1" _
      "\<lparr>dow_Data = Some ex_otswrite, dow_Signature = Some ex_sig\<rparr>" "[]"]
  by (simp add: data_of_def ex_data_block_def ex_unmarshal_def)

text \<open>a block that carries only the long-term kind of write, the one that \<open>WriteRequest\<close>
  stores and \<open>DecryptKeyRequest\<close> reads, is never accepted by the verification function.\<close>

theorem verifyOCS_rejects_longterm_write:
  assumes "data_of E sb = Some d" and "do_OTSWrite d = None" and "do_Read d = None"
  shows "verifyOCS E ord s sb \<noteq> Ret True"
  using assms
  by (auto simp: verifyOCS_def NewDataOCS_def data_of_def go_bind_eq_Ret Let_def
      split: option.splits go.splits message.splits)

theorem verifyOCS_rejects_longterm_write_witness:
  "verifyOCS (ex_env\<lparr>env_unmarshal := \<lambda>b. Ret (Some (M_DataOCS
      (empty_DataOCS\<lparr>do_Write := Some \<lparr>dw_Data = [], dw_U = 1, dw_Cs = [], dw_Readers = []\<rparr>\<rparr>)))\<rparr>)
    [] ex_service (ex_data_block 3 4 [] 1) \<noteq> Ret True"
  by (rule verifyOCS_rejects_longterm_write [where d = "empty_DataOCS
        \<lparr>do_Write := Some \<lparr>dw_Data = [], dw_U = 1, dw_Cs = [], dw_Readers = []\<rparr>\<rparr>"])
    (simp_all add: data_of_def empty_DataOCS_def)

section \<open>The list of read requests\<close>

text \<open>
  The blocks that follow a block along the first forward-links, up to the block without a
  forward-link. \<open>path st a as\<close> holds when the addresses \<open>as\<close> are these blocks, from \<open>a\<close> on.
\<close>

fun path :: "('p, 's) env \<Rightarrow> ('p, 's) Storage \<Rightarrow> addr \<Rightarrow> addr list \<Rightarrow> bool" where
  "path E st a [] \<longleftrightarrow> False"
| "path E st a [b] \<longleftrightarrow> a = b \<and> sb_ForwardLink (sto_heap st ! a) = []"
| "path E st a (b # c # as) \<longleftrightarrow> a = b \<and>
    (\<exists>fl fls. sb_ForwardLink (sto_heap st ! a) = fl # fls \<and>
      GetFromGenesisByID (sto_OCSs st) (sk_SkipChainID (env_ops E) (sto_heap st ! a)) (bl_Hash fl) = Some c) \<and>
    path E st c (c # as)"

definition read_doc :: "('p, 's) env \<Rightarrow> 'p SkipBlock \<Rightarrow> 'p ReadDoc list" where
  "read_doc E sb =
    (case data_of E sb of
       Some d \<Rightarrow> (case do_Read d of
           Some read \<Rightarrow> [\<lparr>rdoc_Reader = rd_Public read, rdoc_ReadID = sb_Hash sb, rdoc_DataID = rd_DataID read\<rparr>]
         | None \<Rightarrow> [])
     | None \<Rightarrow> [])"

text \<open>The block decodes to on-chain-secrets data, or not at all.\<close>

definition ocs_block :: "('p, 's) env \<Rightarrow> 'p SkipBlock \<Rightarrow> bool" where
  "ocs_block E sb \<longleftrightarrow>
    (case env_unmarshal E (sb_Data sb) of
       Ret (Some (M_DataOCS d)) \<Rightarrow> True | Ret None \<Rightarrow> True | Err _ \<Rightarrow> True | _ \<Rightarrow> False)"

lemma read_step_ocs:
  assumes "ocs_block E sb"
  shows "read_step E cnt doc sb docs =
    (if cnt = 0 \<and> (\<exists>r \<in> set (read_doc E sb). \<not> sk_Equal (env_ops E) (rdoc_DataID r) doc) then RS_Continue
     else RS_Advance (docs @ read_doc E sb))"
  using assms unfolding read_step_def read_doc_def data_of_def ocs_block_def
  by (auto split: go.splits option.splits message.splits)

text \<open>With a positive count the loop collects the reads of the path in order, up to the count.\<close>

lemma read_loop_count:
  assumes "path E st a as" and "\<forall>b \<in> set as. ocs_block E (sto_heap st ! b)" and "0 < cnt"
    and "int (length docs) \<le> cnt"
  shows "read_loop E st cnt doc (Some a) docs =
    Some (Ret (docs @ take (nat cnt - length docs) (concat (map (\<lambda>b. read_doc E (sto_heap st ! b)) as))))"
  using assms
proof (induction E st a as arbitrary: docs rule: path.induct)
  case (1 E st a)
  then show ?case by simp
next
  case (2 E st a b)
  then show ?case
    by (auto simp: read_loop.simps [of E st cnt doc "Some b" docs] read_step_ocs read_doc_def Suc_diff_le
        split: option.splits)
next
  case (3 E st a b c as)
  from "3.prems"(1) obtain fl fls where fl: "sb_ForwardLink (sto_heap st ! a) = fl # fls"
    and c: "GetFromGenesisByID (sto_OCSs st) (sk_SkipChainID (env_ops E) (sto_heap st ! a)) (bl_Hash fl) = Some c"
    and rest: "path E st c (c # as)" and b: "a = b"
    by auto
  let ?docs = "docs @ read_doc E (sto_heap st ! a)"
  show ?case
  proof (cases "int (length docs) < cnt")
    case True
    then have len: "int (length ?docs) \<le> cnt" by (auto simp: read_doc_def split: option.splits)
    have "read_loop E st cnt doc (Some a) docs = read_loop E st cnt doc (Some c) ?docs"
      using "3.prems" True fl c b
      by (simp add: read_loop.simps [of E st cnt doc "Some b" docs] read_step_ocs)
    with "3.IH" [OF rest _ "3.prems"(3) len] "3.prems"(2) b len show ?thesis
      by (simp add: nat_diff_distrib' take_append)
  next
    case False
    then show ?thesis
      using "3.prems" b by (simp add: read_loop.simps [of E st cnt doc "Some b" docs])
  qed
qed

lemma path_hd: "path E st a as \<Longrightarrow> \<exists>bs. as = a # bs"
  by (induction E st a as rule: path.induct) auto

text \<open>With the count 0 it collects the reads of the start document, as long as there are no others.\<close>

lemma read_loop_all:
  assumes "path E st a as" and "\<forall>b \<in> set as. ocs_block E (sto_heap st ! b)"
    and "\<forall>b \<in> set as. \<forall>r \<in> set (read_doc E (sto_heap st ! b)). sk_Equal (env_ops E) (rdoc_DataID r) doc"
  shows "read_loop E st 0 doc (Some a) docs =
    Some (Ret (docs @ concat (map (\<lambda>b. read_doc E (sto_heap st ! b)) as)))"
  using assms
proof (induction E st a as arbitrary: docs rule: path.induct)
  case (2 E st a b)
  then show ?case
    by (auto simp: read_loop.simps [of E st 0 doc "Some b" docs] read_step_ocs)
next
  case (3 E st a b c as)
  then show ?case
    by (auto simp: read_loop.simps [of E st 0 doc "Some b" docs] read_step_ocs)
qed simp

text \<open>A round that continues without moving on is repeated for ever.\<close>

lemma read_loop_stuck:
  assumes "read_step E 0 doc (sto_heap st ! a) docs = RS_Continue"
  shows "read_loop E st 0 doc (Some a) docs = None"
proof -
  have "\<not> (E = E \<and> st = st \<and> (0 :: int) = 0 \<and> doc = doc \<and> Some a = Some a \<and> docs = docs)"
    if "read_loop E st 0 doc (Some a) docs = Some r" for r
    by (rule read_loop.raw_induct [OF _ that, of "\<lambda>E' st' cnt doc' cur ds r.
      \<not> (E' = E \<and> st' = st \<and> cnt = 0 \<and> doc' = doc \<and> cur = Some a \<and> ds = docs)"])
      (use assms in \<open>clarsimp, blast\<close>)
  then show ?thesis by (cases "read_loop E st 0 doc (Some a) docs") auto
qed

subsection \<open>Properties of GetReadRequests\<close>

lemma GetReadRequests_start:
  assumes "svc_Storage s = Some st" and "SBBStorage_GetByID (sto_OCSs st) ord (grr_Start req) = Some a"
    and "grr_Count req \<noteq> 0 \<or> (\<exists>d. data_of E (sto_heap st ! a) = Some d \<and> do_OTSWrite d \<noteq> None)"
  shows "Service_GetReadRequests E ord req s =
    map_option (\<lambda>r. go_bind r (\<lambda>docs. Ret \<lparr>gry_Documents = docs\<rparr>))
      (read_loop E st (grr_Count req) (if grr_Count req = 0 then sb_Hash (sto_heap st ! a) else []) (Some a) [])"
  using assms
  by (auto simp: Service_GetReadRequests_def Let_def data_of_def NewDataOCS_def
      split: option.splits go.splits message.splits)

text \<open>with a positive count, \<open>GetReadRequests\<close> returns, in the order of the chain, the first read
  requests from the given block on, as many as the count asks for and never more. The chain is
  followed along the first forward-link of each block.\<close>

theorem GetReadRequests_counted:
  assumes "svc_Storage s = Some st" and "SBBStorage_GetByID (sto_OCSs st) ord (grr_Start req) = Some a"
    and "0 < grr_Count req" and "path E st a as" and "\<forall>b \<in> set as. ocs_block E (sto_heap st ! b)"
  shows "Service_GetReadRequests E ord req s =
    Some (Ret \<lparr>gry_Documents = take (nat (grr_Count req))
      (concat (map (\<lambda>b. read_doc E (sto_heap st ! b)) as))\<rparr>)"
  using GetReadRequests_start [OF assms(1,2)] read_loop_count [OF assms(4,5,3), of "[]" "[]"] assms(3)
  by simp

lemma ex_path: "path ex_env ex_storage 1 [1, 2]" "\<forall>b \<in> set [1, 2]. ocs_block ex_env (sto_heap ex_storage ! b)"
  "SBBStorage_GetByID (sto_OCSs ex_storage) [[1]] [2] = Some 1"
  by (simp_all add: ex_storage_def ex_block_defs plain_ops_simps GetFromGenesisByID_def GetBunch_def
      Bunch_GetByID_def ocs_block_def ex_unmarshal_def SBBStorage_GetByID_def)

theorem GetReadRequests_counted_witness:
  "Service_GetReadRequests ex_env [[1]] \<lparr>grr_Start = [2], grr_Count = 1\<rparr> ex_service =
    Some (Ret \<lparr>gry_Documents = [\<lparr>rdoc_Reader = 5, rdoc_ReadID = [3], rdoc_DataID = [2]\<rparr>]\<rparr>)"
  using GetReadRequests_counted [OF ex_service_Storage _ _ ex_path(1,2), of "[[1]]" "\<lparr>grr_Start = [2], grr_Count = 1\<rparr>"]
    ex_path(3)
  by (simp add: read_doc_def data_of_def ex_storage_def ex_block_defs ex_unmarshal_def ex_read_def empty_DataOCS_def)

text \<open>with the count 0 and a write block as start, \<open>GetReadRequests\<close> returns all read requests of
  that document when the rest of the chain holds no read of another document.\<close>

theorem GetReadRequests_all:
  assumes "skipchain_laws (env_ops E)" and "svc_Storage s = Some st"
    and "SBBStorage_GetByID (sto_OCSs st) ord (grr_Start req) = Some a" and "grr_Count req = 0"
    and "data_of E (sto_heap st ! a) = Some d" and "do_OTSWrite d \<noteq> None"
    and "path E st a as" and "\<forall>b \<in> set as. ocs_block E (sto_heap st ! b)"
    and "\<forall>b \<in> set as. \<forall>r \<in> set (read_doc E (sto_heap st ! b)). rdoc_DataID r = sb_Hash (sto_heap st ! a)"
  shows "Service_GetReadRequests E ord req s =
    Some (Ret \<lparr>gry_Documents = concat (map (\<lambda>b. read_doc E (sto_heap st ! b)) as)\<rparr>)"
  using GetReadRequests_start [OF assms(2,3), of E] read_loop_all [OF assms(7,8), of "sb_Hash (sto_heap st ! a)" "[]"]
    assms(4,5,6,9) skipchain_lawsD(4) [OF assms(1)]
  by simp

theorem GetReadRequests_all_witness:
  "Service_GetReadRequests ex_env [[1]] \<lparr>grr_Start = [2], grr_Count = 0\<rparr> ex_service =
    Some (Ret \<lparr>gry_Documents = [\<lparr>rdoc_Reader = 5, rdoc_ReadID = [3], rdoc_DataID = [2]\<rparr>]\<rparr>)"
proof -
  let ?w = "empty_DataOCS\<lparr>do_OTSWrite := Some \<lparr>dow_Data = Some ex_otswrite, dow_Signature = Some ex_sig\<rparr>,
    do_Readers := Some ex_readers\<rparr>"
  have "data_of ex_env (sto_heap ex_storage ! 1) = Some ?w"
    by (simp add: data_of_def ex_storage_def ex_data_block_def ex_unmarshal_def)
  from GetReadRequests_all [OF _ ex_service_Storage _ _ this _ ex_path(1,2), of "[[1]]" "\<lparr>grr_Start = [2], grr_Count = 0\<rparr>"]
    ex_path(3)
  show ?thesis
    by (simp add: read_doc_def data_of_def ex_storage_def ex_block_defs ex_unmarshal_def ex_read_def empty_DataOCS_def)
qed


text \<open>The same chain with a read of another document at its end.\<close>

definition ex_storage2 :: "(int, int) Storage" where
  "ex_storage2 = ex_storage\<lparr>sto_heap := (sto_heap ex_storage)[2 := ex_data_block 2 3 [] 3]\<rparr>"


section \<open>Adding blocks\<close>

text \<open>A storage and a bunch for the chain.\<close>

definition chain_known :: "('p, 's) Service \<Rightarrow> SkipBlockID \<Rightarrow> bool" where
  "chain_known s g \<longleftrightarrow> (\<exists>st b. svc_Storage s = Some st \<and> GetBunch (sto_OCSs st) g = Some b)"

text \<open>The latest block of a chain.\<close>

definition latest_of :: "('p, 's) Service \<Rightarrow> SkipBlockID \<Rightarrow> 'p SkipBlock" where
  "latest_of s g = (case svc_Storage s of Some st \<Rightarrow>
    (case GetBunch (sto_OCSs st) g of Some b \<Rightarrow> sto_heap st ! sbb_Latest b))"

lemma BunchAddBlock_store_fails:
  assumes "chain_known s g" and "store (latest_of s g) r data = Err e"
  shows "BunchAddBlock E store g r data s = (Err e, s)"
  using assms unfolding chain_known_def latest_of_def BunchAddBlock_def
  by (auto simp: act_bind_def get_storage_def act_go_def)

lemma BunchAddBlock_store_ok:
  assumes "svc_Storage s = Some st" and "GetBunch (sto_OCSs st) g = Some b"
    and "store (sto_heap st ! sbb_Latest b) r data = Ret sb"
    and "Bunch_Store (env_ops E) (sto_heap st @ [sb]) b (length (sto_heap st)) = Ret (bid, h', b')"
  shows "BunchAddBlock E store g r data s =
    (if bid = [] then Err (NewClientErrorCode ErrorProtocol ''Couldn't add block to bunch'')
     else Ret (length (sto_heap st)),
     s\<lparr>svc_Storage := Some (st\<lparr>sto_heap := h',
       sto_OCSs := (sto_OCSs st)\<lparr>sbs_Bunches := (sbs_Bunches (sto_OCSs st))(g \<mapsto> b')\<rparr>\<rparr>)\<rparr>)"
  using assms unfolding BunchAddBlock_def
  by (auto simp: act_bind_def get_storage_def put_storage_def act_go_def act_ret_def Let_def)


text \<open>A skipchain that answers in the third round with a block.\<close>

definition ex_store :: "nat \<Rightarrow> int SkipBlock \<Rightarrow> int Roster option \<Rightarrow> (int, int) DataOCS \<Rightarrow> (client_error, int SkipBlock) go" where
  "ex_store i latest r data =
    (if i < 3 then Err (NewClientErrorCode 4010 ''in progress'') else Ret (ex_data_block 3 4 [] 2))"


section \<open>The service as a state machine\<close>

text \<open>
  A storage that grows: the blocks in memory keep their contents, every block is still filed
  under its chain and its hash with the same contents, and the latest block of a chain never has
  a lower index.
\<close>

definition storage_le :: "'p heap \<times> SBBStorage \<Rightarrow> 'p heap \<times> SBBStorage \<Rightarrow> bool" where
  "storage_le = (\<lambda>(h, s) (h', s').
    prefix (map core h) (map core h') \<and>
    (\<forall>g k a. GetFromGenesisByID s g k = Some a \<longrightarrow>
      (\<exists>a'. GetFromGenesisByID s' g k = Some a' \<and> core (h' ! a') = core (h ! a))) \<and>
    (\<forall>g a. GetLatest s g = Some a \<longrightarrow>
      (\<exists>a'. GetLatest s' g = Some a' \<and> sb_Index (h ! a) \<le> sb_Index (h' ! a'))))"

lemma storage_le_refl [simp]: "storage_le x x"
  by (auto simp: storage_le_def)

lemma storage_le_trans:
  assumes "storage_le x y" and "storage_le y z"
  shows "storage_le x z"
proof -
  obtain h s h1 s1 h2 s2 where eqs: "x = (h, s)" "y = (h1, s1)" "z = (h2, s2)" by (cases x; cases y; cases z)
  have "prefix (map core h) (map core h2)"
    using assms eqs by (auto simp: storage_le_def intro: prefix_order.trans)
  then show ?thesis using assms eqs by (fastforce simp: storage_le_def)
qed

lemma SBBStorage_Store_latest:
  assumes "skipchain_laws K" and "storage_ok K h s"
    and "SBBStorage_Store K (h @ [sb]) s (length h) = Ret (h', s')" and "GetLatest s g = Some a"
  shows "\<exists>a'. GetLatest s' g = Some a' \<and> sb_Index (h ! a) \<le> sb_Index (h' ! a')"
proof -
  obtain b where b: "sbs_Bunches s g = Some b" and a: "a = sbb_Latest b"
    using assms(4) by (auto simp: GetLatest_def split: option.splits)
  have lt: "a < length h"
    using storage_okD(1) [OF assms(2) b] a by (simp add: bunch_ok_def)
  obtain r b' where st: "Bunch_Store K (h @ [sb]) (bunch_of K (h @ [sb]) s (length h)) (length h) = Ret (r, h', b')"
    and s': "s' = s\<lparr>sbs_Bunches := (sbs_Bunches s)(sk_SkipChainID K sb \<mapsto> b')\<rparr>"
    using SBBStorage_Store_unfold [OF assms(3)] by (metis nth_append_length)
  have ok': "bunch_ok (h @ [sb]) (bunch_of K (h @ [sb]) s (length h))"
    by (rule bunch_of_ok(1) [OF storage_ok_alloc [OF assms(2)]]) simp
  note e = Bunch_Store_effect [OF assms(1) ok' _ nth_append_length st, simplified]
  show ?thesis
  proof (cases "g = sk_SkipChainID K sb")
    case True
    then have "bunch_of K (h @ [sb]) s (length h) = b" using b by (simp add: bunch_of_def)
    then have "sb_Index (h ! a) \<le> sb_Index (h' ! sbb_Latest b')"
      using e a lt by (auto simp: nth_append split: option.splits)
    then show ?thesis using True s' by (simp add: GetLatest_def)
  next
    case False
    have "core (h' ! a) = core ((h @ [sb]) ! a)"
      using e lt by (intro core_nth) simp_all
    then have "sb_Index (h' ! a) = sb_Index (h ! a)"
      using core_fields(2) [of "h' ! a" "(h @ [sb]) ! a"] lt by (simp add: nth_append)
    then show ?thesis using False s' b a by (simp add: GetLatest_def)
  qed
qed

lemma SBBStorage_Store_le:
  assumes "skipchain_laws K" and "storage_ok K h s"
    and "SBBStorage_Store K (h @ [sb]) s (length h) = Ret (h', s')"
  shows "storage_ok K h' s'" and "storage_le (h, s) (h', s')"
proof -
  have inv: "storage_inv (K, h, s)" and st: "storage_store (K, h, s) sb = Ret (K, h', s')"
    using assms by simp_all
  show "storage_ok K h' s'" using storage.store_inv [OF inv st] by simp
  have "\<exists>a'. GetFromGenesisByID s' g k = Some a' \<and> core (h' ! a') = core (h ! a)"
    if "GetFromGenesisByID s g k = Some a" for g k a
    using storage.store_mono [OF inv st, of "(g, k)" "h ! a"] that by auto
  moreover have "prefix (map core h) (map core h')"
  proof -
    obtain r b' where st': "Bunch_Store K (h @ [sb]) (bunch_of K (h @ [sb]) s (length h)) (length h) = Ret (r, h', b')"
      using SBBStorage_Store_unfold [OF assms(3)] by metis
    have "bunch_ok (h @ [sb]) (bunch_of K (h @ [sb]) s (length h))"
      by (rule bunch_of_ok(1) [OF storage_ok_alloc [OF assms(2)]]) simp
    from Bunch_Store_effect [OF assms(1) this _ nth_append_length st'] show ?thesis by simp
  qed
  ultimately show "storage_le (h, s) (h', s')"
    using SBBStorage_Store_latest [OF assms] by (auto simp: storage_le_def)
qed

definition svc_ok :: "('p, 's) env \<Rightarrow> ('p, 's) Service \<Rightarrow> bool" where
  "svc_ok E s \<longleftrightarrow> (\<exists>st. svc_Storage s = Some st \<and> storage_ok (env_ops E) (sto_heap st) (sto_OCSs st))"

text \<open>Both together: from a good state to a good state with a larger storage.\<close>

definition svc_grows :: "('p, 's) env \<Rightarrow> ('p, 's) Service \<Rightarrow> ('p, 's) Service \<Rightarrow> bool" where
  "svc_grows E s s' \<longleftrightarrow>
    (\<forall>st. svc_Storage s = Some st \<and> storage_ok (env_ops E) (sto_heap st) (sto_OCSs st) \<longrightarrow>
      (\<exists>st'. svc_Storage s' = Some st' \<and> storage_ok (env_ops E) (sto_heap st') (sto_OCSs st') \<and>
        storage_le (sto_heap st, sto_OCSs st) (sto_heap st', sto_OCSs st')))"

lemma svc_grows_refl [simp]: "svc_grows E s s"
  by (simp add: svc_grows_def)

lemma svc_grows_trans: "svc_grows E s t \<Longrightarrow> svc_grows E t u \<Longrightarrow> svc_grows E s u"
  unfolding svc_grows_def by (meson storage_le_trans)

lemma svc_grows_bind:
  assumes "act_bind m f s = (r, s')" and "\<And>r1 s1. m s = (r1, s1) \<Longrightarrow> svc_grows E s s1"
    and "\<And>a s1 r2 s2. f a s1 = (r2, s2) \<Longrightarrow> svc_grows E s1 s2"
  shows "svc_grows E s s'"
  using assms svc_grows_trans by (rule_tac act_bind_rel [of m f s r s' "svc_grows E"]) (auto intro: svc_grows_trans)

lemma Service_Store_grows:
  assumes "skipchain_laws (env_ops E)" and "Service_Store E sb s = (r, s')"
  shows "svc_grows E s s'"
  unfolding svc_grows_def
proof (intro allI impI, elim conjE)
  fix st
  assume st: "svc_Storage s = Some st" and ok: "storage_ok (env_ops E) (sto_heap st) (sto_OCSs st)"
  let ?m = "SBBStorage_Store (env_ops E) (sto_heap st @ [sb]) (sto_OCSs st) (length (sto_heap st))"
  show "\<exists>st'. svc_Storage s' = Some st' \<and> storage_ok (env_ops E) (sto_heap st') (sto_OCSs st') \<and>
      storage_le (sto_heap st, sto_OCSs st) (sto_heap st', sto_OCSs st')"
  proof (cases "?m :: (string, 'a SkipBlock list \<times> SBBStorage) go")
    case (Ret x)
    obtain h' o' where x: "x = (h', o')" by (cases x)
    then have "s' = s\<lparr>svc_Storage := Some (st\<lparr>sto_heap := h', sto_OCSs := o'\<rparr>)\<rparr>"
      using assms(2) st Ret by (auto simp: Service_Store_def act_bind_def get_storage_def put_storage_def)
    then show ?thesis using SBBStorage_Store_le [OF assms(1) ok] Ret x by auto
  qed (use assms(2) st ok in \<open>auto simp: Service_Store_def act_bind_def get_storage_def\<close>)
qed

lemma Service_save_grows: "Service_save E s = (r, s') \<Longrightarrow> svc_grows E s s'"
  by (auto simp: Service_save_def act_bind_def get_storage_def svc_grows_def split: go.splits prod.splits option.splits)

lemma store_shared_grows: "store_shared conf res s = (r, s') \<Longrightarrow> svc_grows E s s'"
  by (cases conf; cases res; cases "svc_Storage s")
    (auto simp: store_shared_def act_bind_def get_storage_def put_storage_def svc_grows_def)

lemma propagateOCSFunc_grows:
  assumes "skipchain_laws (env_ops E)" and "propagateOCSFunc E m s = (r, s')"
  shows "svc_grows E s s'"
proof (cases m)
  case (M_SkipBlock sb)
  let ?f = "\<lambda>sbID. case env_GetSingleBlock E (sb_Roster sb) sbID of
      Ret sbNew \<Rightarrow> Service_Store E sbNew | Err _ \<Rightarrow> act_ret () | Panic \<Rightarrow> act_go Panic"
  have one: "svc_grows E s1 s2" if "?f i s1 = (r1, s2)" for i s1 r1 s2
    using that Service_Store_grows [OF assms(1)] by (auto split: go.splits)
  have iter: "svc_grows E s1 s2" if "act_iter ?f ids s1 = (r1, s2)" for ids s1 r1 s2
    using that
  proof (induction ids arbitrary: s1 r1 s2)
    case (Cons i ids)
    then show ?case using one by (auto elim!: svc_grows_bind)
  qed simp
  show ?thesis
    using assms(2) unfolding M_SkipBlock propagateOCSFunc_def message.case
    by (elim svc_grows_bind)
      (use Service_Store_grows [OF assms(1)] iter Service_save_grows in \<open>auto split: if_splits elim!: svc_grows_bind\<close>)
qed (use assms(2) in \<open>auto simp: propagateOCSFunc_def\<close>)

lemma BunchAddBlock_grows:
  assumes "skipchain_laws (env_ops E)" and "BunchAddBlock E store g r data s = (x, s')"
    and "\<And>sb. store (latest_of s g) r data = Ret sb \<Longrightarrow> sk_SkipChainID (env_ops E) sb = g"
  shows "svc_grows E s s'"
proof (cases "\<exists>st b sb. svc_Storage s = Some st \<and> GetBunch (sto_OCSs st) g = Some b \<and>
    store (sto_heap st ! sbb_Latest b) r data = Ret sb")
  case False
  then have "s' = s"
    using assms(2)
    by (auto simp: BunchAddBlock_def act_bind_def get_storage_def split: go.splits option.splits)
      (metis deref_eq_Ret go.exhaust)+
  then show ?thesis by simp
next
  case True
  then obtain st b sb where st: "svc_Storage s = Some st" and b: "GetBunch (sto_OCSs st) g = Some b"
    and sb: "store (sto_heap st ! sbb_Latest b) r data = Ret sb" by blast
  let ?h = "sto_heap st"
  have chain: "sk_SkipChainID (env_ops E) sb = g" using assms(3) sb st b by (simp add: latest_of_def)
  show ?thesis
  proof (cases "Bunch_Store (env_ops E) (?h @ [sb]) b (length ?h)")
    case (Ret y)
    obtain bid h' b' where y: "y = (bid, h', b')" by (cases y)
    let ?o = "(sto_OCSs st)\<lparr>sbs_Bunches := (sbs_Bunches (sto_OCSs st))(g \<mapsto> b')\<rparr>"
    have s': "s' = s\<lparr>svc_Storage := Some (st\<lparr>sto_heap := h', sto_OCSs := ?o\<rparr>)\<rparr>"
      using BunchAddBlock_store_ok [where store = store and r = r and data = data, OF st b sb, of E bid h' b']
        Ret y assms(2) by simp
    have "SBBStorage_Store (env_ops E) (?h @ [sb]) (sto_OCSs st) (length ?h) = Ret (h', ?o)"
      using Ret y b chain by (simp add: SBBStorage_Store_def GetBunch_def)
    from SBBStorage_Store_le [OF assms(1) _ this] show ?thesis
      using st s' by (simp add: svc_grows_def)
  qed (use assms(2) st b sb in \<open>auto simp: BunchAddBlock_def act_bind_def get_storage_def\<close>)
qed

text \<open>
  The steps of the storage of one conode: a block arrives by propagation, a handler adds a block
  that the skipchain returned for this chain, a DKG ends, or the storage is saved.
\<close>

inductive svc_step :: "('p, 's) env \<Rightarrow> ('p, 's) Service \<Rightarrow> ('p, 's) Service \<Rightarrow> bool" for E where
  propagated: "propagateOCSFunc E m s = (r, s') \<Longrightarrow> svc_step E s s'"
| added: "BunchAddBlock E store g roster data s = (x, s') \<Longrightarrow>
    (\<And>sb. store (latest_of s g) roster data = Ret sb \<Longrightarrow> sk_SkipChainID (env_ops E) sb = g) \<Longrightarrow> svc_step E s s'"
| shared: "store_shared conf res s = (u, s') \<Longrightarrow> svc_step E s s'"
| saved: "Service_save E s = (u, s') \<Longrightarrow> svc_step E s s'"

lemma svc_step_grows:
  assumes "skipchain_laws (env_ops E)" and "svc_step E s s'"
  shows "svc_grows E s s'"
  using assms(2)
proof cases
  case (propagated m r)
  then show ?thesis by (rule propagateOCSFunc_grows [OF assms(1)])
next
  case (added store g roster data x)
  then show ?thesis by (rule BunchAddBlock_grows [OF assms(1)])
next
  case shared
  then show ?thesis by (rule store_shared_grows)
next
  case saved
  then show ?thesis by (rule Service_save_grows)
qed

lemma svc_steps_grow:
  assumes "skipchain_laws (env_ops E)" and "(svc_step E)\<^sup>*\<^sup>* s s'"
  shows "svc_grows E s s'"
  using assms(2) by induction (auto intro: svc_grows_trans svc_step_grows [OF assms(1)])

lemma newService_ok: "newService si False load = Ret s \<Longrightarrow> svc_ok E s"
  by (auto simp: newService_def Service_tryLoad_def svc_ok_def NewSBBStorage_ok)

text \<open>C6: from its start, whatever sequence of propagated blocks, added blocks, finished DKGs and
  saves a conode goes through, every bunch of its storage stays well-formed: blocks are filed
  under their hash in the bunch of their chain and \<open>Latest\<close> has the highest index.\<close>

theorem service_reachable_ok:
  assumes "skipchain_laws (env_ops E)" and "newService si False load = Ret s0" and "(svc_step E)\<^sup>*\<^sup>* s0 s"
  shows "\<exists>st. svc_Storage s = Some st \<and> storage_ok (env_ops E) (sto_heap st) (sto_OCSs st)"
  using svc_steps_grow [OF assms(1,3)] newService_ok [OF assms(2), of E]
  by (auto simp: svc_grows_def svc_ok_def)

definition ex_start :: "(int, int) Service" where
  "ex_start = \<lparr>svc_Storage = Some \<lparr>sto_heap = [], sto_OCSs = NewSBBStorage, sto_Shared = Map.empty\<rparr>,
    svc_ServerIdentity = ex_si 1, svc_Saved = None\<rparr>"

definition ex_started :: "(int, int) Service" where
  "ex_started = snd (propagateOCSFunc ex_env (M_SkipBlock (ex_data_block 0 1 [] 0)) ex_start)"

theorem service_reachable_ok_witness:
  "\<exists>st. svc_Storage ex_started = Some st \<and> storage_ok plain_ops (sto_heap st) (sto_OCSs st)"
proof -
  have "newService (ex_si 1) False (Ret None) = Ret ex_start"
    by (simp add: newService_def Service_tryLoad_def ex_start_def)
  moreover have "(svc_step ex_env)\<^sup>*\<^sup>* ex_start ex_started"
    unfolding ex_started_def by (rule r_into_rtranclp, rule svc_step.propagated) (rule prod.collapse [symmetric])
  ultimately show ?thesis
    using service_reachable_ok [of ex_env "ex_si 1" "Ret None" ex_start ex_started] by simp
qed

text \<open>C11: nothing that a conode does to its storage loses a block: what could be looked up under a
  chain and a hash can be looked up ever after, with the same contents, and the index of the
  latest block of a chain never decreases.\<close>

theorem service_blocks_persist:
  assumes "skipchain_laws (env_ops E)" and "(svc_step E)\<^sup>*\<^sup>* s s'" and "svc_Storage s = Some st"
    and "storage_ok (env_ops E) (sto_heap st) (sto_OCSs st)"
    and "GetFromGenesisByID (sto_OCSs st) g k = Some a" and "GetLatest (sto_OCSs st) g = Some l"
  shows "\<exists>st' a' l'. svc_Storage s' = Some st' \<and> GetFromGenesisByID (sto_OCSs st') g k = Some a' \<and>
    core (sto_heap st' ! a') = core (sto_heap st ! a) \<and> GetLatest (sto_OCSs st') g = Some l' \<and>
    sb_Index (sto_heap st ! l) \<le> sb_Index (sto_heap st' ! l')"
  using svc_steps_grow [OF assms(1,2)] assms(3-6) by (fastforce simp: svc_grows_def storage_le_def)

definition ex_service' :: "(int, int) Service" where
  "ex_service' = snd (propagateOCSFunc ex_env (M_SkipBlock (ex_data_block 3 4 [] 2)) ex_service)"

theorem service_blocks_persist_witness:
  "\<exists>st' a' l'. svc_Storage ex_service' = Some st' \<and> GetFromGenesisByID (sto_OCSs st') [1] [2] = Some a' \<and>
    core (sto_heap st' ! a') = core (sto_heap ex_storage ! 1) \<and> GetLatest (sto_OCSs st') [1] = Some l' \<and>
    sb_Index (sto_heap ex_storage ! 2) \<le> sb_Index (sto_heap st' ! l')"
proof -
  have "(svc_step ex_env)\<^sup>*\<^sup>* ex_service ex_service'"
    unfolding ex_service'_def by (rule r_into_rtranclp, rule svc_step.propagated) (rule prod.collapse [symmetric])
  from service_blocks_persist [OF _ this ex_service_Storage, of "[1]" "[2]" 1 2] ex_storage_ok show ?thesis
    by (simp add: GetFromGenesisByID_def GetBunch_def Bunch_GetByID_def GetLatest_def ex_storage_def)
qed

section \<open>What a successful request leaves behind\<close>

text \<open>The block at address \<open>a\<close> is a copy of \<open>sb\<close> and the chain \<open>g\<close> has a block with its hash.\<close>

definition holds_block :: "('p, 's) Service \<Rightarrow> SkipBlockID \<Rightarrow> addr \<Rightarrow> 'p SkipBlock \<Rightarrow> bool" where
  "holds_block s g a sb \<longleftrightarrow>
    (\<exists>st. svc_Storage s = Some st \<and> a < length (sto_heap st) \<and> core (sto_heap st ! a) = core sb \<and>
      GetFromGenesisByID (sto_OCSs st) g (sb_Hash sb) \<noteq> None)"

lemma holds_block_grows:
  assumes "svc_grows E s s'" and "svc_ok E s" and "holds_block s g a sb"
  shows "holds_block s' g a sb"
proof -
  obtain st where st: "svc_Storage s = Some st" "a < length (sto_heap st)" "core (sto_heap st ! a) = core sb"
    "GetFromGenesisByID (sto_OCSs st) g (sb_Hash sb) \<noteq> None"
    using assms(3) by (auto simp: holds_block_def)
  then obtain st' where st': "svc_Storage s' = Some st'"
    and le: "storage_le (sto_heap st, sto_OCSs st) (sto_heap st', sto_OCSs st')"
    using assms(1,2) by (auto simp: svc_grows_def svc_ok_def)
  obtain cs where cs: "map core (sto_heap st') = map core (sto_heap st) @ cs"
    using le by (auto simp: storage_le_def prefix_def)
  then have lt: "a < length (sto_heap st')"
    using st(2) by (metis length_append length_map trans_less_add1)
  then have "core (sto_heap st' ! a) = core (sto_heap st ! a)"
    using cs st(2) by (metis length_map nth_append nth_map)
  moreover have "GetFromGenesisByID (sto_OCSs st') g (sb_Hash sb) \<noteq> None"
    using le st(4) by (fastforce simp: storage_le_def)
  ultimately show ?thesis using st(3) st' lt by (auto simp: holds_block_def)
qed

lemma BunchAddBlock_Ret:
  assumes "skipchain_laws (env_ops E)" and "svc_ok E s"
    and "BunchAddBlock E store g r data s = (Ret a, s')"
  obtains sb where "store (latest_of s g) r data = Ret sb" and "holds_block s' g a sb"
proof -
  from assms(3) obtain st b sb where st: "svc_Storage s = Some st" and b: "GetBunch (sto_OCSs st) g = Some b"
    and sb: "store (sto_heap st ! sbb_Latest b) r data = Ret sb"
    by (auto simp: BunchAddBlock_def act_bind_eq_Ret get_storage_def deref_eq_Ret)
  let ?h = "sto_heap st"
  have ok: "bunch_ok ?h b"
    using assms(2) st b storage_okD(1) [of "env_ops E" ?h "sto_OCSs st" g b] by (auto simp: svc_ok_def GetBunch_def)
  from assms(3) st b sb obtain bid h' b'
    where store: "Bunch_Store (env_ops E) (?h @ [sb]) b (length ?h) = Ret (bid, h', b')"
    by (cases "Bunch_Store (env_ops E) (?h @ [sb]) b (length ?h)")
      (auto simp: BunchAddBlock_def act_bind_def get_storage_def)
  note e = Bunch_Store_effect [OF assms(1) bunch_ok_alloc [OF ok] _ nth_append_length store, simplified]
  have res: "a = length ?h" "s' = s\<lparr>svc_Storage := Some (st\<lparr>sto_heap := h',
       sto_OCSs := (sto_OCSs st)\<lparr>sbs_Bunches := (sbs_Bunches (sto_OCSs st))(g \<mapsto> b')\<rparr>\<rparr>)\<rparr>"
    using BunchAddBlock_store_ok [where store = store and r = r and data = data, OF st b sb store] assms(3)
    by (simp_all split: if_splits)
  have len: "length h' = Suc (length ?h)" using e by (metis length_append_singleton length_map)
  have "core (h' ! length ?h) = core sb"
    using e core_nth [of h' "?h @ [sb]" "length ?h"] by simp
  moreover have "sbb_SkipBlocks b' (sb_Hash sb) \<noteq> None" using e by (auto split: option.splits)
  ultimately have "holds_block s' g a sb"
    using res len by (simp add: holds_block_def GetFromGenesisByID_def GetBunch_def Bunch_GetByID_def)
  with that show ?thesis using sb st b by (simp add: latest_of_def)
qed

lemma add_block_loop_Ret:
  fixes E :: "('p, 's) env"
  assumes "skipchain_laws (env_ops E)" and "svc_ok E s"
    and chain: "\<And>i l sb. store i l r data = Ret sb \<Longrightarrow> sk_SkipChainID (env_ops E) sb = g"
    and "add_block_loop E store g r data i s = Some (Ret a, s')"
  shows "\<exists>j l sb. store j l r data = Ret sb \<and> holds_block s' g a sb \<and> svc_ok E s'"
proof -
  have ok: "svc_ok E s1" if "BunchAddBlock E (store k) g r data s0 = (x, s1)" "svc_ok E s0" for k s0 x s1
  proof -
    have "svc_grows E s0 s1" by (rule BunchAddBlock_grows [OF assms(1) that(1)]) (rule chain)
    then show ?thesis using that(2) by (auto simp: svc_grows_def svc_ok_def)
  qed
  define Q where "Q = (\<lambda>E' store' g' r' data' (i' :: nat) s0 (res :: (client_error, addr) go \<times> ('p, 's) Service).
    (E', store', g', r', data') = (E, store, g, r, data) \<longrightarrow> svc_ok E s0 \<longrightarrow> fst res = Ret a \<longrightarrow>
    (\<exists>j l sb. store j l r data = Ret sb \<and> holds_block (snd res) g a sb \<and> svc_ok E (snd res)))"
  have "Q E store g r data i s (Ret a, s')"
  proof (rule add_block_loop.raw_induct [OF _ assms(4)])
    fix loop E' store' g' r' data' i' s0 res
    assume IH: "\<And>E' store' g' r' data' i' s0 res. loop E' store' g' r' data' i' s0 = Some res \<Longrightarrow>
        Q E' store' g' r' data' i' s0 res"
      and body: "(case BunchAddBlock E' (store' i') g' r' data' s0 of
        (Ret a, s') \<Rightarrow> Some (Ret a, s')
      | (Err cerr, s') \<Rightarrow> if ce_code cerr = sk_ErrorBlockInProgress (env_ops E')
          then loop E' store' g' r' data' (i' + 1) s' else Some (Err cerr, s')
      | (Panic, s') \<Rightarrow> Some (Panic, s')) = Some res"
    show "Q E' store' g' r' data' i' s0 res"
      unfolding Q_def
    proof (intro impI, elim Pair_inject)
      assume eqs: "E' = E" "store' = store" "g' = g" "r' = r" "data' = data"
        and s0: "svc_ok E s0" and ret: "fst res = Ret a"
      obtain x s1 where x: "BunchAddBlock E (store i') g r data s0 = (x, s1)" by force
      note s1 = ok [OF x s0]
      show "\<exists>j l sb. store j l r data = Ret sb \<and> holds_block (snd res) g a sb \<and> svc_ok E (snd res)"
      proof (cases x)
        case (Ret b)
        then have "res = (Ret a, s1)" and "b = a" using body eqs x ret by auto
        moreover obtain sb where "store i' (latest_of s0 g) r data = Ret sb" "holds_block s1 g a sb"
          using BunchAddBlock_Ret [OF assms(1) s0, of "store i'" g r data a s1] x Ret \<open>b = a\<close> by blast
        ultimately show ?thesis using s1 by auto
      next
        case (Err e)
        then have "loop E store g r data (i' + 1) s1 = Some res" 
          using body [unfolded eqs x Err prod.case go.case] ret by (auto split: if_splits)
        from IH [OF this] show ?thesis using s1 ret by (simp add: Q_def)
      next
        case Panic
        then show ?thesis using body eqs x ret by auto
      qed
    qed
  qed
  then show ?thesis using assms(2) by (simp add: Q_def)
qed

lemma wrapped_eq_Ret:
  "(case m of (Ret n, s) \<Rightarrow> (Ret n, s) | (Err e, s) \<Rightarrow> (Err (f e), s) | (Panic, s) \<Rightarrow> (Panic, s)) = (Ret a, s') \<longleftrightarrow>
    m = (Ret a, s')"
  by (cases m; cases "fst m") auto

lemma propagate_block_Ret:
  assumes "propagate_block propagateOCS g a s = (Ret sb, s')"
  shows "\<exists>roster x st'. propagateOCS roster a s = (x, s') \<and> svc_Storage s' = Some st' \<and> sb = sto_heap st' ! a"
  using assms
  by (auto simp: propagate_block_def act_bind_eq_Ret get_storage_def deref_eq_Ret wrapped_eq_Ret)

text \<open>when \<open>OTSWriteRequest\<close> answers with a block, that block is the one the skipchain
  returned for the request, the chain of the conode has a block with its hash, and the storage is
  well-formed. It relies on the skipchain to return blocks of the asked chain, and on the
  propagation to change the storage only by the steps of the service.\<close>

theorem OTSWriteRequest_stored:
  assumes "skipchain_laws (env_ops E)" and "svc_Storage s = Some st"
    and "storage_ok (env_ops E) (sto_heap st) (sto_OCSs st)"
    and "\<forall>i l r d sb. store i l r d = Ret sb \<longrightarrow> sk_SkipChainID (env_ops E) sb = owr_OCS req"
    and "\<forall>r a t x t'. propagateOCS r a t = (x, t') \<longrightarrow> (svc_step E)\<^sup>*\<^sup>* t t'"
    and "Service_OTSWriteRequest E store propagateOCS req s = Some (Ret sb, s')"
  shows "\<exists>i l r d sbNew st'. store i l r d = Ret sbNew \<and> do_OTSWrite d = owr_Write req \<and>
    do_Readers d = owr_Readers req \<and> core sb = core sbNew \<and> svc_Storage s' = Some st' \<and>
    GetFromGenesisByID (sto_OCSs st') (owr_OCS req) (sb_Hash sb) \<noteq> None \<and>
    storage_ok (env_ops E) (sto_heap st') (sto_OCSs st')"
proof -
  let ?g = "owr_OCS req"
  let ?d = "empty_DataOCS\<lparr>do_OTSWrite := owr_Write req, do_Readers := owr_Readers req\<rparr>"
  from assms(2,6) obtain r a s1 where loop: "add_block_loop E store ?g r ?d 1 s = Some (Ret a, s1)"
    and sent: "propagate_block propagateOCS ?g a s1 = (Ret sb, s')"
    by (auto simp: Service_OTSWriteRequest_def add_block_request_def Let_def split: option.splits prod.splits go.splits)
  have "svc_ok E s" using assms(2,3) by (auto simp: svc_ok_def)
  then obtain j l sbNew where new: "store j l r ?d = Ret sbNew" and held: "holds_block s1 ?g a sbNew" and ok: "svc_ok E s1"
    using add_block_loop_Ret [OF assms(1) _ _ loop] assms(4) by blast
  from sent obtain roster x where "propagateOCS roster a s1 = (x, s')"
    and sb: "\<exists>st'. svc_Storage s' = Some st' \<and> sb = sto_heap st' ! a"
    using propagate_block_Ret by blast
  then have grows: "svc_grows E s1 s'" using assms(1,5) svc_steps_grow by blast
  then have "svc_ok E s'" using ok by (auto simp: svc_grows_def svc_ok_def)
  moreover have "holds_block s' ?g a sbNew" by (rule holds_block_grows [OF grows ok held])
  ultimately obtain st' where st': "svc_Storage s' = Some st'" "core sb = core sbNew"
    "GetFromGenesisByID (sto_OCSs st') ?g (sb_Hash sbNew) \<noteq> None" "storage_ok (env_ops E) (sto_heap st') (sto_OCSs st')"
    using sb by (auto simp: holds_block_def svc_ok_def)
  then have "sb_Hash sb = sb_Hash sbNew" using core_fields(1) by blast
  then show ?thesis
    using new st' by (intro exI [of _ j] exI [of _ l] exI [of _ r] exI [of _ ?d] exI [of _ sbNew] exI [of _ st'])
      (simp add: empty_DataOCS_def)
qed

definition ex_request :: "(int, int) OTSWriteRequest" where
  "ex_request = \<lparr>owr_Write = None, owr_Readers = None, owr_OCS = [1]\<rparr>"

text \<open>A skipchain that returns the next block at once.\<close>

definition ex_store1 :: "nat \<Rightarrow> int SkipBlock \<Rightarrow> int Roster option \<Rightarrow> (int, int) DataOCS \<Rightarrow> (client_error, int SkipBlock) go" where
  "ex_store1 i latest r data = Ret (ex_data_block 3 4 [] 2)"

lemma ex_BunchAddBlock:
  "\<exists>st. BunchAddBlock ex_env (ex_store1 i) [1] r d ex_service = (Ret 3, ex_service\<lparr>svc_Storage := Some st\<rparr>) \<and>
    (\<exists>b. GetBunch (sto_OCSs st) [1] = Some b \<and> sb_Roster (sto_heap st ! sbb_Latest b) = Some ex_roster)"
  by (simp add: BunchAddBlock_def act_bind_def get_storage_def put_storage_def GetBunch_def ex_storage_def
      ex_store1_def Bunch_Store_def ex_block_defs Let_def ex_service_def)

theorem OTSWriteRequest_stored_witness:
  "\<exists>sb s'. Service_OTSWriteRequest ex_env ex_store1 (\<lambda>r a t. (Ret 4, t)) ex_request ex_service = Some (Ret sb, s') \<and>
    (\<exists>i l r d sbNew st'. ex_store1 i l r d = Ret sbNew \<and> do_OTSWrite d = None \<and>
    do_Readers d = None \<and> core sb = core sbNew \<and> svc_Storage s' = Some st' \<and>
    GetFromGenesisByID (sto_OCSs st') [1] (sb_Hash sb) \<noteq> None \<and>
    storage_ok (plain_ops :: int skipchain_ops) (sto_heap st') (sto_OCSs st'))"
proof -
  let ?r = "sb_Roster (sto_heap ex_storage ! 0)" and ?d = "empty_DataOCS\<lparr>do_OTSWrite := None, do_Readers := None\<rparr>"
  obtain st b where add: "BunchAddBlock ex_env (ex_store1 1) [1] ?r ?d ex_service = (Ret 3, ex_service\<lparr>svc_Storage := Some st\<rparr>)"
    and b: "GetBunch (sto_OCSs st) [1] = Some b" "sb_Roster (sto_heap st ! sbb_Latest b) = Some ex_roster"
    using ex_BunchAddBlock by blast
  have loop: "add_block_loop ex_env ex_store1 [1] ?r ?d 1 ex_service = Some (Ret 3, ex_service\<lparr>svc_Storage := Some st\<rparr>)"
    using add by (simp add: add_block_loop.simps [of ex_env ex_store1 "[1]" ?r ?d "Suc 0"])
  have "\<exists>b. GetBunch (sto_OCSs ex_storage) [1] = Some b \<and> Bunch_GetByID b [1] = Some 0"
    by (simp add: GetBunch_def Bunch_GetByID_def ex_storage_def)
  then have "\<exists>sb s'. Service_OTSWriteRequest ex_env ex_store1 (\<lambda>r a t. (Ret 4, t)) ex_request ex_service = Some (Ret sb, s')"
    using loop b by (auto simp: Service_OTSWriteRequest_def add_block_request_def ex_request_def Let_def
        propagate_block_def act_bind_def get_storage_def)
  then obtain sb s' where res: "Service_OTSWriteRequest ex_env ex_store1 (\<lambda>r a t. (Ret 4, t)) ex_request ex_service = Some (Ret sb, s')"
    by blast
  have "\<exists>i l r d sbNew st'. ex_store1 i l r d = Ret sbNew \<and> do_OTSWrite d = owr_Write ex_request \<and>
    do_Readers d = owr_Readers ex_request \<and> core sb = core sbNew \<and> svc_Storage s' = Some st' \<and>
    GetFromGenesisByID (sto_OCSs st') (owr_OCS ex_request) (sb_Hash sb) \<noteq> None \<and>
    storage_ok (env_ops ex_env) (sto_heap st') (sto_OCSs st')"
    by (rule OTSWriteRequest_stored [OF _ ex_service_Storage _ _ _ res])
      (use ex_storage_ok in \<open>auto simp: ex_store1_def ex_request_def plain_ops_simps ex_block_defs split: if_splits\<close>)
  then show ?thesis using res by (auto simp: ex_request_def)
qed

section \<open>Loading the storage\<close>

text \<open>when the saved data is not a storage, loading it leaves the service without a storage:
  \<open>newService\<close> only logs the error and returns, and from then on the requests for the shared key
  and for the bunches panic instead of answering with an error.\<close>

theorem tryLoad_wrong_type:
  "\<exists>s. newService si True (Ret None) = Ret s \<and> Service_SharedPublic spr s = Panic \<and>
    Service_GetBunches ord s = Panic \<and> Service_GetReadRequests E ord grr s = Some Panic"
  by (simp add: newService_def Service_tryLoad_def Service_SharedPublic_def Service_GetBunches_def
      Service_GetReadRequests_def)



end
