(* ===== verification/Smc.thy ===== *)
theory Smc
  imports Ocs_Service
begin

text \<open>
  The secret-management cothority of the one-time secrets, \<open>otssmc/\<close>: the check
  of a decryption request (\<open>protocol.go\<close>), the re-encryption of a decrypted share
  to the reader, the protocol between the root and the trustees, the service
  (\<open>service.go\<close>) and its client (\<open>api.go\<close>).

  The pvss and cosi packages, the encoder and the decoder are fields of the
  record \<open>smc_env\<close>. A value of the fixed part of a block (\<open>skipchain.SkipBlockFix\<close>)
  is a \<open>SkipBlock\<close> of which the code reads the data and computes the hash.
\<close>

section \<open>Messages\<close>

type_synonym 'p SkipBlockFix = "'p SkipBlock"

record 'p DecryptRequestData =
  drd_WriteSBF :: "'p SkipBlockFix option"
  drd_ReadSBF :: "'p SkipBlockFix option"
  drd_InclusionProof :: "BlockLink option"
  drd_ACPublicKeys :: "'p list"

record ('p, 's) DecryptRequest =
  drq_RootIndex :: int
  drq_Roster :: "'p Roster"
  drq_Data :: "'p DecryptRequestData option"
  drq_Signature :: "'s SchnorrSig option"

text \<open>A re-encrypted share; \<open>K\<close> and \<open>Cs\<close> stay nil when the trustee could not decrypt.\<close>

record 'p DecryptedShare =
  ds_K :: "'p option"
  ds_Cs :: "'p list"

record 'p DecryptReply =
  dre_DecShares :: "'p DecryptedShare list"

record ('p, 's) AnnounceDecrypt =
  ann_DecReqData :: "'p DecryptRequestData option"
  ann_Signature :: "'s SchnorrSig option"
  ann_RootIndex :: int

record 'p ShareReply =
  shr_DecShare :: "'p DecryptedShare"

definition ErrorParse :: int where
  "ErrorParse = 4000"

section \<open>External code\<close>

record ('p, 's) smc_env =
  smc_suite :: "('p, 's) suite"
  smc_ops :: "'p skipchain_ops"
  smc_unmarshal :: "('p, 's) unmarshal"
  smc_MarshalRequest :: "'p DecryptRequestData \<Rightarrow> (string, bytes) go"
  smc_MarshalShare :: "'p PubVerShare \<Rightarrow> (string, bytes) go"
  smc_CosiVerify :: "'p list \<Rightarrow> bytes \<Rightarrow> bytes \<Rightarrow> (string, unit) go"
  smc_DecShare :: "'p \<Rightarrow> 'p \<Rightarrow> 'p \<Rightarrow> 's \<Rightarrow> 'p PubVerShare \<Rightarrow> (string, 'p PubVerShare) go"

section \<open>Check of a decryption request\<close>

text \<open>The unchecked type assertion \<open>tmp.(*ocs.DataOCS)\<close>.\<close>

definition as_DataOCS :: "('p, 's) message option \<Rightarrow> ('e, ('p, 's) DataOCS) go" where
  "as_DataOCS m = (case m of Some (M_DataOCS d) \<Rightarrow> Ret d | _ \<Rightarrow> Panic)"

definition verifyDecryptionRequest ::
  "('p :: ab_group_add, 's :: comm_ring_1) smc_env \<Rightarrow> 'p DecryptRequestData option \<Rightarrow> 's SchnorrSig option \<Rightarrow>
    (string, 'p OTSWrite) go" where
  "verifyDecryptionRequest E decReqData sig =
    go_bind (deref decReqData) (\<lambda>drd.
    go_bind (deref (drd_WriteSBF drd)) (\<lambda>writeSBF.
    go_bind (smc_unmarshal E (sb_Data writeSBF)) (\<lambda>tmp.
    go_bind (as_DataOCS tmp) (\<lambda>wd.
    go_bind (deref (do_OTSWrite wd)) (\<lambda>otsWrite.
    let writeData = dow_Data otsWrite in
    go_bind (deref (drd_ReadSBF drd)) (\<lambda>readSBF.
    go_bind (smc_unmarshal E (sb_Data readSBF)) (\<lambda>tmp2.
    go_bind (as_DataOCS tmp2) (\<lambda>rd.
    let read = do_Read rd in
    go_bind (smc_MarshalRequest E drd) (\<lambda>buf.
    let drdHash = Sum256 buf in
    go_bind (deref writeData) (\<lambda>write.
    go_bind (deref sig) (\<lambda>sg.
    go_bind (VerifySchnorr (smc_suite E) (ow_ReaderPk write) drdHash sg) (\<lambda>_.
    let readSBHash = sk_CalculateHash (smc_ops E) readSBF in
    go_bind (deref (drd_InclusionProof drd)) (\<lambda>proof.
    if bl_Signature proof = [] then Err ''No signature present on forward-link''
    else if \<not> sk_Equal (smc_ops E) (bl_Hash proof) readSBHash
    then Err ''Forward link hash does not match read transaction hash''
    else go_bind (smc_CosiVerify E (drd_ACPublicKeys drd) (bl_Hash proof) (bl_Signature proof)) (\<lambda>_.
    let writeSBHash = sk_CalculateHash (smc_ops E) writeSBF in
    go_bind (deref read) (\<lambda>r.
    if \<not> sk_Equal (smc_ops E) (rd_DataID r) writeSBHash
    then Err ''Invalid write block hash in the read block''
    else Ret write)))))))))))))))"

section \<open>Re-encryption of a share to the reader\<close>

text \<open>
  The loop of \<open>elGamalEncrypt\<close>: the piece that a point embeds is cut off by its \<open>PickLen\<close>.
  \<open>None\<close> is a loop that never ends.
\<close>

definition min_int :: "int \<Rightarrow> int \<Rightarrow> int" where
  "min_int a b = (if a < b then a else b)"

partial_function (option) elGamal_loop ::
  "('p :: ab_group_add, 's) suite \<Rightarrow> (nat \<Rightarrow> nat) \<Rightarrow> 'p \<Rightarrow> nat \<Rightarrow> bytes \<Rightarrow> 'p list \<Rightarrow> 'p list option" where
  "elGamal_loop S rnd Spt i msg Cs =
    (if msg = [] then Some Cs
     else
       (case su_Pick S msg (rnd i) of (kp, _) \<Rightarrow>
         elGamal_loop S rnd Spt (Suc i)
           (drop (nat (min_int (int (length msg)) (su_PickLen S kp))) msg) (Cs @ [Spt + kp])))"

text \<open>\<open>elGamalEncrypt\<close>; \<open>k\<close> and \<open>rnd\<close> are the draws from \<open>random.Stream\<close>.\<close>

definition elGamalEncrypt ::
  "('p :: ab_group_add, 's) smc_env \<Rightarrow> 's \<Rightarrow> (nat \<Rightarrow> nat) \<Rightarrow> 'p PubVerShare \<Rightarrow> 'p \<Rightarrow>
    (string, 'p DecryptedShare) go option" where
  "elGamalEncrypt E k rnd ds rPubKey =
    (let S = smc_suite E in
     case smc_MarshalShare E ds of
       Panic \<Rightarrow> Some Panic
     | Err _ \<Rightarrow> Some (Ret \<lparr>ds_K = None, ds_Cs = []\<rparr>)
     | Ret msg \<Rightarrow>
       map_option (\<lambda>Cs. Ret \<lparr>ds_K = Some (su_Mul S k (su_Base S)), ds_Cs = Cs\<rparr>)
         (elGamal_loop S rnd (su_Mul S k rPubKey) 0 msg []))"

section \<open>The protocol\<close>

text \<open>
  \<open>Start\<close> of the root: the announcement to each child in turn, up to the first failing send;
  the children already served keep it.
\<close>

fun OTSDecrypt_Start ::
  "('c \<Rightarrow> ('p, 's) AnnounceDecrypt \<Rightarrow> string option) \<Rightarrow> 'c list \<Rightarrow> ('p, 's) AnnounceDecrypt \<Rightarrow>
    (string, unit) go \<times> 'c list" where
  "OTSDecrypt_Start SendTo [] ann = (Ret (), [])"
| "OTSDecrypt_Start SendTo (c # cs) ann =
    (case SendTo c ann of
       Some err \<Rightarrow> (Err err, [])
     | None \<Rightarrow> (let (r, served) = OTSDecrypt_Start SendTo cs ann in (r, c # served)))"

lemma OTSDecrypt_Start_served:
  "OTSDecrypt_Start SendTo cs ann = (r, served) \<Longrightarrow>
    served = takeWhile (\<lambda>c. SendTo c ann = None) cs \<and> (r = Ret () \<longleftrightarrow> (\<forall>c \<in> set cs. SendTo c ann = None))"
  by (induction cs arbitrary: r served) (auto split: option.splits prod.splits)

text \<open>
  What a trustee does with its share once the request is verified: the common part of the
  leaf and the root in \<open>Dispatch\<close>. \<open>idx\<close> is the position of its share, \<open>pub\<close> and \<open>priv\<close> its keys.
\<close>

definition own_share ::
  "('p :: ab_group_add, 's :: comm_ring_1) smc_env \<Rightarrow> 's \<Rightarrow> (nat \<Rightarrow> nat) \<Rightarrow> int \<Rightarrow> 'p \<Rightarrow> 's \<Rightarrow> 'p OTSWrite \<Rightarrow>
    (string, 'p DecryptedShare) go option" where
  "own_share E k rnd idx pub priv writeData =
    (case go_bind (CreatePointH (smc_suite E) (ow_ReaderPk writeData)) (\<lambda>h.
          go_bind (index (ow_EncProofs writeData) idx) (\<lambda>sH.
          go_bind (index (ow_EncShares writeData) idx) (\<lambda>es. Ret (h, sH, es)))) of
       Err e \<Rightarrow> Some (Err e)
     | Panic \<Rightarrow> Some Panic
     | Ret (h, sH, es) \<Rightarrow>
       (case smc_DecShare E h pub sH priv es of
          Panic \<Rightarrow> Some Panic
        | Err _ \<Rightarrow> Some (Ret \<lparr>ds_K = None, ds_Cs = []\<rparr>)
        | Ret tempSh \<Rightarrow> elGamalEncrypt E k rnd tempSh (ow_ReaderPk writeData)))"

text \<open>\<open>Dispatch\<close> of a leaf on the announcement: its reply to the root, or an error and no reply.\<close>

definition Dispatch_leaf ::
  "('p :: ab_group_add, 's :: comm_ring_1) smc_env \<Rightarrow> 's \<Rightarrow> (nat \<Rightarrow> nat) \<Rightarrow> int \<Rightarrow> 'p \<Rightarrow> 's \<Rightarrow>
    ('p, 's) AnnounceDecrypt \<Rightarrow> (string, 'p ShareReply) go option" where
  "Dispatch_leaf E k rnd idx pub priv ann =
    (case verifyDecryptionRequest E (ann_DecReqData ann) (ann_Signature ann) of
       Err e \<Rightarrow> Some (Err e)
     | Panic \<Rightarrow> Some Panic
     | Ret writeData \<Rightarrow>
       map_option (\<lambda>r. go_bind r (\<lambda>ds. Ret \<lparr>shr_DecShare = ds\<rparr>)) (own_share E k rnd idx pub priv writeData))"

text \<open>\<open>Dispatch\<close> of the root, once the replies of all children are there.\<close>

definition Dispatch_root ::
  "('p :: ab_group_add, 's :: comm_ring_1) smc_env \<Rightarrow> 's \<Rightarrow> (nat \<Rightarrow> nat) \<Rightarrow> 'p \<Rightarrow> 's \<Rightarrow>
    ('p, 's) AnnounceDecrypt \<Rightarrow> 'p ShareReply list \<Rightarrow> (string, 'p DecryptedShare list) go option" where
  "Dispatch_root E k rnd pub priv ann reply =
    (let decShares = map shr_DecShare reply in
     case verifyDecryptionRequest E (ann_DecReqData ann) (ann_Signature ann) of
       Err e \<Rightarrow> Some (Err e)
     | Panic \<Rightarrow> Some Panic
     | Ret writeData \<Rightarrow>
       map_option (\<lambda>r. go_bind r (\<lambda>ds. Ret (decShares @ [ds])))
         (own_share E k rnd (ann_RootIndex ann) pub priv writeData))"

section \<open>The service\<close>

text \<open>
  The messages that reach the root: the channel of replies is read only when every child has
  replied, and never when there is no child.
\<close>

definition gather :: "'p ShareReply option list \<Rightarrow> 'p ShareReply list option" where
  "gather children =
    (if children = [] \<or> None \<in> set children then None else Some (map the children))"

text \<open>
  \<open>DecryptRequest\<close>; \<open>None\<close> is a handler that waits for ever on \<open>DecShares\<close>. \<open>start\<close> is the creation
  and the start of the protocol on the tree, \<open>children\<close> the reply of each child, if it sends one,
  \<open>root\<close> the \<open>Dispatch\<close> of the root. \<open>NewClientError\<close> gives the errors a code.
\<close>

definition Service_DecryptRequest ::
  "('p Roster \<Rightarrow> int \<Rightarrow> 'p ServerIdentity \<Rightarrow> (string, 'p Tree option) go) \<Rightarrow>
    (string \<Rightarrow> client_error) \<Rightarrow> ('p Tree \<Rightarrow> (string, unit) go) \<Rightarrow>
    (('p, 's) AnnounceDecrypt \<Rightarrow> 'p ShareReply option list) \<Rightarrow>
    (('p, 's) AnnounceDecrypt \<Rightarrow> 'p ShareReply list \<Rightarrow> (string, 'p DecryptedShare list) go option) \<Rightarrow>
    'p ServerIdentity \<Rightarrow> ('p, 's) DecryptRequest \<Rightarrow> (client_error, 'p DecryptReply) go option" where
  "Service_DecryptRequest genTree NewClientError start children root si req =
    (let childCount = int (length (ro_List (drq_Roster req))) - 1 in
     case genTree (drq_Roster req) childCount si of
       Panic \<Rightarrow> Some Panic
     | Err _ \<Rightarrow> Some Panic
     | Ret None \<Rightarrow> Some (Err (NewClientErrorCode ErrorParse ''couldn't create tree''))
     | Ret (Some tree) \<Rightarrow>
       (case start tree of
          Panic \<Rightarrow> Some Panic
        | Err e \<Rightarrow> Some (Err (NewClientError e))
        | Ret _ \<Rightarrow>
          (let ann = \<lparr>ann_DecReqData = drq_Data req, ann_Signature = drq_Signature req,
                      ann_RootIndex = drq_RootIndex req\<rparr> in
           case gather (children ann) of
             None \<Rightarrow> None
           | Some reply \<Rightarrow>
             (case root ann reply of
                Some (Ret decShares) \<Rightarrow> Some (Ret \<lparr>dre_DecShares = decShares\<rparr>)
              | Some Panic \<Rightarrow> Some Panic
              | Some (Err _) \<Rightarrow> None
              | None \<Rightarrow> None))))"

section \<open>The client\<close>

text \<open>
  \<open>OTSDecrypt\<close>; \<open>send\<close> is \<open>SendProtobuf\<close> to the first server of the roster. Every error is
  reported with the code \<open>ErrorParse\<close>.
\<close>

definition OTSDecrypt ::
  "('p :: ab_group_add, 's :: comm_ring_1) smc_env \<Rightarrow> 's \<Rightarrow>
    ('p ServerIdentity \<Rightarrow> ('p, 's) DecryptRequest \<Rightarrow> (string, 'p DecryptReply) go) \<Rightarrow>
    'p Roster \<Rightarrow> 'p SkipBlockFix option \<Rightarrow> 'p SkipBlockFix option \<Rightarrow> BlockLink option \<Rightarrow> 'p list \<Rightarrow> 's \<Rightarrow>
    (client_error, 'p DecryptedShare list) go" where
  "OTSDecrypt E k send r writeSBF readSBF inclusionProof acPubKeys privKey =
    go_err (NewClientErrorCode ErrorParse)
      (let data = \<lparr>drd_WriteSBF = writeSBF, drd_ReadSBF = readSBF, drd_InclusionProof = inclusionProof,
                   drd_ACPublicKeys = acPubKeys\<rparr> in
       go_bind (smc_MarshalRequest E data) (\<lambda>msg.
       go_bind (SignMessage (smc_suite E) k msg privKey) (\<lambda>sig.
       go_bind (index (ro_List r) 0) (\<lambda>si.
       go_bind (send si \<lparr>drq_RootIndex = 0, drq_Roster = r, drq_Data = Some data, drq_Signature = Some sig\<rparr>)
         (\<lambda>reply. Ret (dre_DecShares reply))))))"

section \<open>Properties of the request check\<close>

text \<open>The contents of a decoded block.\<close>

definition smc_data :: "('p, 's) smc_env \<Rightarrow> 'p SkipBlockFix \<Rightarrow> ('p, 's) DataOCS \<Rightarrow> bool" where
  "smc_data E sbf d \<longleftrightarrow> smc_unmarshal E (sb_Data sbf) = Ret (Some (M_DataOCS d))"

text \<open>
  What a decryption request has to prove: the write block holds the data, the request is
  signed with the private key of the reader named there, the read block is linked by a
  forward-link that the access-control cothority signed, and it names the write block.
\<close>

definition authorised ::
  "('p :: ab_group_add, 's :: comm_ring_1) smc_env \<Rightarrow> 'p DecryptRequestData \<Rightarrow> 's SchnorrSig \<Rightarrow> 'p OTSWrite \<Rightarrow> bool" where
  "authorised E drd sg write \<longleftrightarrow>
    (\<exists>writeSBF readSBF wd w rd r buf proof.
      drd_WriteSBF drd = Some writeSBF \<and> smc_data E writeSBF wd \<and> do_OTSWrite wd = Some w \<and> dow_Data w = Some write \<and>
      drd_ReadSBF drd = Some readSBF \<and> smc_data E readSBF rd \<and> do_Read rd = Some r \<and>
      smc_MarshalRequest E drd = Ret buf \<and>
      VerifySchnorr (smc_suite E) (ow_ReaderPk write) (Sum256 buf) sg = Ret () \<and>
      drd_InclusionProof drd = Some proof \<and> bl_Signature proof \<noteq> [] \<and>
      bl_Hash proof = sk_CalculateHash (smc_ops E) readSBF \<and>
      smc_CosiVerify E (drd_ACPublicKeys drd) (bl_Hash proof) (bl_Signature proof) = Ret () \<and>
      rd_DataID r = sk_CalculateHash (smc_ops E) writeSBF)"

lemma as_DataOCS_Ret: "as_DataOCS m = Ret d \<longleftrightarrow> m = Some (M_DataOCS d)"
  by (auto simp: as_DataOCS_def split: option.splits message.splits)

lemma verifyDecryptionRequest_Ret:
  assumes "skipchain_laws (smc_ops E)"
  shows "verifyDecryptionRequest E decReqData sig = Ret write \<longleftrightarrow>
    (\<exists>drd sg. decReqData = Some drd \<and> sig = Some sg \<and> authorised E drd sg write)"
proof
  assume "verifyDecryptionRequest E decReqData sig = Ret write"
  then show "\<exists>drd sg. decReqData = Some drd \<and> sig = Some sg \<and> authorised E drd sg write"
    unfolding verifyDecryptionRequest_def authorised_def smc_data_def
    by (auto simp: Let_def go_bind_eq_Ret deref_eq_Ret as_DataOCS_Ret skipchain_lawsD(4) [OF assms]
        split: if_splits)
next
  assume "\<exists>drd sg. decReqData = Some drd \<and> sig = Some sg \<and> authorised E drd sg write"
  then show "verifyDecryptionRequest E decReqData sig = Ret write"
    unfolding authorised_def smc_data_def
    by (auto simp: verifyDecryptionRequest_def Let_def as_DataOCS_def skipchain_lawsD(4) [OF assms])
qed

section \<open>Properties of the re-encryption\<close>

lemma elGamal_loop_pieces:
  assumes "embed_laws S"
  shows "\<exists>Cs' pieces. elGamal_loop S rnd Spt i msg Cs = Some (Cs @ Cs') \<and> concat pieces = msg \<and>
    list_all2 (\<lambda>C piece. su_Data S (C - Spt) = Ret piece) Cs' pieces"
proof (induction "length msg" arbitrary: i msg Cs rule: less_induct)
  case less
  show ?case
  proof (cases "msg = []")
    case True
    then show ?thesis by (intro exI [of _ "[]"]) (simp add: elGamal_loop.simps)
  next
    case False
    obtain kp rest where pick: "su_Pick S msg (rnd i) = (kp, rest)" by force
    note d = embed_lawsD [OF assms False pick]
    let ?m = "nat (min_int (int (length msg)) (su_PickLen S kp))"
    have eq: "drop ?m msg = drop (nat (su_PickLen S kp)) msg"
      by (auto simp: min_int_def)
    have "length (drop ?m msg) < length msg" using d(1) False by (auto simp: min_int_def)
    from less [OF this, of "Suc i" "Cs @ [Spt + kp]"] obtain Cs' pieces
      where IH: "elGamal_loop S rnd Spt (Suc i) (drop ?m msg) (Cs @ [Spt + kp]) = Some (Cs @ [Spt + kp] @ Cs')"
        "concat pieces = drop ?m msg" "list_all2 (\<lambda>C piece. su_Data S (C - Spt) = Ret piece) Cs' pieces"
      by auto
    have step: "elGamal_loop S rnd Spt i msg Cs = Some (Cs @ (Spt + kp) # Cs')"
      using False pick IH(1) by (simp add: elGamal_loop.simps [of S rnd Spt i msg Cs])
    have "concat (take (nat (su_PickLen S kp)) msg # pieces) = msg" using IH(2) eq by simp
    moreover have "list_all2 (\<lambda>C piece. su_Data S (C - Spt) = Ret piece)
        ((Spt + kp) # Cs') (take (nat (su_PickLen S kp)) msg # pieces)"
      using IH(3) d(3) by simp
    ultimately show ?thesis using step by blast
  qed
qed

interpretation elgamal: masked_embedding "\<lambda>S k. su_Mul S (snd k) (fst k)"
  "\<lambda>S rnd k msg. elGamal_loop S rnd (su_Mul S (snd k) (fst k)) 0 msg []"
proof unfold_locales
  fix S :: "('p :: ab_group_add, 's :: comm_ring_1) suite" and rnd and k :: "'p \<times> 's" and msg
  assume S: "embed_laws S"
  note pieces = elGamal_loop_pieces [OF S, of rnd "su_Mul S (snd k) (fst k)" 0 msg "[]"]
  show "\<exists>Cs. elGamal_loop S rnd (su_Mul S (snd k) (fst k)) 0 msg [] = Some Cs"
    using pieces by auto
  show "\<exists>pieces. concat pieces = msg \<and>
      list_all2 (\<lambda>C piece. su_Data S (C - su_Mul S (snd k) (fst k)) = Ret piece) Cs pieces"
    if "elGamal_loop S rnd (su_Mul S (snd k) (fst k)) 0 msg [] = Some Cs" for Cs
    using pieces that by auto
qed

text \<open>The encryption returns, and the holder of the private key can remove the mask.\<close>

lemma elGamalEncrypt_total:
  fixes E :: "('p :: ab_group_add, 's :: comm_ring_1) smc_env"
  assumes "embed_laws (smc_suite E)" and "smc_MarshalShare E ds = Ret msg"
  obtains Cs where "elGamalEncrypt E k rnd ds pk =
      Some (Ret \<lparr>ds_K = Some (su_Mul (smc_suite E) k (su_Base (smc_suite E))), ds_Cs = Cs\<rparr>)"
    and "elGamal_loop (smc_suite E) rnd (su_Mul (smc_suite E) k pk) 0 msg [] = Some Cs"
  using elgamal.enc_total [OF assms(1), of rnd "(pk, k)" msg] assms(2)
  by (auto simp: elGamalEncrypt_def Let_def)

subsection \<open>A concrete cothority\<close>

definition ex_smc :: "(int, int) smc_env" where
  "ex_smc = \<lparr>smc_suite = int_suite, smc_ops = plain_ops, smc_unmarshal = ex_unmarshal,
    smc_MarshalRequest = (\<lambda>d. Ret [7]),
    smc_MarshalShare = (\<lambda>sh. Ret [word_of_int (ps_I (pvs_S sh)), word_of_int (ps_V (pvs_S sh))]),
    smc_CosiVerify = (\<lambda>pks h sg. if sg = [9] then Ret () else Err ''bad signature''),
    smc_DecShare = (\<lambda>h X sH x es. Ret es)\<rparr>"

lemma ex_smc_simps [simp]:
  "smc_suite ex_smc = int_suite" "smc_ops ex_smc = plain_ops" "smc_unmarshal ex_smc = ex_unmarshal"
  "smc_MarshalRequest ex_smc = (\<lambda>d. Ret [7])"
  "smc_CosiVerify ex_smc = (\<lambda>pks h sg. if sg = [9] then Ret () else Err ''bad signature'')"
  "smc_DecShare ex_smc = (\<lambda>h X sH x es. Ret es)"
  "smc_MarshalShare ex_smc = (\<lambda>sh. Ret [word_of_int (ps_I (pvs_S sh)), word_of_int (ps_V (pvs_S sh))])"
  by (simp_all add: ex_smc_def)

definition ex_drd :: "int DecryptRequestData" where
  "ex_drd = \<lparr>drd_WriteSBF = Some (ex_data_block 1 2 [] 1), drd_ReadSBF = Some (ex_data_block 2 3 [] 2),
    drd_InclusionProof = Some (ex_link 3), drd_ACPublicKeys = [1, 2]\<rparr>"

definition ex_write_data :: "(int, int) DataOCS" where
  "ex_write_data = empty_DataOCS\<lparr>do_OTSWrite := Some \<lparr>dow_Data = Some ex_otswrite, dow_Signature = Some ex_sig\<rparr>,
    do_Readers := Some ex_readers\<rparr>"

definition ex_read_data :: "(int, int) DataOCS" where
  "ex_read_data = empty_DataOCS\<lparr>do_Read := Some ex_read\<rparr>"

lemma ex_smc_data:
  "smc_data ex_smc (ex_data_block i k fls 1) ex_write_data"
  "smc_data ex_smc (ex_data_block i k fls 2) ex_read_data"
  by (simp_all add: smc_data_def ex_data_block_def ex_unmarshal_def ex_write_data_def ex_read_data_def)

lemma ex_smc_fields [simp]:
  "do_OTSWrite ex_write_data = Some \<lparr>dow_Data = Some ex_otswrite, dow_Signature = Some ex_sig\<rparr>"
  "do_Read ex_read_data = Some ex_read" "rd_DataID ex_read = [2]" "ow_ReaderPk ex_otswrite = 5"
  "sk_CalculateHash plain_ops sb = sb_Hash sb" "sb_Hash (ex_data_block i k fls d) = [k]"
  "bl_Hash (ex_link k) = [k]" "bl_Signature (ex_link k) = [9]"
  by (simp_all add: ex_write_data_def ex_read_data_def empty_DataOCS_def ex_read_def plain_ops_def
      ex_otswrite_def ex_block_defs)

lemma ex_VerifySchnorr: "VerifySchnorr int_suite pk msg \<lparr>sig_Challenge = 7, sig_Response = r\<rparr> = Ret ()"
  by (simp add: VerifySchnorr_def schnorr_hash_def int_suite_def)

lemma ex_authorised: "authorised ex_smc ex_drd \<lparr>sig_Challenge = 7, sig_Response = r\<rparr> ex_otswrite"
  unfolding authorised_def
  using ex_smc_data(1) [of 1 2 "[]"] ex_smc_data(2) [of 2 3 "[]"] ex_VerifySchnorr [of 5 "Sum256 [7]" r]
  by (fastforce simp: ex_drd_def)

text \<open>C3: a trustee accepts a decryption request exactly when the request carries a write block with
  one-time-secrets data, a valid signature on the whole request under the key of the reader that
  the data names, a read block whose hash is in a forward-link with a valid collective signature
  of the access-control cothority, and the read block names the hash of the write block.\<close>

theorem verifyDecryptionRequest_iff:
  assumes "skipchain_laws (smc_ops E)"
  shows "verifyDecryptionRequest E decReqData sig = Ret write \<longleftrightarrow>
    (\<exists>drd sg. decReqData = Some drd \<and> sig = Some sg \<and> authorised E drd sg write)"
  by (rule verifyDecryptionRequest_Ret [OF assms])

theorem verifyDecryptionRequest_iff_witness:
  "verifyDecryptionRequest ex_smc (Some ex_drd) (Some \<lparr>sig_Challenge = 7, sig_Response = 2\<rparr>) = Ret ex_otswrite"
  using verifyDecryptionRequest_iff [of ex_smc "Some ex_drd" "Some \<lparr>sig_Challenge = 7, sig_Response = 2\<rparr>" ex_otswrite]
    ex_authorised [of 2]
  by simp

text \<open>C4: no trustee lets a share out without authorisation. A leaf sends a reply, and the root
  hands out the list of shares, only for a request that the check accepts.\<close>

theorem shares_only_if_authorised:
  assumes "skipchain_laws (smc_ops E)"
    and "Dispatch_leaf E k rnd idx pub priv ann = Some (Ret reply) \<or>
      Dispatch_root E k rnd pub priv ann replies = Some (Ret shares)"
  shows "\<exists>drd sg write. ann_DecReqData ann = Some drd \<and> ann_Signature ann = Some sg \<and> authorised E drd sg write"
proof -
  have "\<exists>write. verifyDecryptionRequest E (ann_DecReqData ann) (ann_Signature ann) = Ret write"
    using assms(2) by (auto simp: Dispatch_leaf_def Dispatch_root_def Let_def split: go.splits)
  then show ?thesis using verifyDecryptionRequest_Ret [OF assms(1)] by blast
qed

definition ex_ann :: "(int, int) AnnounceDecrypt" where
  "ex_ann = \<lparr>ann_DecReqData = Some ex_drd, ann_Signature = Some \<lparr>sig_Challenge = 7, sig_Response = 2\<rparr>, ann_RootIndex = 0\<rparr>"

lemma ex_verified: "verifyDecryptionRequest ex_smc (ann_DecReqData ex_ann) (ann_Signature ex_ann) = Ret ex_otswrite"
  using verifyDecryptionRequest_Ret [of ex_smc "Some ex_drd" "Some \<lparr>sig_Challenge = 7, sig_Response = 2\<rparr>" ex_otswrite]
    ex_authorised [of 2]
  by (simp add: ex_ann_def)

lemma ex_own_share: "\<exists>ds. own_share ex_smc k rnd 0 1 1 ex_otswrite = Some (Ret ds)"
proof -
  let ?es = "\<lparr>pvs_S = \<lparr>ps_I = 0, ps_V = 4\<rparr>, pvs_P = []\<rparr>"
  obtain h where h: "CreatePointH int_suite 5 = Ret h" 
    using CreatePointH_Ret [OF int_suite_laws(4), of 5] by (elim exE)
  have i: "index (ow_EncProofs ex_otswrite) 0 = (Ret 6 :: (string, int) go)"
    "index (ow_EncShares ex_otswrite) 0 = (Ret ?es :: (string, int PubVerShare) go)"
    by (simp_all add: ex_otswrite_def index_def)
  have laws: "embed_laws (smc_suite ex_smc)" and msg: "smc_MarshalShare ex_smc ?es = Ret [0, 4]" by simp_all
  have "\<exists>ds. elGamalEncrypt ex_smc k rnd ?es 5 = Some (Ret ds)"
    by (rule elGamalEncrypt_total [OF laws msg, of k rnd 5]) blast
  then show ?thesis
    unfolding own_share_def ex_smc_simps ex_smc_fields h i go_bind.simps go.case prod.case .
qed

lemma ex_leaf: "\<exists>reply. Dispatch_leaf ex_smc k rnd 0 1 1 ex_ann = Some (Ret reply)"
  using ex_own_share [of k rnd] by (auto simp: Dispatch_leaf_def ex_verified)

theorem shares_only_if_authorised_witness:
  "\<exists>drd sg write. ann_DecReqData ex_ann = Some drd \<and> ann_Signature ex_ann = Some sg \<and> authorised ex_smc drd sg write"
proof -
  obtain reply where "Dispatch_leaf ex_smc 3 (\<lambda>i. i) 0 1 1 ex_ann = Some (Ret reply)" using ex_leaf by blast
  then show ?thesis using shares_only_if_authorised [of ex_smc 3 "\<lambda>i. i" 0 1 1 ex_ann reply] by simp
qed

lemma request_verifies:
  assumes "skipchain_laws (smc_ops E)" and "suite_laws (smc_suite E)" and "point_marshals (smc_suite E)"
    and "\<forall>d. \<exists>buf. smc_MarshalRequest E d = Ret buf"
    and "smc_data E writeSBF wd" and "do_OTSWrite wd = Some w" and "dow_Data w = Some wdata"
    and "ow_ReaderPk wdata = public_of (smc_suite E) x"
    and "smc_data E readSBF rd" and "do_Read rd = Some r"
    and "rd_DataID r = sk_CalculateHash (smc_ops E) writeSBF"
    and "bl_Hash fl = sk_CalculateHash (smc_ops E) readSBF" and "bl_Signature fl \<noteq> []"
    and "smc_CosiVerify E acs (bl_Hash fl) (bl_Signature fl) = Ret ()"
    and "d = \<lparr>drd_WriteSBF = Some writeSBF, drd_ReadSBF = Some readSBF, drd_InclusionProof = Some fl, drd_ACPublicKeys = acs\<rparr>"
  obtains buf sg where "smc_MarshalRequest E d = Ret buf" and "SignMessage (smc_suite E) k buf x = Ret sg"
    and "verifyDecryptionRequest E (Some d) (Some sg) = Ret wdata"
proof -
  obtain buf where buf: "smc_MarshalRequest E d = Ret buf" using assms(4) by blast
  obtain sg where sg: "SignSchnorr (smc_suite E) k x (Sum256 buf) = Ret sg"
    and ver: "VerifySchnorr (smc_suite E) (public_of (smc_suite E) x) (Sum256 buf) sg = Ret ()"
    by (rule schnorr.signed_verifies [OF assms(2,3)])
  have "authorised E d sg wdata"
    unfolding authorised_def using assms(5-15) buf ver by (auto simp: smc_data_def)
  then have "verifyDecryptionRequest E (Some d) (Some sg) = Ret wdata"
    using verifyDecryptionRequest_Ret [OF assms(1)] by blast
  with that buf sg show thesis by (simp add: SignMessage_def Let_def)
qed

text \<open>a request that the client builds and signs with the private key of the reader named in the
  write block passes the check of the trustees, if the blocks and the forward-link belong together:
  the client gets the shares that the cothority returns for the write data.\<close>

theorem OTSDecrypt_accepted:
  assumes "skipchain_laws (smc_ops E)" and "suite_laws (smc_suite E)" and "point_marshals (smc_suite E)"
    and "\<forall>d. \<exists>buf. smc_MarshalRequest E d = Ret buf"
    and "smc_data E writeSBF wd" and "do_OTSWrite wd = Some w" and "dow_Data w = Some wdata"
    and "ow_ReaderPk wdata = public_of (smc_suite E) x"
    and "smc_data E readSBF rd" and "do_Read rd = Some r"
    and "rd_DataID r = sk_CalculateHash (smc_ops E) writeSBF"
    and "bl_Hash fl = sk_CalculateHash (smc_ops E) readSBF" and "bl_Signature fl \<noteq> []"
    and "smc_CosiVerify E acs (bl_Hash fl) (bl_Signature fl) = Ret ()"
    and "ro_List roster \<noteq> []"
    and "\<forall>si req. send si req = go_bind (verifyDecryptionRequest E (drq_Data req) (drq_Signature req)) (\<lambda>wr. Ret (reply wr))"
  shows "OTSDecrypt E k send roster (Some writeSBF) (Some readSBF) (Some fl) acs x = Ret (dre_DecShares (reply wdata))"
proof -
  let ?d = "\<lparr>drd_WriteSBF = Some writeSBF, drd_ReadSBF = Some readSBF, drd_InclusionProof = Some fl, drd_ACPublicKeys = acs\<rparr>"
  obtain buf sg where "smc_MarshalRequest E ?d = Ret buf" "SignMessage (smc_suite E) k buf x = Ret sg"
    "verifyDecryptionRequest E (Some ?d) (Some sg) = Ret wdata"
    using request_verifies [OF assms(1-14) refl] by metis
  then show ?thesis
    using assms(15,16) by (simp add: OTSDecrypt_def Let_def index_def)
qed

theorem OTSDecrypt_accepted_witness:
  "OTSDecrypt ex_smc 3 (\<lambda>si req. go_bind (verifyDecryptionRequest ex_smc (drq_Data req) (drq_Signature req))
      (\<lambda>wr. Ret \<lparr>dre_DecShares = [\<lparr>ds_K = Some 8, ds_Cs = []\<rparr>]\<rparr>)) ex_roster
    (Some (ex_data_block 1 2 [] 1)) (Some (ex_data_block 2 3 [] 2)) (Some (ex_link 3)) [1, 2] 5
    = Ret [\<lparr>ds_K = Some 8, ds_Cs = []\<rparr>]"
  by (rule OTSDecrypt_accepted [where E = ex_smc and x = 5 and wdata = ex_otswrite and r = ex_read
        and w = "\<lparr>dow_Data = Some ex_otswrite, dow_Signature = Some ex_sig\<rparr>"
        and reply = "\<lambda>wr. \<lparr>dre_DecShares = [\<lparr>ds_K = Some 8, ds_Cs = []\<rparr>]\<rparr>",
        OF _ _ _ _ ex_smc_data(1) _ _ _ ex_smc_data(2), simplified])
    (simp_all add: public_of_def int_suite_def)

section \<open>Waiting for the trustees\<close>

text \<open>The reply that a leaf sends, if any; a trustee is its draws, its position and its keys.\<close>

type_synonym ('p, 's) trustee = "'s \<times> (nat \<Rightarrow> nat) \<times> int \<times> 'p \<times> 's"

definition leaf_reply ::
  "('p :: ab_group_add, 's :: comm_ring_1) smc_env \<Rightarrow> ('p, 's) AnnounceDecrypt \<Rightarrow> ('p, 's) trustee \<Rightarrow> 'p ShareReply option" where
  "leaf_reply E ann t = (case t of (k, rnd, idx, pub, priv) \<Rightarrow>
    (case Dispatch_leaf E k rnd idx pub priv ann of Some (Ret r) \<Rightarrow> Some r | _ \<Rightarrow> None))"

definition ann_of :: "('p, 's) DecryptRequest \<Rightarrow> ('p, 's) AnnounceDecrypt" where
  "ann_of req = \<lparr>ann_DecReqData = drq_Data req, ann_Signature = drq_Signature req, ann_RootIndex = drq_RootIndex req\<rparr>"

lemma gather_Some: "gather cs = Some rs \<longleftrightarrow> cs \<noteq> [] \<and> cs = map Some rs"
  by (auto simp: gather_def map_idI comp_def) (metis in_set_conv_decomp map_idI option.collapse)+

text \<open>C31: the handler of decryption requests answers only if every trustee sends a reply: a request
  that the check rejects, or a roster of a single server, makes it wait for ever instead of
  returning an error.\<close>

theorem DecryptRequest_rejected_waits:
  assumes "genTree (drq_Roster req) (int (length (ro_List (drq_Roster req))) - 1) si = Ret (Some tree)"
    and "start tree = Ret ()"
    and "\<forall>w. verifyDecryptionRequest E (drq_Data req) (drq_Signature req) \<noteq> Ret w"
  shows "Service_DecryptRequest genTree nce start (\<lambda>ann. map (leaf_reply E ann) trustees) root si req = None"
proof -
  have "leaf_reply E (ann_of req) t = None" for t
    using assms(3) by (auto simp: leaf_reply_def Dispatch_leaf_def ann_of_def split: prod.splits go.splits)
  then have "gather (map (leaf_reply E (ann_of req)) trustees) = None"
    by (cases trustees) (simp_all add: gather_def)
  then show ?thesis
    using assms(1,2) by (simp add: Service_DecryptRequest_def ann_of_def Let_def)
qed

definition ex_bad_request :: "(int, int) DecryptRequest" where
  "ex_bad_request = \<lparr>drq_RootIndex = 0, drq_Roster = ex_roster,
    drq_Data = Some (ex_drd\<lparr>drd_InclusionProof := Some \<lparr>bl_Hash = [8], bl_Signature = [9]\<rparr>\<rparr>),
    drq_Signature = Some \<lparr>sig_Challenge = 7, sig_Response = 2\<rparr>\<rparr>"

theorem DecryptRequest_rejected_waits_witness:
  "Service_DecryptRequest (\<lambda>r n si. Ret (Some \<lparr>tree_ID = 0, tree_Roster = Some r, tree_Root = None\<rparr>))
    (NewClientErrorCode 0) (\<lambda>t. Ret ()) (\<lambda>ann. map (leaf_reply ex_smc ann) [(3, \<lambda>i. i, 1, 1, 1)])
    (\<lambda>ann rs. Some (Ret [])) (ex_si 1) ex_bad_request = None"
proof -
  have "\<not> authorised ex_smc (ex_drd\<lparr>drd_InclusionProof := Some \<lparr>bl_Hash = [8], bl_Signature = [9]\<rparr>\<rparr>) sg w" for sg w
    by (simp add: authorised_def ex_drd_def)
  then have "verifyDecryptionRequest ex_smc (drq_Data ex_bad_request) (drq_Signature ex_bad_request) \<noteq> Ret w" for w
    using verifyDecryptionRequest_Ret [of ex_smc] by (simp add: ex_bad_request_def)
  then show ?thesis
    by (intro DecryptRequest_rejected_waits) auto
qed

end
