(* ===== verification/Go_Strings.thy ===== *)
theory Go_Strings
  imports Prelude
begin

text \<open>
  The string functions of the Go standard library that the program uses: decimal
  numbers (\<open>strconv.Itoa\<close>, \<open>strconv.Atoi\<close>, the verb \<open>%d\<close>), splitting
  (\<open>strings.Split\<close>, \<open>strings.SplitN\<close> with limit 2), joining, lower case, and
  \<open>net.SplitHostPort\<close> / \<open>net.JoinHostPort\<close>.
\<close>

section \<open>Decimal numbers\<close>

definition digit_char :: "nat \<Rightarrow> char" where
  "digit_char d = char_of (48 + d)"

definition is_digit :: "char \<Rightarrow> bool" where
  "is_digit c \<longleftrightarrow> 48 \<le> (of_char c :: nat) \<and> (of_char c :: nat) \<le> 57"

definition digit_val :: "char \<Rightarrow> nat" where
  "digit_val c = of_char c - 48"

fun nat_digits :: "nat \<Rightarrow> string" where
  "nat_digits n = (if n < 10 then [digit_char n] else nat_digits (n div 10) @ [digit_char (n mod 10)])"

declare nat_digits.simps [simp del]

definition Itoa :: "int \<Rightarrow> string" where
  "Itoa n = (if n < 0 then CHR ''-'' # nat_digits (nat (- n)) else nat_digits (nat n))"

definition digits_val :: "string \<Rightarrow> nat" where
  "digits_val s = fold (\<lambda>c v. 10 * v + digit_val c) s 0"

text \<open>
  \<open>Atoi\<close>: the value and whether it is free of error. A malformed number gives 0, one
  outside the range of a 64-bit integer the nearest bound.
\<close>

definition atoi_unsigned :: "bool \<Rightarrow> string \<Rightarrow> int \<times> bool" where
  "atoi_unsigned neg s =
    (if s = [] \<or> \<not> list_all is_digit s then (0, False)
     else
       (let v = int (digits_val s) in
        if neg then (if v > 2 ^ 63 then (- (2 ^ 63), False) else (- v, True))
        else (if v \<ge> 2 ^ 63 then (2 ^ 63 - 1, False) else (v, True))))"

definition Atoi :: "string \<Rightarrow> int \<times> bool" where
  "Atoi s =
    (case s of
       [] \<Rightarrow> (0, False)
     | c # r \<Rightarrow>
         if c = CHR ''+'' then atoi_unsigned False r
         else if c = CHR ''-'' then atoi_unsigned True r
         else atoi_unsigned False s)"

lemma of_char_digit_char: "d < 10 \<Longrightarrow> of_char (digit_char d) = 48 + d"
  by (simp add: digit_char_def of_char_of)

lemma digit_char_simps [simp]:
  "d < 10 \<Longrightarrow> is_digit (digit_char d)" "d < 10 \<Longrightarrow> digit_val (digit_char d) = d"
  by (simp_all add: is_digit_def digit_val_def of_char_digit_char)

lemma nat_digits_ok:
  "nat_digits n \<noteq> [] \<and> list_all is_digit (nat_digits n) \<and> digits_val (nat_digits n) = n"
proof (induction n rule: nat_digits.induct)
  case (1 n)
  then show ?case
    by (subst (1 2 3) nat_digits.simps) (auto simp: digits_val_def)
qed

lemmas nat_digits_facts [simp] = nat_digits_ok [THEN conjunct1] nat_digits_ok [THEN conjunct2, THEN conjunct1]
  nat_digits_ok [THEN conjunct2, THEN conjunct2]

lemma not_digit_sign: "is_digit c \<Longrightarrow> c \<noteq> CHR ''+'' \<and> c \<noteq> CHR ''-'' \<and> c \<noteq> CHR '':''"
  by (auto simp: is_digit_def)

lemma Atoi_digits:
  assumes "s \<noteq> []" and "list_all is_digit s"
  shows "Atoi s = atoi_unsigned False s"
  using assms not_digit_sign by (cases s) (auto simp: Atoi_def)

lemma Atoi_Itoa:
  assumes "- (2 ^ 63) \<le> n" and "n < 2 ^ 63"
  shows "Atoi (Itoa n) = (n, True)"
proof (cases "n < 0")
  case True
  then show ?thesis using assms by (simp add: Itoa_def Atoi_def atoi_unsigned_def)
next
  case False
  then show ?thesis using assms by (simp add: Itoa_def Atoi_digits atoi_unsigned_def)
qed

section \<open>Splitting and joining\<close>

text \<open>Up to the first separator character, and what follows it.\<close>

definition SplitN2 :: "string \<Rightarrow> char \<Rightarrow> string list" where
  "SplitN2 s c =
    (case dropWhile (\<lambda>x. x \<noteq> c) s of [] \<Rightarrow> [s] | _ # r \<Rightarrow> [takeWhile (\<lambda>x. x \<noteq> c) s, r])"

lemma SplitN2_append:
  assumes "c \<notin> set a"
  shows "SplitN2 (a @ c # b) c = [a, b]"
proof -
  have "dropWhile (\<lambda>x. x \<noteq> c) (a @ c # b) = c # b" using assms by (induction a) auto
  moreover have "takeWhile (\<lambda>x. x \<noteq> c) (a @ c # b) = a" using assms by (induction a) auto
  ultimately show ?thesis by (simp add: SplitN2_def)
qed

lemma SplitN2_none:
  assumes "c \<notin> set a"
  shows "SplitN2 a c = [a]"
proof -
  have "dropWhile (\<lambda>x. x \<noteq> c) a = []" using assms by (induction a) auto
  then show ?thesis unfolding SplitN2_def by (simp only: list.case)
qed

text \<open>\<open>strings.Split\<close> with a non-empty separator: \<open>acc\<close> is the current piece.\<close>

function split_loop :: "string \<Rightarrow> string \<Rightarrow> string \<Rightarrow> string list" where
  "split_loop sep acc s =
    (if s = [] then [acc]
     else if sep \<noteq> [] \<and> prefix sep s then acc # split_loop sep [] (drop (length sep) s)
     else split_loop sep (acc @ [hd s]) (tl s))"
  by pat_completeness auto
termination
  by (relation "measure (\<lambda>(sep, acc, s). length s)") (auto simp: prefix_def)

declare split_loop.simps [simp del]

lemma split_loop_Nil [simp]: "split_loop sep acc [] = [acc]"
  by (simp add: split_loop.simps)

lemma split_loop_Cons:
  "split_loop sep acc (c # s) =
    (if sep \<noteq> [] \<and> prefix sep (c # s) then acc # split_loop sep [] (drop (length sep) (c # s))
     else split_loop sep (acc @ [c]) s)"
  by (simp add: split_loop.simps [of sep acc "c # s"])

definition Split :: "string \<Rightarrow> string \<Rightarrow> string list" where
  "Split s sep = split_loop sep [] s"

definition Join :: "string list \<Rightarrow> string \<Rightarrow> string" where
  "Join ss sep = (case ss of [] \<Rightarrow> [] | a # as \<Rightarrow> a @ concat (map (\<lambda>x. sep @ x) as))"

definition ToLower :: "string \<Rightarrow> string" where
  "ToLower s = map (\<lambda>c. let n = (of_char c :: nat) in if 65 \<le> n \<and> n \<le> 90 then char_of (n + 32) else c) s"

lemma split_loop_no_sep:
  assumes "\<not> sublist sep s" and "sep \<noteq> []"
  shows "split_loop sep acc s = [acc @ s]"
  using assms
proof (induction sep acc s rule: split_loop.induct)
  case (1 sep acc s)
  show ?case
  proof (cases s)
    case Nil
    then show ?thesis by (simp add: split_loop.simps)
  next
    case (Cons c r)
    have "\<not> prefix sep s" using "1.prems"(1) by (auto dest: prefix_imp_sublist)
    moreover have "\<not> sublist sep r" using "1.prems"(1) Cons by (auto simp: sublist_Cons_right)
    ultimately show ?thesis
      using 1 Cons by (simp add: split_loop.simps [of sep acc "c # r"])
  qed
qed

lemma split_loop_first:
  assumes "sep \<noteq> []" and "\<forall>i < length a. \<not> prefix sep (drop i (a @ sep @ b))"
  shows "split_loop sep acc (a @ sep @ b) = (acc @ a) # split_loop sep [] b"
  using assms(2)
proof (induction a arbitrary: acc)
  case Nil
  then show ?case using assms(1) by (simp add: split_loop.simps [of sep acc "sep @ b"])
next
  case (Cons c a)
  have "\<not> prefix sep (c # a @ sep @ b)" using Cons.prems by force
  moreover have "\<forall>i < length a. \<not> prefix sep (drop i (a @ sep @ b))" using Cons.prems by force
  ultimately show ?case
    using Cons.IH [of "acc @ [c]"] by (simp add: split_loop.simps [of sep acc "c # a @ sep @ b"])
qed

section \<open>Host and port\<close>

text \<open>
  \<open>net.SplitHostPort\<close>: host and port around the last colon; an IPv6 host is in brackets, and
  a host without brackets has no colon.
\<close>

definition last_colon :: "string \<Rightarrow> (string \<times> string) option" where
  "last_colon s =
    (if CHR '':'' \<in> set s
     then Some (rev (tl (dropWhile (\<lambda>c. c \<noteq> CHR '':'') (rev s))), rev (takeWhile (\<lambda>c. c \<noteq> CHR '':'') (rev s)))
     else None)"

definition SplitHostPort :: "string \<Rightarrow> (string \<times> string) option" where
  "SplitHostPort s =
    (case last_colon s of
       None \<Rightarrow> None
     | Some (h, p) \<Rightarrow>
         if h \<noteq> [] \<and> hd h = CHR ''['' then
           (if last h = CHR '']'' \<and> CHR '']'' \<notin> set (butlast h) \<and> CHR ''['' \<notin> set (tl h) \<and>
               CHR ''['' \<notin> set p \<and> CHR '']'' \<notin> set p
            then Some (butlast (tl h), p) else None)
         else if CHR '':'' \<in> set h \<or> CHR ''['' \<in> set s \<or> CHR '']'' \<in> set s then None
         else Some (h, p))"

definition JoinHostPort :: "string \<Rightarrow> string \<Rightarrow> string" where
  "JoinHostPort h p =
    (if CHR '':'' \<in> set h then CHR ''['' # h @ '']:'' @ p else h @ '':'' @ p)"

lemma last_colon_append:
  assumes "CHR '':'' \<notin> set p"
  shows "last_colon (h @ CHR '':'' # p) = Some (h, p)"
proof -
  have "dropWhile (\<lambda>c. c \<noteq> CHR '':'') (rev p @ CHR '':'' # rev h) = CHR '':'' # rev h"
    using assms by (subst dropWhile_append2) auto
  moreover have "takeWhile (\<lambda>c. c \<noteq> CHR '':'') (rev p @ CHR '':'' # rev h) = rev p"
    using assms by (subst takeWhile_append2) auto
  ultimately show ?thesis by (simp add: last_colon_def)
qed

end
