(* ===== verification/Go_Regexp.thy ===== *)
theory Go_Regexp
  imports Go_Strings
begin

text \<open>
  \<open>regexp.MatchString\<close> of the Go standard library for the patterns the program uses:
  regular expressions over character classes, matched by derivatives, either on the
  whole string (a pattern between \<open>^\<close> and \<open>$\<close>) or on a prefix (a pattern that only
  starts with \<open>^\<close>). The matchers are proved equal to membership in the language.
\<close>

datatype rexp = Zero | One | Cls "char \<Rightarrow> bool" | Alt rexp rexp | Seq rexp rexp | Star rexp

fun nullable :: "rexp \<Rightarrow> bool" where
  "nullable Zero \<longleftrightarrow> False"
| "nullable One \<longleftrightarrow> True"
| "nullable (Cls p) \<longleftrightarrow> False"
| "nullable (Alt r s) \<longleftrightarrow> nullable r \<or> nullable s"
| "nullable (Seq r s) \<longleftrightarrow> nullable r \<and> nullable s"
| "nullable (Star r) \<longleftrightarrow> True"

fun deriv :: "char \<Rightarrow> rexp \<Rightarrow> rexp" where
  "deriv c Zero = Zero"
| "deriv c One = Zero"
| "deriv c (Cls p) = (if p c then One else Zero)"
| "deriv c (Alt r s) = Alt (deriv c r) (deriv c s)"
| "deriv c (Seq r s) = (if nullable r then Alt (Seq (deriv c r) s) (deriv c s) else Seq (deriv c r) s)"
| "deriv c (Star r) = Seq (deriv c r) (Star r)"

fun match_all :: "rexp \<Rightarrow> string \<Rightarrow> bool" where
  "match_all r [] = nullable r"
| "match_all r (c # s) = match_all (deriv c r) s"

fun match_prefix :: "rexp \<Rightarrow> string \<Rightarrow> bool" where
  "match_prefix r [] = nullable r"
| "match_prefix r (c # s) \<longleftrightarrow> nullable r \<or> match_prefix (deriv c r) s"

fun lits :: "string \<Rightarrow> rexp" where
  "lits [] = One"
| "lits (c # s) = Seq (Cls (\<lambda>x. x = c)) (lits s)"

section \<open>Languages\<close>

inductive_set star :: "string set \<Rightarrow> string set" for L where
  star_Nil: "[] \<in> star L"
| star_App: "u \<in> L \<Longrightarrow> v \<in> star L \<Longrightarrow> u @ v \<in> star L"

fun lang :: "rexp \<Rightarrow> string set" where
  "lang Zero = {}"
| "lang One = {[]}"
| "lang (Cls p) = {[c] | c. p c}"
| "lang (Alt r s) = lang r \<union> lang s"
| "lang (Seq r s) = {u @ v | u v. u \<in> lang r \<and> v \<in> lang s}"
| "lang (Star r) = star (lang r)"

lemma nullable_lang: "nullable r \<longleftrightarrow> [] \<in> lang r"
  by (induction r) (auto intro: star_Nil)

lemma star_Cons:
  assumes "c # s \<in> star L"
  shows "\<exists>u v. s = u @ v \<and> c # u \<in> L \<and> v \<in> star L"
proof -
  have "x \<in> star L \<Longrightarrow> x = c # s \<Longrightarrow> ?thesis" for x
  proof (induction rule: star.induct)
    case star_Nil
    then show ?case by simp
  next
    case (star_App u v)
    then show ?case by (cases u) auto
  qed
  with assms show ?thesis by blast
qed

lemma deriv_lang: "lang (deriv c r) = {s. c # s \<in> lang r}"
proof (induction r)
  case (Seq r1 r2)
  have "(\<exists>u v. c # s = u @ v \<and> u \<in> lang r1 \<and> v \<in> lang r2) \<longleftrightarrow>
      ([] \<in> lang r1 \<and> c # s \<in> lang r2) \<or> (\<exists>u v. s = u @ v \<and> c # u \<in> lang r1 \<and> v \<in> lang r2)" for s
    by (auto simp: Cons_eq_append_conv)
  then show ?case using Seq by (auto simp: nullable_lang)
next
  case (Star r)
  show ?case
  proof (intro set_eqI iffI)
    fix s
    assume "s \<in> lang (deriv c (Star r))"
    then obtain u v where "s = u @ v" "c # u \<in> lang r" "v \<in> star (lang r)" using Star by auto
    then show "s \<in> {s. c # s \<in> lang (Star r)}" using star_App [of "c # u" "lang r" v] by simp
  next
    fix s
    assume "s \<in> {s. c # s \<in> lang (Star r)}"
    then show "s \<in> lang (deriv c (Star r))" using Star star_Cons [of c s "lang r"] by auto
  qed
qed auto

lemma match_all_lang: "match_all r s \<longleftrightarrow> s \<in> lang r"
  by (induction s arbitrary: r) (simp_all add: nullable_lang deriv_lang)

lemma match_prefix_lang: "match_prefix r s \<longleftrightarrow> (\<exists>u v. s = u @ v \<and> u \<in> lang r)"
  by (induction s arbitrary: r) (auto simp: nullable_lang deriv_lang Cons_eq_append_conv)

lemma star_concat: "s \<in> star L \<longleftrightarrow> (\<exists>us. set us \<subseteq> L \<and> s = concat us)"
proof
  assume "s \<in> star L"
  then show "\<exists>us. set us \<subseteq> L \<and> s = concat us"
  proof (induction rule: star.induct)
    case star_Nil
    have "set [] \<subseteq> L \<and> [] = concat []" by simp
    then show ?case by blast
  next
    case (star_App u v)
    then obtain us where "set us \<subseteq> L" "v = concat us" by blast
    then have "set (u # us) \<subseteq> L \<and> u @ v = concat (u # us)" using star_App.hyps by simp
    then show ?case by blast
  qed
next
  assume "\<exists>us. set us \<subseteq> L \<and> s = concat us"
  then obtain us where us: "set us \<subseteq> L" "s = concat us" by blast
  from us(1) have "concat us \<in> star L" by (induction us) (auto intro: star.intros)
  with us(2) show "s \<in> star L" by simp
qed

lemma star_Cls: "s \<in> star (lang (Cls p)) \<longleftrightarrow> list_all p s"
proof
  show "s \<in> star (lang (Cls p)) \<Longrightarrow> list_all p s" by (induction rule: star.induct) auto
next
  assume "list_all p s"
  then show "s \<in> star (lang (Cls p))"
  proof (induction s)
    case (Cons c s)
    then show ?case using star_App [of "[c]" "lang (Cls p)" s] by simp
  qed (simp add: star_Nil)
qed

end
