(* ===== verification/Address.thy ===== *)
theory Address
  imports Go_Regexp
begin

text \<open>
  \<open>imported/onet/network/address.go\<close>: addresses of the form \<open>type://host:port\<close>, their
  validity check and their parts. \<open>net.ParseIP\<close> is modelled as the test the code makes
  of it, that the result is not nil; the resolver \<open>lookupHost\<close> is a parameter, as it
  is a variable of the package.
\<close>

text \<open>How many times a connection is tried (\<open>network/struct.go\<close>).\<close>

definition MaxRetryConnect :: nat where
  "MaxRetryConnect = 5"

type_synonym connection_type = string

section \<open>IP addresses\<close>

text \<open>The dotted form: four decimal numbers of at most 255.\<close>

definition parseIPv4 :: "string \<Rightarrow> bool" where
  "parseIPv4 s \<longleftrightarrow>
    (let ps = Split s ''.'' in
     length ps = 4 \<and> list_all (\<lambda>p. p \<noteq> [] \<and> list_all is_digit p \<and> digits_val p \<le> 255) ps)"

definition hex_val :: "char \<Rightarrow> nat option" where
  "hex_val c =
    (let n = (of_char c :: nat) in
     if 48 \<le> n \<and> n \<le> 57 then Some (n - 48)
     else if 97 \<le> n \<and> n \<le> 102 then Some (n - 87)
     else if 65 \<le> n \<and> n \<le> 70 then Some (n - 55)
     else None)"

definition xtoi :: "string \<Rightarrow> nat" where
  "xtoi s = fold (\<lambda>c v. 16 * v + the (hex_val c)) s 0"

text \<open>
  The colon form: groups of hexadecimal digits, \<open>i\<close> bytes of the address read so far;
  \<open>ell\<close> records that the one permitted \<open>::\<close> was read; the last four bytes may be dotted.
\<close>

function ipv6_loop :: "nat \<Rightarrow> bool \<Rightarrow> string \<Rightarrow> bool" where
  "ipv6_loop i ell s =
    (if 16 \<le> i then s = [] \<and> \<not> ell
     else
       let h = takeWhile (\<lambda>c. hex_val c \<noteq> None) s;
           r = dropWhile (\<lambda>c. hex_val c \<noteq> None) s
       in
       if h = [] \<or> xtoi h > 65535 then False
       else
         case r of
           [] \<Rightarrow> (if i + 2 < 16 then ell else \<not> ell)
         | c # s1 \<Rightarrow>
             if c = CHR ''.'' then
               (ell \<or> i = 12) \<and> i + 4 \<le> 16 \<and> parseIPv4 s \<and> (if i + 4 < 16 then ell else \<not> ell)
             else if c \<noteq> CHR '':'' \<or> s1 = [] then False
             else if hd s1 = CHR '':'' then
               \<not> ell \<and> (if tl s1 = [] then i + 2 < 16 else ipv6_loop (i + 2) True (tl s1))
             else ipv6_loop (i + 2) ell s1)"
  by pat_completeness auto
termination
proof (relation "measure (\<lambda>(i, ell, s). length s)", goal_cases)
  case 1
  then show ?case by simp
next
  case (2 i ell s h r c s1)
  then have "length (c # s1) \<le> length s" by (metis length_dropWhile_le)
  then show ?case by (cases s1) auto
next
  case (3 i ell s h r c s1)
  then have "length (c # s1) \<le> length s" by (metis length_dropWhile_le)
  then show ?case by simp
qed

declare ipv6_loop.simps [simp del]

definition parseIPv6 :: "string \<Rightarrow> bool" where
  "parseIPv6 s =
    (if prefix ''::'' s then drop 2 s = [] \<or> ipv6_loop 0 True (drop 2 s) else ipv6_loop 0 False s)"

fun ParseIP_scan :: "string \<Rightarrow> string \<Rightarrow> bool" where
  "ParseIP_scan s [] = False"
| "ParseIP_scan s (c # cs) =
    (if c = CHR ''.'' then parseIPv4 s else if c = CHR '':'' then parseIPv6 s else ParseIP_scan s cs)"

definition ParseIP :: "string \<Rightarrow> bool" where
  "ParseIP s = ParseIP_scan s s"

section \<open>Connection types and host names\<close>

definition InvalidConnType :: connection_type where
  "InvalidConnType = ''wrong''"

definition connType :: "string \<Rightarrow> connection_type" where
  "connType t = (if t \<in> set [''tcp'', ''tls'', ''purb'', ''local''] then t else InvalidConnType)"

definition is_lower :: "char \<Rightarrow> bool" where
  "is_lower c \<longleftrightarrow> 97 \<le> (of_char c :: nat) \<and> (of_char c :: nat) \<le> 122"

definition is_alnum :: "char \<Rightarrow> bool" where
  "is_alnum c \<longleftrightarrow> is_lower c \<or> is_digit c"

definition rx_label :: rexp where
  "rx_label =
    Alt (Cls is_alnum)
      (Seq (Cls is_alnum) (Seq (Star (Cls (\<lambda>c. is_alnum c \<or> c = CHR ''-''))) (Cls is_alnum)))"

definition rx_hostname :: rexp where
  "rx_hostname =
    Seq (Star (Seq rx_label (Cls (\<lambda>c. c = CHR ''.'')))) (Seq (Cls is_lower) (Star (Cls is_lower)))"

text \<open>The host name check; the index \<open>s[len(s)-1]\<close> panics on the empty string.\<close>

definition validHostname :: "string \<Rightarrow> (string, bool) go" where
  "validHostname s0 =
    (let s = ToLower s0 in
     go_bind (index s (int (length s) - 1)) (\<lambda>c.
       let (maxLength, s) = (if c = CHR ''.'' then (254, butlast s) else (253, s)) in
       if length s > maxLength then Ret False
       else if list_ex (\<lambda>element. length element < 1 \<or> length element > 63) (Split s ''.'') then Ret False
       else Ret (match_all rx_hostname s)))"

section \<open>Addresses\<close>

abbreviation typeAddressSep :: string where
  "typeAddressSep \<equiv> ''://''"

definition Valid :: "string \<Rightarrow> (string, bool) go" where
  "Valid a =
    (let vals = Split a typeAddressSep in
     if length vals \<noteq> 2 then Ret False
     else if connType (vals ! 0) = InvalidConnType then Ret False
     else
       case SplitHostPort (vals ! 1) of
         None \<Rightarrow> Ret False
       | Some (ip, port) \<Rightarrow>
           let (p, ok) = Atoi port in
           if \<not> ok \<or> p < 0 \<or> p > 65535 then Ret False
           else if \<not> ParseIP ip then validHostname ip
           else Ret True)"

definition ConnType :: "string \<Rightarrow> (string, connection_type) go" where
  "ConnType a =
    go_bind (Valid a) (\<lambda>v.
      if \<not> v then Ret InvalidConnType
      else Ret (connType (Split a typeAddressSep ! 0)))"

definition NetworkAddress :: "string \<Rightarrow> (string, string) go" where
  "NetworkAddress a =
    go_bind (Valid a) (\<lambda>v. if \<not> v then Ret '''' else Ret (Split a typeAddressSep ! 1))"

definition Host :: "string \<Rightarrow> (string, string) go" where
  "Host a =
    go_bind (NetworkAddress a) (\<lambda>na.
      if na = '''' then Ret ''''
      else
        case SplitHostPort na of
          None \<Rightarrow> Ret ''''
        | Some (h, _) \<Rightarrow> Ret (if h = ''::'' then ''[::]'' else h))"

definition Port :: "string \<Rightarrow> (string, string) go" where
  "Port a =
    go_bind (NetworkAddress a) (\<lambda>na.
      if na = '''' then Ret ''''
      else case SplitHostPort na of None \<Rightarrow> Ret '''' | Some (_, p) \<Rightarrow> Ret p)"

definition IsHostname :: "string \<Rightarrow> (string, bool) go" where
  "IsHostname a =
    go_bind (Host a) (\<lambda>host. go_bind (validHostname host) (\<lambda>v. Ret (v \<and> \<not> ParseIP host)))"

definition Resolve :: "(string \<Rightarrow> string list option) \<Rightarrow> string \<Rightarrow> (string, string) go" where
  "Resolve lookupHost a =
    go_bind (Valid a) (\<lambda>v.
      if \<not> v then Ret ''''
      else
        go_bind (Host a) (\<lambda>host.
          if host = ''[::]'' then Ret ''::''
          else if ParseIP host then Ret host
          else
            go_bind (IsHostname a) (\<lambda>hn.
              if \<not> hn then Ret ''''
              else
                case lookupHost host of
                  None \<Rightarrow> Ret ''''
                | Some ipAddress \<Rightarrow> index ipAddress 0)))"

definition NetworkAddressResolved :: "(string \<Rightarrow> string list option) \<Rightarrow> string \<Rightarrow> (string, string) go" where
  "NetworkAddressResolved lookupHost a =
    go_bind (Valid a) (\<lambda>v.
      if \<not> v then Ret ''''
      else
        go_bind (Resolve lookupHost a) (\<lambda>ipAddress.
          go_bind (Port a) (\<lambda>port. Ret (JoinHostPort ipAddress port))))"

definition rx_class :: "string \<Rightarrow> rexp" where
  "rx_class cs = Cls (\<lambda>c. c \<in> set cs)"

definition rx_private :: rexp where
  "rx_private =
    (let upto2 = Alt One (Alt (Cls (\<lambda>c. c \<noteq> CHR 0x0A)) (Seq (Cls (\<lambda>c. c \<noteq> CHR 0x0A)) (Cls (\<lambda>c. c \<noteq> CHR 0x0A)))) in
     foldr Alt
       [lits ''127.'', lits ''10.'',
        Seq (lits ''172.1'') (Seq (rx_class ''6789'') (lits ''.'')),
        Seq (lits ''172.2'') (Seq (rx_class ''0123456789'') (lits ''.'')),
        Seq (lits ''172.3'') (Seq (rx_class ''01'') (lits ''.'')),
        lits ''192.168.'', lits ''169.254'', lits ''[::1]'',
        Seq (lits ''[fd'') (Seq upto2 (lits '':''))] Zero)"

definition Public :: "(string \<Rightarrow> string list option) \<Rightarrow> string \<Rightarrow> (string, bool) go" where
  "Public lookupHost a =
    go_bind (NetworkAddressResolved lookupHost a) (\<lambda>r.
      if match_prefix rx_private r then Ret False else Valid a)"

definition NewAddress :: "connection_type \<Rightarrow> string \<Rightarrow> string" where
  "NewAddress t network = t @ typeAddressSep @ network"

section \<open>Host names against their documented form\<close>

text \<open>
  The form the comment of \<open>validHostname\<close> documents, on a name in lower case without a
  trailing dot.
\<close>

definition label_ok :: "string \<Rightarrow> bool" where
  "label_ok l \<longleftrightarrow>
    l \<noteq> [] \<and> length l \<le> 63 \<and> list_all (\<lambda>c. is_alnum c \<or> c = CHR ''-'') l \<and>
    hd l \<noteq> CHR ''-'' \<and> last l \<noteq> CHR ''-''"

definition labels_ok :: "string \<Rightarrow> bool" where
  "labels_ok t \<longleftrightarrow> list_all label_ok (Split t ''.'') \<and> list_all is_lower (last (Split t ''.''))"

lemma is_alnum_not [simp]: "\<not> is_alnum (CHR ''-'')" "\<not> is_alnum (CHR ''.'')" "\<not> is_lower (CHR ''.'')"
  by (simp_all add: is_alnum_def is_lower_def is_digit_def)

lemma split_loop_join:
  assumes "sep \<noteq> []"
  shows "split_loop sep acc s \<noteq> [] \<and>
    concat (map (\<lambda>x. x @ sep) (butlast (split_loop sep acc s))) @ last (split_loop sep acc s) = acc @ s"
  using assms
proof (induction sep acc s rule: split_loop.induct)
  case (1 sep acc s)
  show ?case
  proof (cases "s \<noteq> [] \<and> prefix sep s")
    case True
    then have "split_loop sep acc s = acc # split_loop sep [] (drop (length sep) s)"
      using 1 by (simp add: split_loop.simps [of sep acc s])
    moreover have "s = sep @ drop (length sep) s" using True by (auto simp: prefix_def)
    ultimately show ?thesis using 1 True by auto
  next
    case False
    then show ?thesis using 1 by (cases s) (auto simp: split_loop_Cons)
  qed
qed

lemmas Split_join = split_loop_join [where acc = "[]", folded Split_def, simplified]

lemma split_dot_labels:
  assumes "list_all (\<lambda>x. CHR ''.'' \<notin> set x) ls" and "CHR ''.'' \<notin> set l"
  shows "Split (concat (map (\<lambda>x. x @ ''.'') ls) @ l) ''.'' = ls @ [l]"
  using assms(1)
proof (induction ls)
  case Nil
  have "\<not> sublist ''.'' l" using assms(2) by (auto simp: sublist_def)
  then show ?case by (simp add: Split_def split_loop_no_sep)
next
  case (Cons x ls)
  let ?r = "concat (map (\<lambda>x. x @ ''.'') ls) @ l"
  have no: "\<forall>i < length x. \<not> prefix ''.'' (drop i (x @ ''.'' @ ?r))"
  proof (intro allI impI)
    fix i
    assume i: "i < length x"
    then have "drop i (x @ ''.'' @ ?r) = x ! i # drop (Suc i) x @ ''.'' @ ?r"
      by (simp add: Cons_nth_drop_Suc)
    moreover have "x ! i \<noteq> CHR ''.''" using i Cons.prems by (auto simp: in_set_conv_nth)
    ultimately show "\<not> prefix ''.'' (drop i (x @ ''.'' @ ?r))" by simp
  qed
  have "Split (x @ ''.'' @ ?r) ''.'' = x # Split ?r ''.''"
    using split_loop_first [OF _ no, of "[]"] by (simp add: Split_def)
  then show ?case using Cons by simp
qed

lemma split_dot_no_dot:
  assumes "x \<in> set (split_loop ''.'' acc s)" and "CHR ''.'' \<notin> set acc"
  shows "CHR ''.'' \<notin> set x"
  using assms
proof (induction "''.''" acc s rule: split_loop.induct)
  case (1 acc s)
  then show ?case
    by (cases s) (auto simp: split_loop_Cons split: if_splits)
qed

lemma rx_label_lang:
  "l \<in> lang rx_label \<longleftrightarrow>
    l \<noteq> [] \<and> list_all (\<lambda>c. is_alnum c \<or> c = CHR ''-'') l \<and> hd l \<noteq> CHR ''-'' \<and> last l \<noteq> CHR ''-''"
    (is "_ \<longleftrightarrow> ?R")
proof
  assume "l \<in> lang rx_label"
  then show ?R by (auto simp: rx_label_def star_Cls simp del: lang.simps(3)) (auto)
next
  assume r: ?R
  show "l \<in> lang rx_label"
  proof (cases "length l = 1")
    case True
    then show ?thesis using r by (auto simp: rx_label_def length_Suc_conv)
  next
    case False
    with r obtain c m where cm: "l = c # m" "m \<noteq> []" by (cases l) auto
    then have "l = [c] @ butlast m @ [last m]" by simp
    moreover have "is_alnum c" "is_alnum (last m)" "list_all (\<lambda>c. is_alnum c \<or> c = CHR ''-'') (butlast m)"
      using r cm by (auto simp: list_all_iff dest: in_set_butlastD)
    moreover have "[c] \<in> lang (Cls is_alnum)" "[last m] \<in> lang (Cls is_alnum)"
      using calculation by simp_all
    moreover have "butlast m \<in> lang (Star (Cls (\<lambda>c. is_alnum c \<or> c = CHR ''-'')))"
      using calculation by (simp add: star_Cls del: lang.simps(3))
    ultimately show ?thesis
      unfolding rx_label_def lang.simps(4,5) by blast
  qed
qed

lemma rx_hostname_lang:
  "t \<in> lang rx_hostname \<longleftrightarrow>
    (\<exists>ls l. set ls \<subseteq> lang rx_label \<and> l \<noteq> [] \<and> list_all is_lower l \<and> t = concat (map (\<lambda>x. x @ ''.'') ls) @ l)"
    (is "_ \<longleftrightarrow> ?R")
proof
  assume "t \<in> lang rx_hostname"
  then obtain u c v where t: "t = u @ c # v" and u: "u \<in> star {w @ ''.'' | w. w \<in> lang rx_label}"
    and v: "is_lower c" "list_all is_lower v"
    by (auto simp: rx_hostname_def star_Cls simp del: lang.simps(3)) auto
  from u obtain us where us: "set us \<subseteq> {w @ ''.'' | w. w \<in> lang rx_label}" "u = concat us"
    unfolding star_concat by blast
  have "set (map butlast us) \<subseteq> lang rx_label" "map (\<lambda>x. x @ ''.'') (map butlast us) = us"
    using us(1) by (auto intro!: map_idI)
  then show ?R using t v us(2) by (intro exI [of _ "map butlast us"] exI [of _ "c # v"]) simp
next
  assume ?R
  then obtain ls l where r: "set ls \<subseteq> lang rx_label" "l \<noteq> []" "list_all is_lower l"
    "t = concat (map (\<lambda>x. x @ ''.'') ls) @ l" by blast
  then obtain c v where l: "l = [c] @ v" "is_lower c" "list_all is_lower v" by (cases l) auto
  have "[c] \<in> lang (Cls is_lower)" using l by simp
  moreover have "v \<in> lang (Star (Cls is_lower))" using l by (simp add: star_Cls del: lang.simps(3))
  moreover have "concat (map (\<lambda>x. x @ ''.'') ls) \<in> lang (Star (Seq rx_label (Cls (\<lambda>c. c = CHR ''.''))))"
  proof -
    have "set (map (\<lambda>x. x @ ''.'') ls) \<subseteq> lang (Seq rx_label (Cls (\<lambda>c. c = CHR ''.'')))"
      using r(1) by auto
    then show ?thesis unfolding lang.simps(6) star_concat by blast
  qed
  ultimately show "t \<in> lang rx_hostname"
    unfolding rx_hostname_def lang.simps(5) using r(4) l(1) by blast
qed

lemma labels_ok_iff:
  "labels_ok t \<longleftrightarrow>
    list_all (\<lambda>x. x \<noteq> [] \<and> length x \<le> 63) (Split t ''.'') \<and> t \<in> lang rx_hostname"
proof
  assume ok: "labels_ok t"
  let ?s = "Split t ''.''"
  have s: "?s \<noteq> []" "concat (map (\<lambda>x. x @ ''.'') (butlast ?s)) @ last ?s = t"
    using Split_join [of "''.''" t] by auto
  have lab: "label_ok x" if "x \<in> set ?s" for x
    using ok that by (simp add: labels_ok_def list_all_iff)
  have "set (butlast ?s) \<subseteq> lang rx_label"
    using lab in_set_butlastD [of _ ?s] by (auto simp: label_ok_def rx_label_lang)
  moreover have "last ?s \<noteq> []" using lab [OF last_in_set [OF s(1)]] by (simp add: label_ok_def)
  ultimately have "t \<in> lang rx_hostname" unfolding rx_hostname_lang
    using ok s(2) by (intro exI [of _ "butlast ?s"] exI [of _ "last ?s"]) (simp add: labels_ok_def)
  then show "list_all (\<lambda>x. x \<noteq> [] \<and> length x \<le> 63) ?s \<and> t \<in> lang rx_hostname"
    using ok by (auto simp: labels_ok_def label_ok_def list_all_iff)
next
  assume a: "list_all (\<lambda>x. x \<noteq> [] \<and> length x \<le> 63) (Split t ''.'') \<and> t \<in> lang rx_hostname"
  then obtain ls l where r: "set ls \<subseteq> lang rx_label" "l \<noteq> []" "list_all is_lower l"
    "t = concat (map (\<lambda>x. x @ ''.'') ls) @ l" unfolding rx_hostname_lang by blast
  have "CHR ''.'' \<notin> set x" if "x \<in> set ls" for x
  proof
    assume dot: "CHR ''.'' \<in> set x"
    have "list_all (\<lambda>c. is_alnum c \<or> c = CHR ''-'') x" using that r(1) by (auto simp: rx_label_lang)
    with dot have "is_alnum (CHR ''.'') \<or> CHR ''.'' = CHR ''-''" unfolding list_all_iff by (rule bspec [rotated])
    then show False by simp
  qed
  then have "list_all (\<lambda>x. CHR ''.'' \<notin> set x) ls" "CHR ''.'' \<notin> set l"
    using r(3) by (auto simp: list_all_iff)
  then have s: "Split t ''.'' = ls @ [l]" unfolding r(4) by (rule split_dot_labels)
  have low: "is_lower c" if "c \<in> set l" for c using that r(3) by (simp add: list_all_iff)
  have al: "list_all (\<lambda>c. is_alnum c \<or> c = CHR ''-'') l" "hd l \<noteq> CHR ''-''" "last l \<noteq> CHR ''-''"
    using low low [OF hd_in_set [OF r(2)]] low [OF last_in_set [OF r(2)]]
    by (auto simp: list_all_iff is_alnum_def is_lower_def)
  have len: "x \<noteq> [] \<and> length x \<le> 63" if "x \<in> set (ls @ [l])" for x
    using a that unfolding s list_all_iff by blast
  have "label_ok x" if "x \<in> set ls" for x
    using that r(1) len [of x] by (auto simp: label_ok_def rx_label_lang [symmetric])
      (use rx_label_lang in blast)+
  moreover have "label_ok l" using al len [of l] by (simp add: label_ok_def)
  ultimately show "labels_ok t" using r(3) by (simp add: labels_ok_def s list_all_iff)
qed

lemma length_ToLower [simp]: "length (ToLower s) = length s"
  by (simp add: ToLower_def)

lemma ToLower_Nil_iff [simp]: "ToLower s = [] \<longleftrightarrow> s = []"
  by (simp add: ToLower_def)

lemma index_last:
  assumes "s \<noteq> []"
  shows "index (ToLower s) (int (length s) - 1) = Ret (last (ToLower s))"
  using assms by (cases s rule: rev_cases) (simp_all add: index_def last_conv_nth)

lemma validHostname_panics: "validHostname s = Panic \<longleftrightarrow> s = []"
proof (cases "s = []")
  case False
  then show ?thesis by (auto simp: validHostname_def index_last Let_def)
qed (simp add: validHostname_def ToLower_def index_def)

lemma validHostname_Ret:
  assumes "s \<noteq> []"
  shows "validHostname s =
    (let t = ToLower s in
     if last t = CHR ''.'' then Ret (length (butlast t) \<le> 254 \<and> labels_ok (butlast t))
     else Ret (length t \<le> 253 \<and> labels_ok t))"
proof -
  have e: "(if list_ex (\<lambda>e. e = [] \<or> 63 < length e) (Split t ''.'') then Ret False
      else Ret (match_all rx_hostname t)) = Ret (labels_ok t)" for t
    by (force simp: labels_ok_iff match_all_lang list_ex_iff list_all_iff not_less Suc_le_eq)
  show ?thesis using assms
    by (auto simp: validHostname_def index_last Let_def e not_less)
qed

section \<open>Properties\<close>

lemma ParseIP_Nil [simp]: "\<not> ParseIP []"
  by (simp add: ParseIP_def)

text \<open>
  \<open>validHostname\<close> accepts exactly the documented names: on a non-empty name, after
  lowering its case and dropping one trailing dot, every label has 1 to 63 characters out
  of letters, digits and inner hyphens, the last label is alphabetic, and the length is at
  most 253 -- but 254 if there was a trailing dot, although that dot is no longer counted.
\<close>
theorem validHostname_iff:
  assumes "s \<noteq> []"
  shows "validHostname s = Ret True \<longleftrightarrow>
    (if last (ToLower s) = CHR ''.''
     then length (butlast (ToLower s)) \<le> 254 \<and> labels_ok (butlast (ToLower s))
     else length (ToLower s) \<le> 253 \<and> labels_ok (ToLower s))"
  by (simp add: validHostname_Ret [OF assms] Let_def)

theorem validHostname_iff_witness:
  "validHostname ''Www.a-b.ch.'' = Ret True"
  by (subst validHostname_iff) code_simp+

text \<open>
  \<open>Address.Valid\<close> ends in a run-time panic exactly on an address of a known connection
  type whose host is empty and whose port is a number up to 65535; on every other string it
  returns.
\<close>
theorem Valid_panics_iff:
  "Valid a = Panic \<longleftrightarrow>
    (\<exists>t na p n. Split a typeAddressSep = [t, na] \<and> connType t \<noteq> InvalidConnType \<and>
      SplitHostPort na = Some ([], p) \<and> Atoi p = (n, True) \<and> 0 \<le> n \<and> n \<le> 65535)"
    (is "_ \<longleftrightarrow> ?R")
proof
  assume v: "Valid a = Panic"
  then obtain t na where s: "Split a typeAddressSep = [t, na]"
    by (auto simp: Valid_def Let_def length_Suc_conv numeral_2_eq_2 split: if_splits)
  with v obtain h p where hp: "SplitHostPort na = Some (h, p)" "connType t \<noteq> InvalidConnType"
    by (auto simp: Valid_def split: if_splits option.splits)
  with v s have "h = []" "snd (Atoi p)" "0 \<le> fst (Atoi p)" "fst (Atoi p) \<le> 65535"
    by (auto simp: Valid_def validHostname_panics split: if_splits prod.splits)
  then show ?R using s hp by (metis prod.collapse)
next
  assume ?R
  then show "Valid a = Panic" by (auto simp: Valid_def validHostname_panics)
qed

lemma Valid_TrueD:
  assumes "Valid a = Ret True"
  obtains t na h p n where "Split a typeAddressSep = [t, na]" and "connType t = t"
    and "t \<in> {''tcp'', ''tls'', ''purb'', ''local''}" and "SplitHostPort na = Some (h, p)"
    and "Atoi p = (n, True)" and "0 \<le> n" and "n \<le> 65535" and "h \<noteq> []"
proof -
  from assms obtain t na where s: "Split a typeAddressSep = [t, na]" "connType t \<noteq> InvalidConnType"
    by (auto simp: Valid_def Let_def length_Suc_conv numeral_2_eq_2 split: if_splits)
  then have t: "connType t = t" "t \<in> {''tcp'', ''tls'', ''purb'', ''local''}"
    by (auto simp: connType_def split: if_splits)
  from assms s obtain h p where hp: "SplitHostPort na = Some (h, p)"
    by (auto simp: Valid_def split: if_splits option.splits)
  obtain n ok where n: "Atoi p = (n, ok)" by (cases "Atoi p")
  have "validHostname [] = Panic" using validHostname_panics [of "[]"] by simp
  then have "h \<noteq> []" using assms s hp n validHostname_panics [of h]
    by (auto simp: Valid_def split: if_splits)
  with that [OF s(1) t hp] assms s hp n show thesis by (auto simp: Valid_def split: if_splits)
qed

lemma SplitHostPort_Some_nonempty: "SplitHostPort na = Some hp \<Longrightarrow> na \<noteq> []"
  by (auto simp: SplitHostPort_def last_colon_def)

lemma address_parts:
  assumes "Valid a = Ret True" and "Split a typeAddressSep = [t, na]" and "SplitHostPort na = Some (h, p)"
  shows "ConnType a = Ret (connType t)" and "NetworkAddress a = Ret na"
    and "Host a = Ret (if h = ''::'' then ''[::]'' else h)" and "Port a = Ret p"
  using assms SplitHostPort_Some_nonempty [OF assms(3)]
  by (simp_all add: ConnType_def NetworkAddress_def Host_def Port_def)

text \<open>
  A valid address is the address that \<open>NewAddress\<close> builds from its connection type and
  its network address, its type is one of the four known ones, and its port is a number
  between 0 and 65535.
\<close>
theorem Valid_decomposes:
  assumes "Valid a = Ret True"
  shows "\<exists>t na p n. ConnType a = Ret t \<and> t \<in> {''tcp'', ''tls'', ''purb'', ''local''} \<and>
    NetworkAddress a = Ret na \<and> a = NewAddress t na \<and>
    Port a = Ret p \<and> Atoi p = (n, True) \<and> 0 \<le> n \<and> n \<le> 65535"
proof -
  obtain t na h p n where p: "Split a typeAddressSep = [t, na]" "connType t = t"
    "t \<in> {''tcp'', ''tls'', ''purb'', ''local''}" "SplitHostPort na = Some (h, p)"
    "Atoi p = (n, True)" "0 \<le> n" "n \<le> 65535"
    using Valid_TrueD [OF assms] by metis
  have "a = NewAddress t na" using Split_join [of typeAddressSep a] p(1) by (simp add: NewAddress_def)
  then show ?thesis
    using address_parts [OF assms p(1,4)] p by (intro exI [of _ t] exI [of _ na] exI [of _ p] exI [of _ n]) simp
qed

theorem Valid_decomposes_witness:
  "\<exists>t na p n. ConnType ''tls://epfl.ch:7002'' = Ret t \<and>
    t \<in> {''tcp'', ''tls'', ''purb'', ''local''} \<and>
    NetworkAddress ''tls://epfl.ch:7002'' = Ret na \<and>
    ''tls://epfl.ch:7002'' = NewAddress t na \<and>
    Port ''tls://epfl.ch:7002'' = Ret p \<and> Atoi p = (n, True) \<and> 0 \<le> n \<and> n \<le> 65535"
  by (rule Valid_decomposes) code_simp

lemma Split_address:
  assumes "t \<in> {''tcp'', ''tls'', ''purb'', ''local''}" and "CHR ''/'' \<notin> set na"
  shows "Split (NewAddress t na) typeAddressSep = [t, na]"
proof -
  have no: "\<not> sublist typeAddressSep na" using assms(2) by (auto simp: sublist_def)
  have "\<forall>i < length t. \<not> prefix typeAddressSep (drop i (t @ typeAddressSep @ na))"
    using assms(1) by (auto simp: less_Suc_eq)
  then have "split_loop typeAddressSep [] (t @ typeAddressSep @ na) = ([] @ t) # split_loop typeAddressSep [] na"
    by (intro split_loop_first) simp_all
  then show ?thesis by (simp add: NewAddress_def Split_def split_loop_no_sep [OF no])
qed

lemma SplitHostPort_plain:
  assumes "\<forall>c \<in> set h. c \<notin> set '':[]''" and "list_all is_digit p"
  shows "SplitHostPort (h @ CHR '':'' # p) = Some (h, p)"
proof -
  have p: "CHR '':'' \<notin> set p" "CHR ''['' \<notin> set p" "CHR '']'' \<notin> set p"
    using assms(2) by (auto simp: list_all_iff is_digit_def)
  have h: "CHR '':'' \<notin> set h" "CHR ''['' \<notin> set h" "CHR '']'' \<notin> set h"
    using assms(1) by auto
  then have "\<not> (h \<noteq> [] \<and> hd h = CHR ''['')" by (metis hd_in_set)
  then show ?thesis using h p by (auto simp: SplitHostPort_def last_colon_append)
qed

lemma NewAddress_valid:
  assumes t: "t \<in> {''tcp'', ''tls'', ''purb'', ''local''}" and h: "\<forall>c \<in> set h. c \<notin> set '':[]/''"
    and ok: "ParseIP h \<or> validHostname h = Ret True" and n: "0 \<le> n" "n \<le> 65535"
  shows "Valid (NewAddress t (h @ '':'' @ Itoa n)) = Ret True" (is ?v)
    and "Host (NewAddress t (h @ '':'' @ Itoa n)) = Ret h" (is ?h)
    and "Port (NewAddress t (h @ '':'' @ Itoa n)) = Ret (Itoa n)" (is ?p)
proof -
  have dig: "list_all is_digit (Itoa n)" using n by (simp add: Itoa_def)
  have "CHR ''/'' \<notin> set (Itoa n)" using dig by (auto simp: list_all_iff is_digit_def)
  with h have "CHR ''/'' \<notin> set (h @ '':'' @ Itoa n)" by auto
  note s = Split_address [OF t this]
  have hp: "SplitHostPort (h @ '':'' @ Itoa n) = Some (h, Itoa n)"
    using SplitHostPort_plain [OF _ dig, of h] h by simp
  have at: "Atoi (Itoa n) = (n, True)" using n by (simp add: Atoi_Itoa)
  have ct: "connType t \<noteq> InvalidConnType" using t by (auto simp: connType_def InvalidConnType_def)
  show v: ?v using s hp at ct n ok by (auto simp: Valid_def)
  have "CHR '':'' \<notin> set h" using h by auto
  then have "h \<noteq> ''::''" by (intro notI) simp
  then show ?h ?p using address_parts(3,4) [OF v s hp] by simp_all
qed

end
