(* ===== verification/Websocket.thy ===== *)
theory Websocket
  imports Address Roster_Tree
begin

text \<open>
  The client interface of onet: client errors, the websocket server loop and the client of
  \<open>imported/onet/websocket.go\<close>, and the dispatch of client requests to the registered
  handlers of \<open>imported/onet/processor.go\<close>. The websocket library (dialling, frames, the
  text of a close error) and the protobuf coder are parameters.
\<close>

section \<open>Client errors\<close>

definition WebSocketErrorPathNotFound :: int where "WebSocketErrorPathNotFound = 4000"
definition WebSocketErrorProtobufDecode :: int where "WebSocketErrorProtobufDecode = 4001"
definition WebSocketErrorProtobufEncode :: int where "WebSocketErrorProtobufEncode = 4002"
definition WebSocketErrorInvalidErrorCode :: int where "WebSocketErrorInvalidErrorCode = 4003"
definition WebSocketErrorRead :: int where "WebSocketErrorRead = 4004"

definition wsPrefix :: string where
  "wsPrefix = ''websocket: close ''"

text \<open>An error is its text, nil is \<open>None\<close>.\<close>

definition NewClientError_str :: "string \<Rightarrow> client_error" where
  "NewClientError_str e =
    (if prefix wsPrefix e then
       (let str = drop (length wsPrefix) e;
            errMsg = SplitN2 str (CHR '':'');
            errMsg = (if length errMsg > 1 \<and> length (errMsg ! 1) > 0 then errMsg[1 := tl (errMsg ! 1)]
                      else errMsg @ [''''])
        in \<lparr>ce_code = fst (Atoi (errMsg ! 0)), ce_msg = errMsg ! 1\<rparr>)
     else \<lparr>ce_code = 0, ce_msg = e\<rparr>)"

definition NewClientError :: "string option \<Rightarrow> client_error option" where
  "NewClientError e = map_option NewClientError_str e"

definition cerror_Error :: "client_error \<Rightarrow> string" where
  "cerror_Error ce =
    (if ce_code ce > 0 then wsPrefix @ Itoa (ce_code ce) @ '': '' @ ce_msg ce else ce_msg ce)"

section \<open>The address of the web interface\<close>

definition getWebAddress :: "'p ServerIdentity \<Rightarrow> bool \<Rightarrow> (string, string) go" where
  "getWebAddress si gl =
    go_bind (Port (si_Address si)) (\<lambda>port.
      case Atoi port of
        (p, False) \<Rightarrow> Err (''strconv.Atoi: parsing '' @ port)
      | (p, True) \<Rightarrow>
          go_bind (Host (si_Address si)) (\<lambda>host.
            Ret ((if gl then ''0.0.0.0'' else host) @ '':'' @ Itoa (p + 1))))"

text \<open>
  The server listens, and the client connects, one port above the port of the address.
\<close>

lemma getWebAddress_ok:
  assumes "t \<in> {''tcp'', ''tls'', ''purb'', ''local''}" and "\<forall>c \<in> set h. c \<notin> set '':[]/''"
    and "ParseIP h \<or> validHostname h = Ret True" and "0 \<le> n" "n \<le> 65535"
    and "si_Address si = NewAddress t (h @ '':'' @ Itoa n)"
  shows "getWebAddress si gl = Ret ((if gl then ''0.0.0.0'' else h) @ '':'' @ Itoa (n + 1))"
  using NewAddress_valid [OF assms(1-5)] assms(4-6) by (simp add: getWebAddress_def Atoi_Itoa)

section \<open>The server side of a connection\<close>

text \<open>
  What \<open>ws.ReadMessage\<close> gives: a message with its type, and whether the reply to it can be
  written, or an error. The frames written are the replies and the close frame.
\<close>

datatype ws_read = RMessage int bytes bool | RError string
datatype ws_frame = WMessage int bytes | WClose int string

text \<open>
  The loop of \<open>wsHandler.ServeHTTP\<close>, over the messages that arrive on the connection; a
  service is its state and \<open>ProcessClientRequest\<close>. With no further message the handler
  waits.
\<close>

definition close_frame :: "client_error \<Rightarrow> ws_frame" where
  "close_frame ce =
    (let ce = (if ce_code ce < 4000 \<or> ce_code ce \<ge> 5000
               then NewClientErrorCode WebSocketErrorInvalidErrorCode (cerror_Error ce) else ce)
     in WClose (ce_code ce) (ce_msg ce))"

fun ServeHTTP_loop ::
  "('st \<Rightarrow> string \<Rightarrow> bytes \<Rightarrow> 'st \<times> (client_error + bytes)) \<Rightarrow> string \<Rightarrow> ws_read list \<Rightarrow> 'st \<Rightarrow> 'st \<times> ws_frame list"
  where
  "ServeHTTP_loop process path [] st = (st, [])"
| "ServeHTTP_loop process path (RError e # rs) st = (st, [])"
| "ServeHTTP_loop process path (RMessage mt buf wok # rs) st =
    (case process st path buf of
       (st, Inl ce) \<Rightarrow> (st, [close_frame ce])
     | (st, Inr reply) \<Rightarrow>
         if \<not> wok then (st, [])
         else (let (st, fs) = ServeHTTP_loop process path rs st in (st, WMessage mt reply # fs)))"

definition TrimPrefix :: "string \<Rightarrow> string \<Rightarrow> string" where
  "TrimPrefix s p = (if prefix p s then drop (length p) s else s)"

definition ServeHTTP ::
  "('st \<Rightarrow> string \<Rightarrow> bytes \<Rightarrow> 'st \<times> (client_error + bytes)) \<Rightarrow> string \<Rightarrow> string \<Rightarrow> ws_read list \<Rightarrow> 'st \<Rightarrow>
    'st \<times> ws_frame list" where
  "ServeHTTP process serviceName urlPath rs st =
    ServeHTTP_loop process (TrimPrefix urlPath (''/'' @ serviceName @ ''/'')) rs st"

section \<open>The client\<close>

text \<open>
  The key of a connection holds the pointer to the server identity. \<open>ws_env\<close> is the
  websocket library, acting on the state of the network.
\<close>

type_synonym destination = "addr \<times> string"

record 'c Client =
  cl_service :: string
  cl_connections :: "destination \<rightharpoonup> 'c"
  cl_keep :: bool
  cl_rx :: "64 word"
  cl_tx :: "64 word"

datatype frame_type = BinaryMessage | CloseMessage

record ('w, 'c) ws_env =
  ws_Dial :: "string \<Rightarrow> string \<Rightarrow> 'w \<Rightarrow> (string + 'c) \<times> 'w"
  ws_WriteMessage :: "'c \<Rightarrow> frame_type \<Rightarrow> bytes \<Rightarrow> 'w \<Rightarrow> string option \<times> 'w"
  ws_ReadMessage :: "'c \<Rightarrow> 'w \<Rightarrow> (string + bytes) \<times> 'w"
  ws_Close :: "'c \<Rightarrow> 'w \<Rightarrow> string option \<times> 'w"

definition NewClient :: "string \<Rightarrow> 'c Client" where
  "NewClient s =
    \<lparr>cl_service = s, cl_connections = Map.empty, cl_keep = False, cl_rx = 0, cl_tx = 0\<rparr>"

definition NewClientKeep :: "string \<Rightarrow> 'c Client" where
  "NewClientKeep s =
    \<lparr>cl_service = s, cl_connections = Map.empty, cl_keep = True, cl_rx = 0, cl_tx = 0\<rparr>"

definition closeConn ::
  "('w, 'c) ws_env \<Rightarrow> destination \<Rightarrow> 'c Client \<Rightarrow> 'w \<Rightarrow> string option \<times> 'c Client \<times> 'w" where
  "closeConn env dst c w =
    (case cl_connections c dst of
       Some conn \<Rightarrow>
         let c = c\<lparr>cl_connections := (cl_connections c)(dst := None)\<rparr>;
             (_, w) = ws_WriteMessage env conn CloseMessage [] w;
             (err, w) = ws_Close env conn w
         in (err, c, w)
     | None \<Rightarrow> (None, c, w))"

text \<open>Up to \<open>n\<close> attempts to connect; the last error is kept.\<close>

fun dial_loop :: "('w, 'c) ws_env \<Rightarrow> string \<Rightarrow> string \<Rightarrow> string \<Rightarrow> nat \<Rightarrow> 'w \<Rightarrow> (string + 'c) \<times> 'w" where
  "dial_loop env url origin err 0 w = (Inl err, w)"
| "dial_loop env url origin err (Suc n) w =
    (case ws_Dial env url origin w of
       (Inr conn, w) \<Rightarrow> (Inr conn, w)
     | (Inl err, w) \<Rightarrow> dial_loop env url origin err n w)"

text \<open>The request over an open connection.\<close>

definition exchange ::
  "('w, 'c) ws_env \<Rightarrow> 'c \<Rightarrow> bytes \<Rightarrow> 'c Client \<Rightarrow> 'w \<Rightarrow> (client_error, bytes) go \<times> 'c Client \<times> 'w" where
  "exchange env conn buf c w =
    (case ws_WriteMessage env conn BinaryMessage buf w of
       (Some err, w) \<Rightarrow> (Err (NewClientError_str err), c, w)
     | (None, w) \<Rightarrow>
         let c = c\<lparr>cl_tx := cl_tx c + word_of_nat (length buf)\<rparr> in
         (case ws_ReadMessage env conn w of
            (Inl err, w) \<Rightarrow> (Err (NewClientError_str err), c, w)
          | (Inr rcv, w) \<Rightarrow> (Ret rcv, c\<lparr>cl_rx := cl_rx c + word_of_nat (length rcv)\<rparr>, w)))"

text \<open>The connection of a destination: the one at hand or a new one, which is recorded.\<close>

definition connect ::
  "('w, 'c) ws_env \<Rightarrow> destination \<Rightarrow> 'p ServerIdentity \<Rightarrow> 'c Client \<Rightarrow> 'w \<Rightarrow>
    (client_error, 'c) go \<times> 'c Client \<times> 'w" where
  "connect env dest si c w =
    (case cl_connections c dest of
       Some conn \<Rightarrow> (Ret conn, c, w)
     | None \<Rightarrow>
         case getWebAddress si False of
           Panic \<Rightarrow> (Panic, c, w)
         | Err err \<Rightarrow> (Err (NewClientError_str err), c, w)
         | Ret url \<Rightarrow>
             case dial_loop env (''ws://'' @ url @ ''/'' @ cl_service c @ ''/'' @ snd dest) (''http://'' @ url) ''''
                    MaxRetryConnect w of
               (Inl err, w) \<Rightarrow> (Err (NewClientError_str err), c, w)
             | (Inr conn, w) \<Rightarrow> (Ret conn, c\<lparr>cl_connections := (cl_connections c)(dest \<mapsto> conn)\<rparr>, w))"

definition Send ::
  "('w, 'c) ws_env \<Rightarrow> addr \<Rightarrow> 'p ServerIdentity \<Rightarrow> string \<Rightarrow> bytes \<Rightarrow> 'c Client \<Rightarrow> 'w \<Rightarrow>
    (client_error, bytes) go \<times> 'c Client \<times> 'w" where
  "Send env dst si path buf c w =
    (let dest = (dst, path) in
     case connect env dest si c w of
       (Panic, c, w) \<Rightarrow> (Panic, c, w)
     | (Err e, c, w) \<Rightarrow> (Err e, c, w)
     | (Ret conn, c, w) \<Rightarrow>
         let (r, c, w) = exchange env conn buf c w in
         if cl_keep c then (r, c, w)
         else (let (_, c, w) = closeConn env dest c w in (r, c, w)))"

text \<open>
  \<open>SendProtobuf\<close>: the path is the part after the first dot of the name of the message's
  type; without a dot the index panics. \<open>ret\<close> tells whether a reply is decoded.
\<close>

definition SendProtobuf ::
  "('w, 'c) ws_env \<Rightarrow> ('m \<Rightarrow> (string, bytes) go) \<Rightarrow> (bytes \<Rightarrow> (string, 'r) go) \<Rightarrow> addr \<Rightarrow> 'p ServerIdentity \<Rightarrow>
    string \<Rightarrow> 'm \<Rightarrow> bool \<Rightarrow> 'c Client \<Rightarrow> 'w \<Rightarrow> (client_error, 'r option) go \<times> 'c Client \<times> 'w" where
  "SendProtobuf env encode decode dst si typeName msg ret c w =
    (case encode msg of
       Panic \<Rightarrow> (Panic, c, w)
     | Err e \<Rightarrow> (Err (NewClientError_str e), c, w)
     | Ret buf \<Rightarrow>
         case index (Split typeName ''.'') 1 of
           Ret path \<Rightarrow>
             let (r, c, w) = Send env dst si path buf c w in
             (go_bind r (\<lambda>reply.
                if ret then go_err NewClientError_str (go_bind (decode reply) (\<lambda>v. Ret (Some v))) else Ret None), c, w)
         | _ \<Rightarrow> (Panic, c, w))"

text \<open>\<open>SendToAll\<close>: one request per server, the errors collected; a nil message is \<open>[]\<close>.\<close>

fun SendToAll_loop ::
  "('w, 'c) ws_env \<Rightarrow> string \<Rightarrow> bytes \<Rightarrow> (addr \<times> 'p ServerIdentity) list \<Rightarrow> 'c Client \<Rightarrow> 'w \<Rightarrow>
    (client_error, bytes list \<times> string list) go \<times> 'c Client \<times> 'w" where
  "SendToAll_loop env path buf [] c w = (Ret ([], []), c, w)"
| "SendToAll_loop env path buf ((dst, si) # es) c w =
    (let (r, c, w) = Send env dst si path buf c w in
     if r = Panic then (Panic, c, w)
     else
       (let (rs, c, w) = SendToAll_loop env path buf es c w in
        (go_bind rs (\<lambda>(msgs, errs).
           case r of
             Err e \<Rightarrow> Ret ([] # msgs, (si_Address si @ cerror_Error e) # errs)
           | Ret m \<Rightarrow> Ret (m # msgs, errs)
           | Panic \<Rightarrow> Panic), c, w)))"

definition SendToAll ::
  "('w, 'c) ws_env \<Rightarrow> (addr \<times> 'p ServerIdentity) list \<Rightarrow> string \<Rightarrow> bytes \<Rightarrow> 'c Client \<Rightarrow> 'w \<Rightarrow>
    (client_error, bytes list \<times> client_error option) go \<times> 'c Client \<times> 'w" where
  "SendToAll env dsts path buf c w =
    (let (r, c, w) = SendToAll_loop env path buf dsts c w in
     (go_bind r (\<lambda>(msgs, errstrs).
        Ret (msgs, NewClientError (if errstrs \<noteq> [] then Some (Join errstrs [CHR 0x0A]) else None))), c, w))"

text \<open>\<open>Close\<close>: \<open>order\<close> is the order in which the map is traversed.\<close>

fun Close_loop ::
  "('w, 'c) ws_env \<Rightarrow> destination list \<Rightarrow> 'c Client \<Rightarrow> 'w \<Rightarrow> string list \<times> 'c Client \<times> 'w" where
  "Close_loop env [] c w = ([], c, w)"
| "Close_loop env (d # ds) c w =
    (let (err, c, w) = closeConn env d c w;
         (errs, c, w) = Close_loop env ds c w
     in ((case err of None \<Rightarrow> errs | Some e \<Rightarrow> e # errs), c, w))"

definition Close ::
  "('w, 'c) ws_env \<Rightarrow> destination list \<Rightarrow> 'c Client \<Rightarrow> 'w \<Rightarrow> string option \<times> 'c Client \<times> 'w" where
  "Close env order c w =
    (let (errstrs, c, w) = Close_loop env order c w in
     ((if errstrs \<noteq> [] then Some (Join errstrs [CHR 0x0A]) else None), c, w))"

section \<open>Handlers of a service\<close>

text \<open>
  Types as \<open>reflect\<close> shows them to \<open>RegisterHandler\<close>; a named type carries its name with
  the package in front.
\<close>

datatype gotype =
    TFunc "gotype list" "gotype list"
  | TPtr gotype
  | TStruct string
  | TInterface string
  | TOther string

definition ClientError_type :: gotype where
  "ClientError_type = TInterface ''onet.ClientError''"

fun type_String :: "gotype \<Rightarrow> string" where
  "type_String (TPtr t) = CHR ''*'' # type_String t"
| "type_String (TStruct n) = n"
| "type_String (TInterface n) = n"
| "type_String (TOther n) = n"
| "type_String (TFunc as rs) = ''func''"

text \<open>
  A handler with the state of its service: the decoded message gives a client error or a
  reply.
\<close>

record ('st, 'm, 'r) serviceHandler =
  sh_handler :: "'st \<Rightarrow> 'm \<Rightarrow> 'st \<times> (client_error + 'r)"
  sh_msgType :: gotype

type_synonym ('st, 'm, 'r) ServiceProcessor = "string \<rightharpoonup> ('st, 'm, 'r) serviceHandler"

definition NewServiceProcessor :: "('st, 'm, 'r) ServiceProcessor" where
  "NewServiceProcessor = Map.empty"

fun RegisterHandler_check :: "gotype \<Rightarrow> (string, gotype) go" where
  "RegisterHandler_check (TFunc ins outs) =
    (case ins of
       [TPtr (TStruct n)] \<Rightarrow>
         if length outs \<noteq> 2 then Err ''Need 2 return values: network.Body and ClientError''
         else
           go_bind
             (case outs ! 0 of
                TInterface _ \<Rightarrow> Ret ()
              | TPtr (TStruct _) \<Rightarrow> Ret ()
              | TPtr _ \<Rightarrow> Err ''1st return value must be a pointer to a *struct* or an interface''
              | _ \<Rightarrow> Err ''1st return value must be a *pointer* to a struct or an interface'')
             (\<lambda>_.
                if outs ! 1 \<noteq> ClientError_type
                then Err (''2nd return value has to be: ClientError, but is: '' @ type_String (outs ! 1))
                else Ret (TStruct n))
     | [TPtr _] \<Rightarrow> Err ''Argument must be a pointer to *struct*''
     | [_] \<Rightarrow> Err ''Argument must be a *pointer* to a struct''
     | _ \<Rightarrow> Err ''Need one argument: *struct*'')"
| "RegisterHandler_check _ = Err ''Input is not a function''"


definition RegisterHandler ::
  "gotype \<Rightarrow> ('st \<Rightarrow> 'm \<Rightarrow> 'st \<times> (client_error + 'r)) \<Rightarrow> ('st, 'm, 'r) ServiceProcessor \<Rightarrow>
    (string, ('st, 'm, 'r) ServiceProcessor) go" where
  "RegisterHandler ft f handlers =
    go_bind (RegisterHandler_check ft) (\<lambda>t.
      go_bind (index (Split (type_String t) ''.'') 1) (\<lambda>pm.
        Ret (handlers(pm \<mapsto> \<lparr>sh_handler = f, sh_msgType = t\<rparr>))))"

text \<open>
  \<open>RegisterHandlers\<close>: the first error ends it, keeping the handlers registered before.
\<close>

fun RegisterHandlers ::
  "(gotype \<times> ('st \<Rightarrow> 'm \<Rightarrow> 'st \<times> (client_error + 'r))) list \<Rightarrow> ('st, 'm, 'r) ServiceProcessor \<Rightarrow>
    (string, unit) go \<times> ('st, 'm, 'r) ServiceProcessor" where
  "RegisterHandlers [] handlers = (Ret (), handlers)"
| "RegisterHandlers ((ft, f) # procs) handlers =
    (case RegisterHandler ft f handlers of
       Ret handlers \<Rightarrow> RegisterHandlers procs handlers
     | Err e \<Rightarrow> (Err e, handlers)
     | Panic \<Rightarrow> (Panic, handlers))"

text \<open>
  \<open>ProcessClientRequest\<close>; \<open>decode\<close> takes the type registered for the path.
\<close>

definition ProcessClientRequest ::
  "(gotype \<Rightarrow> bytes \<Rightarrow> string + 'm) \<Rightarrow> ('r \<Rightarrow> string + bytes) \<Rightarrow> ('st, 'm, 'r) ServiceProcessor \<Rightarrow>
    'st \<Rightarrow> string \<Rightarrow> bytes \<Rightarrow> 'st \<times> (client_error + bytes)" where
  "ProcessClientRequest decode encode handlers st path buf =
    (case handlers path of
       None \<Rightarrow> (st, Inl (NewClientErrorCode WebSocketErrorPathNotFound ''Path not found''))
     | Some mh \<Rightarrow>
         case decode (sh_msgType mh) buf of
           Inl err \<Rightarrow> (st, Inl (NewClientErrorCode WebSocketErrorProtobufDecode err))
         | Inr msg \<Rightarrow>
             case sh_handler mh st msg of
               (st, Inl cerr) \<Rightarrow> (st, Inl cerr)
             | (st, Inr reply) \<Rightarrow>
                 case encode reply of
                   Inl err \<Rightarrow> (st, Inl (NewClientErrorCode WebSocketErrorProtobufEncode ''''))
                 | Inr buf \<Rightarrow> (st, Inr buf))"

section \<open>Errors from the service to the client\<close>

lemma Itoa_no_colon [simp]: "CHR '':'' \<notin> set (Itoa n)"
  using not_digit_sign nat_digits_facts(2) by (auto simp: Itoa_def list_all_iff)

lemma NewClientError_close:
  assumes "- (2 ^ 63) \<le> n" and "n < 2 ^ 63"
  shows "NewClientError_str (wsPrefix @ Itoa n @ '': '' @ m) = \<lparr>ce_code = n, ce_msg = m\<rparr>"
    and "NewClientError_str (wsPrefix @ Itoa n) = \<lparr>ce_code = n, ce_msg = ''''\<rparr>"
  using SplitN2_append [of "CHR '':''" "Itoa n" "CHR '' '' # m"] Atoi_Itoa [OF assms]
  by (simp_all add: NewClientError_str_def SplitN2_none Let_def)

lemma NewClientError_plain:
  assumes "\<not> prefix wsPrefix e"
  shows "NewClientError_str e = \<lparr>ce_code = 0, ce_msg = e\<rparr>"
  using assms by (simp add: NewClientError_str_def)


definition ex_closeText :: "int \<Rightarrow> string \<Rightarrow> string" where
  "ex_closeText c m = wsPrefix @ Itoa c @ (if m = [] then [] else '': '' @ m)"


section \<open>Connections and counters of the client\<close>

lemma closeConn_conns:
  "closeConn env d c w = (e, c', w') \<Longrightarrow>
    c' = c\<lparr>cl_connections := (cl_connections c)(d := None)\<rparr>"
  by (cases c) (auto simp: closeConn_def Let_def fun_upd_idem split: option.splits prod.splits)

lemma exchange_frame:
  assumes "exchange env conn buf c w = (r, c', w')"
  shows "cl_connections c' = cl_connections c \<and> cl_keep c' = cl_keep c \<and> cl_service c' = cl_service c"
    and "r = Ret rcv \<Longrightarrow> cl_tx c' = cl_tx c + word_of_nat (length buf) \<and> cl_rx c' = cl_rx c + word_of_nat (length rcv)"
  using assms by (auto simp: exchange_def Let_def split: prod.splits option.splits sum.splits)

lemma connect_frame:
  assumes "connect env d si c w = (r, c', w')"
  shows "cl_keep c' = cl_keep c \<and> cl_service c' = cl_service c \<and> cl_tx c' = cl_tx c \<and> cl_rx c' = cl_rx c"
    and "(\<forall>conn. r \<noteq> Ret conn) \<Longrightarrow> cl_connections c d = None \<and> c' = c"
    and "r = Ret conn \<Longrightarrow> cl_connections c' = (cl_connections c)(d \<mapsto> conn)"
  using assms
  by (auto simp: connect_def fun_upd_idem split: prod.splits option.splits sum.splits go.splits)

lemma Send_cases:
  assumes "Send env dst si path buf c w = (r, c', w')"
  obtains (unconnected) "\<forall>m. r \<noteq> Ret m" "c' = c" "cl_connections c (dst, path) = None"
  | (connected) conn c1 w1 c2 w2 where "connect env (dst, path) si c w = (Ret conn, c1, w1)"
      "exchange env conn buf c1 w1 = (r, c2, w2)"
      "c' = (if cl_keep c then c2 else c2\<lparr>cl_connections := (cl_connections c2)((dst, path) := None)\<rparr>)"
proof -
  obtain r1 c1 w1 where c1: "connect env (dst, path) si c w = (r1, c1, w1)" by (metis prod_cases3)
  show thesis
  proof (cases r1)
    case (Ret conn)
    obtain r2 c2 w2 where c2: "exchange env conn buf c1 w1 = (r2, c2, w2)" by (metis prod_cases3)
    have k: "cl_keep c2 = cl_keep c" using connect_frame(1) [OF c1] exchange_frame(1) [OF c2] by simp
    obtain e c3 w3 where c3: "closeConn env (dst, path) c2 w2 = (e, c3, w3)" by (metis prod_cases3)
    have "(r, c', w') = (if cl_keep c then (r2, c2, w2) else (r2, c3, w3))"
      using assms [symmetric] c1 c2 c3 k Ret by (simp add: Send_def)
    then have "r = r2" "c' = (if cl_keep c then c2 else c3)" by (auto split: if_splits)
    with c1 c2 Ret closeConn_conns [OF c3] connected show thesis by simp
  qed (use assms c1 connect_frame(2) [OF c1] unconnected in \<open>auto simp: Send_def\<close>)
qed

lemma Send_connections:
  assumes s: "Send env dst si path buf c w = (r, c', w')"
  shows "cl_keep c' = cl_keep c \<and>
    (\<not> cl_keep c \<longrightarrow> cl_connections c' = (cl_connections c)((dst, path) := None)) \<and>
    (cl_keep c \<longrightarrow> (\<exists>rcv. r = Ret rcv) \<longrightarrow> (\<exists>conn. cl_connections c' = (cl_connections c)((dst, path) \<mapsto> conn)))"
  using s
proof (cases rule: Send_cases)
  case (connected conn c1 w1 c2 w2)
  note f = connect_frame [OF connected(1)] exchange_frame [OF connected(2)]
  show ?thesis using f connected(3) by auto
qed auto

lemma Send_counters:
  assumes s: "Send env dst si path buf c w = (Ret rcv, c', w')"
  shows "cl_tx c' = cl_tx c + word_of_nat (length buf) \<and> cl_rx c' = cl_rx c + word_of_nat (length rcv)"
  using s
proof (cases rule: Send_cases)
  case (connected conn c1 w1 c2 w2)
  then show ?thesis using connect_frame(1) [OF connected(1)] exchange_frame(2) [OF connected(2)] by auto
qed auto

lemma SendToAll_loop_frame:
  "SendToAll_loop env path buf dsts c w = (r, c', w') \<Longrightarrow> r \<noteq> Panic \<Longrightarrow>
    (\<exists>msgs errs. r = Ret (msgs, errs) \<and> length msgs = length dsts \<and> length errs \<le> length dsts) \<and>
    cl_keep c' = cl_keep c \<and>
    (\<not> cl_keep c \<longrightarrow> cl_connections c' = (cl_connections c) |` (- (\<lambda>(d, _). (d, path)) ` set dsts))"
proof (induction dsts arbitrary: c w r c' w')
  case (Cons ds dsts)
  obtain d si where ds: "ds = (d, si)" by (cases ds)
  obtain r1 c1 w1 where s1: "Send env d si path buf c w = (r1, c1, w1)" by (metis prod_cases3)
  obtain r2 c2 w2 where s2: "SendToAll_loop env path buf dsts c1 w1 = (r2, c2, w2)" by (metis prod_cases3)
  have r1: "r1 \<noteq> Panic" using Cons.prems s1 ds by auto
  with Cons.prems s1 s2 ds have c2: "c' = c2" and
    r: "r = go_bind r2 (\<lambda>(msgs, errs). case r1 of
          Err e \<Rightarrow> Ret ([] # msgs, (si_Address si @ cerror_Error e) # errs)
        | Ret m \<Rightarrow> Ret (m # msgs, errs) | Panic \<Rightarrow> Panic)" by auto
  then have "r2 \<noteq> Panic" using Cons.prems(2) by auto
  note ih = Cons.IH [OF s2 this]
  then obtain msgs errs where m: "r2 = Ret (msgs, errs)" "length msgs = length dsts" "length errs \<le> length dsts"
    by blast
  then have "\<exists>msgs errs. r = Ret (msgs, errs) \<and> length msgs = length (ds # dsts) \<and> length errs \<le> length (ds # dsts)"
    using r r1 by (cases r1) auto
  moreover have "cl_connections c' = (cl_connections c) |` (- (\<lambda>(d, _). (d, path)) ` set (ds # dsts))" if "\<not> cl_keep c"
    using ih Send_connections [OF s1] that c2 ds by (auto simp: restrict_map_def fun_eq_iff)
  ultimately show ?case using ih Send_connections [OF s1] c2 by auto
qed (simp add: restrict_map_def)

lemma Close_loop_conns:
  "Close_loop env ds c w = (errs, c', w') \<Longrightarrow> cl_connections c' = (cl_connections c) |` (- set ds)"
proof (induction ds arbitrary: c w errs)
  case (Cons d ds)
  obtain e c1 w1 where c1: "closeConn env d c w = (e, c1, w1)" by (metis prod_cases3)
  obtain es c2 w2 where c2: "Close_loop env ds c1 w1 = (es, c2, w2)" by (metis prod_cases3)
  have "c' = c2" "cl_connections c1 = (cl_connections c)(d := None)"
    using Cons.prems c1 c2 closeConn_conns [OF c1] by (auto split: option.splits)
  then show ?case using Cons.IH c2 Cons.prems c1
    by (auto simp: restrict_map_def fun_eq_iff split: option.splits prod.splits)
qed (simp add: restrict_map_def)

lemma Close_all:
  assumes "Close env order c w = (e, c', w')" and "dom (cl_connections c) \<subseteq> set order"
  shows "cl_connections c' = Map.empty"
proof -
  obtain errs c1 w1 where l: "Close_loop env order c w = (errs, c1, w1)" by (metis prod_cases3)
  have "c' = c1" using assms(1) l by (auto simp: Close_def split: if_splits)
  then show ?thesis using Close_loop_conns [OF l] assms(2)
    by (auto simp: restrict_map_def fun_eq_iff dom_def)
qed

text \<open>
  A request of a client that does not keep its connections (\<open>NewClient\<close>) leaves no
  connection to that destination behind, whatever the outcome, and touches no other
  connection; a successful request adds the lengths of the request and of the reply to the
  byte counters, modulo 2 to the 64.
\<close>
theorem Send_accounting:
  assumes "\<not> cl_keep c" and "Send env dst si path buf c w = (r, c', w')"
  shows "cl_connections c' = (cl_connections c)((dst, path) := None) \<and>
    (\<forall>rcv. r = Ret rcv \<longrightarrow>
      unat (cl_tx c') = (unat (cl_tx c) + length buf) mod 2 ^ 64 \<and>
      unat (cl_rx c') = (unat (cl_rx c) + length rcv) mod 2 ^ 64)"
proof -
  have u: "unat (x + word_of_nat n) = (unat x + n) mod 2 ^ 64" for x :: "64 word" and n
    by (simp add: unat_word_ariths unat_of_nat mod_simps)
  have "unat (cl_tx c') = (unat (cl_tx c) + length buf) mod 2 ^ 64 \<and>
      unat (cl_rx c') = (unat (cl_rx c) + length rcv) mod 2 ^ 64" if "r = Ret rcv" for rcv
    using Send_counters [of env dst si path buf c w rcv c' w'] assms(2) that u by simp
  then show ?thesis using Send_connections [OF assms(2)] assms(1) by blast
qed

text \<open>A network that echoes what was last written, for the witnesses.\<close>

definition ex_ws :: "(bytes, nat) ws_env" where
  "ex_ws = \<lparr>ws_Dial = \<lambda>url origin w. (Inr 7, w),
    ws_WriteMessage = \<lambda>c t b w. (None, if t = BinaryMessage then b else w),
    ws_ReadMessage = \<lambda>c w. (Inr w, w), ws_Close = \<lambda>c w. (None, w)\<rparr>"

definition ex_web_si :: "int ServerIdentity" where
  "ex_web_si = \<lparr>si_Public = 0, si_ID = 0, si_Address = ''tcp://localhost:7002'', si_Description = ''''\<rparr>"

lemma Itoa_7002: "Itoa 7002 = ''7002''" "Itoa 7003 = ''7003''"
  by (simp_all add: Itoa_def nat_digits.simps digit_char_def char_of_def bit_0)

lemma ex_web: "getWebAddress ex_web_si gl = Ret ((if gl then ''0.0.0.0'' else ''localhost'') @ '':7003'')"
proof -
  have "validHostname ''localhost'' = Ret True" by code_simp
  then show ?thesis
    using getWebAddress_ok [where t = "''tcp''" and h = "''localhost''" and n = 7002 and si = ex_web_si and gl = gl]
    by (simp add: ex_web_si_def NewAddress_def Itoa_7002)
qed

lemma ex_send:
  "Send ex_ws 3 ex_web_si ''ReadRequest'' [1, 2, 3] (NewClient ''OnChainSecrets'') [] =
    (Ret [1, 2, 3], (NewClient ''OnChainSecrets'')\<lparr>cl_tx := 3, cl_rx := 3\<rparr>, [1, 2, 3])"
proof -
  let ?c = "NewClient ''OnChainSecrets'' :: nat Client"
  have "dial_loop ex_ws url origin err (Suc n) w = (Inr 7, w)" for url origin err n w
    by (simp add: ex_ws_def)
  from this [where n = 4] have dial: "dial_loop ex_ws url origin err MaxRetryConnect w = (Inr 7, w)" for url origin err w
    unfolding MaxRetryConnect_def by simp
  have "connect ex_ws (3, ''ReadRequest'') ex_web_si ?c [] =
      (Ret 7, ?c\<lparr>cl_connections := [(3, ''ReadRequest'') \<mapsto> 7]\<rparr>, [])"
    by (simp add: connect_def ex_web dial NewClient_def)
  then show ?thesis by (simp add: Send_def exchange_def closeConn_def ex_ws_def NewClient_def)
qed

theorem Send_accounting_witness:
  "cl_connections ((NewClient ''OnChainSecrets'' :: nat Client)\<lparr>cl_tx := 3, cl_rx := 3\<rparr>) =
    (cl_connections (NewClient ''OnChainSecrets''))((3, ''ReadRequest'') := None)"
  by (rule Send_accounting [THEN conjunct1, OF _ ex_send]) (simp add: NewClient_def)

section \<open>Requests reach their handlers\<close>

lemma split_dot_qualified:
  assumes "CHR ''.'' \<notin> set pkg" and "CHR ''.'' \<notin> set n"
  shows "Split (pkg @ ''.'' @ n) ''.'' = [pkg, n]"
  using split_dot_labels [of "[pkg]" n] assms by simp

lemma RegisterHandler_struct:
  assumes "CHR ''.'' \<notin> set pkg" and "CHR ''.'' \<notin> set n"
  shows "RegisterHandler (TFunc [TPtr (TStruct (pkg @ ''.'' @ n))] [TPtr (TStruct r), ClientError_type]) f hs =
    Ret (hs(n \<mapsto> \<lparr>sh_handler = f, sh_msgType = TStruct (pkg @ ''.'' @ n)\<rparr>))"
  using split_dot_qualified [OF assms] by (simp add: RegisterHandler_def index_def)

text \<open>
  A handler registered for the messages of type \<open>*pkg.n\<close> serves the requests a client
  sends with \<open>SendProtobuf\<close> for such a message: the path the client derives from the type
  of its message is the one the handler is stored under, so the request is decoded with
  the registered type and answered by that handler, its client error or its encoded reply;
  requests on every other path are answered as before.
\<close>
theorem request_reaches_handler:
  assumes names: "CHR ''.'' \<notin> set pkg" "CHR ''.'' \<notin> set n"
    and reg: "RegisterHandler (TFunc [TPtr (TStruct (pkg @ ''.'' @ n))] [TPtr (TStruct r), ClientError_type]) f hs = Ret hs'"
    and decoded: "decode (TStruct (pkg @ ''.'' @ n)) buf = Inr msg"
  shows "\<exists>path. index (Split (type_String (TPtr (TStruct (pkg @ ''.'' @ n)))) ''.'') 1 = (Ret path :: (string, string) go) \<and>
    ProcessClientRequest decode encode hs' st path buf =
      (case f st msg of
         (st', Inl ce) \<Rightarrow> (st', Inl ce)
       | (st', Inr reply) \<Rightarrow>
           (st', (case encode reply of Inl _ \<Rightarrow> Inl (NewClientErrorCode WebSocketErrorProtobufEncode '''')
                  | Inr b \<Rightarrow> Inr b))) \<and>
    (\<forall>other. other \<noteq> path \<longrightarrow>
      ProcessClientRequest decode encode hs' st other buf = ProcessClientRequest decode encode hs st other buf)"
proof (intro exI conjI)
  have "Split ((CHR ''*'' # pkg) @ ''.'' @ n) ''.'' = [CHR ''*'' # pkg, n]"
    using names by (intro split_dot_qualified) simp_all
  then show "index (Split (type_String (TPtr (TStruct (pkg @ ''.'' @ n)))) ''.'') 1 = (Ret n :: (string, string) go)"
    by (simp add: index_def)
  have hs': "hs' = hs(n \<mapsto> \<lparr>sh_handler = f, sh_msgType = TStruct (pkg @ ''.'' @ n)\<rparr>)"
    using reg RegisterHandler_struct [OF names, of r f hs] by simp
  show "ProcessClientRequest decode encode hs' st n buf =
      (case f st msg of
         (st', Inl ce) \<Rightarrow> (st', Inl ce)
       | (st', Inr reply) \<Rightarrow>
           (st', (case encode reply of Inl _ \<Rightarrow> Inl (NewClientErrorCode WebSocketErrorProtobufEncode '''')
                  | Inr b \<Rightarrow> Inr b)))"
    using decoded by (simp add: ProcessClientRequest_def hs' split: prod.splits sum.splits)
  show "\<forall>other. other \<noteq> n \<longrightarrow>
      ProcessClientRequest decode encode hs' st other buf = ProcessClientRequest decode encode hs st other buf"
    by (simp add: ProcessClientRequest_def hs')
qed

definition ex_handler :: "nat \<Rightarrow> bytes \<Rightarrow> nat \<times> (client_error + bytes)" where
  "ex_handler st m = (Suc st, Inr (rev m))"

theorem request_reaches_handler_witness:
  "\<exists>path. index (Split (type_String (TPtr (TStruct ''ocs.ReadRequest''))) ''.'') 1 = (Ret path :: (string, string) go) \<and>
    ProcessClientRequest (\<lambda>t b. Inr b) Inr
      [''ReadRequest'' \<mapsto> \<lparr>sh_handler = ex_handler, sh_msgType = TStruct ''ocs.ReadRequest''\<rparr>] 0 path [1, 2] =
      (1, Inr [2, 1])"
  using request_reaches_handler
    [where pkg = "''ocs''" and n = "''ReadRequest''" and r = "''ocs.ReadReply''" and f = ex_handler and hs = Map.empty
      and hs' = "[''ReadRequest'' \<mapsto> \<lparr>sh_handler = ex_handler, sh_msgType = TStruct ''ocs.ReadRequest''\<rparr>]"
      and decode = "\<lambda>t b. Inr b" and buf = "[1, 2]" and msg = "[1, 2]" and encode = Inr and st = 0]
    RegisterHandler_struct [where pkg = "''ocs''" and n = "''ReadRequest''" and r = "''ocs.ReadReply''"
      and f = ex_handler and hs = Map.empty]
  by (auto simp: ex_handler_def)

end
