(* ===== verification/Ocs_Api.thy ===== *)
theory Ocs_Api
  imports Smc Websocket
begin

text \<open>
  The client of the on-chain-secrets service, \<open>onchain-secrets/api.go\<close>. A remote call is
  an action on the state of the network: \<open>send\<close> is \<open>SendProtobuf\<close> with the request and
  the reply of its type, and \<open>GetSingleBlock\<close> a call of the skipchain package's client.
  Random draws are arguments.
\<close>

type_synonym ('w, 'p, 'req, 'rep) rpc = "'p ServerIdentity \<Rightarrow> 'req \<Rightarrow> ('w, client_error, 'rep) act"

text \<open>The first server of the roster of a chain; a nil or empty roster panics.\<close>

definition first_server :: "'p Roster option \<Rightarrow> (client_error, 'p ServerIdentity) go" where
  "first_server ro = go_bind (deref ro) (\<lambda>r. index (ro_List r) 0)"

definition Api_CreateSkipchain ::
  "'p skipchain_ops \<Rightarrow> ('w, 'p, 'p CreateSkipchainsRequest, 'p CreateSkipchainsReply) rpc \<Rightarrow> 'p Roster \<Rightarrow>
    ('w, client_error, 'p SkipChainURL) act" where
  "Api_CreateSkipchain K send r =
    act_bind (act_go (index (ro_List r) 0)) (\<lambda>si.
    act_bind (send si \<lparr>csr_Roster = r\<rparr>) (\<lambda>reply.
    act_ret (NewSkipChainURL K (csy_OCS reply))))"

definition Api_OTSWriteRequest ::
  "('p :: ab_group_add, 's :: comm_ring_1) suite \<Rightarrow> 's \<Rightarrow> ('p OTSWrite option \<Rightarrow> (string, bytes) go) \<Rightarrow>
    ('w, 'p, ('p, 's) OTSWriteRequest, 'p SkipBlock) rpc \<Rightarrow>
    'p SkipChainURL \<Rightarrow> ('p, 's) OTSWriteRequest \<Rightarrow> 's \<Rightarrow> ('w, client_error, 'p SkipBlock) act" where
  "Api_OTSWriteRequest S k marshal send ocsurl wr wrPrivKey =
    act_bind (act_go (deref (owr_Write wr))) (\<lambda>write.
    act_bind (act_go (go_err (NewClientErrorCode ErrorParameter) (marshal (dow_Data write)))) (\<lambda>msg.
    act_bind (act_go (go_err (NewClientErrorCode ErrorParameter) (SignMessage S k msg wrPrivKey))) (\<lambda>sig.
    let wr = wr\<lparr>owr_Write := Some (write\<lparr>dow_Signature := Some sig\<rparr>)\<rparr> in
    act_bind (act_go (first_server (scu_Roster ocsurl))) (\<lambda>si.
    send si wr))))"

text \<open>
  \<open>WriteRequest\<close>; \<open>None\<close> is an encoding of the key that never ends. \<open>sendShared\<close> asks for the
  collective key, \<open>r\<close> and \<open>rnd\<close> are the draws of \<open>EncodeKey\<close>.
\<close>

definition Api_WriteRequest ::
  "('p :: ab_group_add, 's :: comm_ring_1) suite \<Rightarrow> 's \<Rightarrow> (nat \<Rightarrow> nat) \<Rightarrow>
    ('w, 'p, SharedPublicRequest, 'p SharedPublicReply) rpc \<Rightarrow>
    ('w, 'p, ('p, 's) WriteRequest, 'p SkipBlock) rpc \<Rightarrow>
    'p SkipChainURL \<Rightarrow> bytes \<Rightarrow> bytes \<Rightarrow> 'p list \<Rightarrow> 'w \<Rightarrow>
    ((client_error, 'p SkipBlock) go \<times> 'w) option" where
  "Api_WriteRequest S r rnd sendShared send ocsurl encData symKey readList w =
    (if length encData > 10000000
     then Some (Err (NewClientErrorCode ErrorParameter ''Cannot store data bigger than 10MB''), w)
     else
       case act_bind (act_go (first_server (scu_Roster ocsurl))) (\<lambda>si.
              sendShared si \<lparr>spr_Genesis = scu_Genesis ocsurl\<rparr>) w of
         (Err e, w) \<Rightarrow> Some (Err e, w)
       | (Panic, w) \<Rightarrow> Some (Panic, w)
       | (Ret shared, w) \<Rightarrow>
           map_option (\<lambda>(U, Cs).
             act_bind (act_go (first_server (scu_Roster ocsurl))) (\<lambda>si.
               send si \<lparr>wr_Write = Some \<lparr>dw_Data = encData, dw_U = U, dw_Cs = Cs, dw_Readers = []\<rparr>,
                 wr_Readers = Some \<lparr>dr_ID = [], dr_Readers = readList, dr_Admins = [], dr_Threshold = 0,
                   dr_Signature = None\<rparr>,
                 wr_OCS = scu_Genesis ocsurl\<rparr>) w)
             (EncodeKey S r rnd (spy_X shared) symKey))"

definition Api_ReadRequest ::
  "('p :: ab_group_add, 's :: comm_ring_1) suite \<Rightarrow> 's \<Rightarrow> ('w, 'p, ('p, 's) ReadRequest, 'p SkipBlock) rpc \<Rightarrow>
    'p SkipChainURL \<Rightarrow> SkipBlockID \<Rightarrow> 's \<Rightarrow> ('w, client_error, 'p SkipBlock) act" where
  "Api_ReadRequest S k send ocsurl dataID reader =
    act_bind (act_go (go_err (NewClientErrorCode ErrorParameter) (SignSchnorr S k reader dataID))) (\<lambda>sig.
    act_bind (act_go (first_server (scu_Roster ocsurl))) (\<lambda>si.
    send si \<lparr>rq_Read = Some \<lparr>rd_DataID = dataID, rd_Public = su_Mul S reader (su_Base S), rd_Signature = Some sig\<rparr>,
      rq_OCS = scu_Genesis ocsurl\<rparr>))"

definition Api_OTSReadRequest ::
  "('p :: ab_group_add, 's :: comm_ring_1) suite \<Rightarrow> 's \<Rightarrow> ('w, 'p, ('p, 's) ReadRequest, 'p SkipBlock) rpc \<Rightarrow>
    'p SkipChainURL \<Rightarrow> SkipBlockID \<Rightarrow> 's \<Rightarrow> ('w, client_error, 'p SkipBlock) act" where
  "Api_OTSReadRequest S k send ocsurl dataID reader = Api_ReadRequest S k send ocsurl dataID reader"

definition Api_DecryptKeyRequest ::
  "('p :: ab_group_add, 's :: comm_ring_1) suite \<Rightarrow> ('w, 'p, DecryptKeyRequest, 'p DecryptKeyReply) rpc \<Rightarrow>
    'p SkipChainURL \<Rightarrow> SkipBlockID \<Rightarrow> 's \<Rightarrow> ('w, client_error, bytes) act" where
  "Api_DecryptKeyRequest S send ocsurl readID reader =
    act_bind (act_go (first_server (scu_Roster ocsurl))) (\<lambda>si.
    act_bind (send si \<lparr>dkr_Read = readID\<rparr>) (\<lambda>reply.
    act_go (go_err (\<lambda>e. NewClientErrorCode ErrorProtocol (''couldn't decode sym: '' @ e))
      (DecodeKey S (dky_X reply) (dky_Cs reply) (dky_XhatEnc reply) reader))))"

text \<open>
  \<open>GetOTSWrite\<close>: the field \<open>OTSWrite\<close> is read before the result of the type assertion is
  tested, so data of another type panics; nil data does as well.
\<close>

definition Api_GetOTSWrite ::
  "('p, 's) unmarshal \<Rightarrow> ('p Roster option \<Rightarrow> SkipBlockID \<Rightarrow> ('w, client_error, 'p SkipBlock) act) \<Rightarrow>
    'p SkipChainURL \<Rightarrow> SkipBlockID \<Rightarrow> ('w, client_error, 'p SkipBlock \<times> ('p, 's) DataOTSWrite) act" where
  "Api_GetOTSWrite unmarshal GetSingleBlock ocsurl dataID =
    act_bind (GetSingleBlock (scu_Roster ocsurl) dataID) (\<lambda>sb.
    act_bind (act_go (go_err NewClientError_str (unmarshal (sb_Data sb)))) (\<lambda>ocsDataI.
    act_bind (act_go (as_DataOCS ocsDataI)) (\<lambda>ocsData.
    case do_OTSWrite ocsData of
      None \<Rightarrow> act_go (Err (NewClientError_str ''not correct type of data''))
    | Some otsWrite \<Rightarrow> act_ret (sb, otsWrite))))"

definition Api_GetData ::
  "('p, 's) unmarshal \<Rightarrow> ('p Roster option \<Rightarrow> SkipBlockID \<Rightarrow> ('w, client_error, 'p SkipBlock) act) \<Rightarrow>
    'p SkipChainURL \<Rightarrow> SkipBlockID \<Rightarrow> ('w, client_error, bytes) act" where
  "Api_GetData unmarshal GetSingleBlock ocsurl dataID =
    act_bind (GetSingleBlock (scu_Roster ocsurl) dataID) (\<lambda>sb.
    act_bind (act_go (go_err NewClientError_str (unmarshal (sb_Data sb)))) (\<lambda>ocsDataI.
    act_go (case ocsDataI of
        Some (M_DataOCS ocsData) \<Rightarrow>
          (case do_Write ocsData of
             None \<Rightarrow> Err (NewClientError_str ''not correct type of data'')
           | Some write \<Rightarrow> Ret (dw_Data write))
      | _ \<Rightarrow> Err (NewClientError_str ''not correct type of data''))))"

definition Api_GetReadRequests ::
  "('w, 'p, GetReadRequests, 'p GetReadRequestsReply) rpc \<Rightarrow> 'p SkipChainURL \<Rightarrow> SkipBlockID \<Rightarrow> int \<Rightarrow>
    ('w, client_error, 'p ReadDoc list) act" where
  "Api_GetReadRequests send ocsurl start n =
    act_bind (act_go (first_server (scu_Roster ocsurl))) (\<lambda>si.
    act_bind (send si \<lparr>grr_Start = start, grr_Count = n\<rparr>) (\<lambda>reply.
    act_ret (gry_Documents reply)))"

end
