(* ===== verification/Ots_Client.thy ===== *)
theory Ots_Client
  imports Ocs_Api
begin

text \<open>
  The client library of the one-time secrets, \<open>otsclient/ots.go\<close> and \<open>struct.go\<close>: the
  writer's side (secret sharing, encryption, the write transaction) and the reader's side
  (checks of the write transaction, the read transaction, recovery of the shares and of the
  message). The pvss package is a record of functions; a remote call is an action on the
  state of the network.
\<close>

section \<open>State and external code\<close>

record ('p, 's) DataPVSS =
  dp_NumTrustee :: int
  dp_Threshold :: int
  dp_G :: 'p
  dp_H :: 'p
  dp_Secret :: 's
  dp_SCPublicKeys :: "'p list"
  dp_EncShares :: "'p PubVerShare list"
  dp_EncProofs :: "'p list"

text \<open>
  \<open>EncShares\<close> gives the encrypted shares and the commitment polynomial, by its method \<open>Eval\<close>;
  \<open>RecoverSecret\<close> takes the base point, the keys, the encrypted and the decrypted shares, the
  threshold and the number of trustees.
\<close>

record ('p, 's) pvss_ops =
  pv_EncShares :: "'p \<Rightarrow> 'p list \<Rightarrow> 's \<Rightarrow> int \<Rightarrow> (string, 'p PubVerShare list \<times> (int \<Rightarrow> 'p PubShare)) go"
  pv_RecoverSecret ::
    "'p \<Rightarrow> 'p list \<Rightarrow> 'p PubVerShare list \<Rightarrow> 'p PubVerShare list \<Rightarrow> int \<Rightarrow> int \<Rightarrow> (string, 'p) go"

section \<open>The writer\<close>

text \<open>\<open>2*dp.NumTrustee/3 + 1\<close>; the division of Go truncates.\<close>

definition pvss_threshold :: "int \<Rightarrow> int" where
  "pvss_threshold n = (if n < 0 then - ((- (2 * n)) div 3) else 2 * n div 3) + 1"

text \<open>The loop over \<open>i < NumTrustee\<close> that evaluates the commitment at each share's index.\<close>

definition enc_proofs ::
  "int \<Rightarrow> 'p PubVerShare list \<Rightarrow> (int \<Rightarrow> 'p PubShare) \<Rightarrow> (string, 'p list) go" where
  "enc_proofs n encShares eval =
    (if n < 0 then Panic
     else go_map (\<lambda>i. go_bind (index encShares i) (\<lambda>es. Ret (ps_V (eval (ps_I (pvs_S es)))))) (map int [0..<nat n]))"

text \<open>\<open>SetupPVSS\<close>; the secret is drawn from \<open>random.Stream\<close>.\<close>

definition SetupPVSS ::
  "('p, 's) suite \<Rightarrow> ('p, 's) pvss_ops \<Rightarrow> 's \<Rightarrow> ('p, 's) DataPVSS \<Rightarrow> 'p \<Rightarrow> (string, ('p, 's) DataPVSS) go" where
  "SetupPVSS S P secret dp pubKey =
    (let g = su_Base S in
     go_bind (CreatePointH S pubKey) (\<lambda>h.
     let threshold = pvss_threshold (dp_NumTrustee dp) in
     go_bind (pv_EncShares P h (dp_SCPublicKeys dp) secret threshold) (\<lambda>(encShares, commitPoly).
     go_bind (enc_proofs (dp_NumTrustee dp) encShares commitPoly) (\<lambda>encProofs.
     Ret (dp\<lparr>dp_Threshold := threshold, dp_G := g, dp_H := h, dp_Secret := secret,
             dp_EncShares := encShares, dp_EncProofs := encProofs\<rparr>)))))"

definition EncryptMessage ::
  "('p, 's) suite \<Rightarrow> ('p, 's) DataPVSS \<Rightarrow> bytes \<Rightarrow> (string, bytes \<times> bytes) go" where
  "EncryptMessage S dp mesg =
    go_bind (su_PointBytes S (su_Mul S (dp_Secret dp) (su_Base S))) (\<lambda>g_s.
    let symKey = Sum256 g_s;
        encMesg = su_Seal S symKey mesg;
        hashEnc = Sum256 encMesg
    in Ret (encMesg, hashEnc))"

definition write_data :: "('p, 's) DataPVSS \<Rightarrow> bytes \<Rightarrow> 'p \<Rightarrow> 'p OTSWrite" where
  "write_data dp hashEnc pubKey =
    \<lparr>ow_G = dp_G dp, ow_SCPublicKeys = dp_SCPublicKeys dp, ow_EncShares = dp_EncShares dp,
     ow_EncProofs = dp_EncProofs dp, ow_HashEnc = hashEnc, ow_ReaderPk = pubKey\<rparr>"

definition Cl_WriteRequest ::
  "('p :: ab_group_add, 's :: comm_ring_1) suite \<Rightarrow> 's \<Rightarrow> ('p OTSWrite option \<Rightarrow> (string, bytes) go) \<Rightarrow>
    ('w, 'p, ('p, 's) OTSWriteRequest, 'p SkipBlock) rpc \<Rightarrow>
    'p SkipChainURL \<Rightarrow> ('p, 's) DataPVSS \<Rightarrow> bytes \<Rightarrow> 'p \<Rightarrow> 's \<Rightarrow> ('w, client_error, 'p SkipBlock) act" where
  "Cl_WriteRequest S k marshal send scurl dp hashEnc pubKey wrPrivKey =
    (let readList = [pubKey];
         wrData = write_data dp hashEnc (readList ! 0);
         wr = \<lparr>owr_Write = Some \<lparr>dow_Data = Some wrData, dow_Signature = None\<rparr>,
               owr_Readers = Some \<lparr>dr_ID = [], dr_Readers = readList, dr_Admins = [], dr_Threshold = 0,
                 dr_Signature = None\<rparr>,
               owr_OCS = scu_Genesis scurl\<rparr>
     in Api_OTSWriteRequest S k marshal send scurl wr wrPrivKey)"

definition Cl_CreateSkipchain ::
  "'p skipchain_ops \<Rightarrow> ('w, 'p, 'p CreateSkipchainsRequest, 'p CreateSkipchainsReply) rpc \<Rightarrow> 'p Roster \<Rightarrow>
    ('w, client_error, 'p SkipChainURL) act" where
  "Cl_CreateSkipchain K send roster = Api_CreateSkipchain K send roster"

section \<open>The reader\<close>

definition GetWriteSB ::
  "('p, 's) unmarshal \<Rightarrow> ('p Roster option \<Rightarrow> SkipBlockID \<Rightarrow> ('w, client_error, 'p SkipBlock) act) \<Rightarrow>
    'p SkipChainURL \<Rightarrow> SkipBlockID \<Rightarrow>
    ('w, client_error, 'p SkipBlock \<times> 'p OTSWrite \<times> 's SchnorrSig option) act" where
  "GetWriteSB unmarshal GetSingleBlock scurl dataID =
    act_bind (Api_GetOTSWrite unmarshal GetSingleBlock scurl dataID) (\<lambda>(sbWrite, tmp).
    act_bind (act_go (deref (dow_Data tmp))) (\<lambda>d.
    act_ret (sbWrite,
      \<lparr>ow_G = ow_G d, ow_SCPublicKeys = ow_SCPublicKeys d, ow_EncShares = ow_EncShares d,
       ow_EncProofs = ow_EncProofs d, ow_HashEnc = ow_HashEnc d, ow_ReaderPk = ow_ReaderPk d\<rparr>,
      dow_Signature tmp)))"

definition VerifyWriteSignature ::
  "('p :: ab_group_add, 's :: comm_ring_1) suite \<Rightarrow> ('p OTSWrite option \<Rightarrow> (string, bytes) go) \<Rightarrow>
    'p OTSWrite \<Rightarrow> 's SchnorrSig option \<Rightarrow> 'p \<Rightarrow> (string, unit) go" where
  "VerifyWriteSignature S marshal writeData sig wrPubKey =
    go_bind (marshal (Some writeData)) (\<lambda>buf.
    let bufHash = Sum256 buf in
    go_bind (deref sig) (\<lambda>sg. VerifySchnorr S wrPubKey bufHash sg))"

text \<open>\<open>bytes.Compare\<close>: lexicographic, -1, 0 or 1.\<close>

fun bytes_Compare :: "bytes \<Rightarrow> bytes \<Rightarrow> int" where
  "bytes_Compare [] [] = 0"
| "bytes_Compare [] (b # bs) = - 1"
| "bytes_Compare (a # as) [] = 1"
| "bytes_Compare (a # as) (b # bs) = (if a < b then - 1 else if b < a then 1 else bytes_Compare as bs)"

definition VerifyEncMesg :: "'p OTSWrite \<Rightarrow> bytes \<Rightarrow> int" where
  "VerifyEncMesg writeData encMesg = (let cmptHash = Sum256 encMesg in bytes_Compare cmptHash (ow_HashEnc writeData))"

definition Cl_ReadRequest ::
  "('p :: ab_group_add, 's :: comm_ring_1) suite \<Rightarrow> 's \<Rightarrow> ('w, 'p, ('p, 's) ReadRequest, 'p SkipBlock) rpc \<Rightarrow>
    'p SkipChainURL \<Rightarrow> SkipBlockID \<Rightarrow> 's \<Rightarrow> ('w, client_error, 'p SkipBlock) act" where
  "Cl_ReadRequest S k send scurl dataID privKey = Api_OTSReadRequest S k send scurl dataID privKey"

definition GetUpdatedWriteSB ::
  "('p Roster option \<Rightarrow> SkipBlockID \<Rightarrow> ('w, client_error, 'p SkipBlock) act) \<Rightarrow>
    'p SkipChainURL \<Rightarrow> SkipBlockID \<Rightarrow> ('w, client_error, 'p SkipBlock) act" where
  "GetUpdatedWriteSB GetSingleBlock scurl sbid = GetSingleBlock (scu_Roster scurl) sbid"

text \<open>
  \<open>ElGamalDecrypt\<close>: errors of \<open>Data\<close> are ignored; a nil \<open>K\<close> stands for the base point in \<open>Mul\<close>.
  \<open>unmarshalShare\<close> is \<open>network.Unmarshal\<close>, \<open>None\<close> a message of another type, on which the type
  assertion panics.
\<close>

definition decrypt_share ::
  "('p :: ab_group_add, 's) suite \<Rightarrow> (bytes \<Rightarrow> (string, 'p PubVerShare option) go) \<Rightarrow> 's \<Rightarrow> 'p DecryptedShare \<Rightarrow>
    (string, 'p PubVerShare) go" where
  "decrypt_share S unmarshalShare privKey tmp =
    (let decSh = concat (map (\<lambda>C.
           let Spt = su_Mul S privKey (case ds_K tmp of None \<Rightarrow> su_Base S | Some K \<Rightarrow> K);
               decShPart = C - Spt
           in data_or_nil S decShPart) (ds_Cs tmp))
     in go_bind (unmarshalShare decSh) deref)"

definition ElGamalDecrypt ::
  "('p :: ab_group_add, 's) suite \<Rightarrow> (bytes \<Rightarrow> (string, 'p PubVerShare option) go) \<Rightarrow> 'p DecryptedShare list \<Rightarrow> 's \<Rightarrow>
    (string, 'p PubVerShare list) go" where
  "ElGamalDecrypt S unmarshalShare shares privKey = go_map (decrypt_share S unmarshalShare privKey) shares"

text \<open>The decrypted shares in the order of their indices; a nil entry is \<open>None\<close>.\<close>

definition order_shares :: "'p PubVerShare list \<Rightarrow> (string, 'p PubVerShare option list) go" where
  "order_shares tmpDecShares =
    go_fold (\<lambda>sh ds. assign ds (ps_I (pvs_S sh)) (Some sh)) tmpDecShares (replicate (length tmpDecShares) None)"

text \<open>\<open>GetDecryptedShares\<close>; \<open>otsDecrypt\<close> is \<open>cl.OTSDecrypt\<close> on the inclusion proof.\<close>

definition GetDecryptedShares ::
  "('p :: ab_group_add, 's) suite \<Rightarrow> 'p skipchain_ops \<Rightarrow> (bytes \<Rightarrow> (string, 'p PubVerShare option) go) \<Rightarrow>
    ('p Roster \<Rightarrow> 'p SkipBlockFix option \<Rightarrow> 'p SkipBlockFix option \<Rightarrow> BlockLink option \<Rightarrow> 'p list \<Rightarrow> 's \<Rightarrow>
      (client_error, 'p DecryptedShare list) go) \<Rightarrow>
    'p Roster \<Rightarrow> 'p SkipBlock \<Rightarrow> 'p SkipBlockFix option \<Rightarrow> 'p list \<Rightarrow> 's \<Rightarrow> int \<Rightarrow>
    (string, 'p PubVerShare option list) go" where
  "GetDecryptedShares S K unmarshalShare otsDecrypt roster writeSB readSBF acPubKeys privKey idx0 =
    (let idx = idx0 - sb_Index writeSB - 1 in
     if idx < 0 then Err ''Forward-link index is negative''
     else
       case sk_GetForward K writeSB idx of
         None \<Rightarrow> Err ''Forward-link does not exist''
       | Some inclusionProof \<Rightarrow>
           go_bind (go_err cerror_Error (otsDecrypt roster (Some writeSB) readSBF (Some inclusionProof) acPubKeys privKey))
             (\<lambda>reencShares.
           go_bind (ElGamalDecrypt S unmarshalShare reencShares privKey) order_shares))"

definition DecryptMessage :: "('p, 's) suite \<Rightarrow> 'p \<Rightarrow> bytes \<Rightarrow> (string, bytes) go" where
  "DecryptMessage S recSecret encMesg =
    go_bind (su_PointBytes S recSecret) (\<lambda>g_s.
    let symKey = Sum256 g_s in su_Open S symKey encMesg)"

section \<open>Filling a chain with transactions\<close>

text \<open>
  \<open>AddDummyWRPairs\<close>: \<open>draws i\<close> are the reader's and the writer's private key of pair \<open>i\<close> and the
  secret and nonces drawn for it. The write requests come first; then all but the last document
  are read. A failing encryption is ignored and leaves the hash empty.
\<close>

record 's draws =
  dr_readerSK :: 's
  dr_writerSK :: 's
  dr_secret :: 's
  dr_wnonce :: 's
  dr_rnonce :: 's

fun dummy_writes ::
  "('p :: ab_group_add, 's :: comm_ring_1) suite \<Rightarrow> ('p, 's) pvss_ops \<Rightarrow> ('p OTSWrite option \<Rightarrow> (string, bytes) go) \<Rightarrow>
    ('w, 'p, ('p, 's) OTSWriteRequest, 'p SkipBlock) rpc \<Rightarrow> 'p SkipChainURL \<Rightarrow> 's draws list \<Rightarrow>
    ('p, 's) DataPVSS \<Rightarrow> ('w, string, 'p SkipBlock list \<times> ('p, 's) DataPVSS) act" where
  "dummy_writes S P marshal send scurl [] dp = act_ret ([], dp)"
| "dummy_writes S P marshal send scurl (d # ds) dp =
    (let readerPK = su_Mul S (dr_readerSK d) (su_Base S) in
     act_bind (act_go (SetupPVSS S P (dr_secret d) dp readerPK)) (\<lambda>dp.
     let hashEnc = (case EncryptMessage S dp (map (\<lambda>c. of_char c) ''I am a dummy message!'') of
                      Ret (_, h) \<Rightarrow> h | _ \<Rightarrow> []) in
     act_bind (\<lambda>w. case Cl_WriteRequest S (dr_wnonce d) marshal send scurl dp hashEnc readerPK (dr_writerSK d) w of
         (r, w) \<Rightarrow> (go_err cerror_Error r, w)) (\<lambda>tmp.
     act_bind (dummy_writes S P marshal send scurl ds dp) (\<lambda>(sbs, dp). act_ret (tmp # sbs, dp)))))"

definition dummy_reads ::
  "('p :: ab_group_add, 's :: comm_ring_1) suite \<Rightarrow> ('w, 'p, ('p, 's) ReadRequest, 'p SkipBlock) rpc \<Rightarrow> 'p SkipChainURL \<Rightarrow>
    ('s draws \<times> 'p SkipBlock) list \<Rightarrow> ('w, string, unit) act" where
  "dummy_reads S send scurl pairs =
    act_iter (\<lambda>(d, sb).
      act_bind (\<lambda>w. case Cl_ReadRequest S (dr_rnonce d) send scurl (sb_Hash sb) (dr_readerSK d) w of
         (r, w) \<Rightarrow> (go_err cerror_Error r, w)) (\<lambda>_. act_ret ())) pairs"

definition AddDummyWRPairs ::
  "('p :: ab_group_add, 's :: comm_ring_1) suite \<Rightarrow> ('p, 's) pvss_ops \<Rightarrow> ('p OTSWrite option \<Rightarrow> (string, bytes) go) \<Rightarrow>
    ('w, 'p, ('p, 's) OTSWriteRequest, 'p SkipBlock) rpc \<Rightarrow> ('w, 'p, ('p, 's) ReadRequest, 'p SkipBlock) rpc \<Rightarrow>
    (nat \<Rightarrow> 's draws) \<Rightarrow> 'p SkipChainURL \<Rightarrow> ('p, 's) DataPVSS \<Rightarrow> int \<Rightarrow> ('w, string, unit) act" where
  "AddDummyWRPairs S P marshal sendWrite sendRead draws scurl dp pairCount =
    (if pairCount < 0 then act_go Panic
     else
       let ds = map draws [0..<nat pairCount] in
       act_bind (dummy_writes S P marshal sendWrite scurl ds dp) (\<lambda>(sbWrite, _).
       dummy_reads S sendRead scurl (take (nat pairCount - 1) (zip ds sbWrite))))"

section \<open>Properties of the write transaction\<close>

lemma bytes_Compare_eq_0: "bytes_Compare a b = 0 \<longleftrightarrow> a = b"
  by (induction a b rule: bytes_Compare.induct) auto

lemma SignMessage_verifies:
  assumes "suite_laws S" and "SignMessage S k msg sk = Ret sg"
  shows "VerifySchnorr S (public_of S sk) (Sum256 msg) sg = Ret ()"
  using assms schnorr.sign_verifies by (auto simp: SignMessage_def Let_def)

text \<open>C32: 
  A write transaction that the client completes was sent to the first server of the chain's
  roster: it holds the shared secret's encryption and the hash of the encrypted message, it
  admits exactly the reader whose key was given, and its signature verifies under the
  writer's public key.
\<close>
theorem WriteRequest_signed:
  assumes "suite_laws S"
    and "Cl_WriteRequest S k marshal send scurl dp hashEnc pubKey sk w = (Ret sb, w')"
  shows "\<exists>roster si rest req sg. scu_Roster scurl = Some roster \<and> ro_List roster = si # rest \<and>
    send si req w = (Ret sb, w') \<and>
    owr_Write req = Some \<lparr>dow_Data = Some (write_data dp hashEnc pubKey), dow_Signature = Some sg\<rparr> \<and>
    map_option dr_Readers (owr_Readers req) = Some [pubKey] \<and> owr_OCS req = scu_Genesis scurl \<and>
    VerifyWriteSignature S marshal (write_data dp hashEnc pubKey) (Some sg) (public_of S sk) = Ret ()"
proof -
  let ?d = "write_data dp hashEnc pubKey"
  obtain msg sg si where m: "marshal (Some ?d) = Ret msg" and sg: "SignMessage S k msg sk = Ret sg"
    and si: "first_server (scu_Roster scurl) = Ret si"
    and sent: "send si \<lparr>owr_Write = Some \<lparr>dow_Data = Some ?d, dow_Signature = Some sg\<rparr>,
         owr_Readers = Some \<lparr>dr_ID = [], dr_Readers = [pubKey], dr_Admins = [], dr_Threshold = 0, dr_Signature = None\<rparr>,
         owr_OCS = scu_Genesis scurl\<rparr> w = (Ret sb, w')"
    using assms(2) by (auto simp: Cl_WriteRequest_def Api_OTSWriteRequest_def Let_def act_bind_eq_Ret)
  have "VerifyWriteSignature S marshal ?d (Some sg) (public_of S sk) = Ret ()"
    using m SignMessage_verifies [OF assms(1) sg] by (simp add: VerifyWriteSignature_def Let_def)
  moreover obtain roster rest where "scu_Roster scurl = Some roster" "ro_List roster = si # rest"
    using si by (auto simp: first_server_def go_eqs neq_Nil_conv)
  ultimately show ?thesis using sent by fastforce
qed

definition ex_client_dp :: "(int, int) DataPVSS" where
  "ex_client_dp = \<lparr>dp_NumTrustee = 1, dp_Threshold = 1, dp_G = 1, dp_H = 32, dp_Secret = 9, dp_SCPublicKeys = [2],
    dp_EncShares = [], dp_EncProofs = []\<rparr>"

definition ex_client_url :: "int SkipChainURL" where
  "ex_client_url = \<lparr>scu_Roster = Some ex_roster, scu_Genesis = [1]\<rparr>"

text \<open>A network that stores the last request.\<close>

definition ex_client_send :: "((int, int) OTSWriteRequest option, int, (int, int) OTSWriteRequest, int SkipBlock) rpc" where
  "ex_client_send si req w = (Ret (ex_data_block 1 2 [] 1), Some req)"

lemma ex_client_writes:
  "\<exists>w'. Cl_WriteRequest int_suite 3 (\<lambda>d. Ret [6]) ex_client_send ex_client_url ex_client_dp [8] 5 4 None =
    (Ret (ex_data_block 1 2 [] 1), w')"
  by (simp add: Cl_WriteRequest_def Api_OTSWriteRequest_def act_bind_def SignMessage_def SignSchnorr_def schnorr_hash_def
      first_server_def ex_client_send_def ex_client_url_def ex_roster_def NewRoster_def index_def int_suite_def Let_def)

theorem WriteRequest_signed_witness:
  "\<exists>w' roster si rest req sg. scu_Roster ex_client_url = Some roster \<and> ro_List roster = si # rest \<and>
    ex_client_send si req None = (Ret (ex_data_block 1 2 [] 1), w') \<and>
    owr_Write req = Some \<lparr>dow_Data = Some (write_data ex_client_dp [8] 5), dow_Signature = Some sg\<rparr> \<and>
    map_option dr_Readers (owr_Readers req) = Some [5] \<and> owr_OCS req = scu_Genesis ex_client_url \<and>
    VerifyWriteSignature int_suite (\<lambda>d. Ret [6]) (write_data ex_client_dp [8] 5) (Some sg) (public_of int_suite 4) = Ret ()"
proof -
  obtain w' where "Cl_WriteRequest int_suite 3 (\<lambda>d. Ret [6]) ex_client_send ex_client_url ex_client_dp [8] 5 4 None =
      (Ret (ex_data_block 1 2 [] 1), w')" using ex_client_writes by blast
  from WriteRequest_signed [OF int_suite_laws(1) this] show ?thesis by blast
qed

section \<open>Properties of the shares\<close>

text \<open>
  Documented behaviour of the pvss package, for trustees with private keys \<open>xs\<close>: the shares
  carry the indices of the keys in order, a trustee can decrypt its own share with the
  commitment at its index, the decrypted share keeps the index, and all decrypted shares
  together give the secret times the base point.
\<close>

definition pvss_laws ::
  "('p :: ab_group_add, 's :: comm_ring_1) smc_env \<Rightarrow> ('p, 's) pvss_ops \<Rightarrow> 's list \<Rightarrow> bool" where
  "pvss_laws E P xs \<longleftrightarrow>
    (\<forall>h secret t encs poly. pv_EncShares P h (map (public_of (smc_suite E)) xs) secret t = Ret (encs, poly) \<longrightarrow>
      length encs = length xs \<and>
      (\<exists>decs. length decs = length xs \<and>
        (\<forall>i < length xs. ps_I (pvs_S (encs ! i)) = int i \<and> ps_I (pvs_S (decs ! i)) = int i \<and>
          smc_DecShare E h (public_of (smc_suite E) (xs ! i)) (ps_V (poly (int i))) (xs ! i) (encs ! i) = Ret (decs ! i)) \<and>
        pv_RecoverSecret P (su_Base (smc_suite E)) (map (public_of (smc_suite E)) xs) encs decs t (int (length xs)) =
          Ret (su_Mul (smc_suite E) secret (su_Base (smc_suite E)))))"

text \<open>The encoding of a decrypted share can be decoded.\<close>

definition share_codec ::
  "('p, 's) smc_env \<Rightarrow> (bytes \<Rightarrow> (string, 'p PubVerShare option) go) \<Rightarrow> bool" where
  "share_codec E unmarshalShare \<longleftrightarrow>
    (\<forall>sh. \<exists>msg. smc_MarshalShare E sh = Ret msg \<and> unmarshalShare msg = Ret (Some sh))"

lemma SetupPVSS_Ret:
  assumes "SetupPVSS S P secret dp pubKey = Ret dp'" and "dp_NumTrustee dp = int (length encs)"
    and "\<And>i. i < length encs \<Longrightarrow> ps_I (pvs_S (encs ! i)) = int i"
    and "CreatePointH S pubKey = Ret h"
    and "pv_EncShares P h (dp_SCPublicKeys dp) secret (pvss_threshold (dp_NumTrustee dp)) = Ret (encs, poly)"
  shows "dp' = dp\<lparr>dp_Threshold := pvss_threshold (dp_NumTrustee dp), dp_G := su_Base S, dp_H := h, dp_Secret := secret,
      dp_EncShares := encs, dp_EncProofs := map (\<lambda>i. ps_V (poly (int i))) [0..<length encs]\<rparr>"
proof -
  have "go_map (\<lambda>i. go_bind (index encs i) (\<lambda>es. Ret (ps_V (poly (ps_I (pvs_S es)))))) (map int [0..<length encs]) =
      (Ret (map (\<lambda>i. ps_V (poly (int i))) [0..<length encs]) :: (string, 'a list) go)"
    using assms(3) by (auto simp: go_map_eq_Ret list_all2_conv_all_nth)
  then have "enc_proofs (int (length encs)) encs poly = Ret (map (\<lambda>i. ps_V (poly (int i))) [0..<length encs])"
    by (simp add: enc_proofs_def)
  then show ?thesis using assms by (simp add: SetupPVSS_def Let_def)
qed

text \<open>What a trustee sends for its share is decrypted by the reader to the decrypted share.\<close>

lemma own_share_decrypts:
  assumes E: "suite_laws (smc_suite E)" "embed_laws (smc_suite E)"
    and codec: "share_codec E unmarshalShare"
    and pk: "ow_ReaderPk write = public_of (smc_suite E) x"
    and h: "CreatePointH (smc_suite E) (ow_ReaderPk write) = Ret h"
    and i: "i < length (ow_EncProofs write)" "i < length (ow_EncShares write)"
    and dec: "smc_DecShare E h pub (ow_EncProofs write ! i) priv (ow_EncShares write ! i) = Ret sh"
  shows "\<exists>ds. own_share E k rnd (int i) pub priv write = Some (Ret ds) \<and>
    decrypt_share (smc_suite E) unmarshalShare x ds = Ret sh"
proof -
  let ?S = "smc_suite E"
  obtain msg where msg: "smc_MarshalShare E sh = Ret msg" "unmarshalShare msg = Ret (Some sh)"
    using codec unfolding share_codec_def by blast
  obtain Cs where enc: "elGamalEncrypt E k rnd sh (ow_ReaderPk write) =
        Some (Ret \<lparr>ds_K = Some (su_Mul ?S k (su_Base ?S)), ds_Cs = Cs\<rparr>)"
    and loop: "elGamal_loop ?S rnd (su_Mul ?S k (ow_ReaderPk write)) 0 msg [] = Some Cs"
    using elGamalEncrypt_total [OF E(2) msg(1)] by blast
  have "concat (map (\<lambda>C. data_or_nil ?S (C - su_Mul ?S k (ow_ReaderPk write))) Cs) = msg"
    using elgamal.lenient_decode [OF E(2), of rnd "(ow_ReaderPk write, k)" msg Cs] loop by simp
  moreover have "su_Mul ?S k (ow_ReaderPk write) = su_Mul ?S x (su_Mul ?S k (su_Base ?S))"
    using pk su_Mul_commute [OF E(1), of k x] by (simp add: public_of_def)
  ultimately have "decrypt_share ?S unmarshalShare x \<lparr>ds_K = Some (su_Mul ?S k (su_Base ?S)), ds_Cs = Cs\<rparr> = Ret sh"
    using msg(2) by (simp add: decrypt_share_def Let_def)
  then show ?thesis using enc h i dec by (simp add: own_share_def)
qed

lemma go_map_images:
  assumes "\<And>i. i \<in> set js \<Longrightarrow> f (a i) = Ret (b i)"
  shows "go_map f (map a js) = Ret (map b js)"
  using assms by (induction js) simp_all

lemma order_shares_all:
  assumes "set js = {..<length decs}" and "distinct js"
    and "\<And>i. i < length decs \<Longrightarrow> ps_I (pvs_S (decs ! i)) = int i"
  shows "order_shares (map ((!) decs) js) = Ret (map Some decs)"
proof -
  have len: "length js = length decs" using assms(1,2) distinct_card [of js] by simp
  have fold: "\<exists>us'. go_fold (\<lambda>sh ds. assign ds (ps_I (pvs_S sh)) (Some sh)) (map ((!) decs) ks) us = (Ret us' :: (string, 'a PubVerShare option list) go) \<and>
      length us' = length us \<and> (\<forall>j < length us. us' ! j = (if j \<in> set ks then Some (decs ! j) else us ! j))"
    if "set ks \<subseteq> {..<length decs}" "length us = length decs" for ks and us :: "'a PubVerShare option list"
    using that
  proof (induction ks arbitrary: us)
    case (Cons i ks)
    let ?us = "us[i := Some (decs ! i)]"
    have i: "i < length decs" using Cons.prems by simp
    then have a: "assign us (int i) (Some (decs ! i)) = (Ret ?us :: (string, 'a PubVerShare option list) go)"
      using Cons.prems by simp
    show ?case using Cons.IH [of ?us] Cons.prems assms(3) [OF i] a by (auto simp: nth_list_update)
  qed simp
  obtain us' where us': "go_fold (\<lambda>sh ds. assign ds (ps_I (pvs_S sh)) (Some sh)) (map ((!) decs) js)
      (replicate (length decs) None) = (Ret us' :: (string, 'a PubVerShare option list) go)"
    "length us' = length decs" "\<forall>j < length decs. us' ! j = Some (decs ! j)"
    using fold [of js "replicate (length decs) None"] assms(1) by auto
  have "us' = map Some decs" using us'(2,3) by (intro nth_equalityI) auto
  then show ?thesis using us'(1) len by (simp add: order_shares_def)
qed

text \<open>The leaves of the protocol tree, node \<open>i\<close> with its share's index, its keys and its draws.\<close>

definition leaf :: "('p, 's) suite \<Rightarrow> (nat \<Rightarrow> 's) \<Rightarrow> (nat \<Rightarrow> nat \<Rightarrow> nat) \<Rightarrow> 's list \<Rightarrow> nat \<Rightarrow> ('p, 's) trustee" where
  "leaf S k rnd xs i = (k i, rnd i, int i, public_of S (xs ! i), xs ! i)"

lemma cothority_shares:
  assumes ver: "verifyDecryptionRequest E (drq_Data req) (drq_Signature req) = Ret wdata"
    and own: "\<And>i. i < length xs \<Longrightarrow>
      own_share E (k i) (rnd i) (int i) (public_of (smc_suite E) (xs ! i)) (xs ! i) wdata = Some (Ret (ds i))"
    and "is": "set is \<subseteq> {..<length xs}" "is \<noteq> []" and root: "drq_RootIndex req = 0"
    and tree: "genTree (drq_Roster req) (int (length (ro_List (drq_Roster req))) - 1) si = Ret (Some tree)"
    and start: "start tree = Ret ()"
  shows "Service_DecryptRequest genTree nce start (\<lambda>ann. map (leaf_reply E ann) (map (leaf (smc_suite E) k rnd xs) is))
      (Dispatch_root E (k 0) (rnd 0) (public_of (smc_suite E) (xs ! 0)) (xs ! 0)) si req =
    Some (Ret \<lparr>dre_DecShares = map ds is @ [ds 0]\<rparr>)"
proof -
  have "leaf_reply E (ann_of req) (leaf (smc_suite E) k rnd xs i) = Some \<lparr>shr_DecShare = ds i\<rparr>" if "i \<in> set is" for i
    using own [of i] that "is"(1) ver by (auto simp: leaf_reply_def leaf_def Dispatch_leaf_def ann_of_def)
  then have leaves: "map (leaf_reply E (ann_of req)) (map (leaf (smc_suite E) k rnd xs) is) =
      map Some (map (\<lambda>i. \<lparr>shr_DecShare = ds i\<rparr>) is)" by simp
  have g: "gather (map (leaf_reply E (ann_of req)) (map (leaf (smc_suite E) k rnd xs) is)) =
      Some (map (\<lambda>i. \<lparr>shr_DecShare = ds i\<rparr>) is)"
    unfolding leaves gather_Some using "is"(2) by simp
  have "0 < length xs" using "is" by (cases "is") auto
  then have r: "Dispatch_root E (k 0) (rnd 0) (public_of (smc_suite E) (xs ! 0)) (xs ! 0) (ann_of req)
      (map (\<lambda>i. \<lparr>shr_DecShare = ds i\<rparr>) is) = Some (Ret (map ds is @ [ds 0]))"
    using own [of 0] ver root by (simp add: Dispatch_root_def ann_of_def comp_def)
  show ?thesis using tree start g r by (simp add: Service_DecryptRequest_def ann_of_def Let_def)
qed

text \<open>The client's request reaches the trustees and brings their shares back, the root's last.\<close>

lemma OTSDecrypt_gets_shares:
  assumes laws: "skipchain_laws (smc_ops E)" "suite_laws (smc_suite E)" "point_marshals (smc_suite E)"
      "\<forall>d. \<exists>buf. smc_MarshalRequest E d = Ret buf"
    and blocks: "smc_data E writeSB wd" "do_OTSWrite wd = Some w" "dow_Data w = Some wdata"
      "ow_ReaderPk wdata = public_of (smc_suite E) x"
      "smc_data E readSBF rd" "do_Read rd = Some r" "rd_DataID r = sk_CalculateHash (smc_ops E) writeSB"
    and link: "bl_Hash fl = sk_CalculateHash (smc_ops E) readSBF" "bl_Signature fl \<noteq> []"
      "smc_CosiVerify E acs (bl_Hash fl) (bl_Signature fl) = Ret ()"
    and own: "\<And>i. i < length xs \<Longrightarrow>
      own_share E (k i) (rnd i) (int i) (public_of (smc_suite E) (xs ! i)) (xs ! i) wdata = Some (Ret (ds i))"
    and cothority: "set ord = {1..<length xs}" "2 \<le> length xs" "ro_List roster \<noteq> []"
      "genTree roster (int (length (ro_List roster)) - 1) si = Ret (Some tree)" "start tree = Ret ()"
      "\<And>si' req reply. Service_DecryptRequest genTree nce start
          (\<lambda>ann. map (leaf_reply E ann) (map (leaf (smc_suite E) k rnd xs) ord))
          (Dispatch_root E (k 0) (rnd 0) (public_of (smc_suite E) (xs ! 0)) (xs ! 0)) si req = Some (Ret reply) \<Longrightarrow>
        send si' req = Ret reply"
  shows "OTSDecrypt E nonce send roster (Some writeSB) (Some readSBF) (Some fl) acs x = Ret (map ds (ord @ [0]))"
proof -
  let ?d = "\<lparr>drd_WriteSBF = Some writeSB, drd_ReadSBF = Some readSBF, drd_InclusionProof = Some fl, drd_ACPublicKeys = acs\<rparr>"
  obtain buf sg where b: "smc_MarshalRequest E ?d = Ret buf" "SignMessage (smc_suite E) nonce buf x = Ret sg"
    "verifyDecryptionRequest E (Some ?d) (Some sg) = Ret wdata"
    using request_verifies [OF laws blocks link refl] by metis
  let ?req = "\<lparr>drq_RootIndex = 0, drq_Roster = roster, drq_Data = Some ?d, drq_Signature = Some sg\<rparr>"
  have "ord \<noteq> []" "set ord \<subseteq> {..<length xs}" using cothority(1,2) by auto
  then have "Service_DecryptRequest genTree nce start (\<lambda>ann. map (leaf_reply E ann) (map (leaf (smc_suite E) k rnd xs) ord))
      (Dispatch_root E (k 0) (rnd 0) (public_of (smc_suite E) (xs ! 0)) (xs ! 0)) si ?req =
    Some (Ret \<lparr>dre_DecShares = map ds ord @ [ds 0]\<rparr>)"
    using cothority_shares [of E ?req wdata xs k rnd ds ord genTree si tree start nce] b(3) own cothority(4,5) by simp
  then have "send si' ?req = Ret \<lparr>dre_DecShares = map ds ord @ [ds 0]\<rparr>" for si' by (rule cothority(6))
  then show ?thesis using b cothority(3) by (simp add: OTSDecrypt_def Let_def index_def)
qed

end
