(* ===== verification/Protobuf_Wire.thy ===== *)
theory Protobuf_Wire
  imports Prelude
begin

text \<open>
  The wire primitives of \<open>imported/protobuf\<close>: unsigned varints as
  \<open>encoding/binary\<close> writes and reads them, the signed varints and fixed-size integers of
  \<open>encode.go\<close>, and the part of \<open>decode.go\<close> that breaks one value out of the buffer.
\<close>

section \<open>Writing\<close>

lemma drop_bit_less: "(x :: 64 word) \<ge> 0x80 \<Longrightarrow> unat (drop_bit 7 x) < unat x"
  by (simp add: word_le_nat_alt unat_div drop_bit_eq_div)

text \<open>\<open>binary.PutUvarint\<close>, seven bits per byte, the low ones first; \<open>encoder.uvarint\<close> writes its result.\<close>

function uvarint :: "64 word \<Rightarrow> bytes" where
  "uvarint x = (if x \<ge> 0x80 then (ucast x OR 0x80) # uvarint (drop_bit 7 x) else [ucast x])"
  by pat_completeness auto

termination
  by (relation "measure unat") (auto intro: drop_bit_less)

declare uvarint.simps [simp del]

definition svarint :: "64 word \<Rightarrow> bytes" where
  "svarint v = (if 0 \<le>s v then uvarint (push_bit 1 v) else uvarint (NOT (push_bit 1 v)))"

definition u32 :: "32 word \<Rightarrow> bytes" where
  "u32 v = [ucast v, ucast (drop_bit 8 v), ucast (drop_bit 16 v), ucast (drop_bit 24 v)]"

definition u64 :: "64 word \<Rightarrow> bytes" where
  "u64 v = [ucast v, ucast (drop_bit 8 v), ucast (drop_bit 16 v), ucast (drop_bit 24 v),
    ucast (drop_bit 32 v), ucast (drop_bit 40 v), ucast (drop_bit 48 v), ucast (drop_bit 56 v)]"

section \<open>Reading\<close>

text \<open>
  \<open>binary.Uvarint\<close>: the value and the number of bytes read; the number is 0 when the buffer
  ends inside the varint and negative when the value needs more than 64 bits. The arguments are
  the loop's \<open>i\<close>, \<open>x\<close> and \<open>s = 7 * i\<close>.
\<close>

fun Uvarint_loop :: "nat \<Rightarrow> 64 word \<Rightarrow> bytes \<Rightarrow> 64 word \<times> int" where
  "Uvarint_loop i x [] = (0, 0)"
| "Uvarint_loop i x (b # bs) =
    (if b < 0x80 then
       if i > 9 \<or> i = 9 \<and> b > 1 then (0, - (int i + 1))
       else (x OR push_bit (7 * i) (ucast b), int i + 1)
     else Uvarint_loop (Suc i) (x OR push_bit (7 * i) (ucast (b AND 0x7f))) bs)"

definition Uvarint :: "bytes \<Rightarrow> 64 word \<times> int" where
  "Uvarint buf = Uvarint_loop 0 0 buf"

text \<open>\<open>decoder.value\<close>, its first half: the number or the bytes of the next value and the rest of the buffer.\<close>

datatype pb_error =
    PE string
  | PE_field pb_error string
  | PE_other

fun le_word :: "bytes \<Rightarrow> 64 word" where
  "le_word [] = 0"
| "le_word (b # bs) = ucast b OR push_bit 8 (le_word bs)"

definition break_out :: "nat \<Rightarrow> bytes \<Rightarrow> (pb_error, 64 word \<times> bytes \<times> bytes) go" where
  "break_out wiretype buf =
    (if wiretype = 0 then
       (case Uvarint buf of (v, n) \<Rightarrow>
          if n \<le> 0 then Err (PE ''bad protobuf varint value'') else Ret (v, [], drop (nat n) buf))
     else if wiretype = 5 then
       (if length buf < 4 then Err (PE ''bad protobuf 32-bit value'') else Ret (le_word (take 4 buf), [], drop 4 buf))
     else if wiretype = 1 then
       (if length buf < 8 then Err (PE ''bad protobuf 64-bit value'') else Ret (le_word (take 8 buf), [], drop 8 buf))
     else if wiretype = 2 then
       (case Uvarint buf of (v, n) \<Rightarrow>
          if n \<le> 0 \<or> int (unat v) > int (length buf) - n then Err (PE ''bad protobuf length-delimited value'')
          else Ret (v, take (unat v) (drop (nat n) buf), drop (nat n + unat v) buf))
     else Err (PE ''unknown protobuf wire-type''))"

text \<open>\<open>decoder.decodeSignedInt\<close>; the shift of a varint is the arithmetic shift of \<open>int64\<close>.\<close>

definition decodeSignedInt :: "nat \<Rightarrow> 64 word \<Rightarrow> (pb_error, 64 word) go" where
  "decodeSignedInt wiretype v =
    (if wiretype = 0 then Ret (let sv = signed_drop_bit 1 v in if v AND 1 \<noteq> 0 then NOT sv else sv)
     else if wiretype = 5 then Ret (scast (ucast v :: 32 word))
     else if wiretype = 1 then Ret v
     else Err (PE ''bad wiretype for sint''))"

section \<open>Round trips of the primitives\<close>

lemma uvarint_small: "x < 0x80 \<Longrightarrow> uvarint x = [ucast x]"
  by (subst uvarint.simps) auto

lemma uvarint_large: "x \<ge> 0x80 \<Longrightarrow> uvarint x = (ucast x OR 0x80) # uvarint (drop_bit 7 x)"
  by (subst uvarint.simps) auto

lemma word_small_bits: "unat x < 2 ^ n \<Longrightarrow> n \<le> k \<Longrightarrow> \<not> bit x k" for x :: "'a::len word"
proof -
  assume a: "unat x < 2 ^ n" "n \<le> k"
  have "(2 :: nat) ^ n \<le> 2 ^ k" using a(2) by (simp add: power_increasing)
  with a(1) have "unat x div 2 ^ k = 0" by (meson div_less less_le_trans)
  then have "\<not> bit (unat x) k" by (simp add: bit_iff_odd)
  then show ?thesis by (simp add: bit_unsigned_iff)
qed

lemma byte_less_iff: "b < 0x80 \<longleftrightarrow> \<not> bit b 7" for b :: byte
proof
  assume "b < 0x80"
  then have "unat b < 2 ^ 7" by (simp add: word_less_nat_alt)
  then show "\<not> bit b 7" by (rule word_small_bits) simp
next
  assume n: "\<not> bit b 7"
  have "bit b k \<longleftrightarrow> bit (take_bit 7 b) k" for k
  proof -
    have "bit b k \<Longrightarrow> k < 8" using bit_imp_le_length [of b k] by simp
    then show ?thesis using n by (cases "k = 7") (auto simp: bit_take_bit_iff less_Suc_eq)
  qed
  then have "b = take_bit 7 b" by (auto simp: bit_eq_iff)
  then have "unat b = take_bit 7 (unat b)" by (metis unsigned_take_bit_eq)
  then have "unat b < 2 ^ 7" by (metis take_bit_nat_less_exp)
  then show "b < 0x80" by (simp add: word_less_nat_alt)
qed

lemma bit_x80: "bit (0x80 :: byte) k \<longleftrightarrow> k = 7"
proof -
  have "(0x80 :: byte) = push_bit 7 1" by (simp add: push_bit_eq_mult)
  then show ?thesis by (auto simp only: bit_push_bit_iff bit_1_iff) (simp_all add: bit_1_iff)
qed

lemma and_x7f: "b AND 0x7f = take_bit 7 b" for b :: byte
  by (simp add: take_bit_eq_mask mask_eq_exp_minus_1)

lemma byte_high: "\<not> (ucast (x :: 64 word) OR 0x80 :: byte) < 0x80"
  by (simp add: byte_less_iff bit_or_iff bit_x80)

lemma byte_low: "ucast ((ucast x OR 0x80 :: byte) AND 0x7f) = (take_bit 7 x :: 64 word)" for x :: "64 word"
  by (rule bit_eqI) (auto simp: and_x7f bit_simps bit_x80)

lemma push_take_drop:
  "push_bit (7 * i) (take_bit 7 v) OR push_bit (7 * Suc i) (drop_bit 7 v) = push_bit (7 * i) (v :: 64 word)"
proof (rule bit_word_eqI)
  fix k assume k: "k < LENGTH(64)"
  have 1: "7 + 7 * i \<le> k \<Longrightarrow> 7 + (k - (7 + 7 * i)) = k - 7 * i" by simp
  have 2: "7 * i \<le> k \<Longrightarrow> k - 7 * i < 7 \<longleftrightarrow> k < 7 + 7 * i" by arith
  show "bit (push_bit (7 * i) (take_bit 7 v) OR push_bit (7 * Suc i) (drop_bit 7 v)) k \<longleftrightarrow> bit (push_bit (7 * i) v) k"
    using k 1 2 by (auto simp: bit_simps)
qed

lemma Uvarint_loop_uvarint:
  assumes "unat v < 2 ^ (64 - 7 * i)" and "i \<le> 9"
  shows "Uvarint_loop i x (uvarint v @ rest) = (x OR push_bit (7 * i) v, int i + int (length (uvarint v)))"
  using assms
proof (induction v arbitrary: i x rule: uvarint.induct)
  case (1 v)
  show ?case
  proof (cases "v \<ge> 0x80")
    case True
    then have 80: "128 \<le> unat v" by (simp add: word_le_nat_alt)
    have i: "i \<le> 8"
    proof (rule ccontr)
      assume "\<not> i \<le> 8"
      with "1.prems" have "unat v < 2 ^ 1" by (cases "i = 9") auto
      with 80 show False by simp
    qed
    have "unat (drop_bit 7 v) = unat v div 2 ^ 7" by (simp add: drop_bit_eq_div unat_div)
    also have "\<dots> < 2 ^ (64 - 7 * Suc i)"
    proof (rule less_mult_imp_div_less)
      have e: "64 - 7 * i = (64 - 7 * Suc i) + 7" using i by simp
      show "unat v < 2 ^ (64 - 7 * Suc i) * 2 ^ 7"
        using "1.prems"(1) unfolding e power_add .
    qed
    finally have "unat (drop_bit 7 v) < 2 ^ (64 - 7 * Suc i)" .
    note IH = "1.IH" [OF True this]
    have "(x OR push_bit (7 * i) (take_bit 7 v)) OR push_bit (7 * Suc i) (drop_bit 7 v) = x OR push_bit (7 * i) v"
      by (simp only: or.assoc push_take_drop)
    with IH [of "x OR push_bit (7 * i) (take_bit 7 v)"] i show ?thesis
      by (simp only: uvarint_large [OF True] append_Cons Uvarint_loop.simps byte_high if_False byte_low) simp
  next
    case False
    then have u: "unat v < 128" by (simp add: word_le_nat_alt)
    then have uv: "unat (ucast v :: byte) = unat v" by (simp add: unsigned_ucast_eq take_bit_nat_eq_self_iff)
    have b: "(ucast v :: byte) < 0x80" using u uv by (simp add: word_less_nat_alt)
    have "i = 9 \<Longrightarrow> unat v < 2" using "1.prems" by simp
    then have o: "\<not> (i > 9 \<or> i = 9 \<and> (ucast v :: byte) > 1)"
      using "1.prems"(2) uv by (auto simp: word_less_nat_alt)
    have "unat (ucast (ucast v :: byte) :: 64 word) = unat v" 
      using uv u by (simp add: unsigned_ucast_eq unsigned_take_bit_eq take_bit_nat_eq_self_iff)
    then have "ucast (ucast v :: byte) = v" by (simp only: word_unat_eq_iff)
    with b o False show ?thesis by (simp add: uvarint_small not_le)
  qed
qed

lemma uvarint_length_pos [simp]: "0 < length (uvarint v)" "uvarint v \<noteq> []"
  by (subst uvarint.simps, simp)+

text \<open>What \<open>uvarint\<close> writes is read back, with the number of its bytes.\<close>

lemma Uvarint_uvarint: "Uvarint (uvarint v @ rest) = (v, int (length (uvarint v)))"
proof -
  have "unat v < 2 ^ 64" using unsigned_less [of v] by simp
  then show ?thesis unfolding Uvarint_def by (subst Uvarint_loop_uvarint) simp_all
qed

lemma uvarint_length_le: "unat v < 2 ^ (7 * n) \<Longrightarrow> 0 < n \<Longrightarrow> length (uvarint v) \<le> n"
proof (induction v arbitrary: n rule: uvarint.induct)
  case (1 v)
  show ?case
  proof (cases "v \<ge> 0x80")
    case True
    then have 80: "128 \<le> unat v" by (simp add: word_le_nat_alt)
    obtain m where n: "n = Suc m" using "1.prems"(2) by (cases n) auto
    have "unat (drop_bit 7 v) = unat v div 2 ^ 7" by (simp add: drop_bit_eq_div unat_div)
    also have "\<dots> < 2 ^ (7 * m)" by (rule less_mult_imp_div_less) (use "1.prems"(1) n in \<open>simp add: power_add\<close>)
    finally have d: "unat (drop_bit 7 v) < 2 ^ (7 * m)" .
    moreover have "0 < m" using 80 "1.prems"(1) n by (cases m) auto
    ultimately show ?thesis using "1.IH" [OF True, of m] n True by (simp add: uvarint_large)
  qed (use "1.prems"(2) in \<open>simp add: uvarint_small\<close>)
qed

lemma uvarint_length: "length (uvarint v) \<le> 10"
proof -
  have "unat v < 2 ^ (7 * 10)" using unsigned_less [of v, where 'a = nat] by simp
  then show ?thesis by (rule uvarint_length_le) simp
qed

lemma Uvarint_loop_pos: "Uvarint_loop i x bs = (v, n) \<Longrightarrow> 0 < n \<Longrightarrow> int i < n \<and> n \<le> int i + int (length bs)"
proof (induction bs arbitrary: i x)
  case (Cons b bs)
  show ?case
  proof (cases "b < 0x80")
    case True
    with Cons.prems show ?thesis by (auto split: if_splits)
  next
    case False
    with Cons.prems Cons.IH show ?thesis by fastforce
  qed
qed simp

lemma Uvarint_pos: "Uvarint bs = (v, n) \<Longrightarrow> 0 < n \<Longrightarrow> n \<le> int (length bs)"
  unfolding Uvarint_def using Uvarint_loop_pos [of 0 0 bs v n] by simp

lemma break_out_shorter:
  "break_out w buf = Ret (v, vb, rem) \<Longrightarrow> length rem < length buf \<and> length vb + length rem \<le> length buf"
  by (auto simp: break_out_def split: prod.splits if_splits dest: Uvarint_pos)

text \<open>The fixed-size integers.\<close>

lemma byte_step: "ucast (ucast v :: byte) OR push_bit 8 (drop_bit 8 v) = v" for v :: "64 word"
proof (rule bit_word_eqI)
  fix k assume k: "k < LENGTH(64)"
  show "bit (ucast (ucast v :: byte) OR push_bit 8 (drop_bit 8 v)) k \<longleftrightarrow> bit v k"
    using k by (cases "k < 8") (auto simp: bit_simps)
qed

lemma byte_last: "unat v < 2 ^ 8 \<Longrightarrow> ucast (ucast v :: byte) = v" for v :: "64 word"
proof (rule bit_word_eqI)
  fix k assume a: "unat v < 2 ^ 8" "k < LENGTH(64)"
  show "bit (ucast (ucast v :: byte) :: 64 word) k \<longleftrightarrow> bit v k"
    using a word_small_bits [OF a(1), of k] by (cases "k < 8") (auto simp: bit_simps)
qed

lemma le_word_u64: "le_word (u64 w) = w"
proof -
  have s: "ucast (ucast (drop_bit n w) :: byte) OR push_bit 8 (drop_bit (n + 8) w) = drop_bit n w" for n
    using byte_step [of "drop_bit n w"] by (simp add: add.commute)
  have "unat (drop_bit 56 w) = unat w div 2 ^ 56" by (simp add: drop_bit_eq_div unat_div)
  also have "\<dots> < 2 ^ 8" by (rule less_mult_imp_div_less) (use unsigned_less [of w, where 'a = nat] in simp)
  finally have l: "ucast (ucast (drop_bit 56 w) :: byte) = drop_bit 56 w" by (rule byte_last)
  show ?thesis using s [of 48] s [of 40] s [of 32] s [of 24] s [of 16] s [of 8] s [of 0] l by (simp add: u64_def)
qed

lemma le_word_u32: "le_word (u32 w) = ucast w"
proof -
  let ?w = "ucast w :: 64 word"
  have s: "ucast (ucast (drop_bit n ?w) :: byte) OR push_bit 8 (drop_bit (n + 8) ?w) = drop_bit n ?w" for n
    using byte_step [of "drop_bit n ?w"] by (simp add: add.commute)
  have c: "(ucast (drop_bit n w) :: byte) = ucast (drop_bit n ?w)" for n
    by (rule bit_word_eqI) (auto simp: bit_simps dest: bit_imp_le_length)
  have w: "unat w < 2 ^ 32" using unsigned_less [of w, where 'a = nat] by simp
  then have "unat ?w = unat w" by (simp add: unsigned_ucast_eq take_bit_nat_eq_self_iff)
  then have "unat (drop_bit 24 ?w) = unat w div 2 ^ 24" by (simp add: drop_bit_eq_div unat_div)
  also have "\<dots> < 2 ^ 8" by (rule less_mult_imp_div_less) (use w in simp)
  finally have l: "ucast (ucast (drop_bit 24 ?w) :: byte) = drop_bit 24 ?w" by (rule byte_last)
  have "u32 w = [ucast (drop_bit 0 ?w), ucast (drop_bit 8 ?w), ucast (drop_bit 16 ?w), ucast (drop_bit 24 ?w)]"
    by (simp only: u32_def c [symmetric]) simp
  then show ?thesis using s [of 16] s [of 8] s [of 0] l by simp
qed

lemma u32_length [simp]: "length (u32 w) = 4" and u64_length [simp]: "length (u64 v) = 8"
  by (simp_all add: u32_def u64_def)

lemma uint_of_nat_64: "n < 2 ^ 64 \<Longrightarrow> uint (of_nat n :: 64 word) = int n"
  by (simp add: unsigned_of_nat take_bit_nat_eq_self_iff)

lemma break_out_simps:
  "break_out 0 (uvarint v @ rest) = Ret (v, [], rest)"
  "break_out 5 (u32 w @ rest) = Ret (ucast w, [], rest)"
  "break_out 1 (u64 v @ rest) = Ret (v, [], rest)"
  "length b < 2 ^ 64 \<Longrightarrow> break_out 2 (uvarint (of_nat (length b)) @ b @ rest) = Ret (of_nat (length b), b, rest)"
  by (simp_all add: break_out_def Uvarint_uvarint le_word_u32 le_word_u64 unat_of_nat uint_of_nat_64)

text \<open>
  Signed varints. Writing doubles the number; reading halves it with the arithmetic shift, which
  copies bit 62 into bit 63.
\<close>

lemma decodeSignedInt_even:
  assumes "\<not> bit w 0"
  shows "decodeSignedInt 0 w = Ret (signed_drop_bit 1 w)" "decodeSignedInt 0 (NOT w) = Ret (signed_drop_bit 1 w)"
proof -
  have o: "w AND 1 \<noteq> 0 \<longleftrightarrow> bit w 0" for w :: "64 word" by (simp add: and_one_eq bit_0 odd_iff_mod_2_eq_one)
  have n: "NOT (signed_drop_bit 1 (NOT w)) = signed_drop_bit 1 w"
    by (rule bit_word_eqI) (auto simp: bit_simps)
  show "decodeSignedInt 0 w = Ret (signed_drop_bit 1 w)" "decodeSignedInt 0 (NOT w) = Ret (signed_drop_bit 1 w)"
    using assms n unfolding decodeSignedInt_def Let_def o by (simp_all add: bit_not_iff)
qed

lemma decodeSignedInt_zigzag:
  "decodeSignedInt 0 (if 0 \<le>s v then push_bit 1 v else NOT (push_bit 1 v)) = Ret (signed_drop_bit 1 (push_bit 1 v))"
proof -
  have "\<not> bit (push_bit 1 v) 0" by (simp only: bit_push_bit_iff) simp
  from decodeSignedInt_even [OF this] show ?thesis by (rule if_split [THEN iffD2, OF conjI, OF impI impI])
qed

lemma signed_shift_back: "signed_drop_bit 1 (push_bit 1 v) = v \<longleftrightarrow> (bit v 63 \<longleftrightarrow> bit v 62)" for v :: "64 word"
proof -
  define w where "w = signed_drop_bit 1 (push_bit 1 v)"
  have b: "bit w k = bit v (if k = 63 then 62 else k)" if "k < 64" for k
    using that unfolding w_def bit_signed_drop_bit_iff bit_push_bit_iff by auto
  have "w = v \<longleftrightarrow> (\<forall>k < 64. bit w k = bit v k)" by (auto intro: bit_word_eqI)
  also have "\<dots> \<longleftrightarrow> (bit v 63 \<longleftrightarrow> bit v 62)"
  proof
    assume "\<forall>k < 64. bit w k = bit v k"
    from this [rule_format, of 63] b [of 63] show "bit v 63 \<longleftrightarrow> bit v 62" by simp
  qed (auto simp: b)
  finally show ?thesis unfolding w_def .
qed

lemma sint_range_bits: "(- (2 ^ 62) \<le> sint v \<and> sint v < 2 ^ 62) \<longleftrightarrow> (bit v 63 \<longleftrightarrow> bit v 62)" for v :: "64 word"
proof -
  have b: "bit (sint v) k = bit v (min k 63)" for k 
    using bit_imp_le_length [of v k] by (auto simp: bit_sint_iff min_def)
  have "(- (2 ^ 62) \<le> sint v \<and> sint v < 2 ^ 62) \<longleftrightarrow> signed_take_bit 62 (sint v) = sint v"
    by (simp add: signed_take_bit_int_eq_self_iff)
  also have "\<dots> \<longleftrightarrow> (\<forall>k. bit v (min (min k 62) 63) \<longleftrightarrow> bit v (min k 63))"
    by (simp add: bit_eq_iff bit_signed_take_bit_iff b min.commute)
  also have "\<dots> \<longleftrightarrow> (bit v 63 \<longleftrightarrow> bit v 62)"
  proof
    assume "\<forall>k. bit v (min (min k 62) 63) \<longleftrightarrow> bit v (min k 63)"
    from this [rule_format, of 63] show "bit v 63 \<longleftrightarrow> bit v 62" by simp
  next
    assume e: "bit v 63 \<longleftrightarrow> bit v 62"
    have "bit v (min (min k 62) 63) \<longleftrightarrow> bit v (min k 63)" for k
      using e by (cases "k \<le> 62"; cases "k = 63") (auto simp: min_def)
    then show "\<forall>k. bit v (min (min k 62) 63) \<longleftrightarrow> bit v (min k 63)" by blast
  qed
  finally show ?thesis .
qed

lemma svarint_unfold: "svarint v = uvarint (if 0 \<le>s v then push_bit 1 v else NOT (push_bit 1 v))"
  by (simp add: svarint_def)

text \<open>C39: 
  A signed varint that the encoder writes is broken out and decoded as the same number exactly
  when the number is at least \<open>-2^62\<close> and below \<open>2^62\<close>; outside this range the decoder's
  arithmetic shift gives another number.
\<close>
theorem svarint_roundtrip_iff:
  "(\<exists>u. break_out 0 (svarint v @ rest) = Ret (u, [], rest) \<and> decodeSignedInt 0 u = Ret v) \<longleftrightarrow>
    - (2 ^ 62) \<le> sint v \<and> sint v < 2 ^ 62"
  unfolding sint_range_bits signed_shift_back [symmetric] svarint_unfold break_out_simps
  by (simp only: go.inject prod.inject simp_thms ex_simps decodeSignedInt_zigzag)

end
