(* ===== verification/Protobuf_Field.thy ===== *)
theory Protobuf_Field
  imports Protobuf_Wire Go_Strings
begin

text \<open>
  The types and values that \<open>imported/protobuf\<close> inspects by reflection, the tags of struct
  fields (\<open>field.go\<close>) and the registry of interface generators (\<open>interface.go\<close>).
\<close>

section \<open>Types and values\<close>

text \<open>
  \<open>reflect.Kind\<close> of the basic types. \<open>int\<close> and \<open>uint\<close> have 64 bits. \<open>KOther\<close> is every
  kind that neither side of the codec knows (complex numbers, channels, functions, ...).
\<close>

datatype kind =
    KBool | KInt | KInt8 | KInt16 | KInt32 | KInt64
  | KUint | KUint8 | KUint16 | KUint32 | KUint64
  | KFloat32 | KFloat64 | KString | KOther

text \<open>
  A basic type is predeclared (\<open>int32\<close>), one of the package's own \<open>Sfixed32\<close>, \<open>Sfixed64\<close>,
  \<open>Ufixed32\<close>, \<open>Ufixed64\<close> (\<open>Fixed\<close> with the kind), or any other defined type.
\<close>

datatype tname = Predeclared | Fixed | Defined string

text \<open>
  \<open>reflect.Type\<close>. A struct type stands for its name, so that types may be recursive; its
  fields are in the environment. \<open>TSlice d e\<close> is the slice type of \<open>e\<close>, \<open>d\<close> when it is a
  defined type.
\<close>

datatype gtype =
    TPrim tname kind
  | TTime
  | TStruct string
  | TPtr gtype
  | TSlice bool gtype
  | TArray nat gtype
  | TMap gtype gtype
  | TInterface string

text \<open>
  \<open>reflect.Value\<close>. Slices and arrays with elements of kind \<open>uint8\<close> are \<open>VBytes\<close>, the others
  \<open>VList\<close>; the code never tells a nil slice or map from an empty one. A map lists its entries
  in the order of \<open>MapKeys\<close>. Floating-point numbers are their bits and a time is the
  number of nanoseconds since the epoch. An interface value is nil (\<open>VNil\<close>), an object
  that marshals itself (\<open>VObj\<close>), or a value of another dynamic type (\<open>VDyn\<close>).
  \<open>VOpaque\<close> is a value of a kind that the codec cannot handle.
\<close>

datatype 'o gval =
    VBool bool
  | VInt "64 word"
  | VUint "64 word"
  | VF32 "32 word"
  | VF64 "64 word"
  | VString bytes
  | VTime int
  | VStruct "'o gval list"
  | VPtr "'o gval option"
  | VBytes bytes
  | VList "'o gval list"
  | VMap "('o gval \<times> 'o gval) list"
  | VNil
  | VObj 'o
  | VDyn gtype "'o gval"
  | VOpaque

text \<open>\<open>reflect.StructField\<close>; \<open>f_Tag\<close> is the value of the key \<open>protobuf\<close> of the tag.\<close>

record sfield =
  f_Name :: string
  f_Tag :: string
  f_Anonymous :: bool
  f_Exported :: bool
  f_Type :: gtype

text \<open>
  What the codec gets from outside: the declared structs and their zero values; for objects
  that marshal themselves \<open>MarshalBinary\<close>, \<open>MarshalID\<close> (\<open>None\<close> when the type does not have
  it) and \<open>UnmarshalBinary\<close>; the structs whose pointers are \<open>BinaryUnmarshaler\<close>s; and the
  conversion of a \<open>float32\<close> to \<open>float64\<close> and back, on the bits.
\<close>

record 'o penv =
  pe_struct :: "string \<Rightarrow> sfield list"
  pe_zero :: "string \<Rightarrow> 'o gval"
  pe_Marshal :: "'o \<Rightarrow> (pb_error, bytes) go"
  pe_ID :: "'o \<Rightarrow> bytes option"
  pe_Unmarshal :: "'o \<Rightarrow> bytes \<Rightarrow> (pb_error, 'o) go"
  pe_self :: "string \<Rightarrow> (bytes \<Rightarrow> (pb_error, 'o gval) go) option"
  pe_f32 :: "32 word \<Rightarrow> 32 word"

text \<open>\<open>reflect.Zero\<close>.\<close>

fun zero :: "'o penv \<Rightarrow> gtype \<Rightarrow> 'o gval" where
  "zero E (TPrim _ k) =
    (if k = KBool then VBool False
     else if k \<in> {KInt, KInt8, KInt16, KInt32, KInt64} then VInt 0
     else if k \<in> {KUint, KUint8, KUint16, KUint32, KUint64} then VUint 0
     else if k = KFloat32 then VF32 0
     else if k = KFloat64 then VF64 0
     else if k = KString then VString []
     else VOpaque)"
| "zero E TTime = VTime (- 62135596800000000000)"
| "zero E (TStruct n) = pe_zero E n"
| "zero E (TPtr _) = VPtr None"
| "zero E (TSlice _ e) = (case e of TPrim _ KUint8 \<Rightarrow> VBytes [] | _ \<Rightarrow> VList [])"
| "zero E (TArray n e) = (case e of TPrim _ KUint8 \<Rightarrow> VBytes (replicate n 0) | _ \<Rightarrow> VList (replicate n (zero E e)))"
| "zero E (TMap _ _) = VMap []"
| "zero E (TInterface _) = VNil"

section \<open>Tags and fields\<close>

datatype TagPrefix = TagNone | TagOptional | TagRequired

fun ParseTag_parts :: "string list \<Rightarrow> int \<times> TagPrefix \<times> string \<Rightarrow> int \<times> TagPrefix \<times> string" where
  "ParseTag_parts [] r = r"
| "ParseTag_parts (part # parts) (n, opt, name) =
    ParseTag_parts parts
      (if part = ''opt'' then (n, TagOptional, name)
       else if part = ''req'' then (n, TagRequired, name)
       else (case Atoi part of (i, ok) \<Rightarrow> if ok then (i, opt, name) else (n, opt, part)))"

definition ParseTag :: "sfield \<Rightarrow> int \<times> TagPrefix \<times> string" where
  "ParseTag f = (if f_Tag f = [] then (0, TagNone, []) else ParseTag_parts (Split (f_Tag f) '','') (0, TagNone, []))"

record ProtoField =
  pf_ID :: "64 word"
  pf_Prefix :: TagPrefix
  pf_Name :: string
  pf_Index :: "nat list"
  pf_Field :: sfield

definition Required :: "ProtoField \<Rightarrow> bool" where
  "Required p \<longleftrightarrow> pf_Prefix p = TagRequired \<or> (case f_Type (pf_Field p) of TPtr _ \<Rightarrow> False | _ \<Rightarrow> True)"

text \<open>
  \<open>v.NumField\<close> and \<open>v.Field\<close> after the pointers: the fields of a struct. On another kind
  \<open>NumField\<close> panics. The fields of \<open>time.Time\<close> are not exported.
\<close>

definition time_fields :: "sfield list" where
  "time_fields =
    [\<lparr>f_Name = ''wall'', f_Tag = [], f_Anonymous = False, f_Exported = False, f_Type = TPrim Predeclared KUint64\<rparr>,
     \<lparr>f_Name = ''ext'', f_Tag = [], f_Anonymous = False, f_Exported = False, f_Type = TPrim Predeclared KInt64\<rparr>,
     \<lparr>f_Name = ''loc'', f_Tag = [], f_Anonymous = False, f_Exported = False, f_Type = TPtr (TStruct ''time.Location'')\<rparr>]"

fun type_fields :: "(string \<Rightarrow> sfield list) \<Rightarrow> gtype \<Rightarrow> (pb_error, sfield list) go" where
  "type_fields S (TPtr t) = type_fields S t"
| "type_fields S (TStruct n) = Ret (S n)"
| "type_fields S TTime = Ret time_fields"
| "type_fields S _ = Err (PE ''reflect: NumField of non-struct type'')"

text \<open>
  \<open>innerFieldIndexes\<close>, its loop over the numbered fields with the current \<open>*id\<close>: the fields, flattened over the embedded structs, and the last \<open>*id\<close>. \<open>None\<close>: the recursion
  does not end, which happens when a struct embeds a pointer to itself.
\<close>

definition next_id :: "sfield \<Rightarrow> 64 word \<Rightarrow> 64 word" where
  "next_id f n = (case ParseTag f of (tid, _, _) \<Rightarrow> if tid \<noteq> 0 then of_int tid else n + 1)"

definition proto_field :: "nat \<Rightarrow> 64 word \<Rightarrow> sfield \<Rightarrow> ProtoField" where
  "proto_field i n f = (case ParseTag f of (_, pre, name) \<Rightarrow>
    \<lparr>pf_ID = n, pf_Prefix = pre, pf_Name = name, pf_Index = [i], pf_Field = f\<rparr>)"

fun is_Ret :: "('e, 'a) go \<Rightarrow> bool" where
  "is_Ret (Ret _) = True"
| "is_Ret _ = False"

definition join_fields :: "nat \<Rightarrow> (pb_error, ProtoField list) go \<Rightarrow> (pb_error, ProtoField list) go \<Rightarrow> (pb_error, ProtoField list) go" where
  "join_fields i r r' =
    go_bind r (\<lambda>inner. go_bind r' (\<lambda>out. Ret (map (\<lambda>p. p\<lparr>pf_Index := i # pf_Index p\<rparr>) inner @ out)))"

partial_function (option) innerFieldIndexes_loop ::
  "(string \<Rightarrow> sfield list) \<Rightarrow> 64 word \<Rightarrow> (nat \<times> sfield) list \<Rightarrow> ((pb_error, ProtoField list) go \<times> 64 word) option" where
  "innerFieldIndexes_loop S n fs =
    (case fs of
       [] \<Rightarrow> Some (Ret [], n)
     | (i, f) # fs' \<Rightarrow>
         if f_Anonymous f then
           (case type_fields S (f_Type f) of
              Ret inner \<Rightarrow>
                Option.bind (innerFieldIndexes_loop S (next_id f n - 1) (enumerate 0 inner)) (\<lambda>x.
                  if is_Ret (fst x) then
                    Option.bind (innerFieldIndexes_loop S (snd x) fs') (\<lambda>y. Some (join_fields i (fst x) (fst y), snd y))
                  else Some x)
            | Err e \<Rightarrow> Some (Err e, n)
            | Panic \<Rightarrow> Some (Panic, n))
         else
           Option.bind (innerFieldIndexes_loop S (next_id f n) fs') (\<lambda>y.
             Some (go_bind (fst y) (\<lambda>out. Ret (proto_field i (next_id f n) f # out)), snd y)))"

definition innerFieldIndexes ::
  "(string \<Rightarrow> sfield list) \<Rightarrow> 64 word \<Rightarrow> gtype \<Rightarrow> ((pb_error, ProtoField list) go \<times> 64 word) option" where
  "innerFieldIndexes S n t =
    (case type_fields S t of
       Ret fs \<Rightarrow> innerFieldIndexes_loop S n (enumerate 0 fs) | Err e \<Rightarrow> Some (Err e, n) | Panic \<Rightarrow> Some (Panic, n))"

text \<open>
  \<open>ProtoFields\<close> on a type that is not in the cache. A recursion without end overflows the
  stack, which ends the program.
\<close>

definition compute_fields :: "(string \<Rightarrow> sfield list) \<Rightarrow> gtype \<Rightarrow> (pb_error, ProtoField list) go" where
  "compute_fields S t =
    (case innerFieldIndexes S 0 t of
       None \<Rightarrow> Panic
     | Some (r, _) \<Rightarrow> go_bind r (\<lambda>out.
         if distinct (map pf_ID out) then Ret out else Err (PE ''protobuf ID reused'')))"

text \<open>\<open>ProtoFields\<close> with its cache.\<close>

definition ProtoFields ::
  "(string \<Rightarrow> sfield list) \<Rightarrow> gtype \<Rightarrow> (gtype \<Rightarrow> ProtoField list option) \<Rightarrow>
    (pb_error, ProtoField list) go \<times> (gtype \<Rightarrow> ProtoField list option)" where
  "ProtoFields S t cache =
    (case cache t of
       Some idx \<Rightarrow> (Ret idx, cache)
     | None \<Rightarrow>
         (case compute_fields S t of
            Ret idx \<Rightarrow> (Ret idx, cache(t \<mapsto> idx))
          | r \<Rightarrow> (r, cache)))"

section \<open>Interface generators\<close>

text \<open>
  \<open>generatorRegistry\<close>: the generator of an identifier, given by the object it makes.
\<close>

type_synonym 'o registry = "bytes \<Rightarrow> 'o gval option"

definition newInterfaceRegistry :: "'o registry" where
  "newInterfaceRegistry = (\<lambda>_. None)"

definition reg_get :: "'o registry \<Rightarrow> bytes \<Rightarrow> 'o gval option" where
  "reg_get ir key = ir key"

definition register_generator :: "'o penv \<Rightarrow> 'o gval \<Rightarrow> 'o registry \<Rightarrow> (pb_error, 'o registry) go" where
  "register_generator E g ir =
    (case g of
       VObj x \<Rightarrow> (case pe_ID E x of Some key \<Rightarrow> Ret (ir(key \<mapsto> g)) | None \<Rightarrow> Panic)
     | _ \<Rightarrow> Panic)"

definition RegisterInterface :: "'o penv \<Rightarrow> 'o gval \<Rightarrow> 'o registry \<Rightarrow> (pb_error, 'o registry) go" where
  "RegisterInterface E f gens = register_generator E f gens"

section \<open>The cache\<close>

text \<open>
  The cache of \<open>ProtoFields\<close> only holds what a fresh computation gives, and so every call
  answers as the uncached function, whatever was asked before.
\<close>

definition fields_cache_ok :: "(string \<Rightarrow> sfield list) \<Rightarrow> (gtype \<Rightarrow> ProtoField list option) \<Rightarrow> bool" where
  "fields_cache_ok S cache \<longleftrightarrow> (\<forall>t idx. cache t = Some idx \<longrightarrow> compute_fields S t = Ret idx)"

lemma fields_cache_empty: "fields_cache_ok S (\<lambda>_. None)"
  by (simp add: fields_cache_ok_def)

lemma ProtoFields_cached:
  assumes "fields_cache_ok S cache" "ProtoFields S t cache = (r, cache')"
  shows "r = compute_fields S t" "fields_cache_ok S cache'"
  using assms by (auto simp: ProtoFields_def fields_cache_ok_def split: option.splits go.splits if_splits)

section \<open>The fields of a struct\<close>

fun strip_ptr :: "gtype \<Rightarrow> gtype" where
  "strip_ptr (TPtr t) = strip_ptr t"
| "strip_ptr t = t"

lemma type_fields_cases:
  assumes "type_fields S t = Ret fs"
  obtains n where "strip_ptr t = TStruct n" "fs = S n" | "strip_ptr t = TTime" "fs = time_fields"
  using assms by (induction t) auto

text \<open>A rank that decreases from every struct to the structs that it embeds.\<close>

definition embeds_below :: "(string \<Rightarrow> sfield list) \<Rightarrow> (string \<Rightarrow> nat) \<Rightarrow> bool" where
  "embeds_below S r \<longleftrightarrow> (\<forall>n m. \<forall>f \<in> set (S n). f_Anonymous f \<longrightarrow> strip_ptr (f_Type f) = TStruct m \<longrightarrow> r m < r n)"

lemma embeds_belowD:
  "embeds_below S r \<Longrightarrow> f_Anonymous (S n ! a) \<Longrightarrow> strip_ptr (f_Type (S n ! a)) = TStruct m \<Longrightarrow> a < length (S n) \<Longrightarrow> r m < r n"
  unfolding embeds_below_def by (meson nth_mem)

lemma plain_fields_return:
  assumes "\<forall>(i, f) \<in> set fs. \<not> f_Anonymous f"
  shows "\<exists>res. innerFieldIndexes_loop S n fs = Some res"
  using assms
proof (induction fs arbitrary: n)
  case Nil
  then show ?case by (subst innerFieldIndexes_loop.simps) simp
next
  case (Cons x fs)
  obtain i f where x: "x = (i, f)" by force
  from Cons have "\<not> f_Anonymous f" "\<exists>res. innerFieldIndexes_loop S (next_id f n) fs = Some res"
    unfolding x by auto
  then show ?case unfolding x by (subst innerFieldIndexes_loop.simps) auto
qed

lemma time_fields_plain: "\<forall>(i, f) \<in> set (enumerate 0 time_fields). \<not> f_Anonymous f"
  by (simp add: time_fields_def)

lemma inner_fields_return:
  assumes "embeds_below S r" "\<forall>(i, f) \<in> set fs. \<forall>m. f_Anonymous f \<longrightarrow> strip_ptr (f_Type f) = TStruct m \<longrightarrow> r m < b"
  shows "\<exists>res. innerFieldIndexes_loop S n fs = Some res"
  using assms(2)
proof (induction b arbitrary: n fs rule: less_induct)
  case (less b)
  note outer = less.IH
  show ?case using less.prems
  proof (induction fs arbitrary: n)
    case Nil
    then show ?case by (subst innerFieldIndexes_loop.simps) simp
  next
    case (Cons x fs)
    obtain i f where x: "x = (i, f)" by force
    have rest: "\<exists>res. innerFieldIndexes_loop S k fs = Some res" for k using Cons by auto
    have inner: "\<exists>res. innerFieldIndexes_loop S k (enumerate 0 gs) = Some res"
      if g: "f_Anonymous f" "type_fields S (f_Type f) = Ret gs" for k gs
      using g(2)
    proof (cases rule: type_fields_cases)
      case (1 m)
      then have "r m < b" using Cons.prems g(1) unfolding x by auto
      then show ?thesis unfolding 1(2)
        by (rule outer) (auto simp: in_set_enumerate_eq intro: embeds_belowD [OF assms(1)])
    next
      case 2
      show ?thesis unfolding 2(2) by (rule plain_fields_return [OF time_fields_plain])
    qed
    show ?case
    proof (cases "f_Anonymous f")
      case True
      show ?thesis
      proof (cases "type_fields S (f_Type f)")
        case (Ret gs)
        obtain y where y: "innerFieldIndexes_loop S (next_id f n - 1) (enumerate 0 gs) = Some y"
          using inner [OF True Ret] by blast
        obtain z where z: "innerFieldIndexes_loop S (snd y) fs = Some z" using rest by blast
        show ?thesis unfolding x using True Ret y z by (subst innerFieldIndexes_loop.simps) simp
      qed (use True in \<open>(subst innerFieldIndexes_loop.simps, simp add: x)+\<close>)
    next
      case False
      obtain z where "innerFieldIndexes_loop S (next_id f n) fs = Some z" using rest by blast
      with False show ?thesis unfolding x by (subst innerFieldIndexes_loop.simps) simp
    qed
  qed
qed

text \<open>
  \<open>innerFieldIndexes\<close> returns for every type when no struct embeds itself, directly or through
  other embedded structs or pointers.
\<close>
theorem innerFieldIndexes_returns:
  assumes "embeds_below S r"
  shows "\<exists>res. innerFieldIndexes S n t = Some res"
proof (cases "type_fields S t")
  case (Ret fs)
  then have "\<exists>res. innerFieldIndexes_loop S n (enumerate 0 fs) = Some res"
  proof (cases rule: type_fields_cases)
    case (1 m)
    show ?thesis
      by (rule inner_fields_return [OF assms, where b = "r m"])
        (auto simp: in_set_enumerate_eq 1(2) intro: embeds_belowD [OF assms])
  next
    case 2
    show ?thesis unfolding 2(2) by (rule plain_fields_return [OF time_fields_plain])
  qed
  with Ret show ?thesis by (simp add: innerFieldIndexes_def)
qed (simp_all add: innerFieldIndexes_def)

definition ex_embed :: "string \<Rightarrow> sfield list" where
  "ex_embed n =
    (if n = ''Outer'' then
       [\<lparr>f_Name = ''Inner'', f_Tag = [], f_Anonymous = True, f_Exported = True, f_Type = TPtr (TStruct ''Inner'')\<rparr>,
        \<lparr>f_Name = ''X'', f_Tag = [], f_Anonymous = False, f_Exported = True, f_Type = TPtr (TStruct ''Outer'')\<rparr>]
     else [\<lparr>f_Name = ''Y'', f_Tag = [], f_Anonymous = False, f_Exported = True, f_Type = TPrim Predeclared KString\<rparr>])"

theorem innerFieldIndexes_returns_witness:
  "embeds_below ex_embed (\<lambda>n. if n = ''Outer'' then 1 else 0) \<and> (\<exists>res. innerFieldIndexes ex_embed 0 (TStruct ''Outer'') = Some res)"
proof -
  have "embeds_below ex_embed (\<lambda>n. if n = ''Outer'' then 1 else 0)"
    by (auto simp: embeds_below_def ex_embed_def split: if_splits)
  with innerFieldIndexes_returns [OF this] show ?thesis by blast
qed

text \<open>The fields of a struct without embedded fields.\<close>

fun flat_fields :: "nat \<Rightarrow> 64 word \<Rightarrow> sfield list \<Rightarrow> ProtoField list" where
  "flat_fields i n [] = []"
| "flat_fields i n (f # fs) = proto_field i (next_id f n) f # flat_fields (Suc i) (next_id f n) fs"

lemma flat_loop:
  assumes "\<forall>f \<in> set fs. \<not> f_Anonymous f"
  shows "\<exists>n'. innerFieldIndexes_loop S n (enumerate i fs) = Some (Ret (flat_fields i n fs), n')"
  using assms
proof (induction fs arbitrary: i n)
  case Nil
  then show ?case by (subst innerFieldIndexes_loop.simps) simp
next
  case (Cons f fs)
  then obtain n' where "innerFieldIndexes_loop S (next_id f n) (enumerate (Suc i) fs)
      = Some (Ret (flat_fields (Suc i) (next_id f n) fs), n')"
    by (meson list.set_intros(2))
  with Cons.prems show ?case by (subst innerFieldIndexes_loop.simps) simp
qed

lemma compute_fields_flat:
  assumes "\<forall>f \<in> set (S n). \<not> f_Anonymous f"
  shows "compute_fields S (TStruct n) =
    (if distinct (map pf_ID (flat_fields 0 0 (S n))) then Ret (flat_fields 0 0 (S n)) else Err (PE ''protobuf ID reused''))"
proof -
  obtain n' where "innerFieldIndexes_loop S 0 (enumerate 0 (S n)) = Some (Ret (flat_fields 0 0 (S n)), n')"
    using flat_loop [OF assms] by blast
  then show ?thesis by (simp add: compute_fields_def innerFieldIndexes_def)
qed

lemma flat_fields_length [simp]: "length (flat_fields i n fs) = length fs"
  by (induction fs arbitrary: i n) auto

lemma proto_field_simps [simp]:
  "pf_ID (proto_field i n f) = n" "pf_Index (proto_field i n f) = [i]" "pf_Field (proto_field i n f) = f"
  by (auto simp: proto_field_def split: prod.splits)

lemma flat_fields_nth:
  "k < length fs \<Longrightarrow> pf_Index (flat_fields i n fs ! k) = [i + k] \<and> pf_Field (flat_fields i n fs ! k) = fs ! k"
proof (induction fs arbitrary: i n k)
  case (Cons f fs)
  then show ?case by (cases k) auto
qed simp

end
