(* ===== verification/Protobuf_Encode.thy ===== *)
theory Protobuf_Encode
  imports Protobuf_Field
begin

text \<open>
  The encoder of \<open>imported/protobuf/encode.go\<close>. Every function returns the bytes that it
  appends to the buffer. The encoder reports failures by panics: \<open>Err\<close> is such a panic in flight,
  with its text; a panic whose value is not a string is \<open>PE_other\<close>. \<open>Panic\<close> is the
  overflow of the stack, which no \<open>recover\<close> stops, and at the level of \<open>Encode\<close> a panic
  that reaches the caller.
\<close>

section \<open>Single values\<close>

abbreviation bool_word :: "bool \<Rightarrow> 64 word" where
  "bool_word b \<equiv> (if b then 1 else 0)"

definition delimited :: "64 word \<Rightarrow> bytes \<Rightarrow> bytes" where
  "delimited key b = uvarint (key OR 2) @ uvarint (of_nat (length b)) @ b"

text \<open>\<open>val.Bool()\<close>, \<open>val.Int()\<close>, ... on a value of that kind.\<close>

fun val_Bool :: "'o gval \<Rightarrow> bool" where
  "val_Bool (VBool b) = b"
| "val_Bool _ = False"

fun val_Int :: "'o gval \<Rightarrow> 64 word" where
  "val_Int (VInt v) = v"
| "val_Int _ = 0"

fun val_Uint :: "'o gval \<Rightarrow> 64 word" where
  "val_Uint (VUint v) = v"
| "val_Uint _ = 0"

fun val_F32 :: "'o gval \<Rightarrow> 32 word" where
  "val_F32 (VF32 v) = v"
| "val_F32 _ = 0"

fun val_F64 :: "'o gval \<Rightarrow> 64 word" where
  "val_F64 (VF64 v) = v"
| "val_F64 _ = 0"

fun val_String :: "'o gval \<Rightarrow> bytes" where
  "val_String (VString s) = s"
| "val_String _ = []"

fun val_Time :: "'o gval \<Rightarrow> int" where
  "val_Time (VTime t) = t"
| "val_Time _ = 0"

text \<open>
  The first switch of \<open>encoder.value\<close>, over the dynamic type of \<open>val.Interface()\<close>; for an
  interface value this is the type of the value inside.
\<close>

definition value_predeclared :: "64 word \<Rightarrow> kind \<Rightarrow> 'o gval \<Rightarrow> bytes option" where
  "value_predeclared key k v =
    (case k of
       KBool \<Rightarrow> Some (uvarint (key OR 0) @ uvarint (bool_word (val_Bool v)))
     | KInt \<Rightarrow> Some (uvarint (key OR 0) @ svarint (val_Int v))
     | KInt32 \<Rightarrow> Some (uvarint (key OR 0) @ svarint (val_Int v))
     | KInt64 \<Rightarrow> Some (uvarint (key OR 0) @ svarint (val_Int v))
     | KUint32 \<Rightarrow> Some (uvarint (key OR 0) @ uvarint (val_Uint v))
     | KUint64 \<Rightarrow> Some (uvarint (key OR 0) @ uvarint (val_Uint v))
     | KFloat32 \<Rightarrow> Some (uvarint (key OR 5) @ u32 (val_F32 v))
     | KFloat64 \<Rightarrow> Some (uvarint (key OR 1) @ u64 (val_F64 v))
     | KString \<Rightarrow> Some (delimited key (val_String v))
     | _ \<Rightarrow> None)"

definition value_fixed :: "64 word \<Rightarrow> kind \<Rightarrow> 'o gval \<Rightarrow> bytes option" where
  "value_fixed key k v =
    (case k of
       KInt32 \<Rightarrow> Some (uvarint (key OR 5) @ u32 (ucast (val_Int v)))
     | KInt64 \<Rightarrow> Some (uvarint (key OR 1) @ u64 (val_Int v))
     | KUint32 \<Rightarrow> Some (uvarint (key OR 5) @ u32 (ucast (val_Uint v)))
     | KUint64 \<Rightarrow> Some (uvarint (key OR 1) @ u64 (val_Uint v))
     | _ \<Rightarrow> None)"

definition value_typed :: "64 word \<Rightarrow> gtype \<Rightarrow> 'o gval \<Rightarrow> bytes option" where
  "value_typed key t v =
    (case t of
       TPrim Predeclared k \<Rightarrow> value_predeclared key k v
     | TPrim Fixed k \<Rightarrow> value_fixed key k v
     | TTime \<Rightarrow> Some (uvarint (key OR 1) @ u64 (of_int (val_Time v)))
     | _ \<Rightarrow> None)"

definition value_fast :: "64 word \<Rightarrow> gtype \<Rightarrow> 'o gval \<Rightarrow> bytes option" where
  "value_fast key t v =
    (case t of
       TInterface _ \<Rightarrow> (case v of VDyn t' v' \<Rightarrow> value_typed key t' v' | _ \<Rightarrow> None)
     | _ \<Rightarrow> value_typed key t v)"

text \<open>The basic kinds of the second switch of \<open>encoder.value\<close>, over \<open>val.Kind()\<close>.\<close>

definition value_kind :: "'o penv \<Rightarrow> 64 word \<Rightarrow> kind \<Rightarrow> 'o gval \<Rightarrow> (pb_error, bytes) go" where
  "value_kind E key k v =
    (case k of
       KBool \<Rightarrow> Ret (uvarint (key OR 0) @ uvarint (bool_word (val_Bool v)))
     | KInt \<Rightarrow> Ret (uvarint (key OR 0) @ svarint (val_Int v))
     | KInt32 \<Rightarrow> Ret (uvarint (key OR 0) @ svarint (val_Int v))
     | KInt64 \<Rightarrow> Ret (uvarint (key OR 0) @ svarint (val_Int v))
     | KUint32 \<Rightarrow> Ret (uvarint (key OR 0) @ uvarint (val_Uint v))
     | KUint64 \<Rightarrow> Ret (uvarint (key OR 0) @ uvarint (val_Uint v))
     | KFloat32 \<Rightarrow> Ret (uvarint (key OR 5) @ u32 (pe_f32 E (val_F32 v)))
     | KFloat64 \<Rightarrow> Ret (uvarint (key OR 1) @ u64 (val_F64 v))
     | KString \<Rightarrow> Ret (delimited key (val_String v))
     | _ \<Rightarrow> Err (PE ''unsupported field Kind''))"

section \<open>Slices\<close>

text \<open>How \<open>encoder.slice\<close> writes the elements of the slice types that its switch names.\<close>

definition slice_elem :: "gtype \<Rightarrow> ('o gval \<Rightarrow> bytes) option" where
  "slice_elem e =
    (case e of
       TPrim Predeclared k \<Rightarrow>
         (case k of
            KBool \<Rightarrow> Some (\<lambda>x. uvarint (bool_word (val_Bool x)))
          | KInt32 \<Rightarrow> Some (\<lambda>x. svarint (val_Int x))
          | KInt64 \<Rightarrow> Some (\<lambda>x. svarint (val_Int x))
          | KUint32 \<Rightarrow> Some (\<lambda>x. uvarint (val_Uint x))
          | KUint64 \<Rightarrow> Some (\<lambda>x. uvarint (val_Uint x))
          | KFloat32 \<Rightarrow> Some (\<lambda>x. u32 (val_F32 x))
          | KFloat64 \<Rightarrow> Some (\<lambda>x. u64 (val_F64 x))
          | _ \<Rightarrow> None)
     | TPrim Fixed k \<Rightarrow>
         (case k of
            KInt32 \<Rightarrow> Some (\<lambda>x. u32 (ucast (val_Int x)))
          | KInt64 \<Rightarrow> Some (\<lambda>x. u64 (val_Int x))
          | KUint32 \<Rightarrow> Some (\<lambda>x. u32 (ucast (val_Uint x)))
          | KUint64 \<Rightarrow> Some (\<lambda>x. u64 (val_Uint x))
          | _ \<Rightarrow> None)
     | _ \<Rightarrow> None)"

text \<open>
  The typed part of \<open>encoder.slice\<close>: packed numbers, bytes and strings; \<open>None\<close> for the types
  that go on to \<open>sliceReflect\<close>, among them the defined slice types and the arrays.
\<close>

definition slice_fast :: "64 word \<Rightarrow> gtype \<Rightarrow> 'o gval \<Rightarrow> bytes option" where
  "slice_fast key t v =
    (case t of
       TSlice False e \<Rightarrow>
         (case v of
            VBytes bs \<Rightarrow> if e = TPrim Predeclared KUint8 then Some (delimited key bs) else None
          | VList xs \<Rightarrow>
              (case slice_elem e of
                 Some f \<Rightarrow> Some (delimited key (concat (map f xs)))
               | None \<Rightarrow>
                   if e = TPrim Predeclared KString
                   then Some (concat (map (\<lambda>x. delimited key (val_String x)) xs))
                   else None)
          | _ \<Rightarrow> None)
     | _ \<Rightarrow> None)"

text \<open>The packed kinds of \<open>sliceReflect\<close>.\<close>

definition reflect_elem :: "'o penv \<Rightarrow> kind \<Rightarrow> ('o gval \<Rightarrow> bytes) option" where
  "reflect_elem E k =
    (case k of
       KBool \<Rightarrow> Some (\<lambda>x. uvarint (bool_word (val_Bool x)))
     | KInt \<Rightarrow> Some (\<lambda>x. svarint (val_Int x))
     | KInt32 \<Rightarrow> Some (\<lambda>x. svarint (val_Int x))
     | KInt64 \<Rightarrow> Some (\<lambda>x. svarint (val_Int x))
     | KUint32 \<Rightarrow> Some (\<lambda>x. uvarint (val_Uint x))
     | KUint64 \<Rightarrow> Some (\<lambda>x. uvarint (val_Uint x))
     | KFloat32 \<Rightarrow> Some (\<lambda>x. u32 (pe_f32 E (val_F32 x)))
     | KFloat64 \<Rightarrow> Some (\<lambda>x. u64 (val_F64 x))
     | _ \<Rightarrow> None)"

definition elem_kind :: "gtype \<Rightarrow> kind option" where
  "elem_kind e = (case e of TPrim _ k \<Rightarrow> Some k | _ \<Rightarrow> None)"

text \<open>
  \<open>sliceReflect\<close> up to its loop over separate elements: \<open>None\<close> when the loop runs. Bytes of a
  defined element type cannot be converted to \<open>[]byte\<close>.
\<close>

definition slice_packed :: "'o penv \<Rightarrow> 64 word \<Rightarrow> gtype \<Rightarrow> 'o gval \<Rightarrow> (pb_error, bytes) go option" where
  "slice_packed E key e v =
    (case elem_kind e of
       Some k \<Rightarrow>
         if k = KUint8 then
           Some (case v of
              VBytes bs \<Rightarrow>
                if e = TPrim Predeclared KUint8 then Ret (delimited key bs)
                else Err (PE ''reflect.Value.Convert: value cannot be converted to []uint8'')
            | _ \<Rightarrow> Err PE_other)
         else (case reflect_elem E k of
              Some f \<Rightarrow> Some (case v of VList xs \<Rightarrow> Ret (delimited key (concat (map f xs))) | _ \<Rightarrow> Err PE_other)
            | None \<Rightarrow> None)
     | None \<Rightarrow>
         (case e of
            TSlice _ e' \<Rightarrow> if elem_kind e' = Some KUint8 then None
              else Some (Err (PE ''protobuf: no support for 2-dimensional array except for [][]byte''))
          | TArray _ e' \<Rightarrow> if elem_kind e' = Some KUint8 then None
              else Some (Err (PE ''protobuf: no support for 2-dimensional array except for [][]byte''))
          | _ \<Rightarrow> None))"

section \<open>Messages\<close>

text \<open>
  \<open>FieldByIndex\<close>: the field, and whether it is addressable when the struct is or not; the
  fields behind an embedded pointer always are.
\<close>

fun FieldByIndex :: "bool \<Rightarrow> 'o gval \<Rightarrow> nat list \<Rightarrow> (pb_error, 'o gval \<times> bool) go" where
  "FieldByIndex ca (VStruct vs) [i] = (if i < length vs then Ret (vs ! i, ca) else Err PE_other)"
| "FieldByIndex ca (VStruct vs) (i # j # p) =
    (if i < length vs then
       (case vs ! i of
          VPtr None \<Rightarrow> Err (PE ''reflect: indirection through nil pointer to embedded struct'')
        | VPtr (Some w) \<Rightarrow> FieldByIndex True w (j # p)
        | w \<Rightarrow> FieldByIndex ca w (j # p))
     else Err PE_other)"
| "FieldByIndex ca (VTime _) [i] = Ret (VOpaque, ca)"
| "FieldByIndex ca _ _ = Err PE_other"

text \<open>The check of a map's values in \<open>handleMap\<close>.\<close>

definition map_elem_check :: "gtype \<Rightarrow> 'o gval \<Rightarrow> (pb_error, unit) go" where
  "map_elem_check vt v =
    (case vt of
       TPtr _ \<Rightarrow> (case v of VPtr None \<Rightarrow> Err (PE ''proto: map has nil element'') | _ \<Rightarrow> Ret ())
     | TSlice _ e \<Rightarrow> if elem_kind e = Some KUint8 then Ret ()
         else Err (PE ''protobuf: map only support []byte or string as repeated value'')
     | TArray _ e \<Rightarrow> if elem_kind e = Some KUint8 then Ret ()
         else Err (PE ''protobuf: map only support []byte or string as repeated value'')
     | _ \<Rightarrow> Ret ())"

text \<open>An object that marshals itself, with the type tag when its generator is registered.\<close>

definition value_obj :: "'o penv \<Rightarrow> 'o registry \<Rightarrow> 64 word \<Rightarrow> 'o \<Rightarrow> (pb_error, bytes) go" where
  "value_obj E G key x =
    go_bind (pe_Marshal E x) (\<lambda>bs.
      case pe_ID E x of
        Some n \<Rightarrow> if reg_get G n \<noteq> None then Ret (delimited key (n @ bs)) else Ret (delimited key bs)
      | None \<Rightarrow> Ret (delimited key bs))"

lemma size_nth: "i < length xs \<Longrightarrow> f (xs ! i) < size_list f xs"
proof (induction xs arbitrary: i)
  case (Cons x xs)
  then show ?case by (cases i) force+
qed simp

definition value_rank :: "'o gval \<Rightarrow> nat" where
  "value_rank v = (case v of VOpaque \<Rightarrow> 0 | _ \<Rightarrow> Suc (size v))"

lemma value_rank_le: "value_rank v \<le> Suc (size v)"
  by (cases v) (simp_all add: value_rank_def)

lemma value_rank_simps [simp]:
  "value_rank (VStruct vs) = Suc (Suc (size_list size vs))" "value_rank (VList vs) = Suc (Suc (size_list size vs))"
  "value_rank (VPtr x) = Suc (Suc (size_option size x))" "value_rank (VDyn t v) = Suc (Suc (size v))"
  "value_rank (VMap kvs) = Suc (Suc (size_list (size_prod size size) kvs))"
  by (simp_all add: value_rank_def)

lemma value_rank_less: "size v < n \<Longrightarrow> value_rank v < Suc n"
  using value_rank_le [of v] by linarith

lemma value_rank_nth: "i < length vs \<Longrightarrow> value_rank (vs ! i) < value_rank (VStruct vs)"
  using size_nth [of i vs size] value_rank_le [of "vs ! i"] by simp

lemma FieldByIndex_rank: "FieldByIndex ca v p = Ret (w, c) \<Longrightarrow> value_rank w < value_rank v"
proof (induction ca v p arbitrary: w c rule: FieldByIndex.induct)
  case (1 ca vs i)
  then show ?case by (auto simp: value_rank_nth [simplified] split: if_splits)
next
  case (2 ca vs i j p)
  then have i: "i < length vs" by (auto split: if_splits)
  note s = value_rank_nth [OF i]
  show ?case
  proof (cases "vs ! i")
    case (VPtr x)
    then obtain y where y: "x = Some y" using 2 i by (cases x) auto
    then have "value_rank w < value_rank y" using 2 i VPtr by auto
    moreover have "value_rank y < value_rank (vs ! i)" by (simp add: VPtr y value_rank_less)
    ultimately show ?thesis using s by linarith
  qed (use 2 i s in force)+
qed (auto simp: value_rank_def)

text \<open>
  \<open>encoder.value\<close>, \<open>encoder.message\<close>, the loop of \<open>message\<close> over the fields, the loop of
  \<open>sliceReflect\<close> over the elements and \<open>handleMap\<close>. \<open>ca\<close> says whether the value is
  addressable; a field can be set when it is exported and addressable.
\<close>

function (sequential)
  enc_value :: "'o penv \<Rightarrow> 'o registry \<Rightarrow> bool \<Rightarrow> 64 word \<Rightarrow> gtype \<Rightarrow> 'o gval \<Rightarrow> TagPrefix \<Rightarrow> (pb_error, bytes) go" and
  enc_message :: "'o penv \<Rightarrow> 'o registry \<Rightarrow> bool \<Rightarrow> gtype \<Rightarrow> 'o gval \<Rightarrow> (pb_error, bytes) go" and
  enc_fields :: "'o penv \<Rightarrow> 'o registry \<Rightarrow> bool \<Rightarrow> 'o gval \<Rightarrow> bool \<Rightarrow> string \<Rightarrow> ProtoField list \<Rightarrow> (pb_error, bytes) go" and
  enc_elems :: "'o penv \<Rightarrow> 'o registry \<Rightarrow> bool \<Rightarrow> 64 word \<Rightarrow> gtype \<Rightarrow> 'o gval list \<Rightarrow> (pb_error, bytes) go" and
  enc_entries :: "'o penv \<Rightarrow> 'o registry \<Rightarrow> 64 word \<Rightarrow> gtype \<Rightarrow> gtype \<Rightarrow> ('o gval \<times> 'o gval) list \<Rightarrow> TagPrefix \<Rightarrow> (pb_error, bytes) go"
where
  "enc_value E G ca key t v pre =
    (case value_fast key t v of
       Some b \<Rightarrow> Ret b
     | None \<Rightarrow>
         (case t of
            TPrim _ k \<Rightarrow> value_kind E key k v
          | TTime \<Rightarrow> Err PE_other
          | TStruct n \<Rightarrow> go_bind (enc_message E G ca t v) (\<lambda>b. Ret (delimited key b))
          | TSlice _ e \<Rightarrow>
              (case slice_fast key t v of
                 Some b \<Rightarrow> Ret b
               | None \<Rightarrow>
                   (case slice_packed E key e v of
                      Some r \<Rightarrow> r
                    | None \<Rightarrow> (case v of VList xs \<Rightarrow> enc_elems E G True key e xs | _ \<Rightarrow> Err PE_other)))
          | TArray _ e \<Rightarrow>
              (case slice_packed E key e v of
                 Some r \<Rightarrow> r
               | None \<Rightarrow> (case v of VList xs \<Rightarrow> enc_elems E G ca key e xs | _ \<Rightarrow> Err PE_other))
          | TPtr t' \<Rightarrow>
              (case v of
                 VPtr None \<Rightarrow> if pre = TagRequired then Err (PE ''required field is nil'') else Ret []
               | VPtr (Some w) \<Rightarrow> enc_value E G True key t' w pre
               | _ \<Rightarrow> Err PE_other)
          | TInterface _ \<Rightarrow>
              (case v of
                 VNil \<Rightarrow> Ret []
               | VObj x \<Rightarrow> value_obj E G key x
               | VDyn t' w \<Rightarrow> enc_value E G False key t' w pre
               | _ \<Rightarrow> Err PE_other)
          | TMap kt vt \<Rightarrow> (case v of VMap kvs \<Rightarrow> enc_entries E G key kt vt kvs pre | _ \<Rightarrow> Err PE_other)))"
| "enc_message E G ca t v =
    go_bind (compute_fields (pe_struct E) t) (\<lambda>pfs. if pfs = [] then Ret [] else enc_fields E G ca v True [] pfs)"
| "enc_fields E G ca v nopub last_name [] =
    (if nopub then Err (PE_field (PE ''struct has no serializable fields'') last_name) else Ret [])"
| "enc_fields E G ca v nopub last_name (pf # pfs) =
    (case FieldByIndex ca v (pf_Index pf) of
       Ret (fv, c) \<Rightarrow>
         if c \<and> f_Exported (pf_Field pf) then
           (case enc_value E G c (push_bit 3 (pf_ID pf)) (f_Type (pf_Field pf)) fv (pf_Prefix pf) of
              Ret b \<Rightarrow> go_bind (enc_fields E G ca v False (f_Name (pf_Field pf)) pfs) (\<lambda>bs. Ret (b @ bs))
            | Err e \<Rightarrow> Err (PE_field e (f_Name (pf_Field pf)))
            | Panic \<Rightarrow> Panic)
         else enc_fields E G ca v nopub (f_Name (pf_Field pf)) pfs
     | Err e \<Rightarrow> Err (PE_field e (f_Name (pf_Field pf)))
     | Panic \<Rightarrow> Panic)"
| "enc_elems E G ca key e [] = Ret []"
| "enc_elems E G ca key e (x # xs) =
    go_bind (enc_value E G ca key e x TagNone) (\<lambda>b. go_bind (enc_elems E G ca key e xs) (\<lambda>bs. Ret (b @ bs)))"
| "enc_entries E G key kt vt [] pre = Ret []"
| "enc_entries E G key kt vt ((k, v) # kvs) pre =
    go_bind (map_elem_check vt v) (\<lambda>_.
    go_bind (enc_value E G False (push_bit 3 1) kt k pre) (\<lambda>b1.
    go_bind (enc_value E G False (push_bit 3 2) vt v pre) (\<lambda>b2.
    go_bind (enc_entries E G key kt vt kvs pre) (\<lambda>bs. Ret (delimited key (b1 @ b2) @ bs)))))"
  by pat_completeness auto

termination
proof (relation "inv_image ({(x, y). x < y} <*lex*> {(x, y). x < y} <*lex*> {(x, y). x < (y :: nat)})
    (\<lambda>z. case z of
       Inl (Inl (E, G, ca, key, t, v, pre)) \<Rightarrow> (value_rank v, 2 :: nat, 0)
     | Inl (Inr (E, G, ca, t, v)) \<Rightarrow> (value_rank v, 1, 0)
     | Inr (Inl (E, G, ca, v, nopub, l, pfs)) \<Rightarrow> (value_rank v, 0, length pfs)
     | Inr (Inr (Inl (E, G, ca, key, e, xs))) \<Rightarrow> (Suc (size_list size xs), 0, 0)
     | Inr (Inr (Inr (E, G, key, kt, vt, kvs, pre))) \<Rightarrow> (Suc (size_list (size_prod size size) kvs), 0, 0))", goal_cases)
  case 1
  have "wf {(x, y). x < (y :: nat)}" using wf_less by (simp add: less_than_def [symmetric] wf_less_than)
  then show ?case by (intro wf_inv_image wf_lex_prod)
qed (auto intro: value_rank_less FieldByIndex_rank)

declare enc_value.simps [simp del] enc_message.simps [simp del]

text \<open>
  \<open>Encode\<close>: the argument is nil or a value with its dynamic type. A panic that is not a
  string makes the type assertion in the deferred function panic again; this happens for a
  nil pointer, where \<open>sval.Type()\<close> panics before the first field.
\<close>

definition Encode :: "'o penv \<Rightarrow> 'o registry \<Rightarrow> (gtype \<times> 'o gval) option \<Rightarrow> (pb_error, bytes) go" where
  "Encode E G structPtr =
    (case structPtr of
       None \<Rightarrow> Ret []
     | Some (TPtr t, VPtr (Some v)) \<Rightarrow>
         (case enc_message E G True t v of Err PE_other \<Rightarrow> Panic | r \<Rightarrow> r)
     | Some (TPtr t, _) \<Rightarrow> Panic
     | Some _ \<Rightarrow> Err (PE ''encode takes a pointer to struct''))"

end
