(* ===== verification/Protobuf_Decode.thy ===== *)
theory Protobuf_Decode
  imports Protobuf_Encode "HOL-Library.AList"
begin

text \<open>
  The decoder of \<open>imported/protobuf/decode.go\<close>. A function returns the value it leaves in the
  place it decodes into. \<open>DecodeWithConstructors\<close> turns panics into errors, so a returned
  error and a panic are both \<open>Err\<close>; the text in it tells them apart only roughly. A place
  that was half filled before an error is not modelled. \<open>Panic\<close> is the overflow of the stack.
\<close>

section \<open>Basic values\<close>

text \<open>\<open>val.SetInt\<close> and \<open>val.SetUint\<close> keep the bits of the type.\<close>

definition set_int :: "kind \<Rightarrow> 64 word \<Rightarrow> 64 word" where
  "set_int k v = (if k = KInt32 then scast (ucast v :: 32 word) else v)"

definition set_uint :: "kind \<Rightarrow> 64 word \<Rightarrow> 64 word" where
  "set_uint k v = (if k = KUint32 then ucast (ucast v :: 32 word) else v)"

text \<open>The basic kinds of \<open>decoder.putvalue\<close>.\<close>

definition put_prim :: "'o penv \<Rightarrow> nat \<Rightarrow> kind \<Rightarrow> 64 word \<Rightarrow> bytes \<Rightarrow> (pb_error, 'o gval) go" where
  "put_prim E wiretype k v vb =
    (if k = KBool then
       if wiretype \<noteq> 0 then Err (PE ''bad wiretype for bool'')
       else if v > 1 then Err (PE ''invalid bool value'')
       else Ret (VBool (v \<noteq> 0))
     else if k \<in> {KInt, KInt32, KInt64} then
       go_bind (decodeSignedInt wiretype v) (\<lambda>sv. Ret (VInt (set_int k sv)))
     else if k \<in> {KUint, KUint32, KUint64} then
       if wiretype = 0 then Ret (VUint (set_uint k v))
       else if wiretype = 5 then Ret (VUint (set_uint k (ucast (ucast v :: 32 word))))
       else if wiretype = 1 then Ret (VUint (set_uint k v))
       else Err (PE ''bad wiretype for uint'')
     else if k = KFloat32 then
       if wiretype \<noteq> 5 then Err (PE ''bad wiretype for float32'') else Ret (VF32 (pe_f32 E (ucast v)))
     else if k = KFloat64 then
       if wiretype \<noteq> 1 then Err (PE ''bad wiretype for float64'') else Ret (VF64 v)
     else if k = KString then
       if wiretype \<noteq> 2 then Err (PE ''bad wiretype for string'') else Ret (VString vb)
     else Err (PE ''unsupported value kind''))"

text \<open>A time: \<open>time.Unix\<close> of the seconds and the nanoseconds, with Go's truncating division.\<close>

definition time_Unix :: "int \<Rightarrow> int \<Rightarrow> int" where
  "time_Unix sec nsec = sec * 1000000000 + nsec"

definition quot_int :: "int \<Rightarrow> int \<Rightarrow> int" where
  "quot_int a b = sgn a * sgn b * (\<bar>a\<bar> div \<bar>b\<bar>)"

definition put_time :: "nat \<Rightarrow> 64 word \<Rightarrow> (pb_error, 'o gval) go" where
  "put_time wiretype v =
    go_bind (decodeSignedInt wiretype v) (\<lambda>sv.
      let s = sint sv; q = quot_int s 1000000000 in Ret (VTime (time_Unix q (s - q * 1000000000))))"

text \<open>The wire type of the packed elements in \<open>decoder.slice\<close>; \<open>None\<close> for the other element types.\<close>

definition slice_wire :: "gtype \<Rightarrow> nat option" where
  "slice_wire e =
    (case e of
       TPrim nm k \<Rightarrow>
         if k \<in> {KBool, KInt32, KInt64, KInt, KUint32, KUint64, KUint} then
           if nm = Fixed \<and> k \<in> {KInt32, KUint32} then Some 5
           else if nm = Fixed \<and> k \<in> {KInt64, KUint64} then Some 1
           else Some 0
         else if k = KFloat32 then Some 5
         else if k = KFloat64 then Some 1
         else None
     | _ \<Rightarrow> None)"

section \<open>Places in a struct\<close>

text \<open>
  The loop of \<open>decoder.message\<close> along the index of a field: every nil pointer on the way, the
  field itself included, gets a new value. The fields of an embedded \<open>time.Time\<close> are not
  modelled.
\<close>

fun alloc_path :: "'o penv \<Rightarrow> gtype \<Rightarrow> 'o gval \<Rightarrow> nat list \<Rightarrow> (pb_error, 'o gval) go" where
  "alloc_path E t v [] = Ret v"
| "alloc_path E t v (i # p) =
    (case (t, v) of
       (TStruct n, VStruct vs) \<Rightarrow>
         if i < length vs \<and> i < length (pe_struct E n) then
           (let f = pe_struct E n ! i in
            case (f_Type f, vs ! i) of
              (TPtr t', VPtr None) \<Rightarrow>
                if f_Exported f then
                  go_bind (alloc_path E t' (zero E t') p) (\<lambda>w. Ret (VStruct (vs[i := VPtr (Some w)])))
                else Err (PE ''reflect.Set: value obtained using unexported field'')
            | (TPtr t', VPtr (Some u)) \<Rightarrow>
                go_bind (alloc_path E t' u p) (\<lambda>w. Ret (VStruct (vs[i := VPtr (Some w)])))
            | (t', u) \<Rightarrow> go_bind (alloc_path E t' u p) (\<lambda>w. Ret (VStruct (vs[i := w]))))
         else Err PE_other
     | _ \<Rightarrow> Err PE_other)"

fun set_path :: "'o gval \<Rightarrow> nat list \<Rightarrow> 'o gval \<Rightarrow> 'o gval" where
  "set_path v [] w = w"
| "set_path v (i # p) w =
    (case v of
       VStruct vs \<Rightarrow>
         VStruct (vs[i := (case vs ! i of
            VPtr (Some u) \<Rightarrow> if p = [] then w else VPtr (Some (set_path u p w))
          | u \<Rightarrow> set_path u p w)])
     | _ \<Rightarrow> v)"

text \<open>
  The part of \<open>decoder.message\<close> that finds the field: \<open>pfs\<close> (the code's \<open>fields\<close>) starts at the current
  \<open>fieldi\<close>. The result is the struct and the field, when there is one that can be set.
\<close>

definition locate ::
  "'o penv \<Rightarrow> gtype \<Rightarrow> 'o gval \<Rightarrow> ProtoField list \<Rightarrow> 64 word \<Rightarrow> (pb_error, 'o gval \<times> (ProtoField \<times> 'o gval) option) go" where
  "locate E t v pfs fieldnum =
    (case pfs of
       [] \<Rightarrow> Ret (v, None)
     | pf # _ \<Rightarrow>
         if pf_ID pf = fieldnum then
           go_bind (alloc_path E t v (pf_Index pf)) (\<lambda>v1.
           go_bind (FieldByIndex True v1 (pf_Index pf)) (\<lambda>(fv, c).
             Ret (v1, if c \<and> f_Exported (pf_Field pf) then Some (pf, fv) else None)))
         else Ret (v, None))"

definition field_err :: "ProtoField list \<Rightarrow> pb_error \<Rightarrow> pb_error" where
  "field_err pfs e = (case pfs of [] \<Rightarrow> e | pf # _ \<Rightarrow> PE_field e (f_Name (pf_Field pf)))"

text \<open>
  The interface case of \<open>decoder.putvalue\<close> up to the object that decodes: a nil interface gets
  an object from the generator whose tag the bytes start with, else from the constructors.
\<close>

type_synonym 'o constructors = "string \<Rightarrow> 'o gval option"

definition open_iface ::
  "'o registry \<Rightarrow> 'o constructors \<Rightarrow> string \<Rightarrow> 'o gval \<Rightarrow> bytes \<Rightarrow> (pb_error, 'o gval \<times> bytes) go" where
  "open_iface G nm i old vb =
    (if old = VNil then
       (case (if 8 < length vb then reg_get G (take 8 vb) else None) of
          Some g \<Rightarrow> Ret (g, drop 8 vb)
        | None \<Rightarrow>
            (case nm i of Some g \<Rightarrow> Ret (g, vb) | None \<Rightarrow> Err (PE ''no constructor for interface'')))
     else Ret (old, vb))"

section \<open>The decoder\<close>

lemma break_out_smaller: "break_out w buf = Ret (v, vb, rem) \<Longrightarrow> length vb < length buf \<and> length rem < length buf"
  by (auto simp: break_out_def split: prod.splits if_splits dest: Uvarint_pos)

text \<open>
  \<open>decoder.message\<close> and its loop, \<open>decoder.putvalue\<close> with \<open>decoder.slice\<close> and
  \<open>decoder.mapEntry\<close>, the loop of \<open>slice\<close> over packed elements and the loop of \<open>mapEntry\<close>
  over the records of the value.
\<close>

fun val_List :: "'o gval \<Rightarrow> 'o gval list" where
  "val_List (VList xs) = xs"
| "val_List _ = []"

fun val_Map :: "'o gval \<Rightarrow> ('o gval \<times> 'o gval) list" where
  "val_Map (VMap kvs) = kvs"
| "val_Map _ = []"

text \<open>
  The element that a pointer decodes into, instantiated when the pointer is nil; an instance of
  an interface type cannot be assigned to a pointer to the interface.
\<close>

definition ptr_elem :: "'o penv \<Rightarrow> gtype \<Rightarrow> 'o gval \<Rightarrow> (pb_error, 'o gval) go" where
  "ptr_elem E t' old =
    (case old of
       VPtr (Some w) \<Rightarrow> Ret w
     | _ \<Rightarrow>
         (case t' of
            TInterface i \<Rightarrow> Err (PE ''reflect.Set: value is not assignable to the pointer type'')
          | _ \<Rightarrow> Ret (zero E t')))"

text \<open>
  What decodes the bytes of an interface: an object that unmarshals itself, or the struct that
  the object points to, for the nested call of \<open>Decode\<close>.
\<close>

definition iface_target :: "'o gval \<Rightarrow> 'o + (pb_error, gtype \<times> 'o gval) go" where
  "iface_target obj =
    (case obj of
       VObj x \<Rightarrow> Inl x
     | VDyn (TPtr t') (VPtr (Some w)) \<Rightarrow> Inr (Ret (t', w))
     | VDyn (TPtr t') _ \<Rightarrow> Inr (Err (PE ''not a struct''))
     | VDyn _ _ \<Rightarrow> Inr (Err (PE ''Decode has been given a non pointer type''))
     | _ \<Rightarrow> Inr (Err PE_other))"

fun is_struct :: "gtype \<Rightarrow> bool" where
  "is_struct (TStruct _) = True"
| "is_struct TTime = True"
| "is_struct _ = False"

function (sequential)
  de_message :: "'o penv \<Rightarrow> 'o registry \<Rightarrow> 'o constructors \<Rightarrow> gtype \<Rightarrow> 'o gval \<Rightarrow> bytes \<Rightarrow> (pb_error, 'o gval) go" and
  de_fields :: "'o penv \<Rightarrow> 'o registry \<Rightarrow> 'o constructors \<Rightarrow> gtype \<Rightarrow> 'o gval \<Rightarrow> ProtoField list \<Rightarrow> bytes \<Rightarrow>
    (pb_error, 'o gval) go" and
  de_putvalue :: "'o penv \<Rightarrow> 'o registry \<Rightarrow> 'o constructors \<Rightarrow> nat \<Rightarrow> gtype \<Rightarrow> 'o gval \<Rightarrow> 64 word \<Rightarrow> bytes \<Rightarrow>
    (pb_error, 'o gval) go" and
  de_packed :: "'o penv \<Rightarrow> 'o registry \<Rightarrow> 'o constructors \<Rightarrow> nat \<Rightarrow> bool \<Rightarrow> gtype \<Rightarrow> 'o gval list \<Rightarrow> bytes \<Rightarrow>
    (pb_error, 'o gval list) go" and
  de_records :: "'o penv \<Rightarrow> 'o registry \<Rightarrow> 'o constructors \<Rightarrow> gtype \<Rightarrow> 'o gval \<Rightarrow> bytes \<Rightarrow> (pb_error, 'o gval) go"
where
  "de_message E G nm t v buf =
    (if is_struct t then
       go_bind (compute_fields (pe_struct E) t) (\<lambda>pfs. de_fields E G nm t v pfs buf)
     else Err (PE ''not a struct''))"
| "de_fields E G nm t v pfs buf =
    (if buf = [] then Ret v
     else (case Uvarint buf of (key, n) \<Rightarrow>
       if n \<le> 0 then Err (PE ''bad protobuf field key'')
       else
         (let fieldnum = drop_bit 3 key; pfs = dropWhile (\<lambda>pf. pf_ID pf <s fieldnum) pfs in
          go_bind (locate E t v pfs fieldnum) (\<lambda>(v, target).
          case break_out (unat (key AND 7)) (drop (nat n) buf) of
            Ret (x, vb, rem) \<Rightarrow>
              (case target of
                 None \<Rightarrow> de_fields E G nm t v pfs rem
               | Some (pf, fv) \<Rightarrow>
                   (case de_putvalue E G nm (unat (key AND 7)) (f_Type (pf_Field pf)) fv x vb of
                      Ret w \<Rightarrow> de_fields E G nm t (set_path v (pf_Index pf) w) pfs rem
                    | Err e \<Rightarrow> Err (field_err pfs e)
                    | Panic \<Rightarrow> Panic))
          | Err e \<Rightarrow> Err (field_err pfs e)
          | Panic \<Rightarrow> Panic))))"
| "de_putvalue E G nm wiretype t old v vb =
    (case t of
       TPrim _ k \<Rightarrow> put_prim E wiretype k v vb
     | TTime \<Rightarrow> put_time wiretype v
     | TStruct n \<Rightarrow>
         if wiretype \<noteq> 2 then Err (PE ''bad wiretype for embedded message'') else de_message E G nm t old vb
     | TPtr t' \<Rightarrow>
         go_bind (ptr_elem E t' old) (\<lambda>w.
         go_bind (de_putvalue E G nm wiretype t' w v vb) (\<lambda>w. Ret (VPtr (Some w))))
     | TSlice _ e \<Rightarrow>
         if wiretype \<noteq> 2 then Err (PE ''bad wiretype for repeated field'')
         else
           (case slice_wire e of
              Some wt \<Rightarrow>
                go_bind (de_packed E G nm wt True e (val_List old) vb) (\<lambda>xs. Ret (VList xs))
            | None \<Rightarrow>
                if elem_kind e = Some KUint8 then Ret (VBytes vb)
                else
                  go_bind (de_putvalue E G nm 2 e (zero E e) 0 vb) (\<lambda>w.
                    Ret (VList (val_List old @ [w]))))
     | TArray len e \<Rightarrow>
         if wiretype \<noteq> 2 then Err (PE ''bad wiretype for repeated field'')
         else
           (case slice_wire e of
              Some wt \<Rightarrow>
                go_bind (de_packed E G nm wt False e (val_List old) vb) (\<lambda>xs. Ret (VList xs))
            | None \<Rightarrow>
                if elem_kind e = Some KUint8 then
                  if len \<noteq> length vb then Err (PE ''array length and buffer length differ'') else Ret (VBytes vb)
                else
                  go_bind (de_putvalue E G nm 2 e (zero E e) 0 vb) (\<lambda>_. Err (PE ''append to non-slice'')))
     | TMap kt vt \<Rightarrow>
         if wiretype \<noteq> 2 then Err (PE ''bad wiretype for repeated field'')
         else
           (case Uvarint vb of (key, n) \<Rightarrow>
              if n \<le> 0 then Err (PE ''bad protobuf field key'')
              else
                go_bind (break_out (unat (key AND 7)) (drop (nat n) vb)) (\<lambda>(x, kb, rem).
                go_bind (de_putvalue E G nm (unat (key AND 7)) kt (zero E kt) x kb) (\<lambda>k.
                go_bind (de_records E G nm vt (zero E vt) rem) (\<lambda>w.
                  Ret (VMap (AList.update k w (val_Map old)))))))
     | TInterface i \<Rightarrow>
         go_bind (open_iface G nm i old vb) (\<lambda>(obj, data).
           case iface_target obj of
             Inl x \<Rightarrow>
               if wiretype \<noteq> 2 then Err (PE ''bad wiretype for bytes'')
               else go_bind (pe_Unmarshal E x data) (\<lambda>y. Ret (VObj y))
           | Inr r \<Rightarrow>
               go_bind r (\<lambda>(t', w).
               go_bind (de_message E G (\<lambda>_. None) t' w vb) (\<lambda>w. Ret (VDyn (TPtr t') (VPtr (Some w)))))))"
| "de_packed E G nm wt is_slice e xs buf =
    (if buf = [] then Ret xs
     else
       go_bind (break_out wt buf) (\<lambda>(x, vb, rem).
       go_bind (de_putvalue E G nm wt e (zero E e) x vb) (\<lambda>w.
         if is_slice then de_packed E G nm wt is_slice e (xs @ [w]) rem
         else Err PE_other)))"
| "de_records E G nm t v buf =
    (if buf = [] then Ret v
     else (case Uvarint buf of (key, n) \<Rightarrow>
       if n \<le> 0 then Err (PE ''bad protobuf field key'')
       else
         go_bind (break_out (unat (key AND 7)) (drop (nat n) buf)) (\<lambda>(x, vb, rem).
         go_bind (de_putvalue E G nm (unat (key AND 7)) t v x vb) (\<lambda>w. de_records E G nm t w rem))))"
  by pat_completeness auto

termination
proof (relation "inv_image ({(x, y). x < y} <*lex*> {(x, y). x < (y :: nat)})
    (\<lambda>z. case z of
       Inl (Inl (E, G, nm, t, v, buf)) \<Rightarrow> (length buf, 1 :: nat)
     | Inl (Inr (E, G, nm, t, v, pfs, buf)) \<Rightarrow> (length buf, 0)
     | Inr (Inl (E, G, nm, w, t, old, v, vb)) \<Rightarrow> (length vb, 2 + 2 * size t)
     | Inr (Inr (Inl (E, G, nm, w, s, e, xs, buf))) \<Rightarrow> (length buf, 3 + 2 * size e)
     | Inr (Inr (Inr (E, G, nm, t, v, buf))) \<Rightarrow> (length buf, 0))", goal_cases)
  case 1
  have "wf {(x, y). x < (y :: nat)}" using wf_less by (simp add: less_than_def [symmetric] wf_less_than)
  then show ?case by (intro wf_inv_image wf_lex_prod)
qed (auto dest!: break_out_smaller)

declare de_message.simps [simp del] de_fields.simps [simp del] de_putvalue.simps [simp del]
  de_packed.simps [simp del] de_records.simps [simp del]

text \<open>
  \<open>DecodeWithConstructors\<close> and \<open>Decode\<close>: the place is nil or a value with its dynamic type;
  the result is the place after the call.
\<close>

definition DecodeWithConstructors ::
  "'o penv \<Rightarrow> 'o registry \<Rightarrow> bytes \<Rightarrow> (gtype \<times> 'o gval) option \<Rightarrow> 'o constructors \<Rightarrow> (pb_error, 'o gval) go" where
  "DecodeWithConstructors E G buf structPtr cons =
    (case structPtr of
       None \<Rightarrow> Ret VNil
     | Some (t, p) \<Rightarrow>
         (case t of
            TPtr t' \<Rightarrow>
              (case (case t' of TStruct n \<Rightarrow> pe_self E n | _ \<Rightarrow> None) of
                 Some unmarshal \<Rightarrow> go_bind (unmarshal buf) (\<lambda>v. Ret (VPtr (Some v)))
               | None \<Rightarrow>
                   (case p of
                      VPtr (Some v) \<Rightarrow> go_bind (de_message E G cons t' v buf) (\<lambda>w. Ret (VPtr (Some w)))
                    | _ \<Rightarrow> Err (PE ''not a struct'')))
          | _ \<Rightarrow> Err (PE ''Decode has been given a non pointer type'')))"

definition Decode :: "'o penv \<Rightarrow> 'o registry \<Rightarrow> bytes \<Rightarrow> (gtype \<times> 'o gval) option \<Rightarrow> (pb_error, 'o gval) go" where
  "Decode E G buf structPtr = DecodeWithConstructors E G buf structPtr (\<lambda>_. None)"

end
