(* ===== verification/Protobuf_Types.thy ===== *)
theory Protobuf_Types
  imports Protobuf_Decode
begin

text \<open>
  What the decoder leaves in a place has the type of the place: a typing of values, and that
  decoding keeps it, whatever the bytes are.
\<close>

section \<open>Typing\<close>

definition int_range :: "kind \<Rightarrow> 64 word \<Rightarrow> bool" where
  "int_range k w \<longleftrightarrow>
    (case k of
       KInt8 \<Rightarrow> - (2 ^ 7) \<le> sint w \<and> sint w < 2 ^ 7
     | KInt16 \<Rightarrow> - (2 ^ 15) \<le> sint w \<and> sint w < 2 ^ 15
     | KInt32 \<Rightarrow> - (2 ^ 31) \<le> sint w \<and> sint w < 2 ^ 31
     | KInt64 \<Rightarrow> True
     | KInt \<Rightarrow> True
     | _ \<Rightarrow> False)"

definition uint_range :: "kind \<Rightarrow> 64 word \<Rightarrow> bool" where
  "uint_range k w \<longleftrightarrow>
    (case k of
       KUint8 \<Rightarrow> unat w < 2 ^ 8
     | KUint16 \<Rightarrow> unat w < 2 ^ 16
     | KUint32 \<Rightarrow> unat w < 2 ^ 32
     | KUint64 \<Rightarrow> True
     | KUint \<Rightarrow> True
     | _ \<Rightarrow> False)"

fun prim_type :: "kind \<Rightarrow> 'o gval \<Rightarrow> bool" where
  "prim_type k (VBool _) = (k = KBool)"
| "prim_type k (VInt w) = int_range k w"
| "prim_type k (VUint w) = uint_range k w"
| "prim_type k (VF32 _) = (k = KFloat32)"
| "prim_type k (VF64 _) = (k = KFloat64)"
| "prim_type k (VString _) = (k = KString)"
| "prim_type k VOpaque = (k = KOther)"
| "prim_type k _ = False"

inductive has_type :: "'o penv \<Rightarrow> gtype \<Rightarrow> 'o gval \<Rightarrow> bool" for E where
  ty_prim: "prim_type k v \<Longrightarrow> has_type E (TPrim n k) v"
| ty_time: "has_type E TTime (VTime t)"
| ty_struct: "length vs = length (pe_struct E n) \<Longrightarrow> (\<forall>i < length vs. has_type E (f_Type (pe_struct E n ! i)) (vs ! i)) \<Longrightarrow>
    has_type E (TStruct n) (VStruct vs)"
| ty_nilptr: "has_type E (TPtr t) (VPtr None)"
| ty_ptr: "has_type E t w \<Longrightarrow> has_type E (TPtr t) (VPtr (Some w))"
| ty_bytes: "elem_kind e = Some KUint8 \<Longrightarrow> has_type E (TSlice d e) (VBytes bs)"
| ty_list: "elem_kind e \<noteq> Some KUint8 \<Longrightarrow> (\<forall>x \<in> set xs. has_type E e x) \<Longrightarrow> has_type E (TSlice d e) (VList xs)"
| ty_barray: "elem_kind e = Some KUint8 \<Longrightarrow> length bs = len \<Longrightarrow> has_type E (TArray len e) (VBytes bs)"
| ty_array: "elem_kind e \<noteq> Some KUint8 \<Longrightarrow> length xs = len \<Longrightarrow> (\<forall>x \<in> set xs. has_type E e x) \<Longrightarrow>
    has_type E (TArray len e) (VList xs)"
| ty_map: "(\<forall>kv \<in> set kvs. has_type E kt (fst kv)) \<Longrightarrow> (\<forall>kv \<in> set kvs. has_type E vt (snd kv)) \<Longrightarrow> has_type E (TMap kt vt) (VMap kvs)"
| ty_nil: "has_type E (TInterface i) VNil"
| ty_obj: "has_type E (TInterface i) (VObj x)"
| ty_dyn: "has_type E t v \<Longrightarrow> has_type E (TInterface i) (VDyn t v)"

inductive_cases ty_structE: "has_type E (TStruct n) v"
inductive_cases ty_struct_valE: "has_type E t (VStruct vs)"
inductive_cases ty_ptrE: "has_type E (TPtr t) v"
inductive_cases ty_sliceE: "has_type E (TSlice d e) v"
inductive_cases ty_arrayE: "has_type E (TArray len e) v"
inductive_cases ty_mapE: "has_type E (TMap kt vt) v"
inductive_cases ty_dynE: "has_type E (TInterface i) (VDyn t v)"

lemma ty_dyn_iff: "has_type E (TInterface i) (VDyn t v) \<longleftrightarrow> has_type E t v"
  by (auto elim: ty_dynE intro: ty_dyn)

text \<open>
  The environment is typed: zero values of structs, the objects of generators and constructors,
  and what the structs that unmarshal themselves make.
\<close>

definition env_typed :: "'o penv \<Rightarrow> 'o registry \<Rightarrow> bool" where
  "env_typed E G \<longleftrightarrow> (\<forall>n. has_type E (TStruct n) (pe_zero E n)) \<and>
    (\<forall>key g i. G key = Some g \<longrightarrow> has_type E (TInterface i) g) \<and>
    (\<forall>n f buf v. pe_self E n = Some f \<longrightarrow> f buf = Ret v \<longrightarrow> has_type E (TStruct n) v)"

definition constructors_typed :: "'o penv \<Rightarrow> 'o constructors \<Rightarrow> bool" where
  "constructors_typed E nm \<longleftrightarrow> (\<forall>i g. nm i = Some g \<longrightarrow> has_type E (TInterface i) g)"

lemma constructors_none: "constructors_typed E (\<lambda>_. None)"
  by (simp add: constructors_typed_def)

lemma zero_typed:
  assumes "env_typed E G"
  shows "has_type E t (zero E t)"
proof (induction t)
  case (TPrim n k)
  then show ?case by (cases k) (auto intro!: ty_prim simp: int_range_def uint_range_def)
next
  case (TSlice d e)
  then show ?case by (cases e) (auto simp: elem_kind_def intro: ty_bytes ty_list split: kind.split)
next
  case (TArray len e)
  then show ?case by (cases e) (auto simp: elem_kind_def intro: ty_barray ty_array split: kind.split)
qed (use assms in \<open>auto simp: env_typed_def intro: ty_time ty_nilptr ty_map ty_nil\<close>)

section \<open>Basic values\<close>

lemma sint_32: "- (2 ^ 31) \<le> sint (scast (w :: 32 word) :: 64 word) \<and> sint (scast (w :: 32 word) :: 64 word) < 2 ^ 31"
proof -
  have "sint (scast w :: 64 word) = sint w"
    by (simp add: signed_scast_eq signed_take_bit_int_eq_self_iff) (use sint_range_size [of w] in \<open>simp add: word_size\<close>)
  then show ?thesis using sint_range_size [of w] by (simp add: word_size)
qed

lemma set_int_range: "k \<in> {KInt, KInt32, KInt64} \<Longrightarrow> int_range k (set_int k v)"
  using sint_32 by (auto simp: int_range_def set_int_def)

lemma set_uint_range: "k \<in> {KUint, KUint32, KUint64} \<Longrightarrow> uint_range k (set_uint k v)"
proof -
  have "unat (ucast (x :: 32 word) :: 64 word) < 2 ^ 32" for x
    using unsigned_less [of x, where 'a = nat] by (simp add: unsigned_ucast_eq le_less_trans [OF take_bit_nat_less_eq_self])
  then show "k \<in> {KUint, KUint32, KUint64} \<Longrightarrow> uint_range k (set_uint k v)" by (auto simp: uint_range_def set_uint_def)
qed

lemma put_prim_typed: "put_prim E wt k v vb = Ret w \<Longrightarrow> prim_type k w"
  using set_int_range set_uint_range by (auto simp: put_prim_def go_bind_eq_Ret split: if_splits)

section \<open>Places in a struct\<close>

fun path_field :: "(string \<Rightarrow> sfield list) \<Rightarrow> gtype \<Rightarrow> nat list \<Rightarrow> sfield option" where
  "path_field S t [] = None"
| "path_field S t (i # p) =
    (case type_fields S t of
       Ret fs \<Rightarrow> if i < length fs then (if p = [] then Some (fs ! i) else path_field S (f_Type (fs ! i)) p) else None
     | _ \<Rightarrow> None)"

definition index_ok :: "(string \<Rightarrow> sfield list) \<Rightarrow> (nat \<times> sfield) list \<Rightarrow> ProtoField \<Rightarrow> bool" where
  "index_ok S fs pf \<longleftrightarrow> (\<exists>i f p. pf_Index pf = i # p \<and> (i, f) \<in> set fs \<and>
    (if p = [] then pf_Field pf = f else path_field S (f_Type f) p = Some (pf_Field pf)))"

lemma index_ok_path:
  assumes "type_fields S t = Ret fs" "index_ok S (enumerate 0 fs) pf"
  shows "path_field S t (pf_Index pf) = Some (pf_Field pf)"
  using assms by (auto simp: index_ok_def in_set_enumerate_eq split: if_splits)

lemma index_ok_Cons: "index_ok S fs pf \<Longrightarrow> index_ok S (x # fs) pf"
  unfolding index_ok_def by (elim exE conjE) (intro exI conjI, assumption, simp_all)

lemma index_ok_head: "index_ok S ((i, f) # fs) (proto_field i n f)"
  unfolding index_ok_def by simp

lemma inner_fields_index:
  "innerFieldIndexes_loop S n fs = Some (r, n') \<Longrightarrow> r = Ret out \<Longrightarrow> pf \<in> set out \<Longrightarrow> index_ok S fs pf"
proof (induction S n fs "(r, n')" arbitrary: r n' out pf rule: innerFieldIndexes_loop.raw_induct [rotated, consumes 1, case_names 1])
  case (1 loop S n fs)
  show ?case
  proof (cases fs)
    case Nil
    with 1 show ?thesis by auto
  next
    case (Cons x fs')
    obtain i f where x: "x = (i, f)" by force
    show ?thesis
    proof (cases "f_Anonymous f")
      case False
      then obtain y where y: "loop S (next_id f n) fs' = Some y"
        "go_bind (fst y) (\<lambda>out. Ret (proto_field i (next_id f n) f # out)) = r"
        using 1(2) unfolding Cons x by (auto simp: bind_eq_Some_conv)
      then obtain out' where o: "fst y = Ret out'" "out = proto_field i (next_id f n) f # out'"
        using 1(3) by (auto simp: go_bind_eq_Ret)
      have "index_ok S fs' pf" if "pf \<in> set out'" using 1(1) [of S _ fs' _ "snd y" out'] y(1) o(1) that by (cases y) auto
      then show ?thesis using 1(4) o(2) unfolding Cons x by (auto intro: index_ok_Cons index_ok_head)
    next
      case True
      then obtain gs where g: "type_fields S (f_Type f) = Ret gs" using 1(2,3) unfolding Cons x by (cases "type_fields S (f_Type f)") auto
      obtain y where y: "loop S (next_id f n - 1) (enumerate 0 gs) = Some y"
        "(if is_Ret (fst y) then Option.bind (loop S (snd y) fs') (\<lambda>z. Some (join_fields i (fst y) (fst z), snd z)) else Some y) = Some (r, n')"
        using 1(2) True g unfolding Cons x by (auto simp: bind_eq_Some_conv)
      then have "is_Ret (fst y)" using 1(3) by (cases "is_Ret (fst y)") (auto split: if_splits)
      then obtain z where z: "loop S (snd y) fs' = Some z" "r = join_fields i (fst y) (fst z)"
        using y(2) by (auto simp: bind_eq_Some_conv)
      with 1(3) have "join_fields i (fst y) (fst z) = Ret out" by simp
      then obtain o1 o2 where o: "fst y = Ret o1" "fst z = Ret o2" "out = map (\<lambda>p. p\<lparr>pf_Index := i # pf_Index p\<rparr>) o1 @ o2"
        by (auto simp: join_fields_def go_bind_eq_Ret)
      have i1: "index_ok S (enumerate 0 gs) q" if "q \<in> set o1" for q
        using 1(1) [of S _ "enumerate 0 gs" _ "snd y" o1 q] y(1) o(1) that by (cases y) auto
      have i2: "index_ok S fs' q" if "q \<in> set o2" for q
        using 1(1) [of S _ fs' _ "snd z" o2 q] z(1) o(2) that by (cases z) auto
      show ?thesis
      proof (cases "pf \<in> set o2")
        case True
        then show ?thesis using i2 unfolding Cons by (intro index_ok_Cons) blast
      next
        case False
        then obtain q where q: "q \<in> set o1" "pf = q\<lparr>pf_Index := i # pf_Index q\<rparr>" using 1(4) o(3) by auto
        have "path_field S (f_Type f) (pf_Index q) = Some (pf_Field q)" "pf_Index q \<noteq> []"
          using i1 [OF q(1)] index_ok_path [OF g] by (auto simp: index_ok_def)
        then show ?thesis unfolding Cons x q(2) index_ok_def by auto
      qed
    qed
  qed
qed

lemma compute_fields_index:
  assumes "compute_fields S t = Ret pfs" "pf \<in> set pfs"
  shows "path_field S t (pf_Index pf) = Some (pf_Field pf)"
proof -
  obtain n' where i: "innerFieldIndexes S 0 t = Some (Ret pfs, n')"
    using assms(1) by (auto simp: compute_fields_def go_bind_eq_Ret split: option.splits if_splits)
  then obtain fs where fs: "type_fields S t = Ret fs" by (cases "type_fields S t") (auto simp: innerFieldIndexes_def)
  with i assms(2) show ?thesis
    by (intro index_ok_path [OF fs] inner_fields_index [of S 0 _ "Ret pfs" n']) (simp_all add: innerFieldIndexes_def)
qed

lemma ty_struct_update:
  assumes "has_type E (TStruct n) (VStruct vs)" "i < length vs" "has_type E (f_Type (pe_struct E n ! i)) w"
  shows "has_type E (TStruct n) (VStruct (vs[i := w]))"
  using assms by (auto elim!: ty_structE intro!: ty_struct simp: nth_list_update)

lemma ty_struct_nth:
  "has_type E (TStruct n) (VStruct vs) \<Longrightarrow> i < length vs \<Longrightarrow> has_type E (f_Type (pe_struct E n ! i)) (vs ! i)"
  by (auto elim!: ty_structE)

text \<open>
  Along the index of a field: the struct with the allocated pointers is typed, the field in it
  is, and so is the struct after a typed value is put there.
\<close>

definition place_ok :: "'o penv \<Rightarrow> gtype \<Rightarrow> nat list \<Rightarrow> gtype \<Rightarrow> 'o gval \<Rightarrow> bool" where
  "place_ok E t p ft v \<longleftrightarrow> has_type E t v \<and>
    (\<forall>ca fv c. FieldByIndex ca v p = Ret (fv, c) \<longrightarrow> has_type E ft fv) \<and>
    (\<forall>w. has_type E ft w \<longrightarrow> has_type E t (set_path v p w))"

lemma path_field_ptr: "path_field S (TPtr t) p = path_field S t p"
  by (cases p) simp_all

lemma alloc_path_struct: "p \<noteq> [] \<Longrightarrow> alloc_path E t v p = Ret w \<Longrightarrow> \<exists>vs. w = VStruct vs"
  by (cases p) (auto simp: Let_def go_bind_eq_Ret split: gtype.splits gval.splits if_splits option.splits)

lemma place_step:
  assumes "has_type E (TStruct n) (VStruct vs)" "i < length vs" "has_type E (f_Type (pe_struct E n ! i)) u"
    and p: "if p = [] then ft = f_Type (pe_struct E n ! i)
      else (\<exists>t w. f_Type (pe_struct E n ! i) = TPtr t \<and> u = VPtr (Some w) \<and> place_ok E t p ft w) \<or>
        (\<exists>us. u = VStruct us) \<and> place_ok E (f_Type (pe_struct E n ! i)) p ft u"
  shows "place_ok E (TStruct n) (i # p) ft (VStruct (vs[i := u]))"
proof (cases p)
  case Nil
  with assms show ?thesis
    by (auto simp: place_ok_def intro: ty_struct_update split: gval.splits option.splits)
next
  case (Cons j q)
  have st: "has_type E (TStruct n) (VStruct (vs[i := w]))" if "has_type E (f_Type (pe_struct E n ! i)) w" for w
    by (rule ty_struct_update [OF assms(1,2) that])
  from p Cons consider (ptr) t w where "f_Type (pe_struct E n ! i) = TPtr t" "u = VPtr (Some w)" "place_ok E t p ft w"
    | (val) us where "u = VStruct us" "place_ok E (f_Type (pe_struct E n ! i)) p ft u" by auto
  then show ?thesis
  proof cases
    case ptr
    then have "has_type E (TStruct n) (set_path (VStruct (vs[i := u])) (i # p) x)" if "has_type E ft x" for x
      using that assms(2) by (auto simp: Cons place_ok_def intro!: st ty_ptr)
    with ptr st [OF assms(3)] assms(2) show ?thesis unfolding place_ok_def by (auto simp: Cons)
  next
    case val
    have e: "set_path (VStruct (vs[i := u])) (i # p) x = VStruct (vs[i := set_path u p x])" for x
      using assms(2) val(1) by simp
    have "has_type E (TStruct n) (set_path (VStruct (vs[i := u])) (i # p) x)" if "has_type E ft x" for x
      using that val(2) unfolding e by (auto simp: place_ok_def intro: st)
    moreover have "FieldByIndex ca (VStruct (vs[i := u])) (i # p) = FieldByIndex ca u p" for ca
      using assms(2) val(1) by (simp add: Cons)
    ultimately show ?thesis using val(2) st [OF assms(3)] unfolding place_ok_def by metis
  qed
qed

lemma alloc_path_typed:
  assumes "env_typed E G"
  shows "has_type E t v \<Longrightarrow> path_field (pe_struct E) t p = Some f \<Longrightarrow> alloc_path E t v p = Ret v1 \<Longrightarrow> place_ok E t p (f_Type f) v1"
proof (induction p arbitrary: t v v1)
  case Nil
  then show ?case by simp
next
  case (Cons i p)
  obtain n vs where t: "t = TStruct n" and v: "v = VStruct vs" and i: "i < length vs" "i < length (pe_struct E n)"
    using Cons.prems(3) by (auto split: gtype.splits gval.splits if_splits)
  let ?g = "pe_struct E n ! i"
  have ty: "has_type E (f_Type ?g) (vs ! i)" using ty_struct_nth Cons.prems(1) i unfolding t v by blast
  have f: "if p = [] then f = ?g else path_field (pe_struct E) (f_Type ?g) p = Some f"
    using Cons.prems(2) i unfolding t by (auto split: if_splits)
  have step: ?case if "v1 = VStruct (vs[i := u])" "has_type E (f_Type ?g) u" "if p = [] then True
      else (\<exists>t w. f_Type ?g = TPtr t \<and> u = VPtr (Some w) \<and> place_ok E t p (f_Type f) w) \<or>
        (\<exists>us. u = VStruct us) \<and> place_ok E (f_Type ?g) p (f_Type f) u" for u
    unfolding t that(1) by (rule place_step) (use Cons.prems(1) i that(2,3) f in \<open>auto simp: t v split: if_splits\<close>)
  have rec: "has_type E t' w \<and> (p \<noteq> [] \<longrightarrow> place_ok E t' p (f_Type f) w)"
    if "has_type E t' u" "alloc_path E t' u p = Ret w" "p \<noteq> [] \<longrightarrow> path_field (pe_struct E) t' p = Some f" for t' u w
    using that Cons.IH [of t' u w] by (cases p) (auto simp: place_ok_def)
  show ?case
  proof (cases "\<exists>t'. f_Type ?g = TPtr t'")
    case True
    then obtain t' where t': "f_Type ?g = TPtr t'" by blast
    with ty obtain x where x: "vs ! i = VPtr x" "x = None \<or> (\<exists>u. x = Some u \<and> has_type E t' u)" by (auto elim: ty_ptrE)
    define u where "u = (case x of None \<Rightarrow> zero E t' | Some u \<Rightarrow> u)"
    have u: "has_type E t' u" using x(2) zero_typed [OF assms] by (auto simp: u_def)
    obtain w where w: "alloc_path E t' u p = Ret w" "v1 = VStruct (vs[i := VPtr (Some w)])"
      using Cons.prems(3) t' x(1) i unfolding t v
      by (cases x) (auto simp: Let_def u_def go_bind_eq_Ret split: if_splits)
    have "has_type E t' w \<and> (p \<noteq> [] \<longrightarrow> place_ok E t' p (f_Type f) w)"
      by (rule rec [OF u w(1)]) (use f in \<open>auto simp: t' path_field_ptr split: if_splits\<close>)
    then show ?thesis by (intro step [OF w(2)]) (auto simp: t' intro: ty_ptr)
  next
    case False
    then obtain w where w: "alloc_path E (f_Type ?g) (vs ! i) p = Ret w" "v1 = VStruct (vs[i := w])"
      using Cons.prems(3) i unfolding t v by (auto simp: Let_def go_bind_eq_Ret split: gtype.splits)
    have "has_type E (f_Type ?g) w \<and> (p \<noteq> [] \<longrightarrow> place_ok E (f_Type ?g) p (f_Type f) w)"
      by (rule rec [OF ty w(1)]) (use f in simp)
    with alloc_path_struct [OF _ w(1)] show ?thesis by (intro step [OF w(2)]) auto
  qed
qed

lemma locate_typed:
  assumes "env_typed E G" "has_type E t v" "\<forall>pf \<in> set pfs. path_field (pe_struct E) t (pf_Index pf) = Some (pf_Field pf)"
    and "locate E t v pfs fieldnum = Ret (v1, tgt)"
  shows "has_type E t v1"
    and "tgt = Some (pf, fv) \<Longrightarrow> has_type E (f_Type (pf_Field pf)) fv \<and>
      (\<forall>w. has_type E (f_Type (pf_Field pf)) w \<longrightarrow> has_type E t (set_path v1 (pf_Index pf) w))"
proof -
  have "has_type E t v1 \<and> (\<forall>pf fv. tgt = Some (pf, fv) \<longrightarrow> has_type E (f_Type (pf_Field pf)) fv \<and>
      (\<forall>w. has_type E (f_Type (pf_Field pf)) w \<longrightarrow> has_type E t (set_path v1 (pf_Index pf) w)))"
  proof (cases "\<exists>q qs. pfs = q # qs \<and> pf_ID q = fieldnum")
    case True
    then obtain q qs where q: "pfs = q # qs" "pf_ID q = fieldnum" by blast
    then obtain fv c where a: "alloc_path E t v (pf_Index q) = Ret v1" "FieldByIndex True v1 (pf_Index q) = Ret (fv, c)"
      "tgt = (if c \<and> f_Exported (pf_Field q) then Some (q, fv) else None)"
      using assms(4) by (auto simp: locate_def go_bind_eq_Ret)
    have "place_ok E t (pf_Index q) (f_Type (pf_Field q)) v1"
      by (rule alloc_path_typed [OF assms(1,2) _ a(1)]) (use assms(3) q(1) in simp)
    then show ?thesis using a(2,3) by (auto simp: place_ok_def split: if_splits)
  next
    case False
    then show ?thesis using assms(2,4) by (cases pfs) (auto simp: locate_def)
  qed
  then show "has_type E t v1" "tgt = Some (pf, fv) \<Longrightarrow> has_type E (f_Type (pf_Field pf)) fv \<and>
      (\<forall>w. has_type E (f_Type (pf_Field pf)) w \<longrightarrow> has_type E t (set_path v1 (pf_Index pf) w))" by auto
qed

section \<open>Decoding keeps the type\<close>

lemma ty_map_update: "has_type E (TMap kt vt) (VMap kvs) \<Longrightarrow> has_type E kt k \<Longrightarrow> has_type E vt v \<Longrightarrow>
    has_type E (TMap kt vt) (VMap (AList.update k v kvs))"
proof -
  assume a: "has_type E (TMap kt vt) (VMap kvs)" "has_type E kt k" "has_type E vt v"
  have "set (AList.update k v kvs) \<subseteq> insert (k, v) (set kvs)" by (induction kvs) auto
  with a show ?thesis by (auto elim!: ty_mapE intro!: ty_map)
qed

lemma val_Map_typed: "has_type E (TMap kt vt) old \<Longrightarrow> has_type E (TMap kt vt) (VMap (val_Map old))"
  by (auto elim!: ty_mapE intro: ty_map)

lemma val_List_typed:
  "has_type E (TSlice d e) old \<Longrightarrow> \<forall>x \<in> set (val_List old). has_type E e x"
  "has_type E (TArray len e) old \<Longrightarrow> elem_kind e \<noteq> Some KUint8 \<Longrightarrow> length (val_List old) = len \<and> (\<forall>x \<in> set (val_List old). has_type E e x)"
  by (auto elim!: ty_sliceE ty_arrayE)

lemma slice_wire_kind: "slice_wire e = Some wt \<Longrightarrow> elem_kind e \<noteq> Some KUint8"
  by (auto simp: slice_wire_def elem_kind_def split: gtype.splits)

text \<open>The cases of \<open>putvalue\<close>, each under what it needs of the calls it makes.\<close>

lemma ptr_elem_eq: "ptr_elem E t old = Ret a \<Longrightarrow> old = VPtr (Some a) \<or> a = zero E t"
  by (cases t; cases old) (auto simp: ptr_elem_def split: option.splits)

lemma putvalue_ptr_typed:
  assumes "env_typed E G" "has_type E (TPtr t) old" "de_putvalue E G nm wt (TPtr t) old x vb = Ret w"
    and "\<And>a w. ptr_elem E t old = Ret a \<Longrightarrow> has_type E t a \<Longrightarrow> de_putvalue E G nm wt t a x vb = Ret w \<Longrightarrow> has_type E t w"
  shows "has_type E (TPtr t) w"
proof -
  obtain a b where a: "ptr_elem E t old = Ret a" "de_putvalue E G nm wt t a x vb = Ret b" "w = VPtr (Some b)"
    using assms(3) by (subst (asm) de_putvalue.simps) (auto simp: go_bind_eq_Ret)
  have "has_type E t a" using ptr_elem_eq [OF a(1)] assms(2) zero_typed [OF assms(1), of t] by (auto elim: ty_ptrE)
  with a assms(4) show ?thesis by (auto intro: ty_ptr)
qed

lemma putvalue_slice_typed:
  assumes "has_type E (TSlice d e) old" "de_putvalue E G nm wt (TSlice d e) old x vb = Ret w"
    and "\<And>w. \<lbrakk>wt = 2; slice_wire e = None; elem_kind e \<noteq> Some KUint8; de_putvalue E G nm 2 e (zero E e) 0 vb = Ret w\<rbrakk> \<Longrightarrow> has_type E e w"
    and "\<And>k ws. \<lbrakk>wt = 2; slice_wire e = Some k; de_packed E G nm k True e (val_List old) vb = Ret ws\<rbrakk> \<Longrightarrow> \<forall>x \<in> set ws. has_type E e x"
  shows "has_type E (TSlice d e) w"
proof (cases "slice_wire e")
  case (Some k)
  then obtain ws where "wt = 2" "de_packed E G nm k True e (val_List old) vb = Ret ws" "w = VList ws"
    using assms(2) by (subst (asm) de_putvalue.simps) (auto simp: go_bind_eq_Ret split: if_splits)
  with Some assms(4) slice_wire_kind show ?thesis by (auto intro!: ty_list)
next
  case None
  show ?thesis
  proof (cases "elem_kind e = Some KUint8")
    case True
    then have "w = VBytes vb" using assms(2) None by (subst (asm) de_putvalue.simps) (auto split: if_splits)
    with True show ?thesis by (auto intro: ty_bytes)
  next
    case False
    then obtain y where "wt = 2" "de_putvalue E G nm 2 e (zero E e) 0 vb = Ret y" "w = VList (val_List old @ [y])"
      using assms(2) None by (subst (asm) (2) de_putvalue.simps) (auto simp: go_bind_eq_Ret split: if_splits)
    with False None assms(3) val_List_typed(1) [OF assms(1)] show ?thesis by (auto intro!: ty_list)
  qed
qed

lemma putvalue_array_typed:
  assumes "has_type E (TArray len e) old" "de_putvalue E G nm wt (TArray len e) old x vb = Ret w"
    and "\<And>k ws. \<lbrakk>wt = 2; slice_wire e = Some k; de_packed E G nm k False e (val_List old) vb = Ret ws\<rbrakk> \<Longrightarrow> ws = val_List old"
  shows "has_type E (TArray len e) w"
proof (cases "slice_wire e")
  case (Some k)
  then obtain ws where "wt = 2" "de_packed E G nm k False e (val_List old) vb = Ret ws" "w = VList ws"
    using assms(2) by (subst (asm) de_putvalue.simps) (auto simp: go_bind_eq_Ret split: if_splits)
  with Some assms(3) val_List_typed(2) [OF assms(1) slice_wire_kind] show ?thesis by (auto intro!: ty_array dest: slice_wire_kind)
next
  case None
  then have "elem_kind e = Some KUint8 \<and> length vb = len \<and> w = VBytes vb"
    using assms(2) by (subst (asm) de_putvalue.simps) (auto simp: go_bind_eq_Ret split: if_splits)
  then show ?thesis by (auto intro: ty_barray)
qed

lemma putvalue_map_typed:
  assumes "env_typed E G" "has_type E (TMap kt vt) old" "de_putvalue E G nm wt (TMap kt vt) old x vb = Ret w"
    and "\<And>key n y kb rem k. \<lbrakk>wt = 2; Uvarint vb = (key, n); 0 < n; break_out (unat (key AND 7)) (drop (nat n) vb) = Ret (y, kb, rem);
      de_putvalue E G nm (unat (key AND 7)) kt (zero E kt) y kb = Ret k\<rbrakk> \<Longrightarrow>
      has_type E kt k \<and> (\<forall>v. de_records E G nm vt (zero E vt) rem = Ret v \<longrightarrow> has_type E vt v)"
  shows "has_type E (TMap kt vt) w"
proof -
  obtain key n where kn: "Uvarint vb = (key, n)" by force
  have n: "0 < n" "wt = 2" using assms(3) kn by (subst (asm) de_putvalue.simps, force split: if_splits)+
  then obtain y kb rem k v where "break_out (unat (key AND 7)) (drop (nat n) vb) = Ret (y, kb, rem)"
    "de_putvalue E G nm (unat (key AND 7)) kt (zero E kt) y kb = Ret k" "de_records E G nm vt (zero E vt) rem = Ret v"
    "w = VMap (AList.update k v (val_Map old))"
    using assms(3) kn by (subst (asm) de_putvalue.simps) (auto simp: go_bind_eq_Ret)
  with assms(4) [OF n(2) kn n(1)] show ?thesis using ty_map_update [OF val_Map_typed [OF assms(2)]] by blast
qed

lemma putvalue_interface_typed:
  assumes "env_typed E G" "constructors_typed E nm" "has_type E (TInterface i) old"
    and "de_putvalue E G nm wt (TInterface i) old x vb = Ret w"
    and "\<And>g data t u w. \<lbrakk>open_iface G nm i old vb = Ret (g, data); iface_target g = Inr (Ret (t, u)); has_type E t u;
      de_message E G (\<lambda>_. None) t u vb = Ret w\<rbrakk> \<Longrightarrow> has_type E t w"
  shows "has_type E (TInterface i) w"
proof -
  obtain g data where g: "open_iface G nm i old vb = Ret (g, data)"
    using assms(4) by (subst (asm) de_putvalue.simps) (auto simp: go_bind_eq_Ret)
  then have ty: "has_type E (TInterface i) g" using assms(1-3)
    by (auto simp: open_iface_def env_typed_def constructors_typed_def reg_get_def split: if_splits option.splits)
  show ?thesis
  proof (cases "iface_target g")
    case (Inl y)
    then show ?thesis using assms(4) g by (subst (asm) de_putvalue.simps) (auto simp: go_bind_eq_Ret ty_obj split: if_splits)
  next
    case (Inr r)
    then obtain t u b where b: "r = Ret (t, u)" "de_message E G (\<lambda>_. None) t u vb = Ret b" "w = VDyn (TPtr t) (VPtr (Some b))"
      using assms(4) g by (subst (asm) de_putvalue.simps) (auto simp: go_bind_eq_Ret)
    then have "g = VDyn (TPtr t) (VPtr (Some u))" using Inr
      by (auto simp: iface_target_def split: gval.splits gtype.splits option.splits)
    then have "has_type E t u" using ty by (auto elim!: ty_dynE ty_ptrE)
    with assms(5) [OF g] Inr b show ?thesis by (auto intro: ty_dyn ty_ptr)
  qed
qed

definition paths_ok :: "'o penv \<Rightarrow> gtype \<Rightarrow> ProtoField list \<Rightarrow> bool" where
  "paths_ok E t pfs \<longleftrightarrow> (\<forall>pf \<in> set pfs. path_field (pe_struct E) t (pf_Index pf) = Some (pf_Field pf))"

lemma paths_ok_dropWhile: "paths_ok E t pfs \<Longrightarrow> paths_ok E t (dropWhile P pfs)"
  by (auto simp: paths_ok_def dest: set_dropWhileD)

text \<open>One step of the loop of \<open>message\<close>: it ends, or skips a record, or puts one.\<close>

lemma de_fields_cases:
  assumes "de_fields E G nm t v pfs buf = Ret w"
  obtains "buf = []" "w = v"
  | key n v1 x vb rem where "buf \<noteq> []" "Uvarint buf = (key, n)" "\<not> n \<le> 0"
      "locate E t v (dropWhile (\<lambda>pf. pf_ID pf <s drop_bit 3 key) pfs) (drop_bit 3 key) = Ret (v1, None)"
      "break_out (unat (key AND 7)) (drop (nat n) buf) = Ret (x, vb, rem)"
      "de_fields E G nm t v1 (dropWhile (\<lambda>pf. pf_ID pf <s drop_bit 3 key) pfs) rem = Ret w"
  | key n v1 pf fv x vb rem u where "buf \<noteq> []" "Uvarint buf = (key, n)" "\<not> n \<le> 0"
      "locate E t v (dropWhile (\<lambda>pf. pf_ID pf <s drop_bit 3 key) pfs) (drop_bit 3 key) = Ret (v1, Some (pf, fv))"
      "break_out (unat (key AND 7)) (drop (nat n) buf) = Ret (x, vb, rem)"
      "de_putvalue E G nm (unat (key AND 7)) (f_Type (pf_Field pf)) fv x vb = Ret u"
      "de_fields E G nm t (set_path v1 (pf_Index pf) u) (dropWhile (\<lambda>pf. pf_ID pf <s drop_bit 3 key) pfs) rem = Ret w"
proof (cases "buf = []")
  case True
  then show ?thesis using assms that(1) by (subst (asm) de_fields.simps) simp
next
  case False
  obtain key n where kn: "Uvarint buf = (key, n)" by force
  let ?pfs = "dropWhile (\<lambda>pf. pf_ID pf <s drop_bit 3 key) pfs"
  have n: "\<not> n \<le> 0" using assms False kn by (subst (asm) de_fields.simps) (auto split: if_splits)
  note st = assms [unfolded de_fields.simps [of E G nm t v pfs buf] Let_def kn prod.case, simplified False n if_False go_bind_eq_Ret]
  then obtain v1 tgt where l: "locate E t v ?pfs (drop_bit 3 key) = Ret (v1, tgt)" by auto
  then obtain x vb rem where b: "break_out (unat (key AND 7)) (drop (nat n) buf) = Ret (x, vb, rem)"
    using st by (cases "break_out (unat (key AND 7)) (drop (nat n) buf)") auto
  show ?thesis
  proof (cases tgt)
    case None
    then show ?thesis using that(2) [OF False kn n _ b] l st b by simp
  next
    case (Some q)
    obtain pf fv where q: "q = (pf, fv)" by force
    with Some l st b obtain u where u: "de_putvalue E G nm (unat (key AND 7)) (f_Type (pf_Field pf)) fv x vb = Ret u"
      by (cases "de_putvalue E G nm (unat (key AND 7)) (f_Type (pf_Field pf)) fv x vb") auto
    show ?thesis by (rule that(3) [OF False kn n _ b u]) (use Some q l st b u in simp_all)
  qed
qed

lemma decode_typed:
  "env_typed E G \<Longrightarrow> constructors_typed E nm \<Longrightarrow> has_type E t v \<Longrightarrow> de_message E G nm t v buf = Ret w \<Longrightarrow> has_type E t w"
  "env_typed E G \<Longrightarrow> constructors_typed E nm \<Longrightarrow> has_type E t v \<Longrightarrow> paths_ok E t pfs \<Longrightarrow>
    de_fields E G nm t v pfs buf = Ret w \<Longrightarrow> has_type E t w"
  "env_typed E G \<Longrightarrow> constructors_typed E nm \<Longrightarrow> has_type E t v \<Longrightarrow> de_putvalue E G nm wt t v x vb = Ret w \<Longrightarrow> has_type E t w"
  "env_typed E G \<Longrightarrow> constructors_typed E nm \<Longrightarrow> (\<forall>x \<in> set xs. has_type E t x) \<Longrightarrow> de_packed E G nm wt sl t xs buf = Ret ws \<Longrightarrow>
    (\<forall>x \<in> set ws. has_type E t x) \<and> (sl \<or> ws = xs)"
  "env_typed E G \<Longrightarrow> constructors_typed E nm \<Longrightarrow> has_type E t v \<Longrightarrow> de_records E G nm t v buf = Ret w \<Longrightarrow> has_type E t w"
proof (induction E G nm t v buf and E G nm t v pfs buf and E G nm wt t v x vb and E G nm wt sl t xs buf and E G nm t v buf
    arbitrary: w and w and w and ws and w
    rule: de_message_de_fields_de_putvalue_de_packed_de_records.induct)
  case (1 E G nm t v buf)
  then obtain pfs where "is_struct t" "compute_fields (pe_struct E) t = Ret pfs" "de_fields E G nm t v pfs buf = Ret w"
    by (subst (asm) de_message.simps) (auto simp: go_bind_eq_Ret split: if_splits)
  moreover from this(2) have "paths_ok E t pfs" unfolding paths_ok_def using compute_fields_index by blast
  ultimately show ?case using 1 by blast
next
  case (2 E G nm t v pfs buf)
  note p = paths_ok_dropWhile [OF "2.prems"(4)]
  note ty = locate_typed [OF "2.prems"(1,3) p [unfolded paths_ok_def]]
  from "2.prems"(5) show ?case
  proof (cases rule: de_fields_cases)
    case 1
    then show ?thesis using "2.prems" by simp
  next
    case (2 key n v1 x vb rem)
    show ?thesis
      by (rule "2.IH"(1) [OF 2(1) 2(2) [symmetric] 2(3) refl refl 2(4) refl 2(5) refl refl refl "2.prems"(1,2) ty(1) [OF 2(4)] p 2(6)])
  next
    case (3 key n v1 pf fv x vb rem u)
    note t = ty(2) [OF 3(4) refl]
    have "has_type E (f_Type (pf_Field pf)) u"
      by (rule "2.IH"(2) [OF 3(1) 3(2) [symmetric] 3(3) refl refl 3(4) refl 3(5) refl refl refl refl "2.prems"(1,2) conjunct1 [OF t] 3(6)])
    then have "has_type E t (set_path v1 (pf_Index pf) u)" using t by blast
    then show ?thesis
      by (rule "2.IH"(3) [OF 3(1) 3(2) [symmetric] 3(3) refl refl 3(4) refl 3(5) refl refl refl refl 3(6) "2.prems"(1,2) _ p 3(7)])
  qed
next
  case (3 E G nm wt t old x vb)
  show ?case
  proof (cases t)
    case (TPrim n k)
    then show ?thesis using "3.prems"(4) by (auto simp: de_putvalue.simps intro!: ty_prim dest: put_prim_typed)
  next
    case TTime
    then show ?thesis using "3.prems"(4) by (auto simp: de_putvalue.simps put_time_def go_bind_eq_Ret Let_def intro: ty_time)
  next
    case (TStruct n)
    then show ?thesis using "3.IH"(1) "3.prems" by (auto simp: de_putvalue.simps split: if_splits)
  next
    case (TPtr t')
    show ?thesis unfolding TPtr
      by (rule putvalue_ptr_typed [OF "3.prems"(1) "3.prems"(3,4) [unfolded TPtr]]) (rule "3.IH"(2) [OF TPtr _ "3.prems"(1,2)])
  next
    case (TSlice d e)
    note old = "3.prems"(3) [unfolded TSlice]
    show ?thesis unfolding TSlice
    proof (rule putvalue_slice_typed [OF old "3.prems"(4) [unfolded TSlice]])
      show "has_type E e w" if "wt = 2" "slice_wire e = None" "elem_kind e \<noteq> Some KUint8" "de_putvalue E G nm 2 e (zero E e) 0 vb = Ret w" for w
        by (rule "3.IH"(3) [OF TSlice _ that(2,3) "3.prems"(1,2) zero_typed [OF "3.prems"(1)] that(4)]) (simp add: that(1))
      show "\<forall>x \<in> set ws. has_type E e x" if "wt = 2" "slice_wire e = Some k" "de_packed E G nm k True e (val_List old) vb = Ret ws" for k ws
        using "3.IH"(4) [OF TSlice _ that(2) "3.prems"(1,2) val_List_typed(1) [OF old] that(3)] that(1) by simp
    qed
  next
    case (TArray len e)
    note old = "3.prems"(3) [unfolded TArray]
    show ?thesis unfolding TArray
    proof (rule putvalue_array_typed [OF old "3.prems"(4) [unfolded TArray]])
      fix k ws assume p: "wt = 2" "slice_wire e = Some k" "de_packed E G nm k False e (val_List old) vb = Ret ws"
      have "\<forall>x \<in> set (val_List old). has_type E e x" using val_List_typed(2) [OF old slice_wire_kind [OF p(2)]] by blast
      then show "ws = val_List old" using "3.IH"(6) [OF TArray _ p(2) "3.prems"(1,2) _ p(3)] p(1) by simp
    qed
  next
    case (TMap kt vt)
    show ?thesis unfolding TMap
    proof (rule putvalue_map_typed [OF "3.prems"(1) "3.prems"(3,4) [unfolded TMap]])
      fix key n y kb rem k
      assume p: "wt = 2" "Uvarint vb = (key, n)" "0 < n" "break_out (unat (key AND 7)) (drop (nat n) vb) = Ret (y, kb, rem)"
        "de_putvalue E G nm (unat (key AND 7)) kt (zero E kt) y kb = Ret k"
      have q: "\<not> wt \<noteq> 2" "\<not> n \<le> 0" using p by auto
      note z = zero_typed [OF "3.prems"(1)]
      show "has_type E kt k \<and> (\<forall>v. de_records E G nm vt (zero E vt) rem = Ret v \<longrightarrow> has_type E vt v)"
        using "3.IH"(7) [OF TMap q(1) p(2) [symmetric] q(2) p(4) refl refl "3.prems"(1,2) z p(5)]
          "3.IH"(8) [OF TMap q(1) p(2) [symmetric] q(2) p(4) refl refl p(5) "3.prems"(1,2) z] by blast
    qed
  next
    case (TInterface i)
    show ?thesis unfolding TInterface
    proof (rule putvalue_interface_typed [OF "3.prems"(1,2) "3.prems"(3,4) [unfolded TInterface]])
      fix g data t u w assume p: "open_iface G nm i old vb = Ret (g, data)" "iface_target g = Inr (Ret (t, u))" "has_type E t u"
        "de_message E G (\<lambda>_. None) t u vb = Ret w"
      show "has_type E t w"
        by (rule "3.IH"(9) [OF TInterface p(1) refl p(2) refl refl "3.prems"(1) constructors_none p(3,4)])
    qed
  qed
next
  case (4 E G nm wt sl e xs buf)
  show ?case
  proof (cases "buf = []")
    case True
    then show ?thesis using "4.prems" by (subst (asm) de_packed.simps) simp
  next
    case False
    then obtain y vb rem u where p: "break_out wt buf = Ret (y, vb, rem)" "de_putvalue E G nm wt e (zero E e) y vb = Ret u"
      "sl" "de_packed E G nm wt sl e (xs @ [u]) rem = Ret ws"
      using "4.prems"(4) by (subst (asm) de_packed.simps) (auto simp: go_bind_eq_Ret split: if_splits)
    have "has_type E e u"
      by (rule "4.IH"(1) [OF False p(1) refl refl "4.prems"(1,2) zero_typed [OF "4.prems"(1)] p(2)])
    with "4.prems"(3) have xs: "\<forall>x \<in> set (xs @ [u]). has_type E e x" by simp
    show ?thesis using "4.IH"(2) [OF False p(1) refl refl p(2,3) "4.prems"(1,2) xs p(4)] p(3) by blast
  qed
next
  case (5 E G nm t v buf)
  show ?case
  proof (cases "buf = []")
    case True
    then show ?thesis using "5.prems" by (subst (asm) de_records.simps) simp
  next
    case False
    obtain key n where kn: "Uvarint buf = (key, n)" by force
    note eq = "5.prems"(4) [unfolded de_records.simps [of E G nm t v buf] kn prod.case, simplified False if_False]
    then have n: "\<not> n \<le> 0" by (cases "n \<le> 0") simp_all
    then obtain y vb rem u where p: "break_out (unat (key AND 7)) (drop (nat n) buf) = Ret (y, vb, rem)"
      "de_putvalue E G nm (unat (key AND 7)) t v y vb = Ret u" "de_records E G nm t u rem = Ret w"
      using eq by (auto simp: go_bind_eq_Ret)
    have "has_type E t u" by (rule "5.IH"(1) [OF False kn [symmetric] n p(1) refl refl "5.prems"(1-3) p(2)])
    then show ?thesis by (rule "5.IH"(2) [OF False kn [symmetric] n p(1) refl refl p(2) "5.prems"(1,2) _ p(3)])
  qed
qed


end
