(* ===== verification/Protobuf_Roundtrip.thy ===== *)
theory Protobuf_Roundtrip
  imports Protobuf_Types
begin

text \<open>
  Decoding what was encoded: the values for which the codec of \<open>imported/protobuf\<close> gives back
  what it was given, and the proof that it does.
\<close>

section \<open>Records\<close>

text \<open>
  The bytes of one field are a sequence of records, each a key followed by a payload. A record is
  given by its wire type, its payload, and the number and the bytes that the decoder
  breaks out of it.
\<close>

type_synonym wire_record = "nat \<times> bytes \<times> 64 word \<times> bytes"

definition record_ok :: "wire_record \<Rightarrow> bool" where
  "record_ok = (\<lambda>(wt, pay, x, vb). wt < 8 \<and> (\<forall>rest. break_out wt (pay @ rest) = Ret (x, vb, rest)))"

definition record_bytes :: "64 word \<Rightarrow> wire_record \<Rightarrow> bytes" where
  "record_bytes key = (\<lambda>(wt, pay, x, vb). uvarint (key OR of_nat wt) @ pay)"

definition put_record ::
  "'o penv \<Rightarrow> 'o registry \<Rightarrow> 'o constructors \<Rightarrow> gtype \<Rightarrow> wire_record \<Rightarrow> 'o gval \<Rightarrow> (pb_error, 'o gval) go" where
  "put_record E G nm t = (\<lambda>(wt, pay, x, vb) old. de_putvalue E G nm wt t old x vb)"

text \<open>The types whose values are written with the wire type of length-delimited bytes.\<close>

fun wire2 :: "gtype \<Rightarrow> bool" where
  "wire2 (TPrim _ k) = (k = KString)"
| "wire2 TTime = False"
| "wire2 (TPtr t) = wire2 t"
| "wire2 _ = True"

text \<open>
  One record that gives the value back: inside a repeated field the decoder passes 0 for the
  number, so the record of a type with \<open>wire2\<close> must not depend on it.
\<close>

definition single :: "'o penv \<Rightarrow> 'o registry \<Rightarrow> 'o constructors \<Rightarrow> 64 word \<Rightarrow> gtype \<Rightarrow> 'o gval \<Rightarrow> bytes \<Rightarrow> bool" where
  "single E G nm key t v b \<longleftrightarrow> (\<exists>wt pay. b = uvarint (key OR of_nat wt) @ pay \<and>
    (length pay < 2 ^ 64 \<longrightarrow> (\<exists>x vb. record_ok (wt, pay, x, vb) \<and> de_putvalue E G nm wt t (zero E t) x vb = Ret v \<and>
      (wire2 t \<longrightarrow> wt = 2 \<and> de_putvalue E G nm 2 t (zero E t) 0 vb = Ret v))))"

lemma single_delimited:
  assumes "length body < 2 ^ 64 \<Longrightarrow> \<forall>x. de_putvalue E G nm 2 t (zero E t) x body = Ret v"
  shows "single E G nm key t v (delimited key body)"
proof -
  let ?pay = "uvarint (of_nat (length body)) @ body"
  have "\<exists>x vb. record_ok (2, ?pay, x, vb) \<and> de_putvalue E G nm 2 t (zero E t) x vb = Ret v \<and>
      (wire2 t \<longrightarrow> (2 :: nat) = 2 \<and> de_putvalue E G nm 2 t (zero E t) 0 vb = Ret v)" if "length ?pay < 2 ^ 64"
  proof -
    have l: "length body < 2 ^ 64" using that by simp
    then have "record_ok (2, ?pay, of_nat (length body), body)"
      using break_out_simps(4) [OF l] by (simp add: record_ok_def)
    with assms [OF l] show ?thesis by blast
  qed
  then show ?thesis unfolding single_def delimited_def by (intro exI [of _ 2] exI [of _ ?pay]) simp
qed

section \<open>Basic values\<close>

definition int_fits :: "tname \<Rightarrow> kind \<Rightarrow> 64 word \<Rightarrow> bool" where
  "int_fits nm k w \<longleftrightarrow> set_int k w = w \<and> (nm = Fixed \<and> k \<noteq> KInt \<or> - (2 ^ 62) \<le> sint w \<and> sint w < 2 ^ 62)"

text \<open>
  The basic values that come back: a signed varint below \<open>2^62\<close> in absolute value, a \<open>float32\<close>
  that the conversion over \<open>float64\<close> keeps (on the usual hardware all but signalling NaNs).
\<close>

definition prim_ok :: "'o penv \<Rightarrow> tname \<Rightarrow> kind \<Rightarrow> 'o gval \<Rightarrow> bool" where
  "prim_ok E nm k v \<longleftrightarrow>
    (case v of
       VBool _ \<Rightarrow> k = KBool
     | VInt w \<Rightarrow> k \<in> {KInt, KInt32, KInt64} \<and> int_fits nm k w
     | VUint w \<Rightarrow> k \<in> {KUint32, KUint64} \<and> set_uint k w = w
     | VF32 w \<Rightarrow> k = KFloat32 \<and> pe_f32 E w = w
     | VF64 _ \<Rightarrow> k = KFloat64
     | VString _ \<Rightarrow> k = KString
     | _ \<Rightarrow> False)"

lemma svarint_record:
  assumes "- (2 ^ 62) \<le> sint w" "sint w < 2 ^ 62"
  shows "\<exists>x. (\<forall>rest. break_out 0 (svarint w @ rest) = Ret (x, [], rest)) \<and> decodeSignedInt 0 x = Ret w"
proof -
  let ?x = "if 0 \<le>s w then push_bit 1 w else NOT (push_bit 1 w)"
  have "signed_drop_bit 1 (push_bit 1 w) = w" using assms unfolding signed_shift_back sint_range_bits [symmetric] by blast
  then have "decodeSignedInt 0 ?x = Ret w" unfolding decodeSignedInt_zigzag by simp
  moreover have "break_out 0 (svarint w @ rest) = Ret (?x, [], rest)" for rest
    unfolding svarint_unfold break_out_simps ..
  ultimately show ?thesis by blast
qed

lemma enc_value_prim:
  "enc_value E G ca key (TPrim nm k) v pre =
    (case value_typed key (TPrim nm k) v of Some b \<Rightarrow> Ret b | None \<Rightarrow> value_kind E key k v)"
  by (subst enc_value.simps) (cases "value_typed key (TPrim nm k) v"; simp add: value_fast_def)

lemma de_putvalue_prim: "de_putvalue E G nm wt (TPrim n k) old x vb = put_prim E wt k x vb"
  by (subst de_putvalue.simps) simp

lemma record_ok_simps:
  "record_ok (0, uvarint v, v, [])" "record_ok (5, u32 w, ucast w, [])" "record_ok (1, u64 v, v, [])"
  using break_out_simps(3) by (simp_all add: record_ok_def break_out_simps)

lemma ucast_32_64 [simp]: "ucast (ucast w :: 64 word) = (w :: 32 word)"
  by (rule bit_word_eqI) (simp add: bit_simps)

lemmas prim_encoder_defs = value_typed_def value_predeclared_def value_fixed_def value_kind_def

text \<open>The wire type and the payload of a number.\<close>

definition prim_wt :: "tname \<Rightarrow> kind \<Rightarrow> nat" where
  "prim_wt n k =
    (if n = Fixed \<and> k \<in> {KInt32, KUint32} \<or> k = KFloat32 then 5
     else if n = Fixed \<and> k \<in> {KInt64, KUint64} \<or> k = KFloat64 then 1 else 0)"

definition prim_pay :: "tname \<Rightarrow> kind \<Rightarrow> 'o gval \<Rightarrow> bytes" where
  "prim_pay n k v =
    (case v of
       VBool b \<Rightarrow> uvarint (bool_word b)
     | VInt w \<Rightarrow> if prim_wt n k = 5 then u32 (ucast w) else if prim_wt n k = 1 then u64 w else svarint w
     | VUint w \<Rightarrow> if prim_wt n k = 5 then u32 (ucast w) else if prim_wt n k = 1 then u64 w else uvarint w
     | VF32 w \<Rightarrow> u32 w
     | VF64 w \<Rightarrow> u64 w
     | _ \<Rightarrow> [])"

lemma int_record:
  assumes "k \<in> {KInt, KInt32, KInt64}" "int_fits n k w"
  shows "\<exists>x. record_ok (prim_wt n k, prim_pay n k (VInt w), x, []) \<and> put_prim E (prim_wt n k) k x [] = Ret (VInt w)"
proof (cases "n = Fixed \<and> k \<noteq> KInt")
  case True
  then consider "n = Fixed" "k = KInt32" | "n = Fixed" "k = KInt64" using assms(1) by auto
  then show ?thesis
  proof cases
    case 1
    then show ?thesis using assms(2) record_ok_simps(2) [of "ucast w"]
      by (intro exI [of _ "ucast (ucast w :: 32 word)"])
        (simp add: int_fits_def set_int_def prim_wt_def prim_pay_def put_prim_def decodeSignedInt_def)
  next
    case 2
    then show ?thesis using record_ok_simps(3) [of w]
      by (intro exI [of _ w]) (simp add: set_int_def prim_wt_def prim_pay_def put_prim_def decodeSignedInt_def)
  qed
next
  case False
  then have r: "- (2 ^ 62) \<le> sint w" "sint w < 2 ^ 62" "set_int k w = w" using assms(2) by (auto simp: int_fits_def)
  then obtain x where x: "\<forall>rest. break_out 0 (svarint w @ rest) = Ret (x, [], rest)" "decodeSignedInt 0 x = Ret w"
    using svarint_record [OF r(1,2)] by blast
  have "prim_wt n k = 0" using False assms(1) by (auto simp: prim_wt_def)
  with assms(1) x r(3) show ?thesis by (intro exI [of _ x]) (auto simp: record_ok_def put_prim_def prim_pay_def)
qed

lemma uint_record:
  assumes "k \<in> {KUint32, KUint64}" "set_uint k w = w"
  shows "\<exists>x. record_ok (prim_wt n k, prim_pay n k (VUint w), x, []) \<and> put_prim E (prim_wt n k) k x [] = Ret (VUint w)"
proof -
  from assms(1) consider "n = Fixed" "k = KUint32" | "n = Fixed" "k = KUint64" | "n \<noteq> Fixed" by auto
  then show ?thesis
  proof cases
    case 1
    with assms(2) record_ok_simps(2) [of "ucast w"] show ?thesis
      by (intro exI [of _ "ucast (ucast w :: 32 word)"])
        (simp add: set_uint_def prim_wt_def prim_pay_def put_prim_def)
  next
    case 2
    with record_ok_simps(3) [of w] show ?thesis
      by (intro exI [of _ w]) (simp add: set_uint_def prim_wt_def prim_pay_def put_prim_def)
  next
    case 3
    with assms record_ok_simps(1) [of w] show ?thesis
      by (intro exI [of _ w]) (auto simp: prim_wt_def prim_pay_def put_prim_def)
  qed
qed

lemma prim_record:
  assumes "prim_ok E n k v" "k \<noteq> KString"
  shows "\<exists>x. record_ok (prim_wt n k, prim_pay n k v, x, []) \<and> put_prim E (prim_wt n k) k x [] = Ret v"
proof (cases v)
  case (VBool b)
  with assms record_ok_simps(1) [of "bool_word b"] show ?thesis
    by (intro exI [of _ "bool_word b"]) (simp add: prim_ok_def prim_wt_def prim_pay_def put_prim_def)
next
  case (VF32 w)
  with assms record_ok_simps(2) [of w] show ?thesis
    by (intro exI [of _ "ucast w"]) (simp add: prim_ok_def prim_wt_def prim_pay_def put_prim_def)
next
  case (VF64 w)
  with assms record_ok_simps(3) [of w] show ?thesis
    by (intro exI [of _ w]) (simp add: prim_ok_def prim_wt_def prim_pay_def put_prim_def)
next
  case (VInt w)
  with assms have "k \<in> {KInt, KInt32, KInt64}" "int_fits n k w" by (simp_all add: prim_ok_def)
  then show ?thesis unfolding VInt by (rule int_record)
next
  case (VUint w)
  with assms have "k \<in> {KUint32, KUint64}" "set_uint k w = w" by (simp_all add: prim_ok_def)
  then show ?thesis unfolding VUint by (rule uint_record)
qed (use assms in \<open>simp_all add: prim_ok_def\<close>)

lemma enc_prim:
  assumes "prim_ok E n k v" "k \<noteq> KString"
  shows "enc_value E G ca key (TPrim n k) v pre = Ret (uvarint (key OR of_nat (prim_wt n k)) @ prim_pay n k v)"
  using assms unfolding enc_value_prim
  by (cases v; cases n; cases k) (simp_all add: prim_ok_def prim_encoder_defs prim_wt_def prim_pay_def)

lemma single_prim:
  assumes "prim_ok E n k v"
  shows "\<exists>b. enc_value E G ca key (TPrim n k) v pre = Ret b \<and> single E G nm key (TPrim n k) v b"
proof (cases "k = KString")
  case True
  then obtain s where v: "v = VString s" using assms by (cases v) (auto simp: prim_ok_def)
  have "enc_value E G ca key (TPrim n k) v pre = Ret (delimited key s)"
    by (auto simp: enc_value_prim True v prim_encoder_defs split: tname.splits)
  moreover have "single E G nm key (TPrim n k) v (delimited key s)"
    by (rule single_delimited) (simp add: de_putvalue_prim put_prim_def True v)
  ultimately show ?thesis by blast
next
  case False
  from prim_record [OF assms False] have "single E G nm key (TPrim n k) v (uvarint (key OR of_nat (prim_wt n k)) @ prim_pay n k v)"
    unfolding single_def by (auto simp: de_putvalue_prim False)
  with enc_prim [OF assms False] show ?thesis by blast
qed

lemma single_time:
  assumes "- (2 ^ 63) \<le> t" "t < 2 ^ 63"
  shows "\<exists>b. enc_value E G ca key TTime (VTime t) pre = Ret b \<and> single E G nm key TTime (VTime t) b"
proof (intro exI conjI)
  let ?w = "of_int t :: 64 word"
  show "enc_value E G ca key TTime (VTime t) pre = Ret (uvarint (key OR of_nat 1) @ u64 ?w)"
    by (subst enc_value.simps) (simp add: value_fast_def value_typed_def)
  have "sint ?w = t" using assms by (simp add: signed_of_int signed_take_bit_int_eq_self_iff)
  then have "put_time 1 ?w = (Ret (VTime t) :: (pb_error, 'a gval) go)"
    by (simp add: put_time_def decodeSignedInt_def time_Unix_def Let_def)
  then have "de_putvalue E G nm 1 TTime old ?w [] = Ret (VTime t)" for old by (subst de_putvalue.simps) simp
  then show "single E G nm key TTime (VTime t) (uvarint (key OR of_nat 1) @ u64 ?w)"
    unfolding single_def using record_ok_simps(3) [of ?w]
    by (intro exI [of _ 1] exI [of _ "u64 ?w"] conjI impI exI [of _ ?w] exI [of _ "[]"]) simp_all
qed

section \<open>Packed slices\<close>

definition packed_kind :: "kind \<Rightarrow> bool" where
  "packed_kind k \<longleftrightarrow> k \<in> {KBool, KInt, KInt32, KInt64, KUint32, KUint64, KFloat32, KFloat64}"

lemma packed_kind_wire: "packed_kind k \<Longrightarrow> slice_wire (TPrim n k) = Some (prim_wt n k)"
  by (auto simp: packed_kind_def slice_wire_def prim_wt_def)

text \<open>
  A slice of numbers. The elements of a defined slice type are written by kind, so the package's
  fixed-size types must stand in a plain slice.
\<close>

lemma packed_encoding:
  fixes E :: "'o penv"
  assumes "packed_kind k" "n = Fixed \<longrightarrow> \<not> d" "\<forall>x \<in> set xs. prim_ok E n k x"
  shows "enc_value E G ca key (TSlice d (TPrim n k)) (VList xs) pre = Ret (delimited key (concat (map (prim_pay n k) xs)))"
proof -
  let ?el = "slice_elem (TPrim n k) :: ('o gval \<Rightarrow> bytes) option"
  have k: "k \<noteq> KUint8" "k \<noteq> KString" using assms(1) by (auto simp: packed_kind_def)
  obtain f where f: "reflect_elem E k = Some f" using assms(1) by (auto simp: packed_kind_def reflect_elem_def)
  have r: "slice_packed E key (TPrim n k) (VList xs) = Some (Ret (delimited key (concat (map (prim_pay n k) xs))))"
    if "n \<noteq> Fixed \<or> k \<in> {KBool, KInt, KFloat32, KFloat64}"
  proof -
    have "f x = prim_pay n k x" if "x \<in> set xs" for x
      using assms(3) [rule_format, OF that] f \<open>n \<noteq> Fixed \<or> k \<in> {KBool, KInt, KFloat32, KFloat64}\<close>
      by (cases x; cases k) (auto simp: prim_ok_def reflect_elem_def prim_pay_def prim_wt_def)
    then have "concat (map f xs) = concat (map (prim_pay n k) xs)" by (simp cong: map_cong)
    with f k show ?thesis by (simp add: slice_packed_def elem_kind_def)
  qed
  have "slice_fast key (TSlice d (TPrim n k)) (VList xs) = Some (delimited key (concat (map (prim_pay n k) xs))) \<or>
      slice_fast key (TSlice d (TPrim n k)) (VList xs) = None \<and> (n \<noteq> Fixed \<or> k \<in> {KBool, KInt, KFloat32, KFloat64})"
  proof (cases "d \<or> ?el = None")
    case True
    have "?el = None \<Longrightarrow> n \<noteq> Fixed \<or> k \<in> {KBool, KInt, KFloat32, KFloat64}"
      using assms(1) by (cases n; cases k) (auto simp: slice_elem_def packed_kind_def)
    with True assms(2) k show ?thesis by (cases d) (auto simp: slice_fast_def)
  next
    case False
    then obtain g where g: "?el = Some g" by auto
    have "g x = prim_pay n k x" if "x \<in> set xs" for x
      using assms(3) [rule_format, OF that] g
      by (cases x; cases n; cases k) (auto simp: prim_ok_def slice_elem_def prim_pay_def prim_wt_def)
    then have "concat (map g xs) = concat (map (prim_pay n k) xs)" by (simp cong: map_cong)
    with g False show ?thesis by (simp add: slice_fast_def)
  qed
  with r show ?thesis by (subst enc_value.simps) (auto simp: value_fast_def value_typed_def)
qed

lemma packed_decoding:
  assumes "\<forall>x \<in> set xs. prim_ok E n k x" "k \<noteq> KString"
  shows "de_packed E G nm (prim_wt n k) True (TPrim n k) acc (concat (map (prim_pay n k) xs)) = Ret (acc @ xs)"
  using assms(1)
proof (induction xs arbitrary: acc)
  case Nil
  then show ?case by (subst de_packed.simps) simp
next
  case (Cons v xs)
  then obtain x where x: "record_ok (prim_wt n k, prim_pay n k v, x, [])" "put_prim E (prim_wt n k) k x [] = Ret v"
    using prim_record [OF _ assms(2), of E n v] by auto
  let ?rest = "concat (map (prim_pay n k) xs)"
  have b: "break_out (prim_wt n k) (prim_pay n k v @ ?rest) = Ret (x, [], ?rest)" using x(1) by (simp add: record_ok_def)
  moreover have "prim_pay n k v \<noteq> []" using break_out_smaller [of "prim_wt n k" "prim_pay n k v" x "[]" "[]"] x(1)
    by (auto simp: record_ok_def dest: spec [of _ "[]"])
  ultimately show ?case using Cons x(2) by (subst de_packed.simps) (simp add: de_putvalue_prim)
qed

lemma zero_list: "elem_kind e \<noteq> Some KUint8 \<Longrightarrow> zero E (TSlice d e) = VList []"
  by (auto simp: elem_kind_def split: gtype.splits kind.splits)

lemma single_packed:
  assumes "packed_kind k" "n = Fixed \<longrightarrow> \<not> d" "\<forall>x \<in> set xs. prim_ok E n k x"
  shows "\<exists>b. enc_value E G ca key (TSlice d (TPrim n k)) (VList xs) pre = Ret b \<and>
    single E G nm key (TSlice d (TPrim n k)) (VList xs) b"
proof (intro exI conjI)
  show "enc_value E G ca key (TSlice d (TPrim n k)) (VList xs) pre = Ret (delimited key (concat (map (prim_pay n k) xs)))"
    by (rule packed_encoding [OF assms])
  have k: "k \<noteq> KString" "k \<noteq> KUint8" using assms(1) by (auto simp: packed_kind_def)
  have "de_putvalue E G nm 2 (TSlice d (TPrim n k)) (zero E (TSlice d (TPrim n k))) x (concat (map (prim_pay n k) xs)) = Ret (VList xs)" for x
    using packed_decoding [OF assms(3) k(1), of G nm "[]"] packed_kind_wire [OF assms(1), of n]
    by (subst de_putvalue.simps) (simp add: zero_list elem_kind_def k(2) del: zero.simps)
  then show "single E G nm key (TSlice d (TPrim n k)) (VList xs) (delimited key (concat (map (prim_pay n k) xs)))"
    by (intro single_delimited) simp
qed

section \<open>Bytes, pointers and objects\<close>

lemma single_bytes:
  "\<exists>b. enc_value E G ca key (TSlice d (TPrim Predeclared KUint8)) (VBytes bs) pre = Ret b \<and>
    single E G nm key (TSlice d (TPrim Predeclared KUint8)) (VBytes bs) b"
proof (intro exI conjI)
  show "enc_value E G ca key (TSlice d (TPrim Predeclared KUint8)) (VBytes bs) pre = Ret (delimited key bs)"
    by (subst enc_value.simps) (cases d; simp add: value_fast_def value_typed_def slice_fast_def slice_packed_def elem_kind_def)
  show "single E G nm key (TSlice d (TPrim Predeclared KUint8)) (VBytes bs) (delimited key bs)"
    by (rule single_delimited, subst de_putvalue.simps) (simp add: slice_wire_def elem_kind_def)
qed

lemma single_array:
  assumes "length bs = len"
  shows "\<exists>b. enc_value E G ca key (TArray len (TPrim Predeclared KUint8)) (VBytes bs) pre = Ret b \<and>
    single E G nm key (TArray len (TPrim Predeclared KUint8)) (VBytes bs) b"
proof (intro exI conjI)
  show "enc_value E G ca key (TArray len (TPrim Predeclared KUint8)) (VBytes bs) pre = Ret (delimited key bs)"
    by (subst enc_value.simps) (simp add: value_fast_def value_typed_def slice_packed_def elem_kind_def)
  show "single E G nm key (TArray len (TPrim Predeclared KUint8)) (VBytes bs) (delimited key bs)"
    by (rule single_delimited, subst de_putvalue.simps) (simp add: slice_wire_def elem_kind_def assms)
qed

definition not_interface :: "gtype \<Rightarrow> bool" where
  "not_interface t \<longleftrightarrow> (case t of TInterface _ \<Rightarrow> False | _ \<Rightarrow> True)"

lemma enc_value_ptr: "enc_value E G ca key (TPtr t) (VPtr (Some w)) pre = enc_value E G True key t w pre"
  by (subst enc_value.simps) (simp add: value_fast_def value_typed_def)

lemma de_putvalue_ptr:
  "not_interface t \<Longrightarrow> de_putvalue E G nm wt (TPtr t) (VPtr None) x vb =
    go_bind (de_putvalue E G nm wt t (zero E t) x vb) (\<lambda>w. Ret (VPtr (Some w)))"
  "de_putvalue E G nm wt (TPtr t) (VPtr (Some u)) x vb =
    go_bind (de_putvalue E G nm wt t u x vb) (\<lambda>w. Ret (VPtr (Some w)))"
  by (subst de_putvalue.simps, cases t, simp_all add: ptr_elem_def not_interface_def)
     (subst de_putvalue.simps, simp add: ptr_elem_def)

lemma single_ptr:
  assumes "not_interface t" "\<exists>b. enc_value E G True key t w pre = Ret b \<and> single E G nm key t w b"
  shows "\<exists>b. enc_value E G ca key (TPtr t) (VPtr (Some w)) pre = Ret b \<and> single E G nm key (TPtr t) (VPtr (Some w)) b"
proof -
  obtain b where b: "enc_value E G True key t w pre = Ret b" "single E G nm key t w b" using assms(2) by blast
  obtain wt pay where p: "b = uvarint (key OR of_nat wt) @ pay" and
    q: "length pay < 2 ^ 64 \<longrightarrow> (\<exists>x vb. record_ok (wt, pay, x, vb) \<and> de_putvalue E G nm wt t (zero E t) x vb = Ret w \<and>
      (wire2 t \<longrightarrow> wt = 2 \<and> de_putvalue E G nm 2 t (zero E t) 0 vb = Ret w))"
    using b(2) unfolding single_def by blast
  have "single E G nm key (TPtr t) (VPtr (Some w)) b"
    unfolding single_def zero.simps de_putvalue_ptr(1) [OF assms(1)] wire2.simps
    using p q by (intro exI [of _ wt] exI [of _ pay]) fastforce
  with b(1) show ?thesis by (simp add: enc_value_ptr)
qed

text \<open>
  An object that marshals itself comes back when the object that the generator or the
  constructor makes for its bytes unmarshals them to the same object.
\<close>

definition obj_payload :: "'o penv \<Rightarrow> 'o registry \<Rightarrow> 'o \<Rightarrow> (pb_error, bytes) go" where
  "obj_payload E G x =
    go_bind (pe_Marshal E x) (\<lambda>bs.
      Ret ((case pe_ID E x of Some n \<Rightarrow> if reg_get G n \<noteq> None then n else [] | None \<Rightarrow> []) @ bs))"

definition obj_rt :: "'o penv \<Rightarrow> 'o registry \<Rightarrow> 'o constructors \<Rightarrow> string \<Rightarrow> 'o \<Rightarrow> bool" where
  "obj_rt E G nm i x \<longleftrightarrow>
    go_bind (obj_payload E G x) (\<lambda>p. go_bind (open_iface G nm i VNil p) (\<lambda>(g, data).
      case g of VObj y \<Rightarrow> pe_Unmarshal E y data | _ \<Rightarrow> Err PE_other)) = Ret x"

lemma value_obj_payload: "value_obj E G key x = go_bind (obj_payload E G x) (\<lambda>p. Ret (delimited key p))"
  by (cases "pe_Marshal E x") (auto simp: value_obj_def obj_payload_def split: option.splits)

lemma single_obj:
  assumes "obj_rt E G nm i x"
  shows "\<exists>b. enc_value E G ca key (TInterface i) (VObj x) pre = Ret b \<and> single E G nm key (TInterface i) (VObj x) b"
proof -
  obtain p g data where p: "obj_payload E G x = Ret p" "open_iface G nm i VNil p = Ret (g, data)"
    "(case g of VObj y \<Rightarrow> pe_Unmarshal E y data | _ \<Rightarrow> Err PE_other) = Ret x"
    using assms by (auto simp: obj_rt_def go_bind_eq_Ret)
  then obtain y where y: "g = VObj y" "pe_Unmarshal E y data = Ret x" by (cases g) auto
  have "enc_value E G ca key (TInterface i) (VObj x) pre = Ret (delimited key p)"
    by (subst enc_value.simps) (simp add: value_fast_def value_obj_payload p(1))
  moreover have "single E G nm key (TInterface i) (VObj x) (delimited key p)"
    by (rule single_delimited, subst de_putvalue.simps) (simp add: p(2) y iface_target_def)
  ultimately show ?thesis by blast
qed

section \<open>Fields\<close>

text \<open>
  A field comes back: its bytes are records under its key, and putting them one after the
  other into the zero value gives the value of the field.
\<close>

definition records_of ::
  "'o penv \<Rightarrow> 'o registry \<Rightarrow> 'o constructors \<Rightarrow> 64 word \<Rightarrow> gtype \<Rightarrow> 'o gval \<Rightarrow> 'o gval \<Rightarrow> bytes \<Rightarrow> bool" where
  "records_of E G nm key t old v b \<longleftrightarrow> (length b < 2 ^ 64 \<longrightarrow> (\<exists>rs. b = concat (map (record_bytes key) rs) \<and>
    list_all record_ok rs \<and> go_fold (put_record E G nm t) rs old = Ret v))"

lemma records_of_single: "single E G nm key t v b \<Longrightarrow> records_of E G nm key t (zero E t) v b"
proof -
  assume "single E G nm key t v b"
  then obtain wt pay where p: "b = uvarint (key OR of_nat wt) @ pay" and
    q: "length pay < 2 ^ 64 \<longrightarrow> (\<exists>x vb. record_ok (wt, pay, x, vb) \<and> de_putvalue E G nm wt t (zero E t) x vb = Ret v)"
    unfolding single_def by blast
  show ?thesis unfolding records_of_def
  proof
    assume "length b < 2 ^ 64"
    then obtain x vb where "record_ok (wt, pay, x, vb)" "de_putvalue E G nm wt t (zero E t) x vb = Ret v" using p q by auto
    then show "\<exists>rs. b = concat (map (record_bytes key) rs) \<and> list_all record_ok rs \<and>
        go_fold (put_record E G nm t) rs (zero E t) = Ret v"
      by (intro exI [of _ "[(wt, pay, x, vb)]"]) (simp add: p record_bytes_def put_record_def)
  qed
qed

subsection \<open>Repeated fields\<close>

definition byte_seq :: "gtype \<Rightarrow> bool" where
  "byte_seq t \<longleftrightarrow> (case t of TSlice _ e \<Rightarrow> e = TPrim Predeclared KUint8 | TArray _ e \<Rightarrow> e = TPrim Predeclared KUint8 | _ \<Rightarrow> False)"

text \<open>The element types of a repeated field that is written one record per element.\<close>

definition rep_elem :: "gtype \<Rightarrow> bool" where
  "rep_elem e \<longleftrightarrow>
    (case e of
       TPrim _ k \<Rightarrow> k = KString
     | TStruct _ \<Rightarrow> True
     | TPtr t \<Rightarrow> wire2 t
     | TInterface _ \<Rightarrow> True
     | TSlice _ _ \<Rightarrow> byte_seq e
     | TArray _ _ \<Rightarrow> byte_seq e
     | _ \<Rightarrow> False)"

lemma rep_elem_simps:
  assumes "rep_elem e"
  shows "wire2 e" "slice_wire e = None" "elem_kind e \<noteq> Some KUint8" "slice_packed E key e (VList xs) = None"
  using assms
  by (auto simp: rep_elem_def byte_seq_def slice_wire_def elem_kind_def slice_packed_def reflect_elem_def split: gtype.splits)

lemma enc_strings:
  assumes "\<forall>x \<in> set xs. prim_ok E Predeclared KString x"
  shows "enc_elems E G True key (TPrim Predeclared KString) xs = Ret (concat (map (\<lambda>x. delimited key (val_String x)) xs))"
  using assms
  by (induction xs) (auto simp: enc_value_prim prim_encoder_defs)

lemma enc_value_repeated:
  assumes "rep_elem e" "\<forall>x \<in> set xs. e = TPrim Predeclared KString \<longrightarrow> prim_ok E Predeclared KString x"
  shows "enc_value E G ca key (TSlice d e) (VList xs) pre = enc_elems E G True key e xs"
proof (cases "slice_fast key (TSlice d e) (VList xs)")
  case None
  then show ?thesis using rep_elem_simps(4) [OF assms(1), of E key xs]
    by (subst enc_value.simps) (simp add: value_fast_def value_typed_def)
next
  case (Some b)
  have "\<not> d" using Some by (cases d) (simp_all add: slice_fast_def)
  have "(slice_elem e :: ('a gval \<Rightarrow> bytes) option) = None"
    using assms(1) by (auto simp: rep_elem_def slice_elem_def split: gtype.splits tname.splits)
  with Some \<open>\<not> d\<close> have "e = TPrim Predeclared KString" "b = concat (map (\<lambda>x. delimited key (val_String x)) xs)"
    by (auto simp: slice_fast_def split: if_splits)
  with assms(2) enc_strings [of xs E G key] Some show ?thesis
    by (subst enc_value.simps) (simp add: value_fast_def value_typed_def)
qed

lemma put_element:
  assumes "rep_elem e" "de_putvalue E G nm 2 e (zero E e) 0 vb = Ret v"
  shows "de_putvalue E G nm 2 (TSlice d e) (VList acc) x vb = Ret (VList (acc @ [v]))"
  using assms rep_elem_simps(2,3) [OF assms(1)] by (subst de_putvalue.simps) simp

lemma records_of_elems:
  assumes "rep_elem e"
    and "\<forall>x \<in> set xs. \<exists>b. enc_value E G True key e x TagNone = Ret b \<and> single E G nm key e x b"
  shows "\<exists>b. enc_elems E G True key e xs = Ret b \<and> records_of E G nm key (TSlice d e) (VList acc) (VList (acc @ xs)) b"
  using assms(2)
proof (induction xs arbitrary: acc)
  case Nil
  show ?case by (auto simp: records_of_def intro!: exI [of _ "[]"])
next
  case (Cons v xs)
  obtain b where b: "enc_value E G True key e v TagNone = Ret b" "single E G nm key e v b" using Cons.prems by auto
  obtain bs where bs: "enc_elems E G True key e xs = Ret bs"
    "records_of E G nm key (TSlice d e) (VList (acc @ [v])) (VList (acc @ v # xs)) bs" using Cons.IH [of "acc @ [v]"] Cons.prems by auto
  obtain wt pay where p: "b = uvarint (key OR of_nat wt) @ pay" and
    q: "length pay < 2 ^ 64 \<longrightarrow> (\<exists>x vb. record_ok (wt, pay, x, vb) \<and> wt = 2 \<and> de_putvalue E G nm 2 e (zero E e) 0 vb = Ret v)"
    using b(2) rep_elem_simps(1) [OF assms(1)] unfolding single_def by blast
  have "records_of E G nm key (TSlice d e) (VList acc) (VList (acc @ v # xs)) (b @ bs)" unfolding records_of_def
  proof
    assume l: "length (b @ bs) < 2 ^ 64"
    then obtain x vb where r: "record_ok (2, pay, x, vb)" "wt = 2" "de_putvalue E G nm 2 e (zero E e) 0 vb = Ret v" using p q by auto
    obtain rs where "bs = concat (map (record_bytes key) rs)" "list_all record_ok rs"
      "go_fold (put_record E G nm (TSlice d e)) rs (VList (acc @ [v])) = Ret (VList (acc @ v # xs))"
      using bs(2) l unfolding records_of_def by auto
    then show "\<exists>rs. b @ bs = concat (map (record_bytes key) rs) \<and> list_all record_ok rs \<and>
        go_fold (put_record E G nm (TSlice d e)) rs (VList acc) = Ret (VList (acc @ v # xs))"
      using r put_element [OF assms(1) r(3)]
      by (intro exI [of _ "(2, pay, x, vb) # rs"]) (simp add: p record_bytes_def put_record_def)
  qed
  with b(1) bs(1) show ?case by simp
qed

subsection \<open>Keys\<close>

lemma of_nat_bits: "wt < 8 \<Longrightarrow> bit (of_nat wt :: 64 word) k \<Longrightarrow> k < 3"
proof -
  assume a: "wt < 8" "bit (of_nat wt :: 64 word) k"
  have "unat (of_nat wt :: 64 word) = wt" using a(1) by (simp add: unat_of_nat)
  then have "unat (of_nat wt :: 64 word) < 2 ^ 3" using a(1) by simp
  then show "k < 3" using word_small_bits [of "of_nat wt :: 64 word" 3 k] a(2) by linarith
qed

lemma key_parts:
  assumes "wt < 8"
  shows "unat ((push_bit 3 n OR of_nat wt) AND 7 :: 64 word) = wt"
    and "unat n < 2 ^ 61 \<Longrightarrow> drop_bit 3 (push_bit 3 n OR of_nat wt :: 64 word) = n"
proof -
  have "(push_bit 3 n OR of_nat wt) AND 7 = (of_nat wt :: 64 word)"
  proof -
    have "(7 :: 64 word) = mask 3" by (simp add: mask_eq_exp_minus_1)
    then have "(push_bit 3 n OR of_nat wt) AND 7 = take_bit 3 (push_bit 3 n OR of_nat wt :: 64 word)" by (simp add: take_bit_eq_mask)
    also have "\<dots> = of_nat wt"
      by (rule bit_word_eqI) (use of_nat_bits [OF assms] in \<open>auto simp: bit_take_bit_iff bit_or_iff bit_push_bit_iff\<close>)
    finally show ?thesis .
  qed
  then show "unat ((push_bit 3 n OR of_nat wt) AND 7 :: 64 word) = wt" using assms by (simp add: unat_of_nat)
  assume n: "unat n < 2 ^ 61"
  show "drop_bit 3 (push_bit 3 n OR of_nat wt :: 64 word) = n"
  proof (rule bit_word_eqI)
    fix k assume k: "k < LENGTH(64)"
    have "bit n k \<Longrightarrow> k < 61" using word_small_bits [OF n, of k] by linarith
    then show "bit (drop_bit 3 (push_bit 3 n OR of_nat wt :: 64 word)) k \<longleftrightarrow> bit n k"
      using of_nat_bits [OF assms, of "3 + k"] k by (auto simp: bit_drop_bit_eq bit_or_iff bit_push_bit_iff)
  qed
qed

lemma read_record:
  assumes "record_ok (wt, pay, x, vb)"
  shows "Uvarint (record_bytes key (wt, pay, x, vb) @ rest) = (key OR of_nat wt, int (length (uvarint (key OR of_nat wt))))"
    and "break_out wt (drop (length (uvarint (key OR of_nat wt))) (record_bytes key (wt, pay, x, vb) @ rest)) = Ret (x, vb, rest)"
    and "record_bytes key (wt, pay, x, vb) \<noteq> []" and "wt < 8"
  using assms by (simp_all add: record_bytes_def record_ok_def Uvarint_uvarint)

lemma de_records_fold:
  assumes "list_all record_ok rs" "go_fold (put_record E G nm t) rs old = Ret v"
  shows "de_records E G nm t old (concat (map (record_bytes (push_bit 3 n)) rs)) = Ret v"
  using assms
proof (induction rs arbitrary: old)
  case Nil
  then show ?case by (subst de_records.simps) simp
next
  case (Cons r rs)
  obtain wt pay x vb where r: "r = (wt, pay, x, vb)" by (cases r) auto
  let ?rest = "concat (map (record_bytes (push_bit 3 n)) rs)"
  obtain w where w: "de_putvalue E G nm wt t old x vb = Ret w" "go_fold (put_record E G nm t) rs w = Ret v"
    using Cons.prems(2) unfolding r by (auto simp: put_record_def go_bind_eq_Ret)
  have ok: "record_ok (wt, pay, x, vb)" using Cons.prems(1) r by simp
  note d = read_record [OF ok]
  have "de_records E G nm t w ?rest = Ret v" using Cons.IH [OF _ w(2)] Cons.prems(1) by simp
  then show ?case unfolding r list.map concat.simps
    by (subst de_records.simps) (simp add: d key_parts(1) w(1) del: drop_append)
qed

subsection \<open>Maps\<close>

lemma records_of_decode:
  "records_of E G nm (push_bit 3 n) t old v b \<Longrightarrow> length b < 2 ^ 64 \<Longrightarrow> de_records E G nm t old b = Ret v"
  unfolding records_of_def by (elim impE exE conjE) (auto intro: de_records_fold)

lemma put_entry:
  assumes "single E G nm (push_bit 3 n) kt k b1" "records_of E G nm (push_bit 3 m) vt (zero E vt) v b2" "length (b1 @ b2) < 2 ^ 64"
  shows "de_putvalue E G nm 2 (TMap kt vt) (VMap acc) x (b1 @ b2) = Ret (VMap (AList.update k v acc))"
proof -
  obtain wt pay y vb where p: "b1 = record_bytes (push_bit 3 n) (wt, pay, y, vb)" "record_ok (wt, pay, y, vb)"
    "de_putvalue E G nm wt kt (zero E kt) y vb = Ret k"
    using assms(1,3) unfolding single_def record_bytes_def by auto
  note d = read_record [OF p(2)]
  have "de_records E G nm vt (zero E vt) b2 = Ret v" by (rule records_of_decode [OF assms(2)]) (use assms(3) in simp)
  then show ?thesis unfolding p(1)
    by (subst de_putvalue.simps) (simp add: d key_parts(1) p(3) del: drop_append)
qed

lemma update_new: "k \<notin> fst ` set acc \<Longrightarrow> AList.update k v acc = acc @ [(k, v)]"
  by (induction acc) auto

definition entry_ok ::
  "'o penv \<Rightarrow> 'o registry \<Rightarrow> 'o constructors \<Rightarrow> gtype \<Rightarrow> gtype \<Rightarrow> TagPrefix \<Rightarrow> 'o gval \<times> 'o gval \<Rightarrow> bool" where
  "entry_ok E G nm kt vt pre = (\<lambda>(k, v). map_elem_check vt v = Ret () \<and>
    (\<exists>b. enc_value E G False (push_bit 3 1) kt k pre = Ret b \<and> single E G nm (push_bit 3 1) kt k b) \<and>
    (\<exists>b. enc_value E G False (push_bit 3 2) vt v pre = Ret b \<and> single E G nm (push_bit 3 2) vt v b))"

lemma records_of_entries:
  assumes "\<forall>kv \<in> set kvs. entry_ok E G nm kt vt pre kv" "distinct (map fst (acc @ kvs))"
  shows "\<exists>b. enc_entries E G key kt vt kvs pre = Ret b \<and> records_of E G nm key (TMap kt vt) (VMap acc) (VMap (acc @ kvs)) b"
  using assms
proof (induction kvs arbitrary: acc)
  case Nil
  show ?case by (auto simp: records_of_def intro!: exI [of _ "[]"])
next
  case (Cons kv kvs)
  obtain k v where kv: "kv = (k, v)" by force
  obtain b1 b2 where b: "enc_value E G False (push_bit 3 1) kt k pre = Ret b1" "single E G nm (push_bit 3 1) kt k b1"
    "enc_value E G False (push_bit 3 2) vt v pre = Ret b2" "single E G nm (push_bit 3 2) vt v b2" "map_elem_check vt v = Ret ()"
    using Cons.prems(1) unfolding kv entry_ok_def by auto
  obtain bs where bs: "enc_entries E G key kt vt kvs pre = Ret bs"
    "records_of E G nm key (TMap kt vt) (VMap (acc @ [(k, v)])) (VMap (acc @ kv # kvs)) bs"
    using Cons.IH [of "acc @ [(k, v)]"] Cons.prems unfolding kv by auto
  let ?pay = "uvarint (of_nat (length (b1 @ b2))) @ b1 @ b2"
  have "records_of E G nm key (TMap kt vt) (VMap acc) (VMap (acc @ kv # kvs)) (delimited key (b1 @ b2) @ bs)" unfolding records_of_def
  proof
    assume l: "length (delimited key (b1 @ b2) @ bs) < 2 ^ 64"
    then have lb: "length (b1 @ b2) < 2 ^ 64" by (simp add: delimited_def)
    let ?r = "(2 :: nat, ?pay, of_nat (length (b1 @ b2)) :: 64 word, b1 @ b2)"
    have "record_ok ?r" using break_out_simps(4) [OF lb] by (simp add: record_ok_def)
    moreover have "put_record E G nm (TMap kt vt) ?r (VMap acc) = Ret (VMap (acc @ [(k, v)]))"
      using put_entry [OF b(2) records_of_single [OF b(4)] lb] Cons.prems(2) unfolding kv put_record_def
      by (simp add: update_new)
    moreover obtain rs where "bs = concat (map (record_bytes key) rs)" "list_all record_ok rs"
      "go_fold (put_record E G nm (TMap kt vt)) rs (VMap (acc @ [(k, v)])) = Ret (VMap (acc @ kv # kvs))"
      using bs(2) l unfolding records_of_def by auto
    ultimately show "\<exists>rs. delimited key (b1 @ b2) @ bs = concat (map (record_bytes key) rs) \<and> list_all record_ok rs \<and>
        go_fold (put_record E G nm (TMap kt vt)) rs (VMap acc) = Ret (VMap (acc @ kv # kvs))"
      by (intro exI [of _ "?r # rs"]) (simp add: delimited_def record_bytes_def)
  qed
  with b bs(1) show ?case unfolding kv by simp
qed

section \<open>Structs\<close>

text \<open>
  The structs that come back: no embedded fields, field numbers that increase in the order of
  the fields and are below \<open>2^61\<close>, and a zero value made of the zero values of the fields.
\<close>

definition struct_ok :: "'o penv \<Rightarrow> string \<Rightarrow> bool" where
  "struct_ok E n \<longleftrightarrow>
    list_all (\<lambda>f. \<not> f_Anonymous f) (pe_struct E n) \<and>
    sorted_wrt (<) (map (unat \<circ> pf_ID) (flat_fields 0 0 (pe_struct E n))) \<and>
    list_all (\<lambda>p. unat (pf_ID p) < 2 ^ 61) (flat_fields 0 0 (pe_struct E n)) \<and>
    pe_zero E n = VStruct (map (\<lambda>f. zero E (f_Type f)) (pe_struct E n))"

lemma struct_ok_fields:
  assumes "struct_ok E n"
  shows "compute_fields (pe_struct E) (TStruct n) = Ret (flat_fields 0 0 (pe_struct E n))"
proof -
  let ?ids = "map (unat \<circ> pf_ID) (flat_fields 0 0 (pe_struct E n))"
  have "distinct ?ids" using assms unfolding struct_ok_def by (meson strict_sorted_iff)
  then have "distinct (map pf_ID (flat_fields 0 0 (pe_struct E n)))"
    by (metis distinct_map map_map)
  then show ?thesis using assms by (subst compute_fields_flat) (auto simp: struct_ok_def list_all_iff)
qed

lemma sless_small: "unat a < 2 ^ 61 \<Longrightarrow> unat b < 2 ^ 61 \<Longrightarrow> a <s b \<longleftrightarrow> unat a < unat b" for a b :: "64 word"
proof -
  assume a: "unat a < 2 ^ 61" "unat b < 2 ^ 61"
  have "sint x = int (unat x)" if "unat x < 2 ^ 61" for x :: "64 word"
  proof -
    obtain m where m: "m = unat x" "uint x = int m" by simp
    then have "- (2 ^ 63) \<le> uint x \<and> uint x < 2 ^ 63" using that unfolding m(2) m(1) [symmetric] by simp
    then have "signed_take_bit 63 (uint x) = uint x" by (simp add: signed_take_bit_int_eq_self_iff)
    then show ?thesis by (simp add: sint_uint)
  qed
  with a show ?thesis unfolding word_sless_alt by (simp only: of_nat_less_iff)
qed

lemma skip_fields:
  assumes "struct_ok E n" "j \<le> i" "i < length (pe_struct E n)"
  defines "pfs \<equiv> flat_fields 0 0 (pe_struct E n)"
  shows "dropWhile (\<lambda>pf. pf_ID pf <s pf_ID (pfs ! i)) (drop j pfs) = drop i pfs"
  using assms(2)
proof (induction "i - j" arbitrary: j)
  case 0
  then have "j = i" by simp
  have "drop i pfs = pfs ! i # drop (Suc i) pfs" using assms(3) by (simp add: pfs_def Cons_nth_drop_Suc)
  moreover have "\<not> pf_ID (pfs ! i) <s pf_ID (pfs ! i)" by (simp add: word_sless_alt)
  ultimately show ?case unfolding \<open>j = i\<close> by simp
next
  case (Suc d)
  then have ji: "j < i" by simp
  have l: "i < length pfs" using assms(3) by (simp add: pfs_def)
  have "unat (pf_ID (pfs ! j)) < unat (pf_ID (pfs ! i))"
    using assms(1) ji l sorted_wrt_nth_less [of "(<)" "map (unat \<circ> pf_ID) pfs" j i] unfolding struct_ok_def pfs_def by simp
  moreover have "unat (pf_ID (pfs ! j)) < 2 ^ 61" "unat (pf_ID (pfs ! i)) < 2 ^ 61"
    using assms(1) ji l unfolding struct_ok_def pfs_def list_all_length by auto
  ultimately have "pf_ID (pfs ! j) <s pf_ID (pfs ! i)" by (simp add: sless_small)
  moreover have "drop j pfs = pfs ! j # drop (Suc j) pfs" using ji l by (simp add: Cons_nth_drop_Suc)
  moreover have "dropWhile (\<lambda>pf. pf_ID pf <s pf_ID (pfs ! i)) (drop (Suc j) pfs) = drop i pfs"
    using Suc ji by (intro Suc(1)) auto
  ultimately show ?case by simp
qed

lemma locate_flat:
  assumes "i < length (pe_struct E n)" "length vs = length (pe_struct E n)" "f_Exported (pe_struct E n ! i)"
    and ptr: "\<And>t. f_Type (pe_struct E n ! i) = TPtr t \<Longrightarrow> not_interface t"
  defines "pfs \<equiv> flat_fields 0 0 (pe_struct E n)"
  obtains u where "locate E (TStruct n) (VStruct vs) (drop i pfs) (pf_ID (pfs ! i)) = Ret (VStruct (vs[i := u]), Some (pfs ! i, u))"
    and "\<And>wt x vb. de_putvalue E G nm wt (f_Type (pe_struct E n ! i)) u x vb =
      de_putvalue E G nm wt (f_Type (pe_struct E n ! i)) (vs ! i) x vb"
proof -
  let ?f = "pe_struct E n ! i"
  have pf: "pf_Index (pfs ! i) = [i]" "pf_Field (pfs ! i) = ?f" using flat_fields_nth [OF assms(1), of 0 0] by (simp_all add: pfs_def)
  have d: "drop i pfs = pfs ! i # drop (Suc i) pfs" using assms(1) by (simp add: pfs_def Cons_nth_drop_Suc)
  note found = that
  have key: thesis if "alloc_path E (TStruct n) (VStruct vs) [i] = Ret (VStruct (vs[i := u]))"
    "\<And>wt x vb. de_putvalue E G nm wt (f_Type ?f) u x vb = de_putvalue E G nm wt (f_Type ?f) (vs ! i) x vb" for u
    by (rule found [of u]) (use that assms(1-3) pf d in \<open>simp_all add: locate_def del: alloc_path.simps\<close>)
  show thesis
  proof (cases "\<exists>t. f_Type ?f = TPtr t \<and> vs ! i = VPtr None")
    case True
    then obtain t where t: "f_Type ?f = TPtr t" "vs ! i = VPtr None" by blast
    show ?thesis
      by (rule key [of "VPtr (Some (zero E t))"])
        (use assms(1-3) t ptr [OF t(1)] in \<open>simp_all add: Let_def de_putvalue_ptr\<close>)
  next
    case False
    have "alloc_path E (TStruct n) (VStruct vs) [i] = Ret (VStruct vs)"
      using assms(1-3) False by (auto simp: Let_def list_update_same_conv split: gtype.splits gval.splits option.splits)
    then show ?thesis by (intro key [of "vs ! i"]) simp_all
  qed
qed

lemma set_path_flat: "set_path (VStruct vs) [i] w = VStruct (vs[i := w])"
  by (auto split: gval.splits option.splits)

text \<open>The records of one field, read at the field.\<close>

lemma de_fields_records:
  assumes "struct_ok E n" "i < length (pe_struct E n)" "f_Exported (pe_struct E n ! i)"
    and ptr: "\<And>t. f_Type (pe_struct E n ! i) = TPtr t \<Longrightarrow> not_interface t"
  defines "pfs \<equiv> flat_fields 0 0 (pe_struct E n)"
  assumes "length vs = length (pe_struct E n)" "j \<le> i" "list_all record_ok rs"
    "go_fold (put_record E G nm (f_Type (pe_struct E n ! i))) rs (vs ! i) = Ret w"
  shows "\<exists>j' \<le> i. de_fields E G nm (TStruct n) (VStruct vs) (drop j pfs) (concat (map (record_bytes (push_bit 3 (pf_ID (pfs ! i)))) rs) @ rest)
    = de_fields E G nm (TStruct n) (VStruct (vs[i := w])) (drop j' pfs) rest"
  using assms(6-9)
proof (induction rs arbitrary: vs j)
  case Nil
  then show ?case by auto
next
  case (Cons r rs)
  let ?t = "f_Type (pe_struct E n ! i)" and ?key = "push_bit 3 (pf_ID (pfs ! i))"
  obtain wt pay x vb where r: "r = (wt, pay, x, vb)" by (cases r) auto
  have ok: "record_ok (wt, pay, x, vb)" using Cons.prems r by simp
  note d = read_record [OF ok]
  obtain u where u: "locate E (TStruct n) (VStruct vs) (drop i pfs) (pf_ID (pfs ! i)) = Ret (VStruct (vs[i := u]), Some (pfs ! i, u))"
    "\<And>wt x vb. de_putvalue E G nm wt ?t u x vb = de_putvalue E G nm wt ?t (vs ! i) x vb"
    using locate_flat [OF assms(2) Cons.prems(1) assms(3) ptr] unfolding pfs_def by blast
  obtain y where y: "de_putvalue E G nm wt ?t (vs ! i) x vb = Ret y" "go_fold (put_record E G nm ?t) rs y = Ret w"
    using Cons.prems unfolding r by (auto simp: put_record_def go_bind_eq_Ret)
  have pf: "pf_Index (pfs ! i) = [i]" "pf_Field (pfs ! i) = pe_struct E n ! i"
    using flat_fields_nth [OF assms(2), of 0 0] by (simp_all add: pfs_def)
  have "unat (pf_ID (pfs ! i)) < 2 ^ 61" using assms(1,2) unfolding struct_ok_def pfs_def list_all_length by auto
  then have dk: "drop_bit 3 (?key OR of_nat wt) = pf_ID (pfs ! i)" using key_parts(2) [OF d(4)] by blast
  have "de_fields E G nm (TStruct n) (VStruct vs) (drop j pfs) (record_bytes ?key (wt, pay, x, vb) @ s)
      = de_fields E G nm (TStruct n) (VStruct (vs[i := y])) (drop i pfs) s" for s
    by (subst de_fields.simps)
      (simp add: d key_parts(1) dk skip_fields [OF assms(1) Cons.prems(2) assms(2), folded pfs_def] u pf y Let_def
        set_path_flat del: drop_append drop_bit_or set_path.simps)
  moreover obtain j' where "j' \<le> i" "de_fields E G nm (TStruct n) (VStruct (vs[i := y])) (drop i pfs)
      (concat (map (record_bytes ?key) rs) @ rest) = de_fields E G nm (TStruct n) (VStruct (vs[i := y, i := w])) (drop j' pfs) rest"
    using Cons.IH [of "vs[i := y]" i] Cons.prems y(2) assms(2) by auto
  ultimately show ?case unfolding r by (intro exI [of _ j']) simp
qed

text \<open>The exported fields of a struct come back, the others have their zero value.\<close>

definition field_back ::
  "'o penv \<Rightarrow> 'o registry \<Rightarrow> 'o constructors \<Rightarrow> TagPrefix \<Rightarrow> gtype \<Rightarrow> 'o gval \<Rightarrow> bool" where
  "field_back E G nm pre t v \<longleftrightarrow> (\<forall>t'. t = TPtr t' \<longrightarrow> not_interface t') \<and>
    (\<forall>key. \<exists>b. enc_value E G True key t v pre = Ret b \<and> records_of E G nm key t (zero E t) v b)"

definition fields_back :: "'o penv \<Rightarrow> 'o registry \<Rightarrow> 'o constructors \<Rightarrow> string \<Rightarrow> 'o gval list \<Rightarrow> bool" where
  "fields_back E G nm n vs \<longleftrightarrow> length vs = length (pe_struct E n) \<and> (\<forall>i < length vs.
    if f_Exported (pe_struct E n ! i)
    then field_back E G nm (pf_Prefix (flat_fields 0 0 (pe_struct E n) ! i)) (f_Type (pe_struct E n ! i)) (vs ! i)
    else vs ! i = zero E (f_Type (pe_struct E n ! i)))"

lemma enc_fields_suffix:
  assumes "struct_ok E n" "fields_back E G nm n vs" "i \<le> length vs"
  defines "pfs \<equiv> flat_fields 0 0 (pe_struct E n)" and "zs \<equiv> map (\<lambda>f. zero E (f_Type f)) (pe_struct E n)"
  assumes "nopub \<longrightarrow> (\<exists>k \<ge> i. k < length vs \<and> f_Exported (pe_struct E n ! k))"
  shows "\<exists>b. enc_fields E G True (VStruct vs) nopub l (drop i pfs) = Ret b \<and> (length b < 2 ^ 64 \<longrightarrow>
    (\<forall>j \<le> i. de_fields E G nm (TStruct n) (VStruct (take i vs @ drop i zs)) (drop j pfs) b = Ret (VStruct vs)))"
  using assms(3,6)
proof (induction "length vs - i" arbitrary: i nopub l)
  case 0
  have "length zs = length vs" "length pfs = length vs" using assms(2) by (simp_all add: zs_def pfs_def fields_back_def)
  then show ?case using 0 by (auto simp: de_fields.simps)
next
  case (Suc d)
  have len: "length vs = length (pe_struct E n)" "length zs = length vs" "length pfs = length vs"
    using assms(2) by (simp_all add: zs_def pfs_def fields_back_def)
  have i: "i < length vs" "i < length (pe_struct E n)" using Suc len by simp_all
  have nx: "d = length vs - Suc i" "Suc i \<le> length vs" using Suc(2) i(1) by simp_all
  let ?f = "pe_struct E n ! i"
  have pf: "pf_Index (pfs ! i) = [i]" "pf_Field (pfs ! i) = ?f" using flat_fields_nth [OF i(2), of 0 0] by (simp_all add: pfs_def)
  have dp: "drop i pfs = pfs ! i # drop (Suc i) pfs" using i len by (simp add: Cons_nth_drop_Suc)
  have z: "(take i vs @ drop i zs) ! i = zero E (f_Type ?f)" "length (take i vs @ drop i zs) = length vs"
    "(take i vs @ drop i zs)[i := w] = take i vs @ w # drop (Suc i) zs" for w
    using i len by (simp_all add: nth_append zs_def list_update_append Cons_nth_drop_Suc [symmetric])
  have ts: "take i vs @ vs ! i # drop (Suc i) zs = take (Suc i) vs @ drop (Suc i) zs" using i by (simp add: take_Suc_conv_app_nth)
  note fb = assms(2) [unfolded fields_back_def, THEN conjunct2, rule_format, OF i(1)]
  show ?case
  proof (cases "f_Exported ?f")
    case True
    let ?key = "push_bit 3 (pf_ID (pfs ! i))"
    obtain b where b: "enc_value E G True ?key (f_Type ?f) (vs ! i) (pf_Prefix (pfs ! i)) = Ret b"
      "records_of E G nm ?key (f_Type ?f) (zero E (f_Type ?f)) (vs ! i) b"
      using fb True unfolding field_back_def pfs_def by auto
    obtain bs where bs: "enc_fields E G True (VStruct vs) False (f_Name ?f) (drop (Suc i) pfs) = Ret bs"
      "length bs < 2 ^ 64 \<longrightarrow> (\<forall>j \<le> Suc i. de_fields E G nm (TStruct n) (VStruct (take (Suc i) vs @ drop (Suc i) zs)) (drop j pfs) bs
        = Ret (VStruct vs))" using Suc(1) [OF nx, of False "f_Name ?f"] by blast
    have "de_fields E G nm (TStruct n) (VStruct (take i vs @ drop i zs)) (drop j pfs) (b @ bs) = Ret (VStruct vs)"
      if l: "length (b @ bs) < 2 ^ 64" "j \<le> i" for j
    proof -
      obtain rs where rs: "b = concat (map (record_bytes ?key) rs)" "list_all record_ok rs"
        "go_fold (put_record E G nm (f_Type ?f)) rs ((take i vs @ drop i zs) ! i) = Ret (vs ! i)"
        using b(2) l(1) unfolding records_of_def z(1) by auto
      have p: "f_Type ?f = TPtr t \<Longrightarrow> not_interface t" for t using fb True by (simp add: field_back_def)
      obtain j' where "j' \<le> i" "de_fields E G nm (TStruct n) (VStruct (take i vs @ drop i zs)) (drop j pfs) (b @ bs) =
          de_fields E G nm (TStruct n) (VStruct (take (Suc i) vs @ drop (Suc i) zs)) (drop j' pfs) bs"
        using de_fields_records [OF assms(1) i(2) True p _ l(2) rs(2,3), of bs] z(2) len(1)
        unfolding rs(1) [symmetric] pfs_def [symmetric] z(3) ts by auto
      with bs(2) l(1) show ?thesis by simp
    qed
    with True b(1) bs(1) pf i show ?thesis unfolding dp by (intro exI [of _ "b @ bs"]) auto
  next
    case False
    then have "vs ! i = zero E (f_Type ?f)" using fb by simp
    then have e: "take i vs @ drop i zs = take (Suc i) vs @ drop (Suc i) zs"
      using z(3) [of "vs ! i"] z(1,2) i by (metis ts list_update_id)
    have "nopub \<longrightarrow> (\<exists>k \<ge> Suc i. k < length vs \<and> f_Exported (pe_struct E n ! k))"
      using Suc.prems(2) False by (metis Suc_leI le_neq_implies_less)
    then obtain b where "enc_fields E G True (VStruct vs) nopub (f_Name ?f) (drop (Suc i) pfs) = Ret b"
      "length b < 2 ^ 64 \<longrightarrow> (\<forall>j \<le> Suc i. de_fields E G nm (TStruct n) (VStruct (take (Suc i) vs @ drop (Suc i) zs)) (drop j pfs) b
        = Ret (VStruct vs))" using Suc(1) [OF nx, of nopub "f_Name ?f"] by blast
    with False pf i show ?thesis unfolding dp e by auto
  qed
qed

lemma single_struct:
  assumes "struct_ok E n" "fields_back E G nm n vs" "pe_struct E n = [] \<or> (\<exists>f \<in> set (pe_struct E n). f_Exported f)"
  shows "\<exists>b. enc_message E G True (TStruct n) (VStruct vs) = Ret b \<and>
    (length b < 2 ^ 64 \<longrightarrow> de_message E G nm (TStruct n) (zero E (TStruct n)) b = Ret (VStruct vs))"
proof -
  let ?pfs = "flat_fields 0 0 (pe_struct E n)" and ?zs = "map (\<lambda>f. zero E (f_Type f)) (pe_struct E n)"
  have z: "zero E (TStruct n) = VStruct ?zs" using assms(1) by (simp add: struct_ok_def)
  have len: "length vs = length (pe_struct E n)" using assms(2) by (simp add: fields_back_def)
  show ?thesis
  proof (cases "pe_struct E n = []")
    case True
    then show ?thesis using len z struct_ok_fields [OF assms(1)]
      by (simp add: enc_message.simps de_message.simps de_fields.simps)
  next
    case False
    then obtain k where "k < length vs" "f_Exported (pe_struct E n ! k)" using assms(3) len by (auto simp: in_set_conv_nth)
    then obtain b where b: "enc_fields E G True (VStruct vs) True [] (drop 0 ?pfs) = Ret b"
      "length b < 2 ^ 64 \<longrightarrow> (\<forall>j \<le> 0. de_fields E G nm (TStruct n) (VStruct (take 0 vs @ drop 0 ?zs)) (drop j ?pfs) b = Ret (VStruct vs))"
      using enc_fields_suffix [OF assms(1,2), of 0 True "[]"] by auto
    have "?pfs \<noteq> []" using False by (cases "pe_struct E n") auto
    with b struct_ok_fields [OF assms(1)] z show ?thesis by (simp add: enc_message.simps de_message.simps)
  qed
qed

section \<open>The values that come back\<close>

text \<open>
  \<open>rt_one ca t v\<close>: the value \<open>v\<close> of type \<open>t\<close> is written as one record and comes back;
  \<open>ca\<close> says whether it is addressable, as it must be for the fields of a struct to be
  written. \<open>rt_field pre t v\<close>: it comes back as the value of a field.
\<close>

inductive rt_one :: "'o penv \<Rightarrow> 'o registry \<Rightarrow> 'o constructors \<Rightarrow> bool \<Rightarrow> gtype \<Rightarrow> 'o gval \<Rightarrow> bool"
  and rt_field :: "'o penv \<Rightarrow> 'o registry \<Rightarrow> 'o constructors \<Rightarrow> TagPrefix \<Rightarrow> gtype \<Rightarrow> 'o gval \<Rightarrow> bool"
  for E :: "'o penv" and G :: "'o registry" and nm :: "'o constructors"
where
  rt_prim: "prim_ok E n k v \<Longrightarrow> rt_one E G nm ca (TPrim n k) v"
| rt_time: "- (2 ^ 63) \<le> t \<Longrightarrow> t < 2 ^ 63 \<Longrightarrow> rt_one E G nm ca TTime (VTime t)"
| rt_packed: "packed_kind k \<Longrightarrow> (n = Fixed \<longrightarrow> \<not> d) \<Longrightarrow> \<forall>x \<in> set xs. prim_ok E n k x \<Longrightarrow>
    rt_one E G nm ca (TSlice d (TPrim n k)) (VList xs)"
| rt_bytes: "rt_one E G nm ca (TSlice d (TPrim Predeclared KUint8)) (VBytes bs)"
| rt_array: "length bs = len \<Longrightarrow> rt_one E G nm ca (TArray len (TPrim Predeclared KUint8)) (VBytes bs)"
| rt_ptr: "not_interface t \<Longrightarrow> rt_one E G nm True t w \<Longrightarrow> rt_one E G nm ca (TPtr t) (VPtr (Some w))"
| rt_obj: "obj_rt E G nm i x \<Longrightarrow> rt_one E G nm ca (TInterface i) (VObj x)"
| rt_struct: "struct_ok E n \<Longrightarrow> length vs = length (pe_struct E n) \<Longrightarrow>
    pe_struct E n = [] \<or> (\<exists>f \<in> set (pe_struct E n). f_Exported f) \<Longrightarrow>
    (\<forall>i < length vs. f_Exported (pe_struct E n ! i) \<longrightarrow>
      rt_field E G nm (pf_Prefix (flat_fields 0 0 (pe_struct E n) ! i)) (f_Type (pe_struct E n ! i)) (vs ! i)) \<Longrightarrow>
    (\<forall>i < length vs. \<not> f_Exported (pe_struct E n ! i) \<longrightarrow> vs ! i = zero E (f_Type (pe_struct E n ! i))) \<Longrightarrow>
    rt_one E G nm True (TStruct n) (VStruct vs)"
| rtf_one: "rt_one E G nm True t v \<Longrightarrow> rt_field E G nm pre t v"
| rtf_nil: "rt_field E G nm pre (TInterface i) VNil"
| rtf_nilptr: "pre \<noteq> TagRequired \<Longrightarrow> not_interface t \<Longrightarrow> rt_field E G nm pre (TPtr t) (VPtr None)"
| rtf_list: "rep_elem e \<Longrightarrow> (\<forall>x \<in> set xs. rt_one E G nm True e x) \<Longrightarrow> rt_field E G nm pre (TSlice d e) (VList xs)"
| rtf_map: "distinct (map fst kvs) \<Longrightarrow> (\<forall>kv \<in> set kvs. map_elem_check vt (snd kv) = Ret ()) \<Longrightarrow>
    (\<forall>kv \<in> set kvs. rt_one E G nm False kt (fst kv)) \<Longrightarrow> (\<forall>kv \<in> set kvs. rt_one E G nm False vt (snd kv)) \<Longrightarrow>
    rt_field E G nm pre (TMap kt vt) (VMap kvs)"

inductive_cases rt_one_strE: "rt_one E G nm ca (TPrim n k) v"
inductive_cases rt_one_ptrE: "rt_one E G nm ca (TPtr t) v"

lemma rt_back:
  "rt_one E G nm ca t v \<Longrightarrow> \<forall>key pre. \<exists>b. enc_value E G ca key t v pre = Ret b \<and> single E G nm key t v b"
  "rt_field E G nm pre t v \<Longrightarrow> field_back E G nm pre t v"
proof (induction rule: rt_one_rt_field.inducts)
  case (rt_struct n vs)
  have "fields_back E G nm n vs" using rt_struct by (simp add: fields_back_def)
  then obtain b where b: "enc_message E G True (TStruct n) (VStruct vs) = Ret b"
    "length b < 2 ^ 64 \<longrightarrow> de_message E G nm (TStruct n) (zero E (TStruct n)) b = Ret (VStruct vs)"
    using single_struct rt_struct(1,3) by blast
  have "enc_value E G True key (TStruct n) (VStruct vs) pre = Ret (delimited key b)" for key pre
    by (subst enc_value.simps) (simp add: value_fast_def value_typed_def b(1))
  moreover have "single E G nm key (TStruct n) (VStruct vs) (delimited key b)" for key
    by (rule single_delimited, subst de_putvalue.simps) (use b(2) in simp)
  ultimately show ?case by blast
next
  case (rtf_one t v pre)
  have "\<forall>t'. t = TPtr t' \<longrightarrow> not_interface t'" using rtf_one(1) by (auto elim: rt_one_ptrE)
  moreover have "\<forall>key. \<exists>b. enc_value E G True key t v pre = Ret b \<and> records_of E G nm key t (zero E t) v b"
    using rtf_one(2) records_of_single by meson
  ultimately show ?case unfolding field_back_def by blast
next
  case (rtf_nil pre i)
  show ?case unfolding field_back_def
    by (auto simp: enc_value.simps value_fast_def records_of_def intro!: exI [of _ "[]"])
next
  case (rtf_nilptr pre t)
  then show ?case unfolding field_back_def
    by (auto simp: enc_value.simps value_fast_def value_typed_def records_of_def intro!: exI [of _ "[]"])
next
  case (rtf_list e xs pre d)
  have "\<forall>x \<in> set xs. e = TPrim Predeclared KString \<longrightarrow> prim_ok E Predeclared KString x"
    using rtf_list(2) by (auto elim: rt_one_strE)
  then have e: "enc_value E G True key (TSlice d e) (VList xs) pre = enc_elems E G True key e xs" for key
    by (rule enc_value_repeated [OF rtf_list(1)])
  have z: "zero E (TSlice d e) = VList []" by (rule zero_list [OF rep_elem_simps(3) [OF rtf_list(1)]])
  show ?case unfolding field_back_def e z
    using records_of_elems [OF rtf_list(1), of xs E G _ nm d "[]"] rtf_list(2) by simp
next
  case (rtf_map kvs vt kt pre)
  have "\<forall>kv \<in> set kvs. entry_ok E G nm kt vt pre kv" using rtf_map(2-4) by (auto simp: entry_ok_def)
  moreover have "enc_value E G True key (TMap kt vt) (VMap kvs) pre = enc_entries E G key kt vt kvs pre" for key
    by (subst enc_value.simps) (simp add: value_fast_def value_typed_def)
  ultimately show ?case unfolding field_back_def using records_of_entries [of kvs E G nm kt vt pre "[]"] rtf_map(1) by simp
qed (simp_all add: single_prim single_time single_packed single_bytes single_array single_ptr single_obj)

text \<open>C9: 
  A struct that is encoded is decoded again: \<open>Encode\<close> of a pointer to a struct whose fields
  come back succeeds, and unless the message has \<open>2^64\<close> bytes or more, decoding it into a
  fresh struct of the same type with the same constructors gives a pointer to an equal struct.
\<close>
theorem protobuf_roundtrip:
  assumes "rt_one E G nm True (TStruct n) (VStruct vs)" "pe_self E n = None"
  shows "\<exists>b. Encode E G (Some (TPtr (TStruct n), VPtr (Some (VStruct vs)))) = Ret b \<and> (length b < 2 ^ 64 \<longrightarrow>
    DecodeWithConstructors E G b (Some (TPtr (TStruct n), VPtr (Some (zero E (TStruct n))))) nm = Ret (VPtr (Some (VStruct vs))))"
proof -
  from assms(1) have s: "struct_ok E n" "fields_back E G nm n vs" "pe_struct E n = [] \<or> (\<exists>f \<in> set (pe_struct E n). f_Exported f)"
    by (cases rule: rt_one.cases; simp add: fields_back_def rt_back(2))+
  from single_struct [OF s] assms(2) show ?thesis
    by (auto simp: Encode_def DecodeWithConstructors_def)
qed

section \<open>An example\<close>

definition ex_field :: "string \<Rightarrow> gtype \<Rightarrow> sfield" where
  "ex_field n t = \<lparr>f_Name = n, f_Tag = [], f_Anonymous = False, f_Exported = True, f_Type = t\<rparr>"

definition ex_fields :: "sfield list" where
  "ex_fields = [ex_field ''ID'' (TPrim Predeclared KInt64), ex_field ''Data'' (TSlice False (TPrim Predeclared KUint8)),
    ex_field ''Names'' (TSlice False (TPrim Predeclared KString)), ex_field ''Next'' (TPtr (TStruct ''Item''))]"

definition ex_penv :: "unit penv" where
  "ex_penv = \<lparr>pe_struct = (\<lambda>n. if n = ''Item'' then ex_fields else []),
    pe_zero = (\<lambda>n. if n = ''Item'' then VStruct [VInt 0, VBytes [], VList [], VPtr None] else VStruct []),
    pe_Marshal = (\<lambda>_. Ret []), pe_ID = (\<lambda>_. None), pe_Unmarshal = (\<lambda>_ _. Ret ()), pe_self = (\<lambda>_. None), pe_f32 = (\<lambda>x. x)\<rparr>"

definition ex_item :: "int \<Rightarrow> unit gval option \<Rightarrow> unit gval" where
  "ex_item i nx = VStruct [VInt (word_of_int i), VBytes [1, 2, 3], VList [VString [104], VString []], VPtr nx]"

lemma ex_struct_ok: "struct_ok ex_penv ''Item''"
  by (simp add: struct_ok_def ex_penv_def ex_fields_def ex_field_def next_id_def ParseTag_def)

lemma ex_item_rt:
  assumes "int_fits Predeclared KInt64 (word_of_int i)" "rt_field ex_penv (\<lambda>_. None) (\<lambda>_. None) TagNone (TPtr (TStruct ''Item'')) (VPtr nx)"
  shows "rt_one ex_penv (\<lambda>_. None) (\<lambda>_. None) True (TStruct ''Item'') (ex_item i nx)"
  unfolding ex_item_def
proof (rule rt_struct [OF ex_struct_ok])
  have f: "pe_struct ex_penv ''Item'' = ex_fields" by (simp add: ex_penv_def)
  show "\<forall>k < length [VInt (word_of_int i), VBytes [1, 2, 3], VList [VString [104], VString []], VPtr nx].
      f_Exported (pe_struct ex_penv ''Item'' ! k) \<longrightarrow> rt_field ex_penv (\<lambda>_. None) (\<lambda>_. None)
        (pf_Prefix (flat_fields 0 0 (pe_struct ex_penv ''Item'') ! k)) (f_Type (pe_struct ex_penv ''Item'' ! k))
        ([VInt (word_of_int i), VBytes [1, 2, 3], VList [VString [104], VString []], VPtr nx] ! k)"
    unfolding f using assms
    by (auto simp: less_Suc_eq ex_fields_def ex_field_def proto_field_def ParseTag_def prim_ok_def rep_elem_def
        intro!: rtf_one [OF rt_prim] rtf_one [OF rt_bytes] rtf_list rt_prim)
qed (auto simp: ex_penv_def ex_fields_def ex_field_def less_Suc_eq)

theorem protobuf_roundtrip_witness:
  "\<exists>b. Encode ex_penv (\<lambda>_. None) (Some (TPtr (TStruct ''Item''), VPtr (Some (ex_item 7 (Some (ex_item (- 3) None)))))) = Ret b \<and>
    (length b < 2 ^ 64 \<longrightarrow> DecodeWithConstructors ex_penv (\<lambda>_. None) b
      (Some (TPtr (TStruct ''Item''), VPtr (Some (zero ex_penv (TStruct ''Item''))))) (\<lambda>_. None) =
      Ret (VPtr (Some (ex_item 7 (Some (ex_item (- 3) None))))))"
proof -
  have i: "int_fits Predeclared KInt64 (word_of_int (- 3))" "int_fits Predeclared KInt64 (word_of_int 7)"
    by (simp_all add: int_fits_def set_int_def)
  have "rt_one ex_penv (\<lambda>_. None) (\<lambda>_. None) True (TStruct ''Item'') (ex_item (- 3) None)"
    by (rule ex_item_rt [OF i(1) rtf_nilptr]) (simp_all add: not_interface_def)
  then have "rt_one ex_penv (\<lambda>_. None) (\<lambda>_. None) True (TStruct ''Item'') (ex_item 7 (Some (ex_item (- 3) None)))"
    by (intro ex_item_rt [OF i(2)] rtf_one rt_ptr) (simp add: not_interface_def)
  from protobuf_roundtrip [OF this [unfolded ex_item_def [of 7]]] show ?thesis
    unfolding ex_item_def [of 7] by (simp add: ex_penv_def)
qed

lemma ex_env_typed: "env_typed ex_penv (\<lambda>_. None)"
proof -
  have "has_type ex_penv (TStruct n) (pe_zero ex_penv n)" for n
  proof (cases "n = ''Item''")
    case True
    have z: "pe_zero ex_penv n = VStruct [VInt 0, VBytes [], VList [], VPtr None]" by (simp add: True ex_penv_def)
    show ?thesis unfolding z
      by (rule ty_struct) (auto simp: True ex_penv_def ex_fields_def ex_field_def less_Suc_eq int_range_def elem_kind_def
          intro: ty_prim ty_bytes ty_list ty_nilptr)
  next
    case False
    have z: "pe_zero ex_penv n = VStruct []" by (simp add: False ex_penv_def)
    show ?thesis unfolding z by (rule ty_struct) (simp_all add: False ex_penv_def)
  qed
  then show ?thesis by (simp add: env_typed_def ex_penv_def)
qed

declare innerFieldIndexes_loop.simps [code]

lemma ex_decode:
  "DecodeWithConstructors ex_penv (\<lambda>_. None) [8, 6, 18, 1, 255] (Some (TPtr (TStruct ''Item''), VPtr (Some (zero ex_penv (TStruct ''Item''))))) (\<lambda>_. None)
    = Ret (VPtr (Some (VStruct [VInt 3, VBytes [255], VList [], VPtr None])))"
  by code_simp


section \<open>Field numbers out of order\<close>

definition two_fields :: "sfield list" where
  "two_fields = [(ex_field ''A'' (TPrim Predeclared KBool))\<lparr>f_Tag := ''2''\<rparr>, (ex_field ''B'' (TPrim Predeclared KBool))\<lparr>f_Tag := ''1''\<rparr>]"

definition two_env :: "unit penv" where
  "two_env = ex_penv\<lparr>pe_struct := (\<lambda>_. two_fields), pe_zero := (\<lambda>_. VStruct [VBool False, VBool False])\<rparr>"


text \<open>
  Two slices that are written but not read: of times, whose records have the wire type of a
  64-bit number, and of a defined slice type of \<open>Sfixed32\<close>, written as varints.
\<close>

lemma time_slice_not_decoded:
  "enc_value E G ca key (TSlice False TTime) (VList [VTime t]) pre = Ret (uvarint (key OR 1) @ u64 (of_int t))"
  "de_putvalue E G nm 1 (TSlice False TTime) old x vb = Err (PE ''bad wiretype for repeated field'')"
  by (subst enc_value.simps, simp add: value_fast_def value_typed_def slice_fast_def slice_elem_def slice_packed_def elem_kind_def,
      subst enc_value.simps, simp add: value_fast_def value_typed_def)
     (subst de_putvalue.simps, simp)

lemma defined_fixed_slice_wire:
  "enc_value E G ca key (TSlice True (TPrim Fixed KInt32)) (VList [VInt w]) pre = Ret (delimited key (svarint w))"
  "slice_wire (TPrim Fixed KInt32) = Some 5"
  by (subst enc_value.simps, simp add: value_fast_def value_typed_def slice_fast_def slice_packed_def elem_kind_def reflect_elem_def)
     (simp add: slice_wire_def)

end
