(* ===== verification/Net_Encoding.thy ===== *)
theory Net_Encoding
  imports Protobuf_Roundtrip Roster_Tree
begin

text \<open>
  \<open>imported/onet/network/encoding.go\<close>: the registry of message types, \<open>Marshal\<close> and
  \<open>Unmarshal\<close>, on top of the codec of \<open>imported/protobuf\<close>. \<open>uuid.NewV5\<close> and the text of
  an identifier, the names of types and the suite are parameters.
\<close>

section \<open>Big-endian integers\<close>

text \<open>\<open>binary.Write\<close> and \<open>binary.Read\<close> with \<open>globalOrder\<close>.\<close>

primrec bigEndian :: "nat \<Rightarrow> 'a::len word \<Rightarrow> bytes" where
  "bigEndian 0 w = []"
| "bigEndian (Suc n) w = bigEndian n (drop_bit 8 w) @ [ucast w]"

definition fromBigEndian :: "bytes \<Rightarrow> 'a::len word" where
  "fromBigEndian bs = foldl (\<lambda>w b. push_bit 8 w OR ucast b) 0 bs"

lemma length_bigEndian [simp]: "length (bigEndian n w) = n"
  by (induction n arbitrary: w) simp_all

lemma fromBigEndian_snoc: "fromBigEndian (bs @ [b]) = push_bit 8 (fromBigEndian bs) OR ucast b"
  by (simp add: fromBigEndian_def)

lemma fromBigEndian_bigEndian_take: "fromBigEndian (bigEndian n w) = take_bit (8 * n) (w :: 'a::len word)"
proof (induction n arbitrary: w)
  case 0
  then show ?case by (simp add: fromBigEndian_def)
next
  case (Suc n)
  have b: "bit (ucast (ucast w :: byte) :: 'a word) k \<longleftrightarrow> k < 8 \<and> bit w k" if "k < LENGTH('a)" for k
    using that by (auto simp: bit_simps)
  show ?case
  proof (rule bit_word_eqI)
    fix k assume k: "k < LENGTH('a)"
    show "bit (fromBigEndian (bigEndian (Suc n) w) :: 'a word) k \<longleftrightarrow> bit (take_bit (8 * Suc n) w) k"
    proof (cases "k < 8")
      case True
      then show ?thesis using k by (simp add: fromBigEndian_snoc Suc bit_or_iff bit_push_bit_iff bit_take_bit_iff b)
    next
      case False
      then have "bit w (8 + (k - 8)) \<longleftrightarrow> bit w k" by simp
      with False k show ?thesis
        by (auto simp: fromBigEndian_snoc Suc bit_or_iff bit_push_bit_iff bit_take_bit_iff bit_drop_bit_eq b)
    qed
  qed
qed

lemma fromBigEndian_bigEndian: "LENGTH('a) \<le> 8 * n \<Longrightarrow> fromBigEndian (bigEndian n w) = (w :: 'a::len word)"
  by (simp add: fromBigEndian_bigEndian_take take_bit_word_eq_self)

section \<open>Errors of the network package\<close>

text \<open>
  The error values of \<open>struct.go\<close>, the errors made on the spot, by their text, and those of
  \<open>protobuf\<close>.
\<close>

datatype net_err = ErrClosed | ErrEOF | ErrCanceled | ErrTimeout | ErrUnknown | NE string | NE_pb pb_error

section \<open>Types of messages\<close>

text \<open>
  What is outside: the structs and the objects that marshal themselves, the generators registered
  in \<open>protobuf\<close>, \<open>uuid.NewV5\<close> in the name space of URLs, the canonical text of an identifier,
  the name of a type as \<open>reflect\<close> gives it, and \<open>Suite.Point()\<close> and \<open>Suite.Scalar()\<close>.
\<close>

record 'o netenv =
  ne_pe :: "'o penv"
  ne_generators :: "'o registry"
  ne_newV5 :: "string \<Rightarrow> uuid"
  ne_uuidString :: "uuid \<Rightarrow> string"
  ne_String :: "gtype \<Rightarrow> string"
  ne_Point :: "'o gval"
  ne_Scalar :: "'o gval"

text \<open>An interface value of the Go type \<open>Message\<close>: nil, or a value with its dynamic type.\<close>

type_synonym 'o Message = "(gtype \<times> 'o gval) option"
type_synonym typeRegistry = "uuid \<rightharpoonup> gtype"

definition ErrorType :: uuid where
  "ErrorType = 0"

definition MessageTypeID_Equal :: "uuid \<Rightarrow> uuid \<Rightarrow> bool" where
  "MessageTypeID_Equal mId mID2 \<longleftrightarrow> mId = mID2"

definition MessageTypeID_IsNil :: "uuid \<Rightarrow> bool" where
  "MessageTypeID_IsNil mId \<longleftrightarrow> MessageTypeID_Equal mId 0"

definition NamespaceURL :: string where
  "NamespaceURL = ''https://dedis.epfl.ch/''"

definition NamespaceBodyType :: string where
  "NamespaceBodyType = NamespaceURL @ ''/protocolType/''"

definition newTypeRegistry :: typeRegistry where
  "newTypeRegistry = Map.empty"

definition tr_get :: "typeRegistry \<Rightarrow> uuid \<Rightarrow> gtype option" where
  "tr_get types mid = types mid"

definition tr_put :: "uuid \<Rightarrow> gtype \<Rightarrow> typeRegistry \<Rightarrow> typeRegistry" where
  "tr_put mid t types = types(mid \<mapsto> t)"

text \<open>\<open>%x\<close> of the bytes of an identifier.\<close>

definition hex_byte :: "byte \<Rightarrow> string" where
  "hex_byte b = (let d = (\<lambda>n. (''0123456789abcdef'' :: string) ! n) in [d (unat b div 16), d (unat b mod 16)])"

definition MessageTypeID_String :: "'o netenv \<Rightarrow> typeRegistry \<Rightarrow> uuid \<Rightarrow> string" where
  "MessageTypeID_String N types mId =
    (case tr_get types mId of
       Some t \<Rightarrow> ''PTID('' @ ne_String N t @ '':'' @ concat (map hex_byte (bigEndian 16 mId)) @ '')''
     | None \<Rightarrow> ne_uuidString N mId)"

text \<open>
  The type of a message without its pointer. Nil has no type, and what a nil pointer points to
  has none either: \<open>val.Type()\<close> panics.
\<close>

definition elem_type :: "'o Message \<Rightarrow> (net_err, gtype) go" where
  "elem_type msg =
    (case msg of
       None \<Rightarrow> Panic
     | Some (TPtr t, VPtr (Some _)) \<Rightarrow> Ret t
     | Some (TPtr t, _) \<Rightarrow> Panic
     | Some (t, _) \<Rightarrow> Ret t)"

definition type_id :: "'o netenv \<Rightarrow> gtype \<Rightarrow> uuid" where
  "type_id N t = ne_newV5 N (NamespaceBodyType @ ne_String N t)"

definition computeMessageType :: "'o netenv \<Rightarrow> 'o Message \<Rightarrow> (net_err, uuid) go" where
  "computeMessageType N msg = go_bind (elem_type msg) (\<lambda>t. Ret (type_id N t))"

definition RegisterMessage :: "'o netenv \<Rightarrow> 'o Message \<Rightarrow> (typeRegistry, net_err, uuid) act" where
  "RegisterMessage N msg types =
    (case computeMessageType N msg of
       Ret msgType \<Rightarrow>
         (case elem_type msg of
            Ret t \<Rightarrow> (Ret msgType, tr_put msgType t types)
          | Err e \<Rightarrow> (Err e, types)
          | Panic \<Rightarrow> (Panic, types))
     | Err e \<Rightarrow> (Err e, types)
     | Panic \<Rightarrow> (Panic, types))"

fun RegisterMessages :: "'o netenv \<Rightarrow> 'o Message list \<Rightarrow> (typeRegistry, net_err, uuid list) act" where
  "RegisterMessages N [] types = (Ret [], types)"
| "RegisterMessages N (m # ms) types =
    (case RegisterMessage N m types of
       (Ret i, types) \<Rightarrow>
         (case RegisterMessages N ms types of (r, types) \<Rightarrow> (go_bind r (\<lambda>is. Ret (i # is)), types))
     | (Err e, types) \<Rightarrow> (Err e, types)
     | (Panic, types) \<Rightarrow> (Panic, types))"

definition MessageType :: "'o netenv \<Rightarrow> typeRegistry \<Rightarrow> 'o Message \<Rightarrow> (net_err, uuid) go" where
  "MessageType N types msg =
    go_bind (computeMessageType N msg) (\<lambda>msgType.
      case tr_get types msgType of None \<Rightarrow> Ret ErrorType | Some _ \<Rightarrow> Ret msgType)"

section \<open>Marshalling\<close>

definition Marshal :: "'o netenv \<Rightarrow> typeRegistry \<Rightarrow> 'o Message \<Rightarrow> (net_err, bytes) go" where
  "Marshal N types msg =
    go_bind (MessageType N types msg) (\<lambda>msgType.
      if msgType = ErrorType then Err (NE ''type of message not registered to the network library'')
      else
        go_bind (go_err NE_pb (Encode (ne_pe N) (ne_generators N) msg)) (\<lambda>buf.
          Ret (bigEndian 16 msgType @ buf)))"

definition DefaultConstructors :: "'o netenv \<Rightarrow> 'o constructors" where
  "DefaultConstructors N =
    [''abstract.Point'' \<mapsto> ne_Point N, ''abstract.Scalar'' \<mapsto> ne_Scalar N]"

text \<open>The result is the identifier and the message, a pointer to a value of the registered type.\<close>

definition Unmarshal :: "'o netenv \<Rightarrow> typeRegistry \<Rightarrow> bytes \<Rightarrow> (net_err, uuid \<times> 'o Message) go" where
  "Unmarshal N types buf =
    (if length buf < 16 then Err (if buf = [] then NE ''EOF'' else NE ''unexpected EOF'')
     else
       let tID = fromBigEndian (take 16 buf) in
       (case tr_get types tID of
          None \<Rightarrow> Err (NE (''type '' @ MessageTypeID_String N types tID @ '' not registered''))
        | Some t \<Rightarrow>
            go_bind (go_err NE_pb
              (DecodeWithConstructors (ne_pe N) (ne_generators N) (drop 16 buf)
                (Some (TPtr t, VPtr (Some (zero (ne_pe N) t)))) (DefaultConstructors N)))
              (\<lambda>v. Ret (tID, Some (TPtr t, v)))))"

section \<open>Properties\<close>

text \<open>
  A type is registered when its identifier leads back to it, which the registration of another
  type with the same name would undo.
\<close>

definition registered :: "'o netenv \<Rightarrow> typeRegistry \<Rightarrow> gtype \<Rightarrow> bool" where
  "registered N types t \<longleftrightarrow> tr_get types (type_id N t) = Some t \<and> type_id N t \<noteq> ErrorType"

lemmas encoding_defs = computeMessageType_def MessageType_def elem_type_def tr_get_def tr_put_def

lemma RegisterMessage_registered:
  assumes "RegisterMessage N msg types = (Ret i, types')" "elem_type msg = Ret t"
  shows "i = type_id N t" "tr_get types' i = Some t" "\<And>j. j \<noteq> i \<Longrightarrow> tr_get types' j = tr_get types j"
  using assms by (auto simp: RegisterMessage_def computeMessageType_def tr_get_def tr_put_def)

lemma RegisterMessages_ConsE:
  assumes "RegisterMessages N (m # ms) types = (Ret is, types')"
  obtains i ts js where "RegisterMessage N m types = (Ret i, ts)" "RegisterMessages N ms ts = (Ret js, types')"
proof -
  obtain r ts where r: "RegisterMessage N m types = (r, ts)" by fastforce
  obtain i where i: "r = Ret i" using assms r by (cases r) simp_all
  obtain q ts' where q: "RegisterMessages N ms ts = (q, ts')" by fastforce
  have "go_bind q (\<lambda>is. Ret (i # is)) = Ret is" "ts' = types'" using assms r i q by simp_all
  then obtain js where "q = Ret js" by (auto simp: go_bind_eq_Ret)
  with r i q \<open>ts' = types'\<close> show thesis using that by blast
qed

lemma RegisterMessages_keep:
  assumes "RegisterMessages N ms types = (Ret is, types')" "registered N types t"
    and "\<forall>m \<in> set ms. \<forall>t'. elem_type m = Ret t' \<and> type_id N t' = type_id N t \<longrightarrow> t' = t"
  shows "registered N types' t"
  using assms
proof (induction ms arbitrary: types "is")
  case (Cons m ms)
  from Cons.prems(1) obtain i ts js where r: "RegisterMessage N m types = (Ret i, ts)" "RegisterMessages N ms ts = (Ret js, types')"
    by (rule RegisterMessages_ConsE)
  then obtain t' where t': "elem_type m = Ret t'"
    by (cases "elem_type m") (auto simp: RegisterMessage_def computeMessageType_def)
  note reg = RegisterMessage_registered [OF r(1) t']
  have "tr_get ts (type_id N t) = Some t"
  proof (cases "type_id N t = i")
    case True
    have "type_id N t' = type_id N t" by (rule trans [OF reg(1) [symmetric] True [symmetric]])
    then have "t' = t" using Cons.prems(3) [rule_format, OF list.set_intros(1) conjI [OF t']] by blast
    with reg(2) True show ?thesis by simp
  next
    case False
    with reg(3) Cons.prems(2) show ?thesis by (simp add: registered_def)
  qed
  then have "registered N ts t" using Cons.prems(2) by (simp add: registered_def)
  then show ?case using Cons.IH [OF r(2)] Cons.prems(3) by simp
qed simp

text \<open>After \<open>RegisterMessages\<close>, every type whose name no other registered type has is registered.\<close>

lemma RegisterMessages_registered:
  assumes "RegisterMessages N ms types = (Ret is, types')" "m \<in> set ms" "elem_type m = Ret t" "type_id N t \<noteq> ErrorType"
    and "\<forall>m' \<in> set ms. \<forall>t'. elem_type m' = Ret t' \<and> type_id N t' = type_id N t \<longrightarrow> t' = t"
  shows "registered N types' t"
  using assms(1,2,5)
proof (induction ms arbitrary: types "is")
  case (Cons m' ms)
  from Cons.prems(1) obtain i ts js where r: "RegisterMessage N m' types = (Ret i, ts)" "RegisterMessages N ms ts = (Ret js, types')"
    by (rule RegisterMessages_ConsE)
  show ?case
  proof (cases "m' = m")
    case True
    then have "registered N ts t" using RegisterMessage_registered [OF r(1), of t] assms(3,4) by (simp add: registered_def)
    then show ?thesis using RegisterMessages_keep [OF r(2)] Cons.prems(3) by simp
  next
    case False
    then show ?thesis using Cons.IH [OF r(2)] Cons.prems(2,3) by simp
  qed
qed simp

definition marshals_back :: "'o netenv \<Rightarrow> typeRegistry \<Rightarrow> 'o Message \<Rightarrow> uuid \<Rightarrow> bytes \<Rightarrow> bool" where
  "marshals_back N types msg i b \<longleftrightarrow> Marshal N types msg = Ret b \<and> Unmarshal N types b = Ret (i, msg)"

lemma Marshal_back:
  assumes "rt_one (ne_pe N) (ne_generators N) (DefaultConstructors N) True (TStruct n) (VStruct vs)"
    and "pe_self (ne_pe N) n = None" "registered N types (TStruct n)"
  obtains b where "Marshal N types (Some (TPtr (TStruct n), VPtr (Some (VStruct vs)))) = Ret b"
    and "length b < 2 ^ 64 \<Longrightarrow>
      marshals_back N types (Some (TPtr (TStruct n), VPtr (Some (VStruct vs)))) (type_id N (TStruct n)) b"
proof -
  from assms(1) have s: "struct_ok (ne_pe N) n" "fields_back (ne_pe N) (ne_generators N) (DefaultConstructors N) n vs"
    "pe_struct (ne_pe N) n = [] \<or> (\<exists>f \<in> set (pe_struct (ne_pe N) n). f_Exported f)"
    by (cases rule: rt_one.cases; simp add: fields_back_def rt_back(2))+
  obtain e where e: "enc_message (ne_pe N) (ne_generators N) True (TStruct n) (VStruct vs) = Ret e"
    "length e < 2 ^ 64 \<longrightarrow> de_message (ne_pe N) (ne_generators N) (DefaultConstructors N) (TStruct n)
      (zero (ne_pe N) (TStruct n)) e = Ret (VStruct vs)"
    using single_struct [OF s] by blast
  let ?m = "Some (TPtr (TStruct n), VPtr (Some (VStruct vs)))" and ?b = "bigEndian 16 (type_id N (TStruct n)) @ e"
  have i: "fromBigEndian (bigEndian 16 (type_id N (TStruct n))) = type_id N (TStruct n)" by (rule fromBigEndian_bigEndian) simp
  have m: "Marshal N types ?m = Ret ?b"
    using assms(3) e(1) by (simp add: Marshal_def encoding_defs registered_def Encode_def)
  moreover have "marshals_back N types ?m (type_id N (TStruct n)) ?b" if "length ?b < 2 ^ 64"
    using m that e(2) assms(2,3) by (simp add: marshals_back_def Unmarshal_def i registered_def DecodeWithConstructors_def)
  ultimately show thesis by (rule that)
qed

end
