(* ===== verification/Tcp.thy ===== *)
theory Tcp
  imports Net_Encoding Address
begin

text \<open>
  \<open>imported/onet/network/tcp.go\<close>, with the counters and \<open>GlobalBind\<close> of \<open>struct.go\<close>: the
  framing of packets on a TCP connection, connections, and the listener. The operating system
  appears as the sequence of segments and faults that the reads of a connection see, as what
  its writes accept, and as the results of dialling and binding.
\<close>

section \<open>Connections of the operating system\<close>

text \<open>
  An error of \<open>net\<close> or \<open>io\<close>: its text and, if it is a \<open>net.Error\<close>, the result of \<open>Timeout\<close>.
\<close>

record io_error =
  ie_text :: string
  ie_Timeout :: "bool option"

definition io_EOF :: io_error where
  "io_EOF = \<lparr>ie_text = ''EOF'', ie_Timeout = None\<rparr>"

definition io_ErrUnexpectedEOF :: io_error where
  "io_ErrUnexpectedEOF = \<lparr>ie_text = ''unexpected EOF'', ie_Timeout = None\<rparr>"

definition err_use_of_closed :: io_error where
  "err_use_of_closed = \<lparr>ie_text = ''use of closed network connection'', ie_Timeout = Some False\<rparr>"

datatype rd_event = Arrive bytes | Fault io_error

text \<open>
  \<open>net.Conn\<close>: what will arrive, what was written, and how the next writes go (the bytes that
  one accepts at most, and its error); a write after these accepts everything.
\<close>

record netconn =
  nc_in :: "rd_event list"
  nc_out :: bytes
  nc_plan :: "(nat \<times> io_error option) list"
  nc_closed :: bool

text \<open>A read into a slice of \<open>k\<close> bytes; \<open>None\<close>: it waits.\<close>

definition conn_Read :: "nat \<Rightarrow> netconn \<Rightarrow> ((io_error, bytes) go \<times> netconn) option" where
  "conn_Read k c =
    (if nc_closed c then Some (Err err_use_of_closed, c)
     else if k = 0 then Some (Ret [], c)
     else
       (case nc_in c of
          [] \<Rightarrow> None
        | Fault e # evs \<Rightarrow> Some (Err e, c\<lparr>nc_in := evs\<rparr>)
        | Arrive d # evs \<Rightarrow>
            Some (Ret (take k d), c\<lparr>nc_in := if length d \<le> k then evs else Arrive (drop k d) # evs\<rparr>)))"

definition conn_Write :: "bytes \<Rightarrow> netconn \<Rightarrow> (io_error, nat) go \<times> netconn" where
  "conn_Write d c =
    (if nc_closed c then (Err err_use_of_closed, c)
     else
       (case nc_plan c of
          [] \<Rightarrow> (Ret (length d), c\<lparr>nc_out := nc_out c @ d\<rparr>)
        | (k, e) # p \<Rightarrow>
            (case e of None \<Rightarrow> Ret (min k (length d)) | Some e \<Rightarrow> Err e,
             c\<lparr>nc_out := nc_out c @ take k d, nc_plan := p\<rparr>)))"

definition conn_Close :: "netconn \<Rightarrow> (io_error, unit) go \<times> netconn" where
  "conn_Close c = (if nc_closed c then Err err_use_of_closed else Ret (), c\<lparr>nc_closed := True\<rparr>)"

section \<open>Counters, errors, sizes\<close>

record counterSafe =
  cs_tx :: "64 word"
  cs_rx :: "64 word"

definition updateRx :: "64 word \<Rightarrow> counterSafe \<Rightarrow> counterSafe" where
  "updateRx delta c = c\<lparr>cs_rx := cs_rx c + delta\<rparr>"

definition updateTx :: "64 word \<Rightarrow> counterSafe \<Rightarrow> counterSafe" where
  "updateTx delta c = c\<lparr>cs_tx := cs_tx c + delta\<rparr>"

definition Contains :: "string \<Rightarrow> string \<Rightarrow> bool" where
  "Contains s sub \<longleftrightarrow> sublist sub s"

definition handleError :: "io_error \<Rightarrow> net_err" where
  "handleError err =
    (if Contains (ie_text err) ''use of closed'' \<or> Contains (ie_text err) ''broken pipe'' then ErrClosed
     else if Contains (ie_text err) ''canceled'' then ErrCanceled
     else if err = io_EOF \<or> Contains (ie_text err) ''EOF'' then ErrEOF
     else
       (case ie_Timeout err of
          None \<Rightarrow> ErrUnknown
        | Some timeout \<Rightarrow> if timeout then ErrTimeout else ErrUnknown))"

definition maxPacketSize :: nat where
  "maxPacketSize = 10 * 1024 * 1024"

section \<open>Connections\<close>

record TCPConn =
  tc_endpoint :: string
  tc_conn :: netconn
  tc_closed :: bool
  tc_counter :: counterSafe

definition new_TCPConn :: "string \<Rightarrow> netconn \<Rightarrow> TCPConn" where
  "new_TCPConn endpoint c = \<lparr>tc_endpoint = endpoint, tc_conn = c, tc_closed = False, tc_counter = \<lparr>cs_tx = 0, cs_rx = 0\<rparr>\<rparr>"

subsection \<open>Receiving\<close>

text \<open>
  \<open>io.ReadFull\<close>, as \<open>binary.Read\<close> calls it: \<open>k\<close> more bytes after those in \<open>acc\<close>. An end of file
  in the middle is unexpected.
\<close>

partial_function (option) ReadFull :: "nat \<Rightarrow> bytes \<Rightarrow> netconn \<Rightarrow> ((io_error, bytes) go \<times> netconn) option" where
  "ReadFull k acc c =
    (if k = 0 then Some (Ret acc, c)
     else
       Option.bind (conn_Read k c) (\<lambda>r.
         case fst r of
           Ret d \<Rightarrow> ReadFull (k - length d) (acc @ d) (snd r)
         | Err e \<Rightarrow> Some (Err (if acc \<noteq> [] \<and> e = io_EOF then io_ErrUnexpectedEOF else e), snd r)
         | Panic \<Rightarrow> Some (Panic, snd r)))"

text \<open>
  The loop of \<open>receiveRaw\<close>: \<open>read\<close>, the length of what is left of the slice \<open>b\<close>, and the buffer.
\<close>

partial_function (option) receiveRaw_loop ::
  "32 word \<Rightarrow> 32 word \<times> nat \<times> bytes \<Rightarrow> netconn \<Rightarrow> ((net_err, 32 word \<times> bytes) go \<times> netconn) option" where
  "receiveRaw_loop tot st c =
    (if fst st < tot then
       Option.bind (conn_Read (fst (snd st)) c) (\<lambda>r.
         case fst r of
           Ret d \<Rightarrow> receiveRaw_loop tot (fst st + of_nat (length d), fst (snd st) - length d, snd (snd st) @ d) (snd r)
         | Err e \<Rightarrow> Some (Err (handleError e), snd r)
         | Panic \<Rightarrow> Some (Panic, snd r))
     else Some (Ret (fst st, snd (snd st)), c))"

definition receiveRaw :: "TCPConn \<Rightarrow> ((net_err, bytes) go \<times> TCPConn) option" where
  "receiveRaw c =
    Option.bind (ReadFull 4 [] (tc_conn c)) (\<lambda>(r, nc).
      case r of
        Ret szb \<Rightarrow>
          (let tot = fromBigEndian szb :: 32 word in
           if unat tot > maxPacketSize then
             Some (Err (NE (tc_endpoint c @ '' sends too big packet'')), c\<lparr>tc_conn := nc\<rparr>)
           else
             Option.bind (receiveRaw_loop tot (0, unat tot, []) nc) (\<lambda>(r, nc).
               case r of
                 Ret (read, buffer) \<Rightarrow>
                   Some (Ret buffer, c\<lparr>tc_conn := nc, tc_counter := updateRx (ucast read) (tc_counter c)\<rparr>)
               | Err e \<Rightarrow> Some (Err e, c\<lparr>tc_conn := nc\<rparr>)
               | Panic \<Rightarrow> Some (Panic, c\<lparr>tc_conn := nc\<rparr>)))
      | Err e \<Rightarrow> Some (Err (handleError e), c\<lparr>tc_conn := nc\<rparr>)
      | Panic \<Rightarrow> Some (Panic, c\<lparr>tc_conn := nc\<rparr>))"

text \<open>
  An envelope without the sender, which the router adds: the type and the message. The deferred
  function turns a panic into an error.
\<close>

definition TCPConn_Receive ::
  "'o netenv \<Rightarrow> typeRegistry \<Rightarrow> TCPConn \<Rightarrow> ((net_err, uuid \<times> 'o Message) go \<times> TCPConn) option" where
  "TCPConn_Receive N types c =
    Option.bind (receiveRaw c) (\<lambda>(r, c).
      Some (case go_bind r (Unmarshal N types) of Panic \<Rightarrow> Err (NE ''Error Received message'') | e \<Rightarrow> e, c))"

subsection \<open>Sending\<close>

lemma conn_Write_plan:
  "conn_Write d c = (Ret n, c') \<Longrightarrow> nc_plan c = [] \<and> nc_plan c' = [] \<and> n = length d \<or> (\<exists>x. nc_plan c = x # nc_plan c')"
  by (auto simp: conn_Write_def split: if_splits list.splits option.splits)

lemma sent_all: "sent < (of_nat (length b) :: 32 word) \<Longrightarrow> sent + of_nat (length b - unat sent) = of_nat (length b)"
proof -
  assume "sent < (of_nat (length b) :: 32 word)"
  then have "unat sent < unat (of_nat (length b) :: 32 word)" by (simp only: word_less_nat_alt)
  also have "\<dots> \<le> length b" by (simp add: unat_of_nat)
  finally have "unat sent \<le> length b" by simp
  then have "(of_nat (unat sent) :: 32 word) + of_nat (length b - unat sent) = of_nat (length b)"
    by (simp only: of_nat_add [symmetric] le_add_diff_inverse)
  then show ?thesis by simp
qed

text \<open>
  The loop of \<open>sendRaw\<close>. It ends: a write uses up one step of the plan or accepts all that
  is left, which brings \<open>sent\<close> to \<open>packetSize\<close>.
\<close>

function sendRaw_loop :: "bytes \<Rightarrow> 32 word \<Rightarrow> netconn \<Rightarrow> (net_err, unit) go \<times> netconn" where
  "sendRaw_loop b sent c =
    (if sent < of_nat (length b) then
       (case conn_Write (drop (unat sent) b) c of
          (Ret n, c) \<Rightarrow> sendRaw_loop b (sent + of_nat n) c
        | (Err e, c) \<Rightarrow> (Err (handleError e), c)
        | (Panic, c) \<Rightarrow> (Panic, c))
     else (Ret (), c))"
  by pat_completeness auto

termination
proof (relation "measure (\<lambda>(b, sent, c). if nc_plan c = [] then of_bool (sent < of_nat (length b)) else Suc (length (nc_plan c)))",
    goal_cases)
  case 1
  show ?case by simp
next
  case (2 b sent c r c' n)
  from 2(2,3) have "conn_Write (drop (unat sent) b) c = (Ret n, c')" by simp
  from conn_Write_plan [OF this] show ?case using 2(1) sent_all [OF 2(1)] by (auto simp: of_bool_def)
qed

declare sendRaw_loop.simps [simp del]

text \<open>\<open>sendRaw\<close>; the error of writing the size is returned as it is.\<close>

definition sendRaw :: "bytes \<Rightarrow> TCPConn \<Rightarrow> (net_err, unit) go \<times> TCPConn" where
  "sendRaw b c =
    (let packetSize = of_nat (length b) :: 32 word in
     case conn_Write (bigEndian 4 packetSize) (tc_conn c) of
       (Ret _, nc) \<Rightarrow>
         (case sendRaw_loop b 0 nc of
            (Ret _, nc) \<Rightarrow> (Ret (), c\<lparr>tc_conn := nc, tc_counter := updateTx (ucast packetSize) (tc_counter c)\<rparr>)
          | (r, nc) \<Rightarrow> (r, c\<lparr>tc_conn := nc\<rparr>))
     | (Err e, nc) \<Rightarrow> (Err (NE (ie_text e)), c\<lparr>tc_conn := nc\<rparr>)
     | (Panic, nc) \<Rightarrow> (Panic, c\<lparr>tc_conn := nc\<rparr>))"

definition TCPConn_Send :: "'o netenv \<Rightarrow> typeRegistry \<Rightarrow> 'o Message \<Rightarrow> TCPConn \<Rightarrow> (net_err, unit) go \<times> TCPConn" where
  "TCPConn_Send N types msg c =
    (case Marshal N types msg of
       Ret b \<Rightarrow> sendRaw b c
     | Err e \<Rightarrow> (Err (NE ''Error marshaling  message''), c)
     | Panic \<Rightarrow> (Panic, c))"

definition TCPConn_Close :: "TCPConn \<Rightarrow> (net_err, unit) go \<times> TCPConn" where
  "TCPConn_Close c =
    (if tc_closed c then (Err ErrClosed, c)
     else (Ret (), c\<lparr>tc_conn := snd (conn_Close (tc_conn c)), tc_closed := True\<rparr>))"


section \<open>Dialling and binding\<close>

text \<open>The operating system: \<open>net.Dial\<close>, and \<open>net.Listen\<close> with the address it binds to.\<close>

record 'w netos =
  os_Dial :: "string \<Rightarrow> 'w \<Rightarrow> (io_error, netconn) go \<times> 'w"
  os_Listen :: "string \<Rightarrow> 'w \<Rightarrow> (io_error, string) go \<times> 'w"

text \<open>The loop of \<open>NewTCPConn\<close> with the tries that are left and the last error.\<close>

fun NewTCPConn_loop ::
  "'w netos \<Rightarrow> string \<Rightarrow> string \<Rightarrow> nat \<Rightarrow> io_error option \<Rightarrow> 'w \<Rightarrow> (net_err, TCPConn) go \<times> 'w" where
  "NewTCPConn_loop os addr netAddr 0 err w = (Err (case err of None \<Rightarrow> ErrTimeout | Some e \<Rightarrow> NE (ie_text e)), w)"
| "NewTCPConn_loop os addr netAddr (Suc i) err w =
    (case os_Dial os netAddr w of
       (Ret c, w) \<Rightarrow> (Ret (new_TCPConn addr c), w)
     | (Err e, w) \<Rightarrow> NewTCPConn_loop os addr netAddr i (Some e) w
     | (Panic, w) \<Rightarrow> (Panic, w))"

definition NewTCPConn :: "'w netos \<Rightarrow> string \<Rightarrow> 'w \<Rightarrow> (net_err, TCPConn) go \<times> 'w" where
  "NewTCPConn os addr w =
    (case NetworkAddress addr of
       Ret netAddr \<Rightarrow> NewTCPConn_loop os addr netAddr MaxRetryConnect None w
     | Err e \<Rightarrow> (Err (NE e), w)
     | Panic \<Rightarrow> (Panic, w))"

definition TCPHost_Connect :: "'w netos \<Rightarrow> 'p ServerIdentity \<Rightarrow> 'w \<Rightarrow> (net_err, TCPConn) go \<times> 'w" where
  "TCPHost_Connect os si w =
    (case ConnType (si_Address si) of
       Ret t \<Rightarrow>
         if t = ''tcp'' then NewTCPConn os (si_Address si) w
         else (Err (NE ''TCPHost can not handle this type of connection''), w)
     | Err e \<Rightarrow> (Err (NE e), w)
     | Panic \<Rightarrow> (Panic, w))"

definition GlobalBind :: "string \<Rightarrow> (net_err, string) go" where
  "GlobalBind address =
    (let addr = Split address '':'' in
     if length addr \<noteq> 2 then Err (NE ''not a host:port address'') else Ret (''0.0.0.0:'' @ addr ! 1))"

text \<open>
  The listener: the address it is bound to, its flags, whether the channel \<open>quit\<close> and whether
  the listener of \<open>net\<close> is closed.
\<close>

record TCPListener =
  tl_addr :: string
  tl_listening :: bool
  tl_closed :: bool
  tl_quit :: bool
  tl_lnClosed :: bool

text \<open>The loop of \<open>NewTCPListener\<close> with the tries that are left after this one; \<open>global\<close> is the address to bind to.\<close>

fun NewTCPListener_loop :: "'w netos \<Rightarrow> string \<Rightarrow> nat \<Rightarrow> 'w \<Rightarrow> (net_err, string) go \<times> 'w" where
  "NewTCPListener_loop os global i w =
    (case os_Listen os global w of
       (Ret a, w) \<Rightarrow> (Ret a, w)
     | (Err e, w) \<Rightarrow>
         (case i of
            0 \<Rightarrow> (Err (NE (''Error opening listener: '' @ ie_text e)), w)
          | Suc i \<Rightarrow> NewTCPListener_loop os global i w)
     | (Panic, w) \<Rightarrow> (Panic, w))"

definition NewTCPListener :: "'w netos \<Rightarrow> string \<Rightarrow> 'w \<Rightarrow> (net_err, TCPListener) go \<times> 'w" where
  "NewTCPListener os addr w =
    (case go_err NE (ConnType addr) of
       Ret t \<Rightarrow>
         if t \<noteq> ''tcp'' then (Err (NE ''TCPListener can not listen on non-tcp address''), w)
         else
           (case go_err NE (NetworkAddress addr) of
              Ret na \<Rightarrow>
                (let global = (case GlobalBind na of Ret g \<Rightarrow> g | _ \<Rightarrow> []) in
                 case NewTCPListener_loop os global (MaxRetryConnect - 1) w of
                   (Ret a, w) \<Rightarrow>
                     (Ret \<lparr>tl_addr = a, tl_listening = False, tl_closed = False, tl_quit = False, tl_lnClosed = False\<rparr>, w)
                 | (Err e, w) \<Rightarrow> (Err e, w)
                 | (Panic, w) \<Rightarrow> (Panic, w))
            | Err e \<Rightarrow> (Err e, w)
            | Panic \<Rightarrow> (Panic, w))
     | Err e \<Rightarrow> (Err e, w)
     | Panic \<Rightarrow> (Panic, w))"

definition TCPListener_Address :: "TCPListener \<Rightarrow> string" where
  "TCPListener_Address t = NewAddress ''tcp'' (tl_addr t)"

section \<open>Listening and stopping\<close>

text \<open>
  \<open>listen\<close> and \<open>Stop\<close> run in different goroutines. \<open>listen\<close> is before its first locked
  region, in its loop at \<open>Accept\<close>, at the send on \<open>quitListener\<close>, or has returned; \<open>Stop\<close>
  is not running, waits for \<open>quitListener\<close> with the lock held, or has returned.
\<close>

datatype listen_pc = LStart | LAccept | LQuit | LReturned
datatype stop_pc = SIdle | SWait | SReturned "(net_err, unit) go"

record lstate =
  ls_l :: TCPListener
  ls_listen :: listen_pc
  ls_stop :: stop_pc
  ls_conns :: "TCPConn list"

definition listen_enter :: "TCPListener \<Rightarrow> TCPListener \<times> listen_pc" where
  "listen_enter t = (if tl_closed t then (t, LReturned) else (t\<lparr>tl_listening := True\<rparr>, LAccept))"

text \<open>One round of the loop, with the result of \<open>Accept\<close>: the peer's address and the connection.\<close>

definition listen_accept :: "(io_error, string \<times> netconn) go \<Rightarrow> TCPListener \<Rightarrow> listen_pc \<times> TCPConn list" where
  "listen_accept r t =
    (case r of
       Ret (remote, c) \<Rightarrow> (LAccept, [new_TCPConn (NewAddress ''tcp'' remote) c])
     | _ \<Rightarrow> (if tl_quit t then LQuit else LAccept, []))"

definition Stop_finish :: "TCPListener \<Rightarrow> TCPListener" where
  "Stop_finish t = t\<lparr>tl_quit := False, tl_listening := False, tl_closed := True\<rparr>"

text \<open>
  \<open>Stop\<close> up to the wait, with the result of closing the listener of \<open>net\<close>. Closing the
  channel \<open>quit\<close> twice panics.
\<close>

definition Stop_enter :: "(io_error, unit) go \<Rightarrow> TCPListener \<Rightarrow> TCPListener \<times> stop_pc" where
  "Stop_enter r t =
    (if tl_quit t then (t, SReturned Panic)
     else
       let t = t\<lparr>tl_quit := True, tl_lnClosed := True\<rparr> in
       case r of
         Err e \<Rightarrow>
           if handleError e \<noteq> ErrClosed then (t, SReturned (Err (NE (ie_text e))))
           else if tl_listening t then (t, SWait) else (Stop_finish t, SReturned (Ret ()))
       | _ \<Rightarrow> if tl_listening t then (t, SWait) else (Stop_finish t, SReturned (Ret ())))"

inductive listener_step :: "lstate \<Rightarrow> lstate \<Rightarrow> bool" where
  enter: "ls_listen s = LStart \<Longrightarrow> ls_stop s \<noteq> SWait \<Longrightarrow> listen_enter (ls_l s) = (t, pc) \<Longrightarrow>
    listener_step s (s\<lparr>ls_l := t, ls_listen := pc\<rparr>)"
| accept: "ls_listen s = LAccept \<Longrightarrow> (is_Ret r \<Longrightarrow> \<not> tl_lnClosed (ls_l s)) \<Longrightarrow> listen_accept r (ls_l s) = (pc, cs) \<Longrightarrow>
    listener_step s (s\<lparr>ls_listen := pc, ls_conns := ls_conns s @ cs\<rparr>)"
| stop: "ls_stop s \<noteq> SWait \<Longrightarrow> r = (if tl_lnClosed (ls_l s) then Err err_use_of_closed else Ret ()) \<Longrightarrow>
    Stop_enter r (ls_l s) = (t, pc) \<Longrightarrow> listener_step s (s\<lparr>ls_l := t, ls_stop := pc\<rparr>)"
| meet: "ls_listen s = LQuit \<Longrightarrow> ls_stop s = SWait \<Longrightarrow>
    listener_step s (s\<lparr>ls_l := Stop_finish (ls_l s), ls_listen := LReturned, ls_stop := SReturned (Ret ())\<rparr>)"

section \<open>Framing\<close>

definition framed :: "bytes \<Rightarrow> bytes" where
  "framed b = bigEndian 4 (of_nat (length b) :: 32 word) @ b"

text \<open>The bytes \<open>s\<close> arrive in some segmentation, and then what \<open>evs\<close> says.\<close>

definition feeds :: "netconn \<Rightarrow> bytes \<Rightarrow> rd_event list \<Rightarrow> bool" where
  "feeds c s evs \<longleftrightarrow> \<not> nc_closed c \<and> (\<exists>cs. nc_in c = map Arrive cs @ evs \<and> concat cs = s)"

lemma conn_Read_feeds:
  assumes "feeds c (x @ y) evs" "length x = k" "k \<noteq> 0"
  obtains d x' c' where "conn_Read k c = Some (Ret d, c')" "x = d @ x'" "feeds c' (x' @ y) evs" "nc_out c' = nc_out c"
    "length (nc_in c') < length (nc_in c) \<or> x' = []"
proof -
  obtain cs where cs: "\<not> nc_closed c" "nc_in c = map Arrive cs @ evs" "concat cs = x @ y" using assms(1) by (auto simp: feeds_def)
  then obtain d ds where d: "cs = d # ds" using assms(2,3) by (cases cs) auto
  show thesis
  proof (cases "length d \<le> k")
    case True
    then have "take k d = d" "x = d @ drop (length d) x" "concat ds = drop (length d) x @ y"
      using cs(3) d assms(2) by (auto simp: append_eq_append_conv2)
    moreover have "conn_Read k c = Some (Ret (take k d), c\<lparr>nc_in := map Arrive ds @ evs\<rparr>)"
      using cs d True assms(3) by (simp add: conn_Read_def)
    ultimately show thesis using that [of d "c\<lparr>nc_in := map Arrive ds @ evs\<rparr>" "drop (length d) x"] cs(1,2) d
      by (auto simp: feeds_def)
  next
    case False
    then have "take k d = x" "drop k d @ concat ds = y" using cs(3) d assms(2) by (auto simp: append_eq_append_conv2)
    moreover have "conn_Read k c = Some (Ret (take k d), c\<lparr>nc_in := Arrive (drop k d) # map Arrive ds @ evs\<rparr>)"
      using cs d False assms(3) by (simp add: conn_Read_def)
    moreover have "feeds (c\<lparr>nc_in := Arrive (drop k d) # map Arrive ds @ evs\<rparr>) (drop k d @ concat ds) evs"
      using cs(1) by (auto simp: feeds_def intro!: exI [of _ "drop k d # ds"])
    ultimately show thesis using that [of x "c\<lparr>nc_in := Arrive (drop k d) # map Arrive ds @ evs\<rparr>" "[]"] by simp
  qed
qed

lemma unat_add_small: "unat r + n < 2 ^ 32 \<Longrightarrow> unat ((r :: 32 word) + of_nat n) = unat r + n"
  by (simp add: unat_word_ariths unat_of_nat)

lemma ReadFull_feeds:
  assumes "feeds c (x @ y) evs" "length x = k"
  shows "\<exists>c'. ReadFull k acc c = Some (Ret (acc @ x), c') \<and> feeds c' y evs \<and> nc_out c' = nc_out c"
  using assms
proof (induction "length (nc_in c)" arbitrary: c x k acc rule: less_induct)
  case less
  show ?case
  proof (cases "k = 0")
    case True
    then show ?thesis using less.prems by (subst ReadFull.simps) simp
  next
    case False
    then obtain d x' c' where r: "conn_Read k c = Some (Ret d, c')" "x = d @ x'" "feeds c' (x' @ y) evs" "nc_out c' = nc_out c"
      "length (nc_in c') < length (nc_in c) \<or> x' = []"
      by (rule conn_Read_feeds [OF less.prems])
    have k: "length x' = k - length d" using less.prems(2) r(2) by simp
    show ?thesis
    proof (cases "x' = []")
      case True
      have "ReadFull (k - length d) (acc @ d) c' = Some (Ret (acc @ d), c')" using True k by (subst ReadFull.simps) simp
      then show ?thesis using False r True by (subst ReadFull.simps) simp
    next
      case n: False
      then obtain c'' where "ReadFull (k - length d) (acc @ d) c' = Some (Ret ((acc @ d) @ x'), c'')" "feeds c'' y evs"
        "nc_out c'' = nc_out c'"
        using less.hyps [OF _ r(3) k] r(5) by blast
      then show ?thesis using False r by (subst ReadFull.simps) simp
    qed
  qed
qed

text \<open>The loop of \<open>receiveRaw\<close> reads like \<open>ReadFull\<close>: \<open>read\<close> and the rest of \<open>b\<close> make up the packet.\<close>

lemma receiveRaw_loop_feeds:
  assumes "feeds c (x @ y) evs" "unat tot = unat rd + length x"
  shows "\<exists>c'. receiveRaw_loop tot (rd, length x, buf) c = Some (Ret (tot, buf @ x), c') \<and> feeds c' y evs \<and> nc_out c' = nc_out c"
  using assms
proof (induction "length (nc_in c)" arbitrary: c x rd buf rule: less_induct)
  case less
  show ?case
  proof (cases "x = []")
    case True
    have "unat tot = unat rd" using less.prems(2) True by simp
    then have "tot = rd" by (rule unsigned_word_eqI)
    then show ?thesis using less.prems(1) True by (subst receiveRaw_loop.simps) simp
  next
    case False
    then have lt: "rd < tot" using less.prems(2) by (simp add: word_less_nat_alt)
    from False obtain d x' c' where r: "conn_Read (length x) c = Some (Ret d, c')" "x = d @ x'" "feeds c' (x' @ y) evs"
      "nc_out c' = nc_out c" "length (nc_in c') < length (nc_in c) \<or> x' = []"
      using conn_Read_feeds [OF less.prems(1) refl] by (metis length_0_conv)
    have "unat rd + length d < 2 ^ 32" using less.prems(2) r(2) unsigned_less [of tot, where 'a = nat] by simp
    then have "unat (rd + of_nat (length d)) = unat rd + length d" by (simp add: unat_add_small)
    then have tot: "unat tot = unat (rd + of_nat (length d)) + length x'" using less.prems(2) r(2) by simp
    have step: "receiveRaw_loop tot (rd, length x, buf) c = receiveRaw_loop tot (rd + of_nat (length d), length x', buf @ d) c'"
      using lt r(1,2) by (subst receiveRaw_loop.simps) simp
    show ?thesis
    proof (cases "x' = []")
      case True
      have "unat (rd + of_nat (length d)) = unat tot" using tot True by simp
      then have "rd + of_nat (length d) = tot" by (rule unsigned_word_eqI)
      then show ?thesis unfolding step using True r by (subst receiveRaw_loop.simps) simp
    next
      case n: False
      then show ?thesis unfolding step using less.hyps [OF _ r(3) tot, of "buf @ d"] r by auto
    qed
  qed
qed

lemma ucast_small: "unat w = n \<Longrightarrow> (ucast (w :: 32 word) :: 64 word) = of_nat n"
  by auto

lemma receiveRaw_frame:
  assumes "feeds (tc_conn c) (framed b @ rest) evs" "length b \<le> maxPacketSize"
  shows "\<exists>nc. receiveRaw c = Some (Ret b, c\<lparr>tc_conn := nc, tc_counter := updateRx (of_nat (length b)) (tc_counter c)\<rparr>) \<and>
    feeds nc rest evs \<and> nc_out nc = nc_out (tc_conn c)"
proof -
  let ?tot = "of_nat (length b) :: 32 word"
  have s: "unat ?tot = length b" using assms(2) by (simp add: unat_of_nat maxPacketSize_def)
  have w: "fromBigEndian (bigEndian 4 ?tot) = ?tot" by (rule fromBigEndian_bigEndian) simp
  have u: "(ucast ?tot :: 64 word) = of_nat (length b)" by (simp add: ucast_small s)
  obtain nc where nc: "ReadFull 4 [] (tc_conn c) = Some (Ret (bigEndian 4 ?tot), nc)" "feeds nc (b @ rest) evs"
    "nc_out nc = nc_out (tc_conn c)"
    using ReadFull_feeds [of "tc_conn c" "bigEndian 4 ?tot" "b @ rest" evs 4 "[]"] assms(1) by (auto simp: framed_def)
  obtain nc' where "receiveRaw_loop ?tot (0, length b, []) nc = Some (Ret (?tot, b), nc')" "feeds nc' rest evs" "nc_out nc' = nc_out nc"
    using receiveRaw_loop_feeds [OF nc(2), of ?tot 0 "[]"] s by auto
  then show ?thesis using nc assms(2) s w u by (intro exI [of _ nc']) (simp add: receiveRaw_def)
qed

lemma receiveRaw_too_big:
  assumes "feeds (tc_conn c) (framed b @ rest) evs" "maxPacketSize < length b" "length b < 2 ^ 32"
  shows "\<exists>nc. receiveRaw c = Some (Err (NE (tc_endpoint c @ '' sends too big packet'')), c\<lparr>tc_conn := nc\<rparr>) \<and>
    feeds nc (b @ rest) evs"
proof -
  let ?tot = "of_nat (length b) :: 32 word"
  have s: "unat ?tot = length b" using assms(3) by (simp add: unat_of_nat)
  have w: "fromBigEndian (bigEndian 4 ?tot) = ?tot" by (rule fromBigEndian_bigEndian) simp
  obtain nc where nc: "ReadFull 4 [] (tc_conn c) = Some (Ret (bigEndian 4 ?tot), nc)" "feeds nc (b @ rest) evs"
    using ReadFull_feeds [of "tc_conn c" "bigEndian 4 ?tot" "b @ rest" evs 4 "[]"] assms(1) by (auto simp: framed_def)
  with assms(2) s w have "receiveRaw c = Some (Err (NE (tc_endpoint c @ '' sends too big packet'')), c\<lparr>tc_conn := nc\<rparr>)"
    by (simp add: receiveRaw_def)
  with nc(2) show ?thesis by blast
qed

text \<open>
  Writes that do not fail; they may accept less than they are given, as long as it is more than
  the size of the packet, which is written once and without a look at the number accepted.
\<close>

definition writes_ok :: "netconn \<Rightarrow> bool" where
  "writes_ok c \<longleftrightarrow> \<not> nc_closed c \<and> (\<forall>(k, e) \<in> set (nc_plan c). 4 \<le> k \<and> e = None)"

lemma conn_Write_ok:
  assumes "writes_ok c"
  obtains k c' where "conn_Write d c = (Ret (min k (length d)), c')" "nc_out c' = nc_out c @ take k d" "writes_ok c'" "4 \<le> k" "nc_in c' = nc_in c"
proof (cases "nc_plan c")
  case Nil
  then show thesis using that [of "4 + length d" "c\<lparr>nc_out := nc_out c @ d\<rparr>"] assms by (simp add: conn_Write_def writes_ok_def)
next
  case (Cons x p)
  then obtain k where "x = (k, None)" "4 \<le> k" using assms by (cases x) (auto simp: writes_ok_def)
  then show thesis using that [of k "c\<lparr>nc_out := nc_out c @ take k d, nc_plan := p\<rparr>"] assms Cons
    by (simp add: conn_Write_def writes_ok_def)
qed

lemma sendRaw_loop_ok:
  assumes "writes_ok c" "length b < 2 ^ 32" "unat sent \<le> length b"
  shows "\<exists>c'. sendRaw_loop b sent c = (Ret (), c') \<and> nc_out c' = nc_out c @ drop (unat sent) b \<and> writes_ok c' \<and> nc_in c' = nc_in c"
  using assms
proof (induction b sent c rule: sendRaw_loop.induct)
  case (1 b sent c)
  have s: "unat (of_nat (length b) :: 32 word) = length b" using "1.prems"(2) by (simp add: unat_of_nat)
  show ?case
  proof (cases "sent < of_nat (length b)")
    case True
    obtain k c' where w: "conn_Write (drop (unat sent) b) c = (Ret (min k (length b - unat sent)), c')"
      "nc_out c' = nc_out c @ take k (drop (unat sent) b)" "writes_ok c'" "nc_in c' = nc_in c"
      using conn_Write_ok [OF "1.prems"(1), of "drop (unat sent) b"] by (metis length_drop)
    let ?n = "min k (length b - unat sent)"
    have "unat sent + ?n < 2 ^ 32" using "1.prems"(2,3) by simp
    then have u: "unat (sent + of_nat ?n) = unat sent + ?n" by (simp add: unat_add_small)
    have "unat (sent + of_nat ?n) \<le> length b" unfolding u using "1.prems"(3) by simp
    then obtain c'' where i: "sendRaw_loop b (sent + of_nat ?n) c' = (Ret (), c'')"
      "nc_out c'' = nc_out c' @ drop (unat (sent + of_nat ?n)) b" "writes_ok c''" "nc_in c'' = nc_in c'"
      using "1.IH" [OF True w(1) [symmetric] refl w(3) "1.prems"(2)] by blast
    have "take k (drop (unat sent) b) @ drop (unat sent + ?n) b = drop (unat sent) b"
      by (cases "k \<le> length b - unat sent") (simp_all add: drop_drop [symmetric] add.commute del: drop_drop)
    then show ?thesis using True w i u by (subst sendRaw_loop.simps) simp
  next
    case False
    then have "length b \<le> unat sent" using s by (simp add: word_less_nat_alt not_less)
    with False "1.prems"(1) show ?thesis by (subst sendRaw_loop.simps) simp
  qed
qed

lemma sendRaw_ok:
  assumes "writes_ok (tc_conn c)" "length b < 2 ^ 32"
  shows "\<exists>nc. sendRaw b c = (Ret (), c\<lparr>tc_conn := nc, tc_counter := updateTx (of_nat (length b)) (tc_counter c)\<rparr>) \<and>
    nc_out nc = nc_out (tc_conn c) @ framed b \<and> writes_ok nc \<and> nc_in nc = nc_in (tc_conn c)"
proof -
  let ?tot = "of_nat (length b) :: 32 word"
  have s: "unat ?tot = length b" using assms(2) by (simp add: unat_of_nat)
  have u: "(ucast ?tot :: 64 word) = of_nat (length b)" by (simp add: ucast_small s)
  obtain k nc where w: "conn_Write (bigEndian 4 ?tot) (tc_conn c) = (Ret (min k 4), nc)" "nc_out nc = nc_out (tc_conn c) @ take k (bigEndian 4 ?tot)"
    "writes_ok nc" "4 \<le> k" "nc_in nc = nc_in (tc_conn c)"
    using conn_Write_ok [OF assms(1), of "bigEndian 4 ?tot"] by (metis length_bigEndian)
  obtain nc' where "sendRaw_loop b 0 nc = (Ret (), nc')" "nc_out nc' = nc_out nc @ b" "writes_ok nc'" "nc_in nc' = nc_in nc"
    using sendRaw_loop_ok [OF w(3) assms(2), of 0] by auto
  then show ?thesis using w u by (intro exI [of _ nc']) (simp add: sendRaw_def framed_def Let_def)
qed


section \<open>Messages over a connection\<close>

text \<open>Several calls of \<open>Send\<close>, and of \<open>Receive\<close>, one after the other; the first error ends them.\<close>

fun send_msgs :: "'o netenv \<Rightarrow> typeRegistry \<Rightarrow> 'o Message list \<Rightarrow> TCPConn \<Rightarrow> (net_err, unit) go \<times> TCPConn" where
  "send_msgs N types [] c = (Ret (), c)"
| "send_msgs N types (m # ms) c =
    (case TCPConn_Send N types m c of (Ret _, c) \<Rightarrow> send_msgs N types ms c | r \<Rightarrow> r)"

fun receive_n :: "'o netenv \<Rightarrow> typeRegistry \<Rightarrow> nat \<Rightarrow> TCPConn \<Rightarrow> ((net_err, (uuid \<times> 'o Message) list) go \<times> TCPConn) option" where
  "receive_n N types 0 c = Some (Ret [], c)"
| "receive_n N types (Suc n) c =
    Option.bind (TCPConn_Receive N types c) (\<lambda>(r, c).
      case r of
        Ret env \<Rightarrow> Option.bind (receive_n N types n c) (\<lambda>(r, c). Some (go_bind r (\<lambda>envs. Ret (env # envs)), c))
      | Err e \<Rightarrow> Some (Err e, c)
      | Panic \<Rightarrow> Some (Panic, c))"

text \<open>
  The messages that can be sent: pointers to structs of a registered type that the codec gives
  back and that does not unmarshal itself, in at most 10 MiB.
\<close>

definition sendable :: "'o netenv \<Rightarrow> typeRegistry \<Rightarrow> 'o Message \<Rightarrow> bool" where
  "sendable N types msg \<longleftrightarrow> (\<exists>n vs. msg = Some (TPtr (TStruct n), VPtr (Some (VStruct vs))) \<and>
    rt_one (ne_pe N) (ne_generators N) (DefaultConstructors N) True (TStruct n) (VStruct vs) \<and>
    pe_self (ne_pe N) n = None \<and> registered N types (TStruct n)) \<and>
    (\<forall>b. Marshal N types msg = Ret b \<longrightarrow> length b \<le> maxPacketSize)"

definition with_id :: "'o netenv \<Rightarrow> 'o Message \<Rightarrow> uuid \<times> 'o Message" where
  "with_id N msg = (case computeMessageType N msg of Ret i \<Rightarrow> i | _ \<Rightarrow> ErrorType, msg)"

lemma sendable_back:
  assumes "sendable N types msg"
  obtains b where "Marshal N types msg = Ret b" "Unmarshal N types b = Ret (with_id N msg)" "length b \<le> maxPacketSize"
proof -
  obtain n vs where m: "msg = Some (TPtr (TStruct n), VPtr (Some (VStruct vs)))"
    "rt_one (ne_pe N) (ne_generators N) (DefaultConstructors N) True (TStruct n) (VStruct vs)"
    "pe_self (ne_pe N) n = None" "registered N types (TStruct n)"
    using assms unfolding sendable_def by blast
  obtain b where b: "Marshal N types msg = Ret b" "length b < 2 ^ 64 \<Longrightarrow> marshals_back N types msg (type_id N (TStruct n)) b"
    using Marshal_back [OF m(2-4)] m(1) by metis
  have l: "length b \<le> maxPacketSize" using assms b(1) by (simp add: sendable_def)
  then have "marshals_back N types msg (type_id N (TStruct n)) b" using b(2) by (simp add: maxPacketSize_def)
  then show thesis using that b(1) l m(1) by (simp add: marshals_back_def with_id_def computeMessageType_def elem_type_def)
qed

lemma send_receive_all:
  assumes "\<forall>m \<in> set ms. sendable N types m" "writes_ok (tc_conn a)"
  shows "\<exists>a' s. send_msgs N types ms a = (Ret (), a') \<and> nc_out (tc_conn a') = nc_out (tc_conn a) @ s \<and>
    (\<forall>b rest evs. feeds (tc_conn b) (s @ rest) evs \<longrightarrow> (\<exists>b'. receive_n N types (length ms) b = Some (Ret (map (with_id N) ms), b') \<and>
      feeds (tc_conn b') rest evs \<and>
      cs_tx (tc_counter a') - cs_tx (tc_counter a) = cs_rx (tc_counter b') - cs_rx (tc_counter b)))"
  using assms
proof (induction ms arbitrary: a)
  case Nil
  then show ?case by (intro exI [of _ a] exI [of _ "[]"]) simp
next
  case (Cons m ms)
  obtain x where x: "Marshal N types m = Ret x" "Unmarshal N types x = Ret (with_id N m)" "length x \<le> maxPacketSize"
    by (rule sendable_back [of N types m]) (use Cons.prems(1) in auto)
  then have l: "length x < 2 ^ 32" by (simp add: maxPacketSize_def)
  obtain nc where nc: "sendRaw x a = (Ret (), a\<lparr>tc_conn := nc, tc_counter := updateTx (of_nat (length x)) (tc_counter a)\<rparr>)"
    "nc_out nc = nc_out (tc_conn a) @ framed x" "writes_ok nc"
    using sendRaw_ok [OF Cons.prems(2) l] by blast
  let ?a = "a\<lparr>tc_conn := nc, tc_counter := updateTx (of_nat (length x)) (tc_counter a)\<rparr>"
  have "writes_ok (tc_conn ?a)" "\<forall>m \<in> set ms. sendable N types m" using nc(3) Cons.prems(1) by simp_all
  from Cons.IH [OF this(2,1)] obtain a' s where i: "send_msgs N types ms ?a = (Ret (), a')" "nc_out (tc_conn a') = nc_out nc @ s"
    "\<And>b rest evs. feeds (tc_conn b) (s @ rest) evs \<Longrightarrow> \<exists>b'. receive_n N types (length ms) b = Some (Ret (map (with_id N) ms), b') \<and>
      feeds (tc_conn b') rest evs \<and> cs_tx (tc_counter a') - cs_tx (tc_counter ?a) = cs_rx (tc_counter b') - cs_rx (tc_counter b)"
    by auto
  have "\<exists>b'. receive_n N types (length (m # ms)) b = Some (Ret (map (with_id N) (m # ms)), b') \<and> feeds (tc_conn b') rest evs \<and>
      cs_tx (tc_counter a') - cs_tx (tc_counter a) = cs_rx (tc_counter b') - cs_rx (tc_counter b)"
    if f: "feeds (tc_conn b) (framed x @ s @ rest) evs" for b rest evs
  proof -
    obtain nb where nb: "receiveRaw b = Some (Ret x, b\<lparr>tc_conn := nb, tc_counter := updateRx (of_nat (length x)) (tc_counter b)\<rparr>)"
      "feeds nb (s @ rest) evs" using receiveRaw_frame [OF f x(3)] by blast
    let ?b = "b\<lparr>tc_conn := nb, tc_counter := updateRx (of_nat (length x)) (tc_counter b)\<rparr>"
    obtain b' where b': "receive_n N types (length ms) ?b = Some (Ret (map (with_id N) ms), b')" "feeds (tc_conn b') rest evs"
      "cs_tx (tc_counter a') - cs_tx (tc_counter ?a) = cs_rx (tc_counter b') - cs_rx (tc_counter ?b)"
      using i(3) [of ?b rest evs] nb(2) by auto
    have "receive_n N types (length (m # ms)) b = Some (Ret (map (with_id N) (m # ms)), b')"
      by (simp add: TCPConn_Receive_def nb(1) x(2) b'(1))
    moreover have "cs_tx (tc_counter a') - cs_tx (tc_counter a) = cs_rx (tc_counter b') - cs_rx (tc_counter b)"
      using b'(3) by (simp add: updateTx_def updateRx_def algebra_simps)
    ultimately show ?thesis using b'(2) by blast
  qed
  then show ?case using i(1,2) nc(1,2) x(1) by (intro exI [of _ a'] exI [of _ "framed x @ s"]) (simp add: TCPConn_Send_def)
qed

text \<open>C10: 
  What one end of a TCP connection sends, the other receives. Messages of registered types that the
  codec gives back are sent one after the other, in writes that may be short but do not fail;
  the bytes arrive in any segmentation. Then every \<open>Send\<close> succeeds, and as many calls of
  \<open>Receive\<close> return, and return the messages in order with the identifiers of their types; what
  arrives after them is left for the next call, and the receiver has counted as many bytes
  received as the sender has counted sent.
\<close>
theorem tcp_delivers:
  assumes "\<forall>m \<in> set ms. sendable N types m" "writes_ok (tc_conn a)"
  shows "\<exists>a' s. send_msgs N types ms a = (Ret (), a') \<and> nc_out (tc_conn a') = nc_out (tc_conn a) @ s \<and>
    (\<forall>b cs evs. \<not> nc_closed (tc_conn b) \<and> nc_in (tc_conn b) = map Arrive cs @ evs \<and> concat cs = s \<longrightarrow>
      (\<exists>b' cs'. receive_n N types (length ms) b = Some (Ret (map (with_id N) ms), b') \<and>
        nc_in (tc_conn b') = map Arrive cs' @ evs \<and> concat cs' = [] \<and>
        cs_tx (tc_counter a') - cs_tx (tc_counter a) = cs_rx (tc_counter b') - cs_rx (tc_counter b)))"
proof -
  obtain a' s where r: "send_msgs N types ms a = (Ret (), a')" "nc_out (tc_conn a') = nc_out (tc_conn a) @ s"
    "\<And>b rest evs. feeds (tc_conn b) (s @ rest) evs \<Longrightarrow> \<exists>b'. receive_n N types (length ms) b = Some (Ret (map (with_id N) ms), b') \<and>
      feeds (tc_conn b') rest evs \<and> cs_tx (tc_counter a') - cs_tx (tc_counter a) = cs_rx (tc_counter b') - cs_rx (tc_counter b)"
    using send_receive_all [OF assms] by blast
  have "\<exists>b' cs'. receive_n N types (length ms) b = Some (Ret (map (with_id N) ms), b') \<and>
      nc_in (tc_conn b') = map Arrive cs' @ evs \<and> concat cs' = [] \<and>
      cs_tx (tc_counter a') - cs_tx (tc_counter a) = cs_rx (tc_counter b') - cs_rx (tc_counter b)"
    if "\<not> nc_closed (tc_conn b) \<and> nc_in (tc_conn b) = map Arrive cs @ evs \<and> concat cs = s" for b cs evs
  proof -
    have "feeds (tc_conn b) (s @ []) evs" using that by (auto simp: feeds_def)
    from r(3) [OF this] show ?thesis unfolding feeds_def by blast
  qed
  with r(1,2) show ?thesis by blast
qed

text \<open>C36: 
  A packet above 10 MiB takes the receiver out of step. \<open>sendRaw\<close> does not look at the size, so
  the packet is sent and counted. \<open>receiveRaw\<close> reads the size, returns an error that is none of
  those on which the router gives the connection up, and leaves the contents unread. The next
  \<open>receiveRaw\<close> takes the first bytes of the contents for a size: when the contents start with
  a framed packet, it returns that packet, which nobody sent.
\<close>
theorem oversize_packet_desynchronises:
  assumes "b = framed x @ y" "maxPacketSize < length b" "length b < 2 ^ 32" "length x \<le> maxPacketSize" "writes_ok (tc_conn a)"
    and "\<not> nc_closed (tc_conn c)" "nc_in (tc_conn c) = map Arrive cs @ evs" "concat cs = framed b"
  shows "\<exists>a' e c1 c2. sendRaw b a = (Ret (), a') \<and> nc_out (tc_conn a') = nc_out (tc_conn a) @ framed b \<and>
    receiveRaw c = Some (Err (NE e), c1) \<and> receiveRaw c1 = Some (Ret x, c2)"
proof -
  have f: "feeds (tc_conn c) (framed b @ []) evs" using assms(6-8) by (auto simp: feeds_def)
  obtain nc where nc: "receiveRaw c = Some (Err (NE (tc_endpoint c @ '' sends too big packet'')), c\<lparr>tc_conn := nc\<rparr>)"
    "feeds nc (b @ []) evs" using receiveRaw_too_big [OF f assms(2,3)] by blast
  have "feeds (tc_conn (c\<lparr>tc_conn := nc\<rparr>)) (framed x @ y) evs" using nc(2) assms(1) by simp
  then obtain c2 where "receiveRaw (c\<lparr>tc_conn := nc\<rparr>) = Some (Ret x, c2)" using receiveRaw_frame assms(4) by blast
  moreover obtain a' where "sendRaw b a = (Ret (), a')" "nc_out (tc_conn a') = nc_out (tc_conn a) @ framed b"
    using sendRaw_ok [OF assms(5,3)] by fastforce
  ultimately show ?thesis using nc(1) by blast
qed


section \<open>The listener\<close>

text \<open>
  \<open>NewTCPListener\<close> drops the error of \<open>GlobalBind\<close>: on an address that does not split into two
  parts, as every IPv6 address, it binds to the empty address, that is to any free port.
\<close>

lemma NewTCPListener_unsplit:
  assumes "ConnType addr = Ret ''tcp''" "NetworkAddress addr = Ret na" "length (Split na '':'') \<noteq> 2" "os_Listen os [] w = (Ret a, w')"
  shows "NewTCPListener os addr w =
    (Ret \<lparr>tl_addr = a, tl_listening = False, tl_closed = False, tl_quit = False, tl_lnClosed = False\<rparr>, w')"
  using assms by (simp add: NewTCPListener_def GlobalBind_def)

lemma ipv6_parts: "Split ''tcp://[::1]:7'' ''://'' = [''tcp'', ''[::1]:7'']" "SplitHostPort ''[::1]:7'' = Some (''::1'', ''7'')"
    "Atoi ''7'' = (7, True)" "length (Split ''[::1]:7'' '':'') \<noteq> 2"
  by code_simp+

lemma ipv6_address: "ConnType ''tcp://[::1]:7'' = Ret ''tcp''" "NetworkAddress ''tcp://[::1]:7'' = Ret ''[::1]:7''"
proof -
  have "ParseIP ''::1''" by (simp add: ParseIP_def parseIPv6_def parseIPv4_def ipv6_loop.simps hex_val_def xtoi_def)
  then have "Valid ''tcp://[::1]:7'' = Ret True" by (simp add: Valid_def ipv6_parts connType_def InvalidConnType_def)
  then show "ConnType ''tcp://[::1]:7'' = Ret ''tcp''" "NetworkAddress ''tcp://[::1]:7'' = Ret ''[::1]:7''"
    by (simp_all add: ConnType_def NetworkAddress_def ipv6_parts connType_def)
qed

lemma NewTCPListener_ipv6: "os_Listen os [] w = (Ret a, w') \<Longrightarrow> NewTCPListener os ''tcp://[::1]:7'' w =
    (Ret \<lparr>tl_addr = a, tl_listening = False, tl_closed = False, tl_quit = False, tl_lnClosed = False\<rparr>, w')"
  by (rule NewTCPListener_unsplit [OF ipv6_address ipv6_parts(4)])

definition listener_inv :: "lstate \<Rightarrow> bool" where
  "listener_inv s \<longleftrightarrow>
    (ls_listen s = LAccept \<longrightarrow> tl_listening (ls_l s) \<and> \<not> tl_closed (ls_l s)) \<and>
    (ls_listen s = LQuit \<longrightarrow> ls_stop s = SWait) \<and>
    (ls_stop s = SWait \<longrightarrow> ls_listen s \<in> {LAccept, LQuit} \<and> tl_quit (ls_l s)) \<and>
    (ls_listen s \<in> {LStart, LReturned} \<longrightarrow> \<not> tl_listening (ls_l s)) \<and>
    (tl_quit (ls_l s) \<longrightarrow> ls_stop s = SWait) \<and>
    (\<forall>r. ls_stop s = SReturned r \<longrightarrow> r = Ret () \<and> tl_closed (ls_l s))"

definition new_lstate :: "TCPListener \<Rightarrow> lstate" where
  "new_lstate t = \<lparr>ls_l = t, ls_listen = LStart, ls_stop = SIdle, ls_conns = []\<rparr>"

lemma handleError_closed: "handleError err_use_of_closed = ErrClosed"
  by code_simp

lemma listener_step_inv: "listener_step s s' \<Longrightarrow> listener_inv s \<Longrightarrow> listener_inv s'"
proof (induction rule: listener_step.induct)
  case (enter s t pc)
  then show ?case by (auto simp: listener_inv_def listen_enter_def split: if_splits)
next
  case (accept s r pc cs)
  then show ?case by (auto simp: listener_inv_def listen_accept_def split: go.splits if_splits)
next
  case (stop s r t pc)
  then have q: "\<not> tl_quit (ls_l s)" by (auto simp: listener_inv_def)
  have "Stop_enter r (ls_l s) = (let t = (ls_l s)\<lparr>tl_quit := True, tl_lnClosed := True\<rparr> in
      if tl_listening t then (t, SWait) else (Stop_finish t, SReturned (Ret ())))"
    using stop(2) q by (simp add: Stop_enter_def handleError_closed)
  then show ?case using stop q
    by (cases "ls_listen s") (auto simp: listener_inv_def Stop_finish_def Let_def split: if_splits)
next
  case (meet s)
  then show ?case by (auto simp: listener_inv_def Stop_finish_def)
qed

lemma listener_reachable:
  "listener_step\<^sup>*\<^sup>* (new_lstate \<lparr>tl_addr = a, tl_listening = False, tl_closed = False, tl_quit = False, tl_lnClosed = False\<rparr>) s \<Longrightarrow>
    listener_inv s"
proof (induction rule: rtranclp_induct)
  case base
  show ?case by (simp add: listener_inv_def new_lstate_def)
next
  case (step y z)
  then show ?case by (blast intro: listener_step_inv)
qed

text \<open>
  \<open>Stop\<close> never panics and never fails, and once it has returned no loop of \<open>listen\<close> runs; while it
  waits, the loop can always go on to meet it.
\<close>

lemma Stop_after_listen: "listener_inv s \<Longrightarrow> ls_stop s = SReturned r \<Longrightarrow> r = Ret () \<and> ls_listen s \<in> {LStart, LReturned}"
  by (cases "ls_listen s") (auto simp: listener_inv_def)

lemma Stop_not_stuck:
  assumes "listener_inv s" "ls_stop s = SWait"
  shows "\<exists>s'. listener_step\<^sup>*\<^sup>* s s' \<and> ls_stop s' = SReturned (Ret ())"
proof -
  have m: "\<exists>s'. listener_step s s' \<and> ls_stop s' = SReturned (Ret ())" if "ls_listen s = LQuit" "ls_stop s = SWait" for s
    by (rule exI, rule conjI, rule listener_step.meet [OF that]) simp
  show ?thesis
  proof (cases "ls_listen s = LQuit")
    case True
    with m assms(2) show ?thesis by blast
  next
    case False
    then have "ls_listen s = LAccept" "tl_quit (ls_l s)" using assms by (auto simp: listener_inv_def)
    then have "listener_step s (s\<lparr>ls_listen := LQuit, ls_conns := ls_conns s @ []\<rparr>)"
      by (intro listener_step.accept [of _ Panic]) (simp_all add: listen_accept_def)
    moreover obtain s' where "listener_step (s\<lparr>ls_listen := LQuit, ls_conns := ls_conns s @ []\<rparr>) s'" "ls_stop s' = SReturned (Ret ())"
      using m [of "s\<lparr>ls_listen := LQuit, ls_conns := ls_conns s @ []\<rparr>"] assms(2) by auto
    ultimately show ?thesis by (meson converse_rtranclp_into_rtranclp r_into_rtranclp)
  qed
qed

section \<open>Examples\<close>

definition ex_net :: "unit netenv" where
  "ex_net = \<lparr>ne_pe = ex_penv, ne_generators = (\<lambda>_. None), ne_newV5 = (\<lambda>_. 5), ne_uuidString = (\<lambda>_. []),
    ne_String = (\<lambda>t. ''item''), ne_Point = VObj (), ne_Scalar = VObj ()\<rparr>"

definition ex_types :: typeRegistry where
  "ex_types = snd (RegisterMessage ex_net (Some (TStruct ''Item'', VNil)) newTypeRegistry)"

definition ex_tcp :: TCPConn where
  "ex_tcp = new_TCPConn ''tcp://h:1'' \<lparr>nc_in = [], nc_out = [], nc_plan = [(7, None)], nc_closed = False\<rparr>"

text \<open>A message without a successor, and its bytes.\<close>

definition ex_netmsg :: "unit Message" where
  "ex_netmsg = Some (TPtr (TStruct ''Item''), VPtr (Some (VStruct [VInt 7, VBytes [1, 2, 3], VList [], VPtr None])))"

lemma ex_registered: "registered ex_net ex_types (TStruct ''Item'')"
  by (simp add: registered_def ex_types_def RegisterMessage_def encoding_defs type_id_def ex_net_def ErrorType_def)

lemma ex_Marshal: "Marshal ex_net ex_types ex_netmsg = Ret (replicate 15 0 @ [5, 8, 14, 18, 3, 1, 2, 3])"
  by code_simp

lemma ex_netmsg_rt:
  "rt_one ex_penv (\<lambda>_. None) nm True (TStruct ''Item'') (VStruct [VInt 7, VBytes [1, 2, 3], VList [], VPtr None])"
proof (rule rt_struct [OF ex_struct_ok])
  have f: "pe_struct ex_penv ''Item'' = ex_fields" by (simp add: ex_penv_def)
  show "\<forall>k < length [VInt 7, VBytes [1, 2, 3], VList [], VPtr None].
      f_Exported (pe_struct ex_penv ''Item'' ! k) \<longrightarrow> rt_field ex_penv (\<lambda>_. None) nm
        (pf_Prefix (flat_fields 0 0 (pe_struct ex_penv ''Item'') ! k)) (f_Type (pe_struct ex_penv ''Item'' ! k))
        ([VInt 7, VBytes [1, 2, 3], VList [], VPtr None] ! k)"
    unfolding f
    by (auto simp: less_Suc_eq ex_fields_def ex_field_def proto_field_def ParseTag_def prim_ok_def rep_elem_def int_fits_def set_int_def
        not_interface_def intro!: rtf_one [OF rt_prim] rtf_one [OF rt_bytes] rtf_list rt_prim rtf_nilptr)
qed (auto simp: ex_penv_def ex_fields_def ex_field_def less_Suc_eq)

lemma ex_sendable: "sendable ex_net ex_types ex_netmsg"
proof -
  have "ne_pe ex_net = ex_penv" "ne_generators ex_net = (\<lambda>_. None)" "pe_self ex_penv n = None" for n
    by (simp_all add: ex_net_def ex_penv_def)
  then show ?thesis unfolding sendable_def ex_Marshal using ex_netmsg_rt ex_registered
    by (auto simp: ex_netmsg_def maxPacketSize_def)
qed

theorem tcp_delivers_witness:
  "\<exists>a' s. send_msgs ex_net ex_types [ex_netmsg, ex_netmsg] ex_tcp = (Ret (), a') \<and> nc_out (tc_conn a') = nc_out (tc_conn ex_tcp) @ s \<and>
    (\<forall>b cs evs. \<not> nc_closed (tc_conn b) \<and> nc_in (tc_conn b) = map Arrive cs @ evs \<and> concat cs = s \<longrightarrow>
      (\<exists>b' cs'. receive_n ex_net ex_types (length [ex_netmsg, ex_netmsg]) b = Some (Ret (map (with_id ex_net) [ex_netmsg, ex_netmsg]), b') \<and>
        nc_in (tc_conn b') = map Arrive cs' @ evs \<and> concat cs' = [] \<and>
        cs_tx (tc_counter a') - cs_tx (tc_counter ex_tcp) = cs_rx (tc_counter b') - cs_rx (tc_counter b)))"
  by (rule tcp_delivers) (simp_all add: ex_sendable writes_ok_def ex_tcp_def new_TCPConn_def)

definition ex_oversize :: bytes where
  "ex_oversize = framed [9] @ replicate maxPacketSize 0"

theorem oversize_packet_desynchronises_witness:
  "\<exists>a' e c1 c2. sendRaw ex_oversize ex_tcp = (Ret (), a') \<and> nc_out (tc_conn a') = nc_out (tc_conn ex_tcp) @ framed ex_oversize \<and>
    receiveRaw (ex_tcp\<lparr>tc_conn := (tc_conn ex_tcp)\<lparr>nc_in := [Arrive (framed ex_oversize)]\<rparr>\<rparr>) = Some (Err (NE e), c1) \<and>
    receiveRaw c1 = Some (Ret [9], c2)"
  by (rule oversize_packet_desynchronises [where cs = "[framed ex_oversize]" and evs = "[]" and y = "replicate maxPacketSize 0"])
    (simp_all add: ex_oversize_def framed_def maxPacketSize_def writes_ok_def ex_tcp_def new_TCPConn_def)

end
