(* ===== verification/Tree_Instance.thy ===== *)
theory Tree_Instance
  imports Roster_Tree
begin

text \<open>
  \<open>imported/onet/treenode.go\<close>: the instance of a protocol on a node of a tree. It registers
  channels and handlers by message type, queues the messages that arrive, aggregates the
  messages of the children, and sends messages to other nodes of the tree.

  A message carries the tree-node id of its sender (\<open>From.TreeNodeID\<close>), its type and its
  contents. A channel is a bounded buffer of what was sent into it.
\<close>

section \<open>State\<close>

type_synonym MessageTypeID = uuid

record 'm ProtocolMsg =
  pm_From :: uuid
  pm_MsgType :: MessageTypeID
  pm_Msg :: 'm

text \<open>
  What \<open>reflectCreate\<close> builds for a channel or a handler: the sender's tree node and the
  message, both missing if the sender is not in the tree; alone or aggregated in a slice.
\<close>

datatype ('p, 'm) delivery =
    Single "('p TreeNode \<times> 'm) option"
  | Slice "('p TreeNode \<times> 'm) option list"

record ('p, 'm) channel =
  ch_cap :: nat
  ch_buf :: "('p, 'm) delivery list"

text \<open>
  \<open>TreeNodeInstance\<close>: the id of the node, of its parent and of its children; a missing entry
  of \<open>messageTypeFlags\<close> reads 0. \<open>wait\<close> is the channel \<open>msgDispatchQueueWait\<close> of capacity 1.
\<close>

record ('p, 'm) TreeNodeInstance =
  tni_ID :: uuid
  tni_Parent :: "uuid option"
  tni_Children :: "uuid list"
  tni_channels :: "MessageTypeID \<rightharpoonup> ('p, 'm) channel"
  tni_handlers :: "MessageTypeID set"
  tni_flags :: "MessageTypeID \<Rightarrow> 32 word"
  tni_msgQueue :: "MessageTypeID \<rightharpoonup> 'm ProtocolMsg list"
  tni_dispatchQueue :: "'m ProtocolMsg list"
  tni_wait :: bool
  tni_closing :: bool
  tni_config :: "bytes option"
  tni_sentTo :: "uuid set"
  tni_bound :: bool

definition AggregateMessages :: "32 word" where
  "AggregateMessages = 1"

definition DefaultChannelLength :: nat where
  "DefaultChannelLength = 100"

definition newTreeNodeInstance :: "uuid \<Rightarrow> uuid option \<Rightarrow> uuid list \<Rightarrow> ('p, 'm) TreeNodeInstance" where
  "newTreeNodeInstance i parent children =
    \<lparr>tni_ID = i, tni_Parent = parent, tni_Children = children, tni_channels = Map.empty, tni_handlers = {},
     tni_flags = (\<lambda>_. 0), tni_msgQueue = Map.empty, tni_dispatchQueue = [], tni_wait = False,
     tni_closing = False, tni_config = None, tni_sentTo = {}, tni_bound = False\<rparr>"

definition tni_IsRoot :: "('p, 'm) TreeNodeInstance \<Rightarrow> bool" where
  "tni_IsRoot n \<longleftrightarrow> tni_Parent n = None"

definition tni_IsLeaf :: "('p, 'm) TreeNodeInstance \<Rightarrow> bool" where
  "tni_IsLeaf n \<longleftrightarrow> length (tni_Children n) = 0"

section \<open>Flags\<close>

definition setFlag :: "MessageTypeID \<Rightarrow> 32 word \<Rightarrow> ('p, 'm) TreeNodeInstance \<Rightarrow> ('p, 'm) TreeNodeInstance" where
  "setFlag mt f n = n\<lparr>tni_flags := (tni_flags n)(mt := tni_flags n mt OR f)\<rparr>"

definition clearFlag :: "MessageTypeID \<Rightarrow> 32 word \<Rightarrow> ('p, 'm) TreeNodeInstance \<Rightarrow> ('p, 'm) TreeNodeInstance" where
  "clearFlag mt f n = n\<lparr>tni_flags := (tni_flags n)(mt := tni_flags n mt AND NOT f)\<rparr>"

definition hasFlag :: "('p, 'm) TreeNodeInstance \<Rightarrow> MessageTypeID \<Rightarrow> 32 word \<Rightarrow> bool" where
  "hasFlag n mt f \<longleftrightarrow> tni_flags n mt AND f \<noteq> 0"

section \<open>Registration\<close>

text \<open>
  Types as \<open>reflect\<close> shows them; a struct is the list of its field types, the first two of a
  message struct being the tree node and the message. \<open>regType\<close> is \<open>network.RegisterMessage\<close>.
\<close>

datatype rtype =
    RFunc "rtype list" "rtype list"
  | RPtr rtype
  | RChan rtype
  | RSlice rtype
  | RStruct string "rtype list"
  | RInterface string
  | ROther string

definition TreeNode_ptr :: rtype where
  "TreeNode_ptr = RPtr (RStruct ''onet.TreeNode'' [])"

definition is_TreeNode_ptr :: "rtype \<Rightarrow> bool" where
  "is_TreeNode_ptr t = (case t of RPtr (RStruct n _) \<Rightarrow> n = ''onet.TreeNode'' | _ \<Rightarrow> False)"

text \<open>The checks on the element type, with the messages of \<open>RegisterChannelLength\<close>.\<close>

definition check_channel_elem :: "rtype \<Rightarrow> (string, rtype) go" where
  "check_channel_elem t =
    (case t of
       RStruct _ fs \<Rightarrow>
         if length fs \<noteq> 2 then Err ''Input is not channel of structure with 2 elements''
         else if \<not> is_TreeNode_ptr (fs ! 0) then Err ''Input-channel doesn't have TreeNode as element''
         else Ret (fs ! 1)
     | _ \<Rightarrow> Err ''Input is not channel of structure'')"

text \<open>
  \<open>RegisterChannelLength\<close>: a pointer to a channel variable makes a new channel of the given
  length there; \<open>isNil\<close> tells whether a channel passed by value is nil, \<open>cap0\<close> its capacity.
  The test for nil panics on values that have no nil.
\<close>

definition register_channel ::
  "(rtype \<Rightarrow> MessageTypeID) \<Rightarrow> rtype \<Rightarrow> bool \<Rightarrow> nat \<Rightarrow> ('p, 'm) TreeNodeInstance \<Rightarrow>
    (string, unit) go \<times> ('p, 'm) TreeNodeInstance" where
  "register_channel regType cr isNil cap0 n =
    (if isNil then (Err ''Can not Register a (value) channel not initialized'', n)
     else
       case cr of
         RChan el \<Rightarrow>
           let (flags, elem) = (case el of RSlice e \<Rightarrow> (AggregateMessages, e) | _ \<Rightarrow> (0, el)) in
           (case check_channel_elem elem of
              Ret msgT \<Rightarrow>
                let typ = regType msgT in
                (Ret (), n\<lparr>tni_channels := (tni_channels n)(typ \<mapsto> \<lparr>ch_cap = cap0, ch_buf = []\<rparr>),
                           tni_flags := (tni_flags n)(typ := flags)\<rparr>)
            | Err e \<Rightarrow> (Err e, n)
            | Panic \<Rightarrow> (Panic, n))
       | _ \<Rightarrow> (Err ''Input is not channel'', n))"

definition RegisterChannelLength ::
  "(rtype \<Rightarrow> MessageTypeID) \<Rightarrow> rtype \<Rightarrow> bool \<Rightarrow> nat \<Rightarrow> nat \<Rightarrow> ('p, 'm) TreeNodeInstance \<Rightarrow>
    (string, unit) go \<times> ('p, 'm) TreeNodeInstance" where
  "RegisterChannelLength regType cr isNil cap0 len n =
    (case cr of
       RPtr t \<Rightarrow> (case t of RChan _ \<Rightarrow> register_channel regType t False len n | _ \<Rightarrow> (Panic, n))
     | RStruct _ _ \<Rightarrow> (Panic, n)
     | ROther _ \<Rightarrow> (Panic, n)
     | _ \<Rightarrow> register_channel regType cr isNil cap0 n)"

text \<open>The tree-node instance's \<open>RegisterHandler\<close>.\<close>

definition tni_RegisterHandler ::
  "(rtype \<Rightarrow> MessageTypeID) \<Rightarrow> rtype \<Rightarrow> ('p, 'm) TreeNodeInstance \<Rightarrow> (string, unit) go \<times> ('p, 'm) TreeNodeInstance" where
  "tni_RegisterHandler regType cr n =
    (case cr of
       RFunc ins outs \<Rightarrow>
         if length outs \<noteq> 1 then (Err ''Need exactly one return argument of type error'', n)
         else if outs ! 0 \<noteq> RInterface ''error'' then (Err ''return-type of message-handler needs to be error'', n)
         else
           (case ins of
              [] \<Rightarrow> (Panic, n)
            | ci0 # _ \<Rightarrow>
                let (flags, ci) = (case ci0 of RSlice e \<Rightarrow> (AggregateMessages, e) | _ \<Rightarrow> (0, ci0)) in
                (case ci of
                   RStruct _ fs \<Rightarrow>
                     if length fs \<noteq> 2 then (Err ''Input is not a structure with 2 elements'', n)
                     else if \<not> is_TreeNode_ptr (fs ! 0) then (Err ''Input-handler doesn't have TreeNode as element'', n)
                     else
                       let typ = regType (fs ! 1) in
                       (Ret (), n\<lparr>tni_handlers := insert typ (tni_handlers n), tni_flags := (tni_flags n)(typ := flags)\<rparr>)
                 | _ \<Rightarrow> (Err ''Input is not a structure'', n)))
     | _ \<Rightarrow> (Err ''Input is not function'', n))"

section \<open>Aggregation and dispatch\<close>

text \<open>\<open>aggregate\<close>: the messages to dispatch now, or nothing while children are missing.\<close>

definition aggregate ::
  "'m ProtocolMsg \<Rightarrow> ('p, 'm) TreeNodeInstance \<Rightarrow> 'm ProtocolMsg list option \<times> ('p, 'm) TreeNodeInstance" where
  "aggregate msg n =
    (let mt = pm_MsgType msg;
         fromParent = (\<not> tni_IsRoot n \<and> tni_Parent n = Some (pm_From msg)) in
     if fromParent \<or> \<not> hasFlag n mt AggregateMessages then (Some [msg], n)
     else
       let msgs = (case tni_msgQueue n mt of None \<Rightarrow> [] | Some q \<Rightarrow> q) @ [msg];
           n = n\<lparr>tni_msgQueue := (tni_msgQueue n)(mt \<mapsto> msgs)\<rparr> in
       if length msgs = length (tni_Children n)
       then (Some msgs, n\<lparr>tni_msgQueue := (tni_msgQueue n)(mt := None)\<rparr>)
       else (None, n))"

definition reflectCreate :: "(uuid \<Rightarrow> 'p TreeNode option) \<Rightarrow> 'm ProtocolMsg \<Rightarrow> ('p TreeNode \<times> 'm) option" where
  "reflectCreate search msg = map_option (\<lambda>tn. (tn, pm_Msg msg)) (search (pm_From msg))"

text \<open>
  \<open>dispatchChannel\<close>: an aggregated slice is sent with a blocking send (\<open>None\<close>: the reader waits),
  single messages only if there is room.
\<close>

fun send_each ::
  "(uuid \<Rightarrow> 'p TreeNode option) \<Rightarrow> ('p, 'm) channel \<Rightarrow> 'm ProtocolMsg list \<Rightarrow> (string, unit) go \<times> ('p, 'm) channel" where
  "send_each search ch [] = (Ret (), ch)"
| "send_each search ch (msg # msgs) =
    (if length (ch_buf ch) < ch_cap ch
     then send_each search (ch\<lparr>ch_buf := ch_buf ch @ [Single (reflectCreate search msg)]\<rparr>) msgs
     else (Err ''channel too small for msg'', ch))"

definition dispatchChannel ::
  "(uuid \<Rightarrow> 'p TreeNode option) \<Rightarrow> 'm ProtocolMsg list \<Rightarrow> ('p, 'm) TreeNodeInstance \<Rightarrow>
    ((string, unit) go \<times> ('p, 'm) TreeNodeInstance) option" where
  "dispatchChannel search msgSlice n =
    (case msgSlice of
       [] \<Rightarrow> Some (Panic, n)
     | m # _ \<Rightarrow>
         let mt = pm_MsgType m in
         (case tni_channels n mt of
            None \<Rightarrow> Some (Panic, n)
          | Some ch \<Rightarrow>
              if hasFlag n mt AggregateMessages then
                (if length (ch_buf ch) < ch_cap ch
                 then Some (Ret (), n\<lparr>tni_channels := (tni_channels n)(mt \<mapsto>
                   ch\<lparr>ch_buf := ch_buf ch @ [Slice (map (reflectCreate search) msgSlice)]\<rparr>)\<rparr>)
                 else None)
              else
                let (r, ch) = send_each search ch msgSlice in
                Some (r, n\<lparr>tni_channels := (tni_channels n)(mt \<mapsto> ch)\<rparr>)))"

text \<open>
  \<open>dispatchHandler\<close>; \<open>call\<close> is the registered function acting on the state of the protocol. Of
  several single messages only the error of the last one is returned.
\<close>

fun call_each ::
  "(('p, 'm) delivery \<Rightarrow> 'h \<Rightarrow> string option \<times> 'h) \<Rightarrow> (uuid \<Rightarrow> 'p TreeNode option) \<Rightarrow>
    'm ProtocolMsg list \<Rightarrow> string option \<Rightarrow> 'h \<Rightarrow> string option \<times> 'h" where
  "call_each call search [] errV h = (errV, h)"
| "call_each call search (msg # msgs) errV h =
    (let (errV, h) = call (Single (reflectCreate search msg)) h in call_each call search msgs errV h)"

definition dispatchHandler ::
  "(('p, 'm) delivery \<Rightarrow> 'h \<Rightarrow> string option \<times> 'h) \<Rightarrow> (uuid \<Rightarrow> 'p TreeNode option) \<Rightarrow>
    'm ProtocolMsg list \<Rightarrow> ('p, 'm) TreeNodeInstance \<Rightarrow> 'h \<Rightarrow> (string, unit) go \<times> 'h" where
  "dispatchHandler call search msgSlice n h =
    (case msgSlice of
       [] \<Rightarrow> (Panic, h)
     | m # _ \<Rightarrow>
         let (errV, h) =
           (if hasFlag n (pm_MsgType m) AggregateMessages then call (Slice (map (reflectCreate search) msgSlice)) h
            else call_each call search msgSlice None h)
         in ((case errV of None \<Rightarrow> Ret () | Some e \<Rightarrow> Err e), h))"

text \<open>\<open>dispatchMsgToProtocol\<close>: a channel takes precedence over a handler of the same type.\<close>

definition dispatchMsgToProtocol ::
  "(MessageTypeID \<Rightarrow> ('p, 'm) delivery \<Rightarrow> 'h \<Rightarrow> string option \<times> 'h) \<Rightarrow> (uuid \<Rightarrow> 'p TreeNode option) \<Rightarrow>
    'm ProtocolMsg \<Rightarrow> ('p, 'm) TreeNodeInstance \<Rightarrow> 'h \<Rightarrow>
    ((string, unit) go \<times> ('p, 'm) TreeNodeInstance \<times> 'h) option" where
  "dispatchMsgToProtocol call search msg n h =
    (case aggregate msg n of
       (None, n) \<Rightarrow> Some (Ret (), n, h)
     | (Some msgs, n) \<Rightarrow>
         let mt = pm_MsgType msg in
         if tni_channels n mt \<noteq> None then
           map_option (\<lambda>(r, n). (r, n, h)) (dispatchChannel search msgs n)
         else if mt \<in> tni_handlers n then
           (let (r, h) = dispatchHandler (call mt) search msgs n h in Some (r, n, h))
         else Some (Err ''message-type not handled by the protocol'', n, h))"

section \<open>The dispatch queue\<close>

definition ProcessProtocolMsg :: "'m ProtocolMsg \<Rightarrow> ('p, 'm) TreeNodeInstance \<Rightarrow> ('p, 'm) TreeNodeInstance" where
  "ProcessProtocolMsg msg n =
    (let n = n\<lparr>tni_dispatchQueue := tni_dispatchQueue n @ [msg]\<rparr> in
     if length (tni_dispatchQueue n) = 1 \<and> \<not> tni_wait n then n\<lparr>tni_wait := True\<rparr> else n)"

text \<open>\<open>closeDispatch\<close>; \<open>shutdown\<close> is the protocol's own \<open>Shutdown\<close>.\<close>

definition closeDispatch ::
  "string option \<Rightarrow> ('p, 'm) TreeNodeInstance \<Rightarrow> string option \<times> ('p, 'm) TreeNodeInstance" where
  "closeDispatch shutdown n =
    (let n = n\<lparr>tni_closing := True\<rparr>;
         n = (if \<not> tni_wait n then n\<lparr>tni_wait := True\<rparr> else n) in
     if \<not> tni_bound n then (Some ''Can't shutdown empty ProtocolInstance'', n) else (shutdown, n))"

text \<open>
  The reader goroutine \<open>dispatchMsgReader\<close>: at the top of its loop, dispatching a message,
  about to wait or waiting for the wake-up token, or finished. \<open>reader_top\<close> is what it does
  under the mutex.
\<close>

datatype 'm reader = AtTop | Dispatching "'m ProtocolMsg" | Waiting | Finished

definition reader_top :: "('p, 'm) TreeNodeInstance \<Rightarrow> 'm reader \<times> ('p, 'm) TreeNodeInstance" where
  "reader_top n =
    (if tni_closing n then (Finished, n)
     else
       case tni_dispatchQueue n of
         msg # q \<Rightarrow> (Dispatching msg, n\<lparr>tni_dispatchQueue := q\<rparr>)
       | [] \<Rightarrow> (Waiting, n))"

text \<open>
  The interleaving of the reader with the goroutines that deliver messages or close the node:
  a step carries the message it delivers. The third component of a state records the
  dispatched messages.
\<close>

type_synonym ('p, 'm) rstate = "'m reader \<times> ('p, 'm) TreeNodeInstance \<times> 'm ProtocolMsg list"

inductive reader_step :: "('p, 'm) rstate \<Rightarrow> ('p, 'm) rstate \<Rightarrow> bool" where
  top: "reader_top n = (r, n') \<Longrightarrow> reader_step (AtTop, n, out) (r, n', out)"
| dispatched: "reader_step (Dispatching msg, n, out) (AtTop, n, out @ [msg])"
| woken: "tni_wait n \<Longrightarrow> reader_step (Waiting, n, out) (AtTop, n\<lparr>tni_wait := False\<rparr>, out)"

inductive reader_run :: "('p, 'm) TreeNodeInstance \<Rightarrow> 'm ProtocolMsg list \<Rightarrow> ('p, 'm) rstate \<Rightarrow> bool" for n0 where
  start: "reader_run n0 [] (AtTop, n0, [])"
| reader: "reader_run n0 ms s \<Longrightarrow> reader_step s s' \<Longrightarrow> reader_run n0 ms s'"
| deliver: "reader_run n0 ms (r, n, out) \<Longrightarrow> reader_run n0 (ms @ [msg]) (r, ProcessProtocolMsg msg n, out)"
| close: "reader_run n0 ms (r, n, out) \<Longrightarrow> reader_run n0 ms (r, snd (closeDispatch e n), out)"

inductive_cases reader_stepE: "reader_step s s'"

section \<open>Sending\<close>

text \<open>
  \<open>SendTo\<close>; \<open>send\<close> is \<open>SendToTreeNode\<close> of the overlay, with the configuration on the first message
  to a node. A nil node is \<open>None\<close>.
\<close>

definition SendTo ::
  "(uuid \<Rightarrow> 'm \<Rightarrow> bytes option \<Rightarrow> 'w \<Rightarrow> string option \<times> 'w) \<Rightarrow> uuid option \<Rightarrow> 'm \<Rightarrow>
    ('p, 'm) TreeNodeInstance \<Rightarrow> 'w \<Rightarrow> string option \<times> ('p, 'm) TreeNodeInstance \<times> 'w" where
  "SendTo send to msg n w =
    (case to of
       None \<Rightarrow> (Some ''Sent to a nil TreeNode'', n, w)
     | Some t \<Rightarrow>
         let (c, n) = (if t \<notin> tni_sentTo n then (tni_config n, n\<lparr>tni_sentTo := insert t (tni_sentTo n)\<rparr>) else (None, n));
             (err, w) = send t msg c w
         in (err, n, w))"

text \<open>\<open>Multicast\<close>, and with the right lists \<open>Broadcast\<close> and \<open>SendToChildren\<close>: stop at the first error.\<close>

fun Multicast ::
  "(uuid \<Rightarrow> 'm \<Rightarrow> bytes option \<Rightarrow> 'w \<Rightarrow> string option \<times> 'w) \<Rightarrow> 'm \<Rightarrow> uuid list \<Rightarrow>
    ('p, 'm) TreeNodeInstance \<Rightarrow> 'w \<Rightarrow> string option \<times> ('p, 'm) TreeNodeInstance \<times> 'w" where
  "Multicast send msg [] n w = (None, n, w)"
| "Multicast send msg (t # ts) n w =
    (case SendTo send (Some t) msg n w of
       (Some err, n, w) \<Rightarrow> (Some err, n, w)
     | (None, n, w) \<Rightarrow> Multicast send msg ts n w)"

definition Broadcast where
  "Broadcast send nodes msg n w = Multicast send msg (filter (\<lambda>t. t \<noteq> tni_ID n) nodes) n w"

definition SendToParent where
  "SendToParent send msg n w = (if tni_IsRoot n then (None, n, w) else SendTo send (tni_Parent n) msg n w)"

definition SendToChildren where
  "SendToChildren send msg n w = (if tni_IsLeaf n then (None, n, w) else Multicast send msg (tni_Children n) n w)"

text \<open>
  \<open>SendToChildrenInParallel\<close>: \<open>order\<close> is the order in which the goroutines send; every child is
  served and the errors are collected.
\<close>

fun send_all ::
  "(uuid \<Rightarrow> 'm \<Rightarrow> bytes option \<Rightarrow> 'w \<Rightarrow> string option \<times> 'w) \<Rightarrow> 'm \<Rightarrow> uuid list \<Rightarrow>
    ('p, 'm) TreeNodeInstance \<Rightarrow> 'w \<Rightarrow> (uuid \<times> string) list \<times> ('p, 'm) TreeNodeInstance \<times> 'w" where
  "send_all send msg [] n w = ([], n, w)"
| "send_all send msg (t # ts) n w =
    (let (err, n, w) = SendTo send (Some t) msg n w;
         (errs, n, w) = send_all send msg ts n w
     in ((case err of None \<Rightarrow> errs | Some e \<Rightarrow> (t, e) # errs), n, w))"

definition SendToChildrenInParallel where
  "SendToChildrenInParallel send order msg n w =
    (if tni_IsLeaf n then ([], n, w) else send_all send msg order n w)"

definition SetConfig :: "bytes \<Rightarrow> ('p, 'm) TreeNodeInstance \<Rightarrow> string option \<times> ('p, 'm) TreeNodeInstance" where
  "SetConfig c n =
    (if tni_config n \<noteq> None then (Some ''Can't set config twice'', n) else (None, n\<lparr>tni_config := Some c\<rparr>))"

section \<open>The reader loses no message\<close>

fun in_flight :: "'m reader \<Rightarrow> 'm ProtocolMsg list" where
  "in_flight (Dispatching msg) = [msg]"
| "in_flight _ = []"

definition reader_inv :: "'m ProtocolMsg list \<Rightarrow> ('p, 'm) rstate \<Rightarrow> bool" where
  "reader_inv ms s = (case s of (r, n, out) \<Rightarrow>
    ms = out @ in_flight r @ tni_dispatchQueue n \<and>
    (r = Waiting \<and> (tni_dispatchQueue n \<noteq> [] \<or> tni_closing n) \<longrightarrow> tni_wait n) \<and>
    (r = Finished \<longrightarrow> tni_closing n))"

lemma reader_step_inv:
  assumes "reader_inv ms s" and "reader_step s s'"
  shows "reader_inv ms s'"
  using assms(2,1) by cases (auto simp: reader_inv_def reader_top_def split: if_splits list.splits)

lemma reader_run_inv:
  assumes "reader_run n0 ms s" and "tni_dispatchQueue n0 = []"
  shows "reader_inv ms s"
  using assms
proof (induction rule: reader_run.induct)
  case (reader ms s s')
  then show ?case using reader_step_inv by blast
next
  case (deliver ms r n out msg)
  then show ?case by (auto simp: reader_inv_def ProcessProtocolMsg_def Let_def)
next
  case (close ms r n out e)
  then show ?case by (auto simp: reader_inv_def closeDispatch_def Let_def)
qed (simp add: reader_inv_def)

lemma reader_dispatches_head:
  assumes "reader_inv ms (r, n, out)" and "tni_dispatchQueue n = msg # q" and "\<not> tni_closing n"
  shows "\<exists>n'. reader_step\<^sup>*\<^sup>* (r, n, out) (AtTop, n', out @ in_flight r @ [msg])"
proof -
  have top: "reader_step\<^sup>*\<^sup>* (AtTop, n1, out1) (AtTop, n1\<lparr>tni_dispatchQueue := q\<rparr>, out1 @ [msg])"
    if "tni_dispatchQueue n1 = msg # q" "\<not> tni_closing n1" for n1 :: "('b, 'a) TreeNodeInstance" and out1
  proof -
    have "reader_step (AtTop, n1, out1) (Dispatching msg, n1\<lparr>tni_dispatchQueue := q\<rparr>, out1)"
      using that by (intro reader_step.top) (simp add: reader_top_def)
    then show ?thesis by (meson reader_step.dispatched converse_rtranclp_into_rtranclp rtranclp.rtrancl_refl)
  qed
  show ?thesis
  proof (cases r)
    case AtTop
    then show ?thesis using top [OF assms(2,3)] by auto
  next
    case (Dispatching m)
    then show ?thesis using top [OF assms(2,3), of "out @ [m]"] reader_step.dispatched [of m n out]
      by (auto intro: converse_rtranclp_into_rtranclp)
  next
    case Waiting
    then have w: "tni_wait n" using assms by (simp add: reader_inv_def)
    have "reader_step (r, n, out) (AtTop, n\<lparr>tni_wait := False\<rparr>, out)"
      using w Waiting by (simp add: reader_step.woken)
    then show ?thesis using top [of "n\<lparr>tni_wait := False\<rparr>" out] assms(2,3) Waiting
      by (auto intro: converse_rtranclp_into_rtranclp)
  next
    case Finished
    then show ?thesis using assms by (simp add: reader_inv_def)
  qed
qed


definition ex_msg :: "nat \<Rightarrow> nat ProtocolMsg" where
  "ex_msg i = \<lparr>pm_From = 7, pm_MsgType = 3, pm_Msg = i\<rparr>"

lemma ex_reader_run:
  "reader_run (newTreeNodeInstance 1 None [7]) [ex_msg 1]
    (Waiting, ProcessProtocolMsg (ex_msg 1) (newTreeNodeInstance 1 None [7]), [])"
proof -
  have "reader_run (newTreeNodeInstance 1 None [7]) [] (Waiting, newTreeNodeInstance 1 None [7], [])"
    by (rule reader_run.reader [OF reader_run.start])
      (auto intro!: reader_step.top simp: reader_top_def newTreeNodeInstance_def)
  from reader_run.deliver [OF this, of "ex_msg 1"] show ?thesis by simp
qed


section \<open>Aggregation in full rounds\<close>

text \<open>The batches that a sequence of messages makes the node dispatch.\<close>

fun agg_run ::
  "'m ProtocolMsg list \<Rightarrow> ('p, 'm) TreeNodeInstance \<Rightarrow> 'm ProtocolMsg list list \<times> ('p, 'm) TreeNodeInstance" where
  "agg_run [] n = ([], n)"
| "agg_run (msg # msgs) n =
    (let (b, n) = aggregate msg n; (bs, n) = agg_run msgs n in
     ((case b of None \<Rightarrow> bs | Some batch \<Rightarrow> batch # bs), n))"

definition queue_of :: "('p, 'm) TreeNodeInstance \<Rightarrow> MessageTypeID \<Rightarrow> 'm ProtocolMsg list" where
  "queue_of n mt = (case tni_msgQueue n mt of None \<Rightarrow> [] | Some q \<Rightarrow> q)"

text \<open>A message that is aggregated: its type has the flag, and it does not come from the parent.\<close>

definition aggregated :: "('p, 'm) TreeNodeInstance \<Rightarrow> 'm ProtocolMsg \<Rightarrow> bool" where
  "aggregated n msg \<longleftrightarrow> hasFlag n (pm_MsgType msg) AggregateMessages \<and> tni_Parent n \<noteq> Some (pm_From msg)"

lemma aggregate_frame:
  assumes "aggregate msg n = (b, n')"
  shows "tni_Children n' = tni_Children n \<and> tni_Parent n' = tni_Parent n \<and> tni_flags n' = tni_flags n"
  using assms by (auto simp: aggregate_def Let_def split: if_splits)

lemma aggregated_frame:
  assumes "aggregate msg n = (b, n')"
  shows "aggregated n' m = aggregated n m"
  using aggregate_frame [OF assms] by (simp add: aggregated_def hasFlag_def)

lemma aggregate_step:
  assumes "aggregated n msg" and "aggregate msg n = (b, n')" and "pm_MsgType msg = mt"
  shows "(b = None \<and> queue_of n' mt = queue_of n mt @ [msg] \<and> length (queue_of n' mt) \<noteq> length (tni_Children n)) \<or>
    (b = Some (queue_of n mt @ [msg]) \<and> queue_of n' mt = [] \<and> Suc (length (queue_of n mt)) = length (tni_Children n))"
  using assms by (auto simp: aggregate_def aggregated_def queue_of_def Let_def split: if_splits option.splits)


definition ex_agg :: "(int, nat) TreeNodeInstance" where
  "ex_agg = setFlag 3 AggregateMessages (newTreeNodeInstance 1 None [7, 8])"


end
