(* ===== verification/Overlay.thy ===== *)
theory Overlay
  imports Tree_Instance
begin

text \<open>
  \<open>imported/onet/overlay.go\<close> with the tokens and messages of \<open>messages.go\<close>, the protocol and
  message-proxy stores of \<open>protocol.go\<close> and the creation of protocol instances of \<open>service.go\<close>
  and \<open>server.go\<close>. The overlay of a server maps the messages that arrive to protocol instances;
  it asks the sender for a tree or roster it does not know and keeps the message until the
  tree is there.

  Handlers act on the state of the overlay. The goroutine that \<open>checkPendingMessages\<close> starts
  is an entry of \<open>ov_checks\<close> until it runs. The two mutexes that are held across other
  operations, \<open>pendingTreeLock\<close> and \<open>pendingMsgLock\<close>, are part of the state; the others are
  released by the function that takes them. Messages to other servers are recorded in
  \<open>ov_sent\<close>, and whether sending fails is a parameter that may depend on that record.
\<close>

lemma find_append: "find P (xs @ ys) = (case find P xs of Some x \<Rightarrow> Some x | None \<Rightarrow> find P ys)"
  by (induction xs) auto

lemma find_Some_mem: "find P xs = Some x \<Longrightarrow> x \<in> set xs \<and> P x"
  by (induction xs) (auto split: if_splits)

lemma find_distinct:
  assumes "distinct (map f xs)"
  shows "find (\<lambda>x. f x = i) xs = Some x \<longleftrightarrow> x \<in> set xs \<and> f x = i"
  using assms by (induction xs) (auto dest: find_Some_mem)

section \<open>Tokens\<close>

record Token =
  tok_RosterID :: uuid
  tok_TreeID :: uuid
  tok_ProtoID :: uuid
  tok_ServiceID :: uuid
  tok_RoundID :: uuid
  tok_TreeNodeID :: uuid
  tok_cacheID :: uuid

definition token_url :: "(uuid \<Rightarrow> string) \<Rightarrow> Token \<Rightarrow> string" where
  "token_url us t = ''https://dedis.epfl.ch/'' @ ''token/'' @ us (tok_RosterID t) @ us (tok_RoundID t) @
    us (tok_ServiceID t) @ us (tok_ProtoID t) @ us (tok_TreeID t) @ us (tok_TreeNodeID t)"

text \<open>\<open>ID\<close>: computed once and kept in the token; the nil id means that it is not computed yet.\<close>

definition Token_ID :: "(string \<Rightarrow> uuid) \<Rightarrow> (uuid \<Rightarrow> string) \<Rightarrow> Token \<Rightarrow> uuid \<times> Token" where
  "Token_ID newV5 us t =
    (let t = (if tok_cacheID t = 0 then t\<lparr>tok_cacheID := newV5 (token_url us t)\<rparr> else t) in
     (tok_cacheID t, t))"

definition Token_Clone :: "Token \<Rightarrow> Token" where
  "Token_Clone t = t"

definition ChangeTreeNodeID :: "Token \<Rightarrow> uuid \<Rightarrow> Token" where
  "ChangeTreeNodeID t newid = t\<lparr>tok_TreeNodeID := newid, tok_cacheID := 0\<rparr>"

text \<open>A token whose cache is empty or right.\<close>

definition token_ok :: "(string \<Rightarrow> uuid) \<Rightarrow> (uuid \<Rightarrow> string) \<Rightarrow> Token \<Rightarrow> bool" where
  "token_ok newV5 us t \<longleftrightarrow> tok_cacheID t = 0 \<or> tok_cacheID t = newV5 (token_url us t)"

text \<open>What a client does with a token, and the identifiers it gets to see.\<close>

datatype token_op = TakeID | TakeClone | ChangeNode uuid

fun token_run :: "(string \<Rightarrow> uuid) \<Rightarrow> (uuid \<Rightarrow> string) \<Rightarrow> token_op list \<Rightarrow> Token \<Rightarrow> uuid list \<times> Token" where
  "token_run newV5 us [] t = ([], t)"
| "token_run newV5 us (TakeID # ops) t =
    (let (i, t) = Token_ID newV5 us t; (is, t) = token_run newV5 us ops t in (i # is, t))"
| "token_run newV5 us (TakeClone # ops) t = token_run newV5 us ops (Token_Clone t)"
| "token_run newV5 us (ChangeNode n # ops) t = token_run newV5 us ops (ChangeTreeNodeID t n)"

text \<open>The specification has no cache: the identifier is a function of the six other fields.\<close>

definition token_abs :: "Token \<Rightarrow> Token" where
  "token_abs t = t\<lparr>tok_cacheID := 0\<rparr>"

fun token_spec :: "(string \<Rightarrow> uuid) \<Rightarrow> (uuid \<Rightarrow> string) \<Rightarrow> token_op list \<Rightarrow> Token \<Rightarrow> uuid list \<times> Token" where
  "token_spec newV5 us [] t = ([], t)"
| "token_spec newV5 us (TakeID # ops) t =
    (let (is, t') = token_spec newV5 us ops t in (newV5 (token_url us t) # is, t'))"
| "token_spec newV5 us (TakeClone # ops) t = token_spec newV5 us ops t"
| "token_spec newV5 us (ChangeNode n # ops) t = token_spec newV5 us ops (t\<lparr>tok_TreeNodeID := n\<rparr>)"

lemma token_url_cache [simp]: "token_url us (t\<lparr>tok_cacheID := c\<rparr>) = token_url us t"
  by (simp add: token_url_def)

lemma token_ok_steps:
  "token_ok newV5 us t \<Longrightarrow> token_ok newV5 us (snd (Token_ID newV5 us t))"
  "token_ok newV5 us (ChangeTreeNodeID t n)"
  by (auto simp: token_ok_def Token_ID_def Let_def ChangeTreeNodeID_def)

lemma Token_ID_ok:
  assumes "token_ok newV5 us t"
  shows "fst (Token_ID newV5 us t) = newV5 (token_url us t)" and "token_abs (snd (Token_ID newV5 us t)) = token_abs t"
  using assms by (auto simp: token_ok_def Token_ID_def Let_def token_abs_def)

lemma token_abs_simps [simp]:
  "token_url us (token_abs t) = token_url us t"
  "token_abs (ChangeTreeNodeID t n) = (token_abs t)\<lparr>tok_TreeNodeID := n\<rparr>"
  by (simp_all add: token_abs_def ChangeTreeNodeID_def token_url_def)

text \<open>C18: 
  The cache in a token is never seen: whatever identifiers are taken, clones made and tree
  nodes changed, in any order, a token whose cache is empty or right gives the identifiers of
  a token without cache, which depend on its six visible fields only.
\<close>
theorem token_cache_refines:
  assumes "token_ok newV5 us t"
  shows "map_prod (\<lambda>is. is) token_abs (token_run newV5 us ops t) = token_spec newV5 us ops (token_abs t)"
  using assms
proof (induction ops arbitrary: t)
  case (Cons a ops)
  then show ?case
  proof (cases a)
    case TakeID
    obtain i t' where i: "Token_ID newV5 us t = (i, t')" by force
    with Cons.IH [of t'] Token_ID_ok [OF Cons.prems] token_ok_steps(1) [OF Cons.prems] TakeID show ?thesis
      by (auto simp: map_prod_def split: prod.splits dest: sym)
  qed (use token_ok_steps(2) in \<open>auto simp: Token_Clone_def\<close>)
qed simp

definition ex_token :: Token where
  "ex_token = \<lparr>tok_RosterID = 1, tok_TreeID = 2, tok_ProtoID = 3, tok_ServiceID = 0, tok_RoundID = 5,
    tok_TreeNodeID = 6, tok_cacheID = 0\<rparr>"

theorem token_cache_refines_witness:
  "map_prod (\<lambda>is. is) token_abs (token_run (\<lambda>s. of_nat (length s)) (\<lambda>u. replicate (unat u) CHR ''x'')
      [TakeID, ChangeNode 9, TakeID] ex_token) = ([45, 48], ex_token\<lparr>tok_TreeNodeID := 9\<rparr>)"
  by (subst token_cache_refines) (auto simp: token_ok_def ex_token_def token_abs_def token_url_def)

section \<open>Messages and their wire format\<close>

text \<open>
  What goes over the wire: the message of a protocol with its two tokens (nil if the sender
  left them out) and its contents as bytes, the requests and answers of the overlays, a
  configuration, a message of a custom proxy, or the nil interface.
\<close>

record ProtocolMsgWire =
  pw_From :: "Token option"
  pw_To :: "Token option"
  pw_MsgType :: MessageTypeID
  pw_MsgSlice :: bytes

datatype ('p, 'm) packet =
    PProtocolMsg ProtocolMsgWire
  | PRequestTree uuid
  | PRequestRoster uuid
  | PTreeMarshal TreeMarshal
  | PRoster "'p Roster"
  | PConfigMsg bytes uuid
  | POther 'm
  | PNil

record TreeNodeInfo =
  ti_To :: "Token option"
  ti_From :: "Token option"

record 'p OverlayMsg =
  om_TreeNodeInfo :: "TreeNodeInfo option"
  om_RequestTree :: "uuid option"
  om_TreeMarshal :: "TreeMarshal option"
  om_RequestRoster :: "uuid option"
  om_Roster :: "'p Roster option"

definition empty_info :: "'p OverlayMsg" where
  "empty_info = \<lparr>om_TreeNodeInfo = None, om_RequestTree = None, om_TreeMarshal = None,
    om_RequestRoster = None, om_Roster = None\<rparr>"

record ('p, 'm) MessageProxy =
  mp_Wrap :: "'m option \<Rightarrow> 'p OverlayMsg \<Rightarrow> (string, ('p, 'm) packet) go"
  mp_Unwrap :: "('p, 'm) packet \<Rightarrow> (string, 'm option \<times> 'p OverlayMsg) go"
  mp_PacketType :: MessageTypeID
  mp_Name :: string

text \<open>
  The codec of \<open>network\<close>: \<open>Marshal\<close>, \<open>Unmarshal\<close> and \<open>MessageType\<close>.
\<close>

record 'm codec =
  co_Marshal :: "'m \<Rightarrow> (string, bytes) go"
  co_Unmarshal :: "bytes \<Rightarrow> (string, 'm) go"
  co_MessageType :: "'m \<Rightarrow> MessageTypeID"

definition default_Wrap :: "'m codec \<Rightarrow> 'm option \<Rightarrow> 'p OverlayMsg \<Rightarrow> (string, ('p, 'm) packet) go" where
  "default_Wrap C msg info =
    (case msg of
       Some m \<Rightarrow>
         go_bind (co_Marshal C m) (\<lambda>buff.
           let typ = co_MessageType C m in
           go_bind (deref (om_TreeNodeInfo info)) (\<lambda>ti.
             Ret (PProtocolMsg \<lparr>pw_From = ti_From ti, pw_To = ti_To ti, pw_MsgType = typ, pw_MsgSlice = buff\<rparr>)))
     | None \<Rightarrow>
         (case om_RequestTree info of
            Some r \<Rightarrow> Ret (PRequestTree r)
          | None \<Rightarrow>
         (case om_RequestRoster info of
            Some r \<Rightarrow> Ret (PRequestRoster r)
          | None \<Rightarrow>
         (case om_TreeMarshal info of
            Some tm \<Rightarrow> Ret (PTreeMarshal tm)
          | None \<Rightarrow>
         (case om_Roster info of
            Some r \<Rightarrow> Ret (PRoster r)
          | None \<Rightarrow> Panic)))))"

definition default_Unwrap :: "'m codec \<Rightarrow> ('p, 'm) packet \<Rightarrow> (string, 'm option \<times> 'p OverlayMsg) go" where
  "default_Unwrap C msg =
    (case msg of
       PProtocolMsg onetMsg \<Rightarrow>
         go_bind (co_Unmarshal C (pw_MsgSlice onetMsg)) (\<lambda>protoMsg.
           Ret (Some protoMsg, empty_info\<lparr>om_TreeNodeInfo := Some \<lparr>ti_To = pw_To onetMsg, ti_From = pw_From onetMsg\<rparr>\<rparr>))
     | PRequestTree r \<Rightarrow> Ret (None, empty_info\<lparr>om_RequestTree := Some r\<rparr>)
     | PRequestRoster r \<Rightarrow> Ret (None, empty_info\<lparr>om_RequestRoster := Some r\<rparr>)
     | PTreeMarshal tm \<Rightarrow> Ret (None, empty_info\<lparr>om_TreeMarshal := Some tm\<rparr>)
     | PRoster r \<Rightarrow> Ret (None, empty_info\<lparr>om_Roster := Some r\<rparr>)
     | _ \<Rightarrow> Err ''default protoIO: unwraping an unknown message type'')"

definition defaultProtoIO :: "'m codec \<Rightarrow> ('p, 'm) MessageProxy" where
  "defaultProtoIO C = \<lparr>mp_Wrap = default_Wrap C, mp_Unwrap = default_Unwrap C, mp_PacketType = 0,
    mp_Name = ''default''\<rparr>"

text \<open>The proxies of a server: the registered ones and the default.\<close>

record ('p, 'm) messageProxyStore =
  ps_protos :: "('p, 'm) MessageProxy list"
  ps_defaultIO :: "('p, 'm) MessageProxy"

definition ps_getByName :: "('p, 'm) messageProxyStore \<Rightarrow> string \<Rightarrow> ('p, 'm) MessageProxy" where
  "ps_getByName p name =
    (case find (\<lambda>pio. mp_Name pio = name) (ps_protos p) of Some pio \<Rightarrow> pio | None \<Rightarrow> ps_defaultIO p)"

definition ps_getByPacketType :: "('p, 'm) messageProxyStore \<Rightarrow> MessageTypeID \<Rightarrow> ('p, 'm) MessageProxy" where
  "ps_getByPacketType p mid =
    (case find (\<lambda>pio. mp_PacketType pio = mid) (ps_protos p) of Some pio \<Rightarrow> pio | None \<Rightarrow> ps_defaultIO p)"

text \<open>
  \<open>RegisterMessageProxy\<close>: it returns when the name resolves to the default proxy, that is when
  no proxy of that name is there. The comparison is of interface values; a proxy that was
  registered is a different object from the default.
\<close>

definition ps_RegisterMessageProxy ::
  "('p, 'm) MessageProxy \<Rightarrow> ('p, 'm) messageProxyStore \<Rightarrow> ('p, 'm) messageProxyStore" where
  "ps_RegisterMessageProxy mp p =
    (if find (\<lambda>pio. mp_Name pio = mp_Name mp) (ps_protos p) = None then p
     else p\<lparr>ps_protos := ps_protos p @ [mp]\<rparr>)"

text \<open>\<open>newMessageProxyStore\<close>: one proxy of each factory, and the packet types to register.\<close>

definition newMessageProxyStore ::
  "'m codec \<Rightarrow> (unit \<Rightarrow> ('p, 'm) MessageProxy) list \<Rightarrow> ('p, 'm) messageProxyStore \<times> MessageTypeID list" where
  "newMessageProxyStore C factories =
    (let ios = map (\<lambda>newIO. newIO ()) factories in
     (\<lparr>ps_protos = ios, ps_defaultIO = defaultProtoIO C\<rparr>, map mp_PacketType ios))"

lemma default_roundtrip:
  assumes "\<And>b. co_Marshal C m = Ret b \<Longrightarrow> co_Unmarshal C b = Ret m"
    and "default_Wrap C (Some m) (empty_info\<lparr>om_TreeNodeInfo := Some ti\<rparr>) = Ret p"
  shows "default_Unwrap C p = Ret (Some m, empty_info\<lparr>om_TreeNodeInfo := Some ti\<rparr>)"
  using assms by (auto simp: default_Wrap_def default_Unwrap_def empty_info_def go_bind_eq_Ret)

text \<open>A proxy is only ever added under a name that is already taken, so lookups never change.\<close>

lemma ps_RegisterMessageProxy_useless:
  "ps_getByName (ps_RegisterMessageProxy mp p) name = ps_getByName p name"
  by (auto simp: ps_getByName_def ps_RegisterMessageProxy_def find_append split: option.splits)

section \<open>Protocols\<close>

text \<open>
  \<open>protocolStorage\<close>: the constructors by name, in the order a range over the map visits them.
  A constructor is a parameter of the model.
\<close>

definition ProtocolNameToID :: "(string \<Rightarrow> uuid) \<Rightarrow> string \<Rightarrow> uuid" where
  "ProtocolNameToID newV3 name = newV3 (''https://dedis.epfl.ch/'' @ ''protocolname/'' @ name)"

definition ProtocolIDToName :: "(string \<Rightarrow> uuid) \<Rightarrow> (string \<times> 'c) list \<Rightarrow> uuid \<Rightarrow> string" where
  "ProtocolIDToName newV3 ps i =
    (case find (\<lambda>(n, _). i = ProtocolNameToID newV3 n) ps of Some (n, _) \<Rightarrow> n | None \<Rightarrow> '''')"

definition ProtocolExists :: "(string \<Rightarrow> uuid) \<Rightarrow> (string \<times> 'c) list \<Rightarrow> uuid \<Rightarrow> bool" where
  "ProtocolExists newV3 ps protoID \<longleftrightarrow> map_of ps (ProtocolIDToName newV3 ps protoID) \<noteq> None"

definition Protocol_Register ::
  "(string \<Rightarrow> uuid) \<Rightarrow> string \<Rightarrow> 'c \<Rightarrow> (string \<times> 'c) list \<Rightarrow> (string, uuid) go \<times> (string \<times> 'c) list" where
  "Protocol_Register newV3 name protocol ps =
    (if map_of ps name \<noteq> None then (Err (''Protocol -'' @ name @ ''- already exists - not overwriting''), ps)
     else (Ret (ProtocolNameToID newV3 name), ps @ [(name, protocol)]))"

text \<open>\<open>protocolInstantiate\<close> and \<open>newProtocol\<close>; \<open>None\<close> is a nil protocol instance.\<close>

definition protocolInstantiate ::
  "(string \<Rightarrow> uuid) \<Rightarrow> (string \<times> ('n \<Rightarrow> (string, 'i option) go \<times> 'n)) list \<Rightarrow> uuid \<Rightarrow> 'n \<Rightarrow> (string, 'i option) go \<times> 'n" where
  "protocolInstantiate newV3 ps protoID tni =
    (case map_of ps (ProtocolIDToName newV3 ps protoID) of
       None \<Rightarrow> (Err ''No protocol constructor with this ID'', tni)
     | Some fn \<Rightarrow> fn tni)"

definition newProtocol ::
  "(string \<Rightarrow> uuid) \<Rightarrow> (uuid \<rightharpoonup> (bytes option \<Rightarrow> 'n \<Rightarrow> (string, 'i option) go \<times> 'n)) \<Rightarrow>
    (string \<times> ('n \<Rightarrow> (string, 'i option) go \<times> 'n)) list \<Rightarrow> Token \<Rightarrow> bytes option \<Rightarrow> 'n \<Rightarrow> (string, 'i option) go \<times> 'n" where
  "newProtocol newV3 services ps tok config tni =
    (case services (tok_ServiceID tok) of
       None \<Rightarrow> protocolInstantiate newV3 ps (tok_ProtoID tok) tni
     | Some si \<Rightarrow>
         (case si config tni of
            (Ret None, tni) \<Rightarrow> protocolInstantiate newV3 ps (tok_ProtoID tok) tni
          | r \<Rightarrow> r))"

lemma Protocol_Register_distinct:
  assumes "distinct (map fst ps)" and "Protocol_Register newV3 name c ps = (r, ps')"
  shows "distinct (map fst ps')" and "map_of ps name \<noteq> None \<Longrightarrow> ps' = ps"
  using assms by (auto simp: Protocol_Register_def map_of_eq_None_iff split: if_splits)

text \<open>A registered name is found by its identifier, if the hash of names does not collide.\<close>

lemma Protocol_Register_lookup:
  assumes "Protocol_Register newV3 name c ps = (Ret i, ps')"
    and "\<And>n. n \<in> fst ` set ps \<Longrightarrow> ProtocolNameToID newV3 n \<noteq> i"
  shows "ProtocolIDToName newV3 ps' i = name" and "map_of ps' (ProtocolIDToName newV3 ps' i) = Some c"
proof -
  have i: "i = ProtocolNameToID newV3 name" and n: "map_of ps name = None" and ps': "ps' = ps @ [(name, c)]"
    using assms(1) by (auto simp: Protocol_Register_def split: if_splits)
  have "find (\<lambda>(n, _). i = ProtocolNameToID newV3 n) ps = None"
    using assms(2) by (force simp: find_None_iff)
  then show "ProtocolIDToName newV3 ps' i = name" using i by (simp add: ProtocolIDToName_def ps' find_append)
  then show "map_of ps' (ProtocolIDToName newV3 ps' i) = Some c" using n by (simp add: ps' map_add_def)
qed

section \<open>The tree-node cache\<close>

text \<open>
  A pointer to a tree node as the code uses it, with its \<open>Parent\<close> links: the node and the
  chain of nodes above it, the parent first.
\<close>

type_synonym 'p located = "'p TreeNode \<times> 'p TreeNode list"

abbreviation loc_ID :: "'p located \<Rightarrow> uuid" where
  "loc_ID l \<equiv> tn_ID (fst l)"

definition loc_Parent :: "'p located \<Rightarrow> 'p located option" where
  "loc_Parent l = (case l of (n, []) \<Rightarrow> None | (n, q # qs) \<Rightarrow> Some (q, qs))"

definition loc_Children :: "'p located \<Rightarrow> 'p located list" where
  "loc_Children l = (case l of (n, qs) \<Rightarrow> map (\<lambda>c. (c, n # qs)) (tn_Children n))"

text \<open>All nodes below a node, in the order of \<open>Visit\<close>.\<close>

fun locate :: "'p TreeNode list \<Rightarrow> 'p TreeNode \<Rightarrow> 'p located list" where
  "locate up (TreeNode i si x cs a) =
    (TreeNode i si x cs a, up) # concat (map (locate (TreeNode i si x cs a # up)) cs)"

text \<open>\<open>Tree.Search\<close>, giving the node with its parents: the last hit of the visit stays.\<close>

definition loc_Search :: "'p Tree \<Rightarrow> uuid \<Rightarrow> (string, 'p located option) go" where
  "loc_Search t i =
    go_bind (deref (tree_Root t)) (\<lambda>root.
      Ret (fold (\<lambda>l ret. if loc_ID l = i then Some l else ret) (locate [] root) None))"

definition tree_locs :: "'p Tree \<Rightarrow> 'p located list" where
  "tree_locs t = (case tree_Root t of None \<Rightarrow> [] | Some root \<Rightarrow> locate [] root)"

lemma map_fst_locate: "map fst (locate up n) = preorder n"
proof (induction n arbitrary: up)
  case (TreeNode i si x cs a)
  have "map fst (concat (map (locate (TreeNode i si x cs a # up)) cs)) = concat (map preorder cs)"
    using TreeNode by (auto simp: map_concat intro!: arg_cong [of _ _ concat] map_cong)
  then show ?case by simp
qed

lemma fold_locate: "fold (\<lambda>l ret. if loc_ID l = i then Some l else ret) ls r0 =
    (case find (\<lambda>l. loc_ID l = i) (rev ls) of Some l \<Rightarrow> Some l | None \<Rightarrow> r0)"
  by (induction ls arbitrary: r0) (auto simp: find_append split: option.splits)

lemma find_loc_eq: "map_option fst (find (\<lambda>l. loc_ID l = i) ls) = find (\<lambda>n. tn_ID n = i) (map fst ls)"
  by (induction ls) auto

lemma Visit_find_last:
  "Visit 0 (\<lambda>d tns ret. if tn_ID tns = i then Some tns else ret) root None =
    find (\<lambda>n. tn_ID n = i) (rev (preorder root))"
proof -
  have "fold (\<lambda>n ret. if tn_ID n = i then Some n else ret) ns r0 =
      (case find (\<lambda>n. tn_ID n = i) (rev ns) of Some n \<Rightarrow> Some n | None \<Rightarrow> r0)" for ns :: "'a TreeNode list" and r0
    by (induction ns arbitrary: r0) (auto simp: find_append split: option.splits)
  then show ?thesis by (simp add: Visit_preorder split: option.splits)
qed

text \<open>It is \<open>Tree.Search\<close> of the tree theory, once the parents are forgotten.\<close>

lemma loc_Search_fst:
  "go_bind (loc_Search t i) (\<lambda>l. Ret (map_option fst l)) = (Tree_Search t i :: (string, _) go)"
proof (cases "tree_Root t")
  case (Some root)
  have "map_option fst (find (\<lambda>l. loc_ID l = i) (rev (locate [] root))) = find (\<lambda>n. tn_ID n = i) (rev (preorder root))"
    by (simp add: find_loc_eq rev_map map_fst_locate flip: rev_map)
  then have "map_option fst (case find (\<lambda>l. loc_ID l = i) (rev (locate [] root)) of Some l \<Rightarrow> Some l | None \<Rightarrow> None) =
      find (\<lambda>n. tn_ID n = i) (rev (preorder root))"
    by (auto split: option.splits)
  with Some show ?thesis by (simp add: loc_Search_def Tree_Search_def Visit_find_last fold_locate)
qed (simp add: loc_Search_def Tree_Search_def)

lemma loc_Search_iff:
  assumes "tree_Root t = Some root" and "distinct (map tn_ID (preorder root))"
  shows "loc_Search t i = Ret (Some l) \<longleftrightarrow> l \<in> set (tree_locs t) \<and> loc_ID l = i"
proof -
  have d: "distinct (map loc_ID (locate [] root))"
    using assms(2) by (simp flip: map_fst_locate [of "[]"] add: comp_def)
  then have "distinct (map loc_ID (rev (locate [] root)))" by (simp add: rev_map [symmetric])
  from find_distinct [OF this, of i l] show ?thesis
    using assms(1) by (auto simp: loc_Search_def fold_locate tree_locs_def split: option.splits)
qed

text \<open>Parents and children of nodes of a tree are nodes of the tree.\<close>

lemma locate_Parent: "l \<in> set (locate up n) \<Longrightarrow> l = (n, up) \<or> (\<exists>q. loc_Parent l = Some q \<and> q \<in> set (locate up n))"
proof (induction n arbitrary: up)
  case (TreeNode i si x cs a)
  let ?n = "TreeNode i si x cs a"
  show ?case
  proof (cases "l = (?n, up)")
    case False
    with TreeNode.prems obtain c where c: "c \<in> set cs" "l \<in> set (locate (?n # up) c)" by auto
    from TreeNode.IH [OF this] c show ?thesis by (auto simp: loc_Parent_def)
  qed simp
qed

lemma locate_Children: "l \<in> set (locate up n) \<Longrightarrow> set (loc_Children l) \<subseteq> set (locate up n)"
proof (induction n arbitrary: up)
  case (TreeNode i si x cs a)
  let ?n = "TreeNode i si x cs a"
  have top: "(c, up) \<in> set (locate up c)" for c :: "'a TreeNode" and up by (cases c) simp
  show ?case
  proof (cases "l = (?n, up)")
    case True
    then show ?thesis using top by (auto simp: loc_Children_def)
  next
    case False
    with TreeNode.prems obtain c where c: "c \<in> set cs" "l \<in> set (locate (?n # up) c)" by auto
    from TreeNode.IH [OF this] c show ?thesis by auto
  qed
qed

lemma tree_locs_closed:
  assumes "l \<in> set (tree_locs t)"
  shows "loc_Parent l = Some q \<Longrightarrow> q \<in> set (tree_locs t)" and "set (loc_Children l) \<subseteq> set (tree_locs t)"
proof -
  obtain root where r: "tree_Root t = Some root" "l \<in> set (locate [] root)"
    using assms by (cases "tree_Root t") (auto simp: tree_locs_def)
  show "loc_Parent l = Some q \<Longrightarrow> q \<in> set (tree_locs t)"
    using locate_Parent [OF r(2)] r by (auto simp: tree_locs_def loc_Parent_def)
  show "set (loc_Children l) \<subseteq> set (tree_locs t)"
    using locate_Children [OF r(2)] r by (simp add: tree_locs_def)
qed

text \<open>\<open>TreeNodeCache\<close>\<close>

type_synonym 'p TreeNodeCache = "uuid \<rightharpoonup> (uuid \<rightharpoonup> 'p located)"

definition NewTreeNodeCache :: "'p TreeNodeCache" where
  "NewTreeNodeCache = Map.empty"

definition Cache :: "'p Tree \<Rightarrow> 'p located \<Rightarrow> 'p TreeNodeCache \<Rightarrow> 'p TreeNodeCache" where
  "Cache tree treeNode entries =
    (let mm = (case entries (tree_ID tree) of None \<Rightarrow> Map.empty | Some m \<Rightarrow> m);
         mm = mm(loc_ID treeNode \<mapsto> treeNode);
         mm = (case loc_Parent treeNode of None \<Rightarrow> mm | Some q \<Rightarrow> mm(loc_ID q \<mapsto> q));
         mm = fold (\<lambda>c mm. mm(loc_ID c \<mapsto> c)) (loc_Children treeNode) mm in
     entries(tree_ID tree \<mapsto> mm))"

definition GetFromToken :: "'p TreeNodeCache \<Rightarrow> Token option \<Rightarrow> 'p located option" where
  "GetFromToken entries tok =
    (case tok of
       None \<Rightarrow> None
     | Some t \<Rightarrow>
         (case entries (tok_TreeID t) of
            None \<Rightarrow> None
          | Some mm \<Rightarrow> mm (tok_TreeNodeID t)))"

text \<open>Every entry is a node, with its own id, of the tree that is registered under the tree id.\<close>

definition cache_ok :: "(uuid \<rightharpoonup> 'p Tree) \<Rightarrow> 'p TreeNodeCache \<Rightarrow> bool" where
  "cache_ok trees entries \<longleftrightarrow>
    (\<forall>tid mm i l. entries tid = Some mm \<and> mm i = Some l \<longrightarrow>
      (\<exists>t. trees tid = Some t \<and> l \<in> set (tree_locs t) \<and> loc_ID l = i))"

lemma fold_cache:
  "fold (\<lambda>c mm. mm(loc_ID c \<mapsto> c)) cs mm i = Some l \<Longrightarrow> mm i = Some l \<or> l \<in> set cs \<and> loc_ID l = i"
  by (induction cs arbitrary: mm) (fastforce split: if_splits)+

lemma Cache_ok:
  assumes "cache_ok trees entries" and "trees (tree_ID t) = Some t" and "l \<in> set (tree_locs t)"
  shows "cache_ok trees (Cache t l entries)"
proof -
  have "\<exists>t'. trees tid = Some t' \<and> l' \<in> set (tree_locs t') \<and> loc_ID l' = i"
    if "Cache t l entries tid = Some mm" "mm i = Some l'" for tid mm i l'
  proof (cases "tid = tree_ID t")
    case True
    then have "entries tid \<noteq> None \<and> the (entries tid) i = Some l' \<or> l' = l \<and> loc_ID l = i \<or>
        loc_Parent l = Some l' \<and> loc_ID l' = i \<or> l' \<in> set (loc_Children l) \<and> loc_ID l' = i"
      using that by (auto simp: Cache_def Let_def dest!: fold_cache split: option.splits if_splits)
    then consider m where "entries tid = Some m" "m i = Some l'" | "l' = l \<and> loc_ID l = i" |
        "loc_Parent l = Some l'" "loc_ID l' = i" | "l' \<in> set (loc_Children l)" "loc_ID l' = i"
      by (cases "entries tid") auto
    then show ?thesis
    proof cases
      case 1
      then show ?thesis using assms(1) unfolding cache_ok_def by blast
    qed (use assms(2,3) True tree_locs_closed(2) [OF assms(3)] in \<open>auto dest: tree_locs_closed(1) [OF assms(3)]\<close>)
  next
    case False
    then have "entries tid = Some mm" using that by (simp add: Cache_def Let_def)
    then show ?thesis using assms(1) that(2) unfolding cache_ok_def by blast
  qed
  then show ?thesis by (auto simp: cache_ok_def)
qed

section \<open>The state of the overlay\<close>

text \<open>The message that is handed to \<open>TransmitMsg\<close>, and the tree-node instances as heap objects.\<close>

record ('p, 'm) OnetMsg =
  on_From :: "Token option"
  on_To :: "Token option"
  on_SI :: "'p ServerIdentity"
  on_MsgType :: MessageTypeID
  on_Msg :: "'m option"

record ('p, 'm) node =
  nd_addr :: addr
  nd_Token :: Token
  nd_treeNode :: "'p located"
  nd_protoIO :: "('p, 'm) MessageProxy"
  nd_tni :: "('p, 'm option) TreeNodeInstance"

text \<open>
  \<open>Overlay\<close>: a protocol instance is the address of the tree-node instance it embeds; a token
  is in \<open>ov_done\<close> if \<open>instancesInfo\<close> maps it to true.
\<close>

record ('p, 'm) Overlay =
  ov_trees :: "uuid \<rightharpoonup> 'p Tree"
  ov_entityLists :: "uuid \<rightharpoonup> 'p Roster"
  ov_cache :: "'p TreeNodeCache"
  ov_heap :: "('p, 'm) node list"
  ov_instances :: "uuid \<rightharpoonup> addr"
  ov_done :: "uuid set"
  ov_protocolInstances :: "uuid \<rightharpoonup> addr"
  ov_pendingTreeMarshal :: "uuid \<rightharpoonup> TreeMarshal list"
  ov_pendingTreeLock :: bool
  ov_pendingMsg :: "(('p, 'm) OnetMsg \<times> ('p, 'm) MessageProxy) list"
  ov_pendingMsgLock :: bool
  ov_protoIO :: "('p, 'm) messageProxyStore"
  ov_pendingConfigs :: "uuid \<rightharpoonup> bytes"
  ov_sent :: "('p ServerIdentity \<times> ('p, 'm) packet) list"
  ov_checks :: "'p Tree list"

text \<open>
  The server around it: the uuid package, the identifier of \<open>ConfigMsg\<close>, the services and the
  protocols with their constructors, the outcome of \<open>server.Send\<close> and of the \<open>Shutdown\<close> of a protocol.
\<close>

record ('p, 'm) ovenv =
  oe_newV5 :: "string \<Rightarrow> uuid"
  oe_newV3 :: "string \<Rightarrow> uuid"
  oe_uuidString :: "uuid \<Rightarrow> string"
  oe_ConfigMsgID :: MessageTypeID
  oe_codec :: "'m codec"
  oe_services :: "uuid \<rightharpoonup> (bytes option \<Rightarrow> ('p, 'm) node \<Rightarrow> (string, addr option) go \<times> ('p, 'm) node)"
  oe_protocols :: "(string \<times> (('p, 'm) node \<Rightarrow> (string, addr option) go \<times> ('p, 'm) node)) list"
  oe_sendErr :: "('p ServerIdentity \<times> ('p, 'm) packet) list \<Rightarrow> 'p ServerIdentity \<Rightarrow> ('p, 'm) packet \<Rightarrow> string option"
  oe_shutdown :: "('p, 'm) node \<Rightarrow> string option"

definition NewOverlay :: "'m codec \<Rightarrow> (unit \<Rightarrow> ('p, 'm) MessageProxy) list \<Rightarrow> ('p, 'm) Overlay" where
  "NewOverlay C factories =
    \<lparr>ov_trees = Map.empty, ov_entityLists = Map.empty, ov_cache = NewTreeNodeCache, ov_heap = [],
     ov_instances = Map.empty, ov_done = {}, ov_protocolInstances = Map.empty,
     ov_pendingTreeMarshal = Map.empty, ov_pendingTreeLock = False, ov_pendingMsg = [],
     ov_pendingMsgLock = False, ov_protoIO = fst (newMessageProxyStore C factories),
     ov_pendingConfigs = Map.empty, ov_sent = [], ov_checks = []\<rparr>"

definition tokenID :: "('p, 'm) ovenv \<Rightarrow> Token \<Rightarrow> uuid" where
  "tokenID E t = fst (Token_ID (oe_newV5 E) (oe_uuidString E) t)"

text \<open>How a handler ends other than normally: with an error, or waiting for a mutex for ever.\<close>

datatype ovstop = OvErr string | Blocked

type_synonym ('p, 'm, 'a) ov_act = "(('p, 'm) Overlay, ovstop, 'a) act"

definition Server_Send :: "('p, 'm) ovenv \<Rightarrow> 'p ServerIdentity \<Rightarrow> ('p, 'm) packet \<Rightarrow> ('p, 'm, unit) ov_act" where
  "Server_Send E si msg ov =
    (case oe_sendErr E (ov_sent ov) si msg of
       Some e \<Rightarrow> (Err (OvErr e), ov)
     | None \<Rightarrow> (Ret (), ov\<lparr>ov_sent := ov_sent ov @ [(si, msg)]\<rparr>))"

text \<open>An error that is only logged.\<close>

definition logged :: "('p, 'm, unit) ov_act \<Rightarrow> ('p, 'm, unit) ov_act" where
  "logged m ov = (case m ov of (Err (OvErr _), ov') \<Rightarrow> (Ret (), ov') | r \<Rightarrow> r)"

definition modify :: "(('p, 'm) Overlay \<Rightarrow> ('p, 'm) Overlay) \<Rightarrow> ('p, 'm, unit) ov_act" where
  "modify f ov = (Ret (), f ov)"

section \<open>Trees, rosters and pending messages\<close>

text \<open>\<open>RegisterTree\<close>: stores the tree and starts the goroutine of \<open>checkPendingMessages\<close>.\<close>

definition RegisterTree :: "'p Tree \<Rightarrow> ('p, 'm) Overlay \<Rightarrow> ('p, 'm) Overlay" where
  "RegisterTree t ov = ov\<lparr>ov_trees := (ov_trees ov)(tree_ID t \<mapsto> t), ov_checks := ov_checks ov @ [t]\<rparr>"

definition RegisterRoster :: "'p Roster \<Rightarrow> ('p, 'm) Overlay \<Rightarrow> ('p, 'm) Overlay" where
  "RegisterRoster el ov = ov\<lparr>ov_entityLists := (ov_entityLists ov)(ro_ID el \<mapsto> el)\<rparr>"

definition TreeFromToken :: "Token \<Rightarrow> ('p, 'm) Overlay \<Rightarrow> 'p Tree option" where
  "TreeFromToken tok ov = ov_trees ov (tok_TreeID tok)"

definition RosterFromToken :: "Token \<Rightarrow> ('p, 'm) Overlay \<Rightarrow> 'p Roster option" where
  "RosterFromToken tok ov = ov_entityLists ov (tok_RosterID tok)"

definition TreeNodeFromToken :: "Token option \<Rightarrow> ('p, 'm, 'p located) ov_act" where
  "TreeNodeFromToken tk ov =
    (case tk of
       None \<Rightarrow> (Err (OvErr ''didn't find tree-node: No token given''), ov)
     | Some t \<Rightarrow>
         (case GetFromToken (ov_cache ov) (Some t) of
            Some tn \<Rightarrow> (Ret tn, ov)
          | None \<Rightarrow>
              (case ov_trees ov (tok_TreeID t) of
                 None \<Rightarrow> (Err (OvErr ''didn't find tree''), ov)
               | Some tree \<Rightarrow>
                   (case loc_Search tree (tok_TreeNodeID t) of
                      Ret (Some tn) \<Rightarrow> (Ret tn, ov\<lparr>ov_cache := Cache tree tn (ov_cache ov)\<rparr>)
                    | Ret None \<Rightarrow> (Err (OvErr ''didn't find treenode''), ov)
                    | Err e \<Rightarrow> (Err (OvErr e), ov)
                    | Panic \<Rightarrow> (Panic, ov)))))"

definition savePendingMsg :: "('p, 'm) OnetMsg \<Rightarrow> ('p, 'm) MessageProxy \<Rightarrow> ('p, 'm, unit) ov_act" where
  "savePendingMsg onetMsg io ov =
    (if ov_pendingMsgLock ov then (Err Blocked, ov)
     else (Ret (), ov\<lparr>ov_pendingMsg := ov_pendingMsg ov @ [(onetMsg, io)]\<rparr>))"

definition requestTree ::
  "('p, 'm) ovenv \<Rightarrow> 'p ServerIdentity \<Rightarrow> Token \<Rightarrow> ('p, 'm) OnetMsg \<Rightarrow> ('p, 'm) MessageProxy \<Rightarrow> ('p, 'm, unit) ov_act" where
  "requestTree E si to onetMsg io =
    act_bind (savePendingMsg onetMsg io) (\<lambda>_.
    act_bind (act_go (go_err OvErr (mp_Wrap io None (empty_info\<lparr>om_RequestTree := Some (tok_TreeID to)\<rparr>)))) (\<lambda>msg.
    Server_Send E si msg))"

definition getConfig :: "uuid \<Rightarrow> ('p, 'm) Overlay \<Rightarrow> bytes option \<times> ('p, 'm) Overlay" where
  "getConfig i ov = (ov_pendingConfigs ov i, ov\<lparr>ov_pendingConfigs := (ov_pendingConfigs ov)(i := None)\<rparr>)"

text \<open>\<open>newTreeNodeInstanceFromToken\<close>: a new instance on the heap, registered under its token.\<close>

definition newTreeNodeInstanceFromToken ::
  "('p, 'm) ovenv \<Rightarrow> 'p located \<Rightarrow> Token \<Rightarrow> ('p, 'm) MessageProxy \<Rightarrow> ('p, 'm) Overlay \<Rightarrow> addr \<times> ('p, 'm) Overlay" where
  "newTreeNodeInstanceFromToken E tn tok io ov =
    (let a = length (ov_heap ov);
         nd = \<lparr>nd_addr = a, nd_Token = tok, nd_treeNode = tn, nd_protoIO = io,
           nd_tni = newTreeNodeInstance (loc_ID tn) (map_option loc_ID (loc_Parent tn)) (map loc_ID (loc_Children tn))\<rparr> in
     (a, ov\<lparr>ov_heap := ov_heap ov @ [nd], ov_instances := (ov_instances ov)(tokenID E tok \<mapsto> a)\<rparr>))"

definition ErrWrongTreeNodeInstance :: string where
  "ErrWrongTreeNodeInstance = ''This TreeNodeInstance doesn't exist''"

definition ErrProtocolRegistered :: string where
  "ErrProtocolRegistered = ''a ProtocolInstance already has been registered using this TreeNodeInstance''"

definition set_tni ::
  "addr \<Rightarrow> (('p, 'm option) TreeNodeInstance \<Rightarrow> ('p, 'm option) TreeNodeInstance) \<Rightarrow> ('p, 'm) Overlay \<Rightarrow> ('p, 'm) Overlay" where
  "set_tni a f ov = (let nd = ov_heap ov ! a in ov\<lparr>ov_heap := (ov_heap ov)[a := nd\<lparr>nd_tni := f (nd_tni nd)\<rparr>]\<rparr>)"

definition RegisterProtocolInstance :: "('p, 'm) ovenv \<Rightarrow> addr \<Rightarrow> ('p, 'm, unit) ov_act" where
  "RegisterProtocolInstance E pi ov =
    (let tok = nd_Token (ov_heap ov ! pi) in
     case ov_instances ov (tokenID E tok) of
       None \<Rightarrow> (Err (OvErr ErrWrongTreeNodeInstance), ov)
     | Some a \<Rightarrow>
         if tni_bound (nd_tni (ov_heap ov ! a)) then (Err (OvErr ErrProtocolRegistered), ov)
         else
           let ov = set_tni a (\<lambda>n. n\<lparr>tni_bound := True\<rparr>) ov in
           (Ret (), ov\<lparr>ov_protocolInstances := (ov_protocolInstances ov)(tokenID E tok \<mapsto> pi)\<rparr>))"

text \<open>
  The message as the tree-node instance queues it. A message without a sender token makes
  the instance dereference nil when it handles the message.
\<close>

definition pass_to :: "addr \<Rightarrow> ('p, 'm) OnetMsg \<Rightarrow> ('p, 'm, unit) ov_act" where
  "pass_to pi onetMsg ov =
    (case on_From onetMsg of
       None \<Rightarrow> (Panic, ov)
     | Some f \<Rightarrow>
         (Ret (), set_tni pi (ProcessProtocolMsg
           \<lparr>pm_From = tok_TreeNodeID f, pm_MsgType = on_MsgType onetMsg, pm_Msg = on_Msg onetMsg\<rparr>) ov))"

text \<open>
  \<open>TransmitMsg\<close>. The part that creates the instance for a token: the tree node, the
  instance, the configuration that came for it, the protocol, and the binding of the two.
  A nil protocol instance ends it without an error.
\<close>

definition create_instance ::
  "('p, 'm) ovenv \<Rightarrow> Token \<Rightarrow> ('p, 'm) MessageProxy \<Rightarrow> ('p, 'm, addr option) ov_act" where
  "create_instance E to io ov =
    (case TreeNodeFromToken (Some to) ov of
       (Err _, ov) \<Rightarrow> (Err (OvErr ''No TreeNode defined in this tree here''), ov)
     | (Panic, ov) \<Rightarrow> (Panic, ov)
     | (Ret tn, ov) \<Rightarrow>
         let (a, ov) = newTreeNodeInstanceFromToken E tn to io ov;
             (config, ov) = getConfig (tokenID E to) ov;
             (r, nd) = newProtocol (oe_newV3 E) (oe_services E) (oe_protocols E) to config (ov_heap ov ! a);
             ov = ov\<lparr>ov_heap := (ov_heap ov)[a := nd]\<rparr> in
         (case r of
            Err e \<Rightarrow> (Err (OvErr e), ov)
          | Panic \<Rightarrow> (Panic, ov)
          | Ret None \<Rightarrow> (Ret None, ov)
          | Ret (Some pi) \<Rightarrow>
              (case RegisterProtocolInstance E pi ov of
                 (Err (OvErr e), ov) \<Rightarrow> (Err (OvErr (''Error Binding TreeNodeInstance and ProtocolInstance:'' @ e)), ov)
               | (Err Blocked, ov) \<Rightarrow> (Err Blocked, ov)
               | (Panic, ov) \<Rightarrow> (Panic, ov)
               | (Ret _, ov) \<Rightarrow> (Ret (Some pi), ov))))"

definition TransmitMsg ::
  "('p, 'm) ovenv \<Rightarrow> ('p, 'm) OnetMsg \<Rightarrow> ('p, 'm) MessageProxy \<Rightarrow> ('p, 'm, unit) ov_act" where
  "TransmitMsg E onetMsg io ov =
    (case on_To onetMsg of
       None \<Rightarrow> (Panic, ov)
     | Some to \<Rightarrow>
         (case ov_trees ov (tok_TreeID to) of
            None \<Rightarrow> requestTree E (on_SI onetMsg) to onetMsg io ov
          | Some _ \<Rightarrow>
              if tokenID E to \<in> ov_done ov then (Ret (), ov)
              else
                (case ov_protocolInstances ov (tokenID E to) of
                   Some pi \<Rightarrow> pass_to pi onetMsg ov
                 | None \<Rightarrow>
                     act_bind (create_instance E to io) (\<lambda>r.
                       case r of None \<Rightarrow> act_ret () | Some pi \<Rightarrow> pass_to pi onetMsg) ov)))"

text \<open>
  The goroutine of \<open>checkPendingMessages\<close>: it holds \<open>pendingMsgLock\<close> while it transmits the
  messages for the tree; the others stay. Errors of \<open>TransmitMsg\<close> are logged, and the message is dropped.
\<close>

fun check_loop ::
  "('p, 'm) ovenv \<Rightarrow> 'p Tree \<Rightarrow> (('p, 'm) OnetMsg \<times> ('p, 'm) MessageProxy) list \<Rightarrow>
    (('p, 'm) OnetMsg \<times> ('p, 'm) MessageProxy) list \<Rightarrow>
    ('p, 'm, (('p, 'm) OnetMsg \<times> ('p, 'm) MessageProxy) list) ov_act" where
  "check_loop E t [] newPending ov = (Ret newPending, ov)"
| "check_loop E t ((m, io) # pending) newPending ov =
    (case on_To m of
       None \<Rightarrow> (Panic, ov)
     | Some to \<Rightarrow>
         if tree_ID t = tok_TreeID to
         then act_bind (logged (TransmitMsg E m io)) (\<lambda>_. check_loop E t pending newPending) ov
         else check_loop E t pending (newPending @ [(m, io)]) ov)"

definition checkPendingMessages :: "('p, 'm) ovenv \<Rightarrow> 'p Tree \<Rightarrow> ('p, 'm, unit) ov_act" where
  "checkPendingMessages E t ov =
    (if ov_pendingMsgLock ov then (Err Blocked, ov)
     else
       act_bind (check_loop E t (ov_pendingMsg ov) [])
         (\<lambda>newPending. modify (\<lambda>ov. ov\<lparr>ov_pendingMsg := newPending, ov_pendingMsgLock := False\<rparr>))
         (ov\<lparr>ov_pendingMsgLock := True\<rparr>))"

definition addPendingTreeMarshal :: "TreeMarshal \<Rightarrow> ('p, 'm, unit) ov_act" where
  "addPendingTreeMarshal tm ov =
    (if ov_pendingTreeLock ov then (Err Blocked, ov)
     else
       let sl = (case ov_pendingTreeMarshal ov (tm_RosterID tm) of None \<Rightarrow> [] | Some sl \<Rightarrow> sl) in
       (Ret (), ov\<lparr>ov_pendingTreeMarshal := (ov_pendingTreeMarshal ov)(tm_RosterID tm \<mapsto> sl @ [tm])\<rparr>))"

text \<open>\<open>checkPendingTreeMarshal\<close>: when no tree waits for the roster it returns with the mutex held.\<close>

fun make_pending :: "'p :: ab_group_add Roster \<Rightarrow> TreeMarshal list \<Rightarrow> ('p, 'm, unit) ov_act" where
  "make_pending el [] ov = (Ret (), ov)"
| "make_pending el (tm # sl) ov =
    (case MakeTree tm el of
       Err _ \<Rightarrow> make_pending el sl ov
     | Panic \<Rightarrow> (Panic, ov)
     | Ret tree \<Rightarrow> make_pending el sl (RegisterTree tree ov))"

definition checkPendingTreeMarshal :: "'p :: ab_group_add Roster \<Rightarrow> ('p, 'm, unit) ov_act" where
  "checkPendingTreeMarshal el ov =
    (if ov_pendingTreeLock ov then (Err Blocked, ov)
     else
       let ov = ov\<lparr>ov_pendingTreeLock := True\<rparr> in
       (case ov_pendingTreeMarshal ov (ro_ID el) of
          None \<Rightarrow> (Ret (), ov)
        | Some sl \<Rightarrow>
            act_bind (make_pending el sl) (\<lambda>_. modify (\<lambda>ov. ov\<lparr>ov_pendingTreeLock := False\<rparr>)) ov))"

section \<open>Handlers of the overlay's own messages\<close>

definition handleRequestTree ::
  "('p, 'm) ovenv \<Rightarrow> 'p ServerIdentity \<Rightarrow> uuid \<Rightarrow> ('p, 'm) MessageProxy \<Rightarrow> ('p, 'm, unit) ov_act" where
  "handleRequestTree E si tid io ov =
    (let tree = (case ov_trees ov tid of
                   Some t \<Rightarrow> t
                 | None \<Rightarrow> \<lparr>tree_ID = 0, tree_Roster = None, tree_Root = None\<rparr>) in
     act_bind (act_go (go_err OvErr (MakeTreeMarshal tree))) (\<lambda>treeM.
       logged (act_bind (act_go (go_err OvErr (mp_Wrap io None (empty_info\<lparr>om_TreeMarshal := Some treeM\<rparr>))))
         (Server_Send E si))) ov)"

text \<open>\<open>handleSendTree\<close>: a failure to wrap the request for the roster is logged, and nil is sent.\<close>

definition handleSendTree ::
  "('p :: ab_group_add, 'm) ovenv \<Rightarrow> 'p ServerIdentity \<Rightarrow> TreeMarshal \<Rightarrow> ('p, 'm) MessageProxy \<Rightarrow> ('p, 'm, unit) ov_act" where
  "handleSendTree E si tm io ov =
    (if tm_TreeID tm = 0 then (Ret (), ov)
     else
       (case ov_entityLists ov (tm_RosterID tm) of
          None \<Rightarrow>
            (case mp_Wrap io None (empty_info\<lparr>om_RequestRoster := Some (tm_RosterID tm)\<rparr>) of
               Panic \<Rightarrow> (Panic, ov)
             | r \<Rightarrow>
                 let msg = (case r of Ret p \<Rightarrow> p | _ \<Rightarrow> PNil) in
                 act_bind (logged (Server_Send E si msg)) (\<lambda>_. addPendingTreeMarshal tm) ov)
        | Some roster \<Rightarrow>
            (case MakeTree tm roster of
               Err _ \<Rightarrow> (Ret (), ov)
             | Panic \<Rightarrow> (Panic, ov)
             | Ret tree \<Rightarrow> (Ret (), RegisterTree tree ov))))"

definition handleRequestRoster ::
  "('p :: zero, 'm) ovenv \<Rightarrow> 'p ServerIdentity \<Rightarrow> uuid \<Rightarrow> ('p, 'm) MessageProxy \<Rightarrow> ('p, 'm, unit) ov_act" where
  "handleRequestRoster E si i io ov =
    (let roster = (case ov_entityLists ov i of
                     Some r \<Rightarrow> r
                   | None \<Rightarrow> \<lparr>ro_ID = 0, ro_List = [], ro_Aggregate = 0\<rparr>) in
     logged (act_bind (act_go (go_err OvErr (mp_Wrap io None (empty_info\<lparr>om_Roster := Some roster\<rparr>))))
       (Server_Send E si)) ov)"

definition handleSendRoster :: "'p :: ab_group_add Roster \<Rightarrow> ('p, 'm, unit) ov_act" where
  "handleSendRoster roster ov =
    (if ro_ID roster = 0 then (Ret (), ov) else checkPendingTreeMarshal roster (RegisterRoster roster ov))"

definition handleConfigMessage :: "('p, 'm) packet \<Rightarrow> ('p, 'm, unit) ov_act" where
  "handleConfigMessage msg ov =
    (case msg of
       PConfigMsg c dest \<Rightarrow> (Ret (), ov\<lparr>ov_pendingConfigs := (ov_pendingConfigs ov)(dest \<mapsto> c)\<rparr>)
     | _ \<Rightarrow> (Panic, ov))"

text \<open>\<open>Process\<close>: the envelope has the sender, the type of the packet and the packet.\<close>

definition Process ::
  "('p :: ab_group_add, 'm) ovenv \<Rightarrow> 'p ServerIdentity \<Rightarrow> MessageTypeID \<Rightarrow> ('p, 'm) packet \<Rightarrow> ('p, 'm, unit) ov_act" where
  "Process E si msgType msg ov =
    (if msgType = oe_ConfigMsgID E then handleConfigMessage msg ov
     else
       let io = ps_getByPacketType (ov_protoIO ov) msgType in
       (case mp_Unwrap io msg of
          Err _ \<Rightarrow> (Ret (), ov)
        | Panic \<Rightarrow> (Panic, ov)
        | Ret (inner, info) \<Rightarrow>
            (case om_RequestTree info of Some r \<Rightarrow> handleRequestTree E si r io ov | None \<Rightarrow>
            (case om_TreeMarshal info of Some tm \<Rightarrow> handleSendTree E si tm io ov | None \<Rightarrow>
            (case om_RequestRoster info of Some r \<Rightarrow> handleRequestRoster E si r io ov | None \<Rightarrow>
            (case om_Roster info of Some r \<Rightarrow> handleSendRoster r ov | None \<Rightarrow>
            (case om_TreeNodeInfo info of
               None \<Rightarrow> (Panic, ov)
             | Some ti \<Rightarrow>
                 logged (TransmitMsg E \<lparr>on_From = ti_From ti, on_To = ti_To ti, on_SI = si,
                   on_MsgType = (case inner of None \<Rightarrow> 0 | Some m \<Rightarrow> co_MessageType (oe_codec E) m),
                   on_Msg = inner\<rparr> io) ov)))))))"

section \<open>Sending, creating and closing\<close>

text \<open>
  \<open>SendToTreeNode\<close>: the configuration first, then the message. A tree node without identity
  makes the server dereference nil.
\<close>

definition SendToTreeNode ::
  "('p, 'm) ovenv \<Rightarrow> Token \<Rightarrow> 'p TreeNode \<Rightarrow> 'm option \<Rightarrow> ('p, 'm) MessageProxy \<Rightarrow> bytes option \<Rightarrow> ('p, 'm, unit) ov_act" where
  "SendToTreeNode E frm to msg io c =
    (let tokenTo = ChangeTreeNodeID frm (tn_ID to) in
     act_bind (case c of
                 None \<Rightarrow> act_ret ()
               | Some cfg \<Rightarrow> act_bind (act_go (deref (tn_SI to))) (\<lambda>si. Server_Send E si (PConfigMsg cfg (tokenID E tokenTo)))) (\<lambda>_.
     act_bind (act_go (go_err OvErr (mp_Wrap io msg
       (empty_info\<lparr>om_TreeNodeInfo := Some \<lparr>ti_To = Some tokenTo, ti_From = Some frm\<rparr>\<rparr>)))) (\<lambda>final.
     act_bind (act_go (deref (tn_SI to))) (\<lambda>si. Server_Send E si final))))"

definition nodeDelete :: "('p, 'm) ovenv \<Rightarrow> Token \<Rightarrow> ('p, 'm) Overlay \<Rightarrow> ('p, 'm) Overlay" where
  "nodeDelete E tok ov =
    (case ov_instances ov (tokenID E tok) of
       None \<Rightarrow> ov
     | Some a \<Rightarrow>
         let ov = set_tni a (\<lambda>n. snd (closeDispatch (oe_shutdown E (ov_heap ov ! a)) n)) ov in
         ov\<lparr>ov_instances := (ov_instances ov)(tokenID E tok := None), ov_done := insert (tokenID E tok) (ov_done ov)\<rparr>)"

definition nodeDone :: "('p, 'm) ovenv \<Rightarrow> Token \<Rightarrow> ('p, 'm) Overlay \<Rightarrow> ('p, 'm) Overlay" where
  "nodeDone E tok ov = nodeDelete E tok ov"

text \<open>\<open>Close\<close>: \<open>order\<close> is the order in which the range over the map visits the instances.\<close>

definition Overlay_Close :: "('p, 'm) ovenv \<Rightarrow> addr list \<Rightarrow> ('p, 'm) Overlay \<Rightarrow> ('p, 'm) Overlay" where
  "Overlay_Close E order ov = fold (\<lambda>a ov. nodeDelete E (nd_Token (ov_heap ov ! a)) ov) order ov"

definition NewTreeNodeInstanceFromService ::
  "('p, 'm) ovenv \<Rightarrow> uuid \<Rightarrow> 'p Tree \<Rightarrow> 'p located option \<Rightarrow> uuid \<Rightarrow> uuid \<Rightarrow> ('p, 'm) MessageProxy \<Rightarrow> ('p, 'm, addr) ov_act" where
  "NewTreeNodeInstanceFromService E newV4 t tn protoID servID io ov =
    (case (tn, tree_Roster t) of
       (Some l, Some el) \<Rightarrow>
         let tok = \<lparr>tok_RosterID = ro_ID el, tok_TreeID = tree_ID t, tok_ProtoID = protoID,
               tok_ServiceID = servID, tok_RoundID = newV4, tok_TreeNodeID = loc_ID l, tok_cacheID = 0\<rparr>;
             (a, ov) = newTreeNodeInstanceFromToken E l tok io ov in
         (Ret a, RegisterRoster el (RegisterTree t ov))
     | _ \<Rightarrow> (Panic, ov))"

definition NewTreeNodeInstanceFromProtocol ::
  "('p, 'm) ovenv \<Rightarrow> uuid \<Rightarrow> 'p Tree \<Rightarrow> 'p located option \<Rightarrow> uuid \<Rightarrow> ('p, 'm) MessageProxy \<Rightarrow> ('p, 'm, addr) ov_act" where
  "NewTreeNodeInstanceFromProtocol E newV4 t tn protoID io = NewTreeNodeInstanceFromService E newV4 t tn protoID 0 io"

definition tree_root_loc :: "'p Tree \<Rightarrow> 'p located option" where
  "tree_root_loc t = map_option (\<lambda>r. (r, [])) (tree_Root t)"

definition NewTreeNodeInstanceFromProtoName ::
  "('p, 'm) ovenv \<Rightarrow> uuid \<Rightarrow> 'p Tree \<Rightarrow> string \<Rightarrow> ('p, 'm, addr) ov_act" where
  "NewTreeNodeInstanceFromProtoName E newV4 t name ov =
    NewTreeNodeInstanceFromProtocol E newV4 t (tree_root_loc t) (ProtocolNameToID (oe_newV3 E) name)
      (ps_getByName (ov_protoIO ov) name) ov"

text \<open>\<open>CreateProtocol\<close>: a nil protocol instance without an error is dereferenced.\<close>

definition Overlay_CreateProtocol ::
  "('p, 'm) ovenv \<Rightarrow> uuid \<Rightarrow> string \<Rightarrow> 'p Tree \<Rightarrow> uuid \<Rightarrow> ('p, 'm, addr) ov_act" where
  "Overlay_CreateProtocol E newV4 name t sid ov =
    act_bind (NewTreeNodeInstanceFromService E newV4 t (tree_root_loc t) (ProtocolNameToID (oe_newV3 E) name) sid
        (ps_getByName (ov_protoIO ov) name)) (\<lambda>a ov.
      let (r, nd) = protocolInstantiate (oe_newV3 E) (oe_protocols E) (ProtocolNameToID (oe_newV3 E) name) (ov_heap ov ! a);
          ov = ov\<lparr>ov_heap := (ov_heap ov)[a := nd]\<rparr> in
      act_bind (act_go (go_err OvErr r)) (\<lambda>p.
      act_bind (act_go (deref p)) (\<lambda>pi.
      act_bind (RegisterProtocolInstance E pi) (\<lambda>_. act_ret pi))) ov) ov"

text \<open>\<open>StartProtocol\<close>: \<open>start\<close> is the protocol's \<open>Start\<close>, which runs in a goroutine of its own.\<close>

definition Overlay_StartProtocol ::
  "('p, 'm) ovenv \<Rightarrow> (addr \<Rightarrow> ('p, 'm) Overlay \<Rightarrow> ('p, 'm) Overlay) \<Rightarrow> uuid \<Rightarrow> string \<Rightarrow> 'p Tree \<Rightarrow> uuid \<Rightarrow> ('p, 'm, addr) ov_act" where
  "Overlay_StartProtocol E start newV4 name t sid =
    act_bind (Overlay_CreateProtocol E newV4 name t sid) (\<lambda>pi. act_bind (modify (start pi)) (\<lambda>_. act_ret pi))"

section \<open>Finding a tree node with and without the cache\<close>

text \<open>The lookup without a cache.\<close>

definition find_tree_node :: "Token \<Rightarrow> ('p, 'm) Overlay \<Rightarrow> (ovstop, 'p located) go" where
  "find_tree_node t ov =
    (case ov_trees ov (tok_TreeID t) of
       None \<Rightarrow> Err (OvErr ''didn't find tree'')
     | Some tree \<Rightarrow>
         (case loc_Search tree (tok_TreeNodeID t) of
            Ret (Some tn) \<Rightarrow> Ret tn
          | Ret None \<Rightarrow> Err (OvErr ''didn't find treenode'')
          | Err e \<Rightarrow> Err (OvErr e)
          | Panic \<Rightarrow> Panic))"

text \<open>Trees are registered under their own id and their node ids are distinct.\<close>

definition trees_ok :: "(uuid \<rightharpoonup> 'p Tree) \<Rightarrow> bool" where
  "trees_ok trees \<longleftrightarrow> (\<forall>tid t. trees tid = Some t \<longrightarrow>
    tree_ID t = tid \<and> (\<exists>root. tree_Root t = Some root \<and> distinct (map tn_ID (preorder root))))"

lemma trees_ok_Search:
  assumes "trees_ok trees" and "trees tid = Some t"
  shows "loc_Search t i = Ret (Some l) \<longleftrightarrow> l \<in> set (tree_locs t) \<and> loc_ID l = i"
proof -
  obtain root where "tree_Root t = Some root" "distinct (map tn_ID (preorder root))"
    using assms by (auto simp: trees_ok_def)
  then show ?thesis by (rule loc_Search_iff)
qed


section \<open>Messages that wait for their tree\<close>

text \<open>What a handler leaves alone while it hands a message of a known tree to its instance.\<close>

definition same_pending :: "('p, 'm) Overlay \<Rightarrow> ('p, 'm) Overlay \<Rightarrow> bool" where
  "same_pending ov ov' \<longleftrightarrow> ov_trees ov' = ov_trees ov \<and> ov_entityLists ov' = ov_entityLists ov \<and>
    ov_done ov' = ov_done ov \<and> ov_pendingTreeMarshal ov' = ov_pendingTreeMarshal ov \<and>
    ov_pendingTreeLock ov' = ov_pendingTreeLock ov \<and> ov_pendingMsg ov' = ov_pendingMsg ov \<and>
    ov_pendingMsgLock ov' = ov_pendingMsgLock ov \<and> ov_sent ov' = ov_sent ov \<and> ov_checks ov' = ov_checks ov \<and>
    ov_protoIO ov' = ov_protoIO ov"

lemma same_pending_trans: "same_pending a b \<Longrightarrow> same_pending b c \<Longrightarrow> same_pending a c"
  by (simp add: same_pending_def)

lemma same_pending_refl [simp]: "same_pending ov ov"
  by (simp add: same_pending_def)

lemma same_pending_upd [simp]:
  "same_pending ov (ov1\<lparr>ov_heap := h\<rparr>) = same_pending ov ov1"
  "same_pending ov (ov1\<lparr>ov_instances := i\<rparr>) = same_pending ov ov1"
  "same_pending ov (ov1\<lparr>ov_protocolInstances := i\<rparr>) = same_pending ov ov1"
  "same_pending ov (ov1\<lparr>ov_pendingConfigs := c\<rparr>) = same_pending ov ov1"
  "same_pending ov (ov1\<lparr>ov_cache := e\<rparr>) = same_pending ov ov1"
  "same_pending ov (set_tni a f ov1) = same_pending ov ov1"
  by (simp_all add: same_pending_def set_tni_def Let_def)

lemma pass_to_same: "pass_to pi m ov = (r, ov') \<Longrightarrow> same_pending ov ov' \<and> r \<noteq> Err Blocked"
  by (auto simp: pass_to_def split: option.splits)

lemma TreeNodeFromToken_same: "TreeNodeFromToken t ov = (r, ov') \<Longrightarrow> same_pending ov ov' \<and> r \<noteq> Err Blocked"
  by (auto simp: TreeNodeFromToken_def split: option.splits go.splits)

lemma RegisterProtocolInstance_same: "RegisterProtocolInstance E pi ov = (r, ov') \<Longrightarrow> same_pending ov ov' \<and> r \<noteq> Err Blocked"
  by (auto simp: RegisterProtocolInstance_def Let_def split: option.splits if_splits)

lemma newTNI_same: "newTreeNodeInstanceFromToken E tn tok io ov = (a, ov') \<Longrightarrow> same_pending ov ov'"
  by (auto simp: newTreeNodeInstanceFromToken_def Let_def)

lemma getConfig_same: "getConfig i ov = (c, ov') \<Longrightarrow> same_pending ov ov'"
  by (auto simp: getConfig_def)

text \<open>The creation of an instance in one equation, for the proofs below.\<close>

lemma create_instance_cases:
  assumes "create_instance E to io ov = (r, ov')"
  obtains (fail) r1 where "TreeNodeFromToken (Some to) ov = (r1, ov')" "\<forall>tn. r1 \<noteq> Ret tn" "\<forall>x. r \<noteq> Ret x" "r \<noteq> Err Blocked"
  | (noproto) tn ov1 a ov2 c ov3 rp nd where "TreeNodeFromToken (Some to) ov = (Ret tn, ov1)"
      "newTreeNodeInstanceFromToken E tn to io ov1 = (a, ov2)" "getConfig (tokenID E to) ov2 = (c, ov3)"
      "newProtocol (oe_newV3 E) (oe_services E) (oe_protocols E) to c (ov_heap ov3 ! a) = (rp, nd)"
      "ov' = ov3\<lparr>ov_heap := (ov_heap ov3)[a := nd]\<rparr>" "\<forall>pi. rp \<noteq> Ret (Some pi)" "r = Ret None \<or> (\<forall>x. r \<noteq> Ret x) \<and> r \<noteq> Err Blocked"
  | (register) tn ov1 a ov2 c ov3 pi nd rr where "TreeNodeFromToken (Some to) ov = (Ret tn, ov1)"
      "newTreeNodeInstanceFromToken E tn to io ov1 = (a, ov2)" "getConfig (tokenID E to) ov2 = (c, ov3)"
      "newProtocol (oe_newV3 E) (oe_services E) (oe_protocols E) to c (ov_heap ov3 ! a) = (Ret (Some pi), nd)"
      "RegisterProtocolInstance E pi (ov3\<lparr>ov_heap := (ov_heap ov3)[a := nd]\<rparr>) = (rr, ov')"
      "r = Ret (Some pi) \<and> rr = Ret () \<or> (\<forall>x. r \<noteq> Ret x) \<and> (r = Err Blocked \<longrightarrow> rr = Err Blocked) \<and> (\<forall>x. rr \<noteq> Ret x)"
proof -
  obtain r1 ov1 where t: "TreeNodeFromToken (Some to) ov = (r1, ov1)" by force
  show thesis
  proof (cases r1)
    case (Ret tn)
    obtain a ov2 where n: "newTreeNodeInstanceFromToken E tn to io ov1 = (a, ov2)" by force
    obtain c ov3 where c: "getConfig (tokenID E to) ov2 = (c, ov3)" by force
    obtain rp nd where p: "newProtocol (oe_newV3 E) (oe_services E) (oe_protocols E) to c (ov_heap ov3 ! a) = (rp, nd)" by force
    note facts = t [unfolded Ret] n c p
    show thesis
    proof (cases "\<exists>pi. rp = Ret (Some pi)")
      case True
      then obtain pi where pi: "rp = Ret (Some pi)" by blast
      obtain rr ov4 where r: "RegisterProtocolInstance E pi (ov3\<lparr>ov_heap := (ov_heap ov3)[a := nd]\<rparr>) = (rr, ov4)" by force
      have "ov4 = ov'" "r = Ret (Some pi) \<and> rr = Ret () \<or> (\<forall>x. r \<noteq> Ret x) \<and> (r = Err Blocked \<longrightarrow> rr = Err Blocked) \<and> (\<forall>x. rr \<noteq> Ret x)"
        using assms facts r pi by (auto simp: create_instance_def Let_def split: go.splits ovstop.splits)
      with register facts pi r show thesis by blast
    next
      case False
      then have "ov' = ov3\<lparr>ov_heap := (ov_heap ov3)[a := nd]\<rparr>" "r = Ret None \<or> (\<forall>x. r \<noteq> Ret x) \<and> r \<noteq> Err Blocked"
        using assms facts by (auto simp: create_instance_def Let_def split: go.splits option.splits)
      with noproto facts False show thesis by blast
    qed
  qed (use assms t fail in \<open>auto simp: create_instance_def\<close>)
qed

lemma create_instance_same:
  assumes "create_instance E to io ov = (r, ov')"
  shows "same_pending ov ov' \<and> r \<noteq> Err Blocked"
  using assms
proof (cases rule: create_instance_cases)
  case (fail r1)
  then show ?thesis using TreeNodeFromToken_same by blast
next
  case (noproto tn ov1 a ov2 c ov3 rp nd)
  note s = TreeNodeFromToken_same [OF noproto(1)] newTNI_same [OF noproto(2)] getConfig_same [OF noproto(3)]
  then have "same_pending ov ov3" using same_pending_trans by blast
  then show ?thesis using noproto(5,7) by auto
next
  case (register tn ov1 a ov2 c ov3 pi nd rr)
  note s = TreeNodeFromToken_same [OF register(1)] newTNI_same [OF register(2)] getConfig_same [OF register(3)]
  then have "same_pending ov ov3" using same_pending_trans by blast
  moreover have "same_pending ov3 ov'" "rr \<noteq> Err Blocked"
    using RegisterProtocolInstance_same [OF register(5)] by (simp_all add: same_pending_def)
  ultimately show ?thesis using register(6) same_pending_trans by blast
qed

lemma TransmitMsg_known:
  assumes "TransmitMsg E m io ov = (r, ov')" and "on_To m = Some to" and "ov_trees ov (tok_TreeID to) \<noteq> None"
  shows "same_pending ov ov' \<and> r \<noteq> Err Blocked"
proof (cases "tokenID E to \<in> ov_done ov \<or> ov_protocolInstances ov (tokenID E to) \<noteq> None")
  case True
  then show ?thesis using assms by (auto simp: TransmitMsg_def dest: pass_to_same split: if_splits)
next
  case False
  obtain r1 ov1 where c: "create_instance E to io ov = (r1, ov1)" by force
  have "same_pending ov1 ov' \<and> r \<noteq> Err Blocked"
    using assms False c create_instance_same [OF c]
    by (auto simp: TransmitMsg_def act_bind_def dest: pass_to_same split: go.splits option.splits)
  then show ?thesis using create_instance_same [OF c] same_pending_trans by blast
qed

definition for_tree :: "'p Tree \<Rightarrow> ('p, 'm) OnetMsg \<times> ('p, 'm) MessageProxy \<Rightarrow> bool" where
  "for_tree t p \<longleftrightarrow> map_option tok_TreeID (on_To (fst p)) = Some (tree_ID t)"

lemma logged_known:
  assumes "logged (TransmitMsg E m io) ov = (r, ov')" and "on_To m = Some to" and "ov_trees ov (tok_TreeID to) \<noteq> None"
  shows "same_pending ov ov' \<and> (r = Panic \<or> r = Ret ())"
proof -
  obtain r1 ov1 where t: "TransmitMsg E m io ov = (r1, ov1)" by force
  from TransmitMsg_known [OF t assms(2,3)] t assms(1) show ?thesis
    by (auto simp: logged_def split: go.splits ovstop.splits)
qed

lemma check_loop_filter:
  assumes "\<forall>p \<in> set pending. on_To (fst p) \<noteq> None" and "ov_trees ov (tree_ID t) \<noteq> None"
    and "check_loop E t pending newPending ov = (r, ov')"
  shows "same_pending ov ov' \<and> (r = Panic \<or> r = Ret (newPending @ filter (\<lambda>p. \<not> for_tree t p) pending))"
  using assms
proof (induction E t pending newPending ov rule: check_loop.induct)
  case (2 E t m io pending newPending ov)
  then obtain to where to: "on_To m = Some to" by auto
  show ?case
  proof (cases "tree_ID t = tok_TreeID to")
    case True
    obtain r1 ov1 where l: "logged (TransmitMsg E m io) ov = (r1, ov1)" by force
    have k: "same_pending ov ov1" "r1 = Panic \<or> r1 = Ret ()" using logged_known [OF l to] 2(4) True by auto
    show ?thesis
    proof (cases "r1 = Panic")
      case False
      then have "check_loop E t pending newPending ov1 = (r, ov')" using 2(5) k l to True by (simp add: act_bind_def)
      from 2(1) [OF to True _ _ this] 2(3,4) k(1) True to show ?thesis
        by (auto simp: for_tree_def same_pending_def)
    qed (use 2(5) k l to True in \<open>simp add: act_bind_def\<close>)
  next
    case False
    then have "\<not> for_tree t (m, io)" using to by (simp add: for_tree_def)
    with 2(2) [OF to False] 2(3-5) to False show ?thesis by simp
  qed
qed simp

lemma checkPendingMessages_eq:
  assumes "\<not> ov_pendingMsgLock ov" and "check_loop E t (ov_pendingMsg ov) [] (ov\<lparr>ov_pendingMsgLock := True\<rparr>) = (r1, ov1)"
  shows "checkPendingMessages E t ov = (case r1 of Ret np \<Rightarrow> (Ret (), ov1\<lparr>ov_pendingMsg := np, ov_pendingMsgLock := False\<rparr>)
      | Err e \<Rightarrow> (Err e, ov1) | Panic \<Rightarrow> (Panic, ov1))"
  unfolding checkPendingMessages_def act_bind_def modify_def if_not_P [OF assms(1)] assms(2)
  by (cases r1) simp_all

lemma checkPendingMessages_completes:
  assumes "\<forall>p \<in> set (ov_pendingMsg ov). on_To (fst p) \<noteq> None" and "ov_trees ov (tree_ID t) \<noteq> None"
    and "\<not> ov_pendingMsgLock ov" and "checkPendingMessages E t ov = (r, ov')"
  shows "r = Panic \<or> r = Ret () \<and> \<not> ov_pendingMsgLock ov' \<and>
    ov_pendingMsg ov' = filter (\<lambda>p. \<not> for_tree t p) (ov_pendingMsg ov) \<and>
    ov_trees ov' = ov_trees ov \<and> ov_checks ov' = ov_checks ov \<and> ov_done ov' = ov_done ov"
proof -
  let ?ov = "ov\<lparr>ov_pendingMsgLock := True\<rparr>"
  obtain r1 ov1 where c: "check_loop E t (ov_pendingMsg ov) [] ?ov = (r1, ov1)" by force
  from check_loop_filter [OF assms(1) _ c] assms(2)
  have s: "same_pending ?ov ov1" and r1: "r1 = Panic \<or> r1 = Ret (filter (\<lambda>p. \<not> for_tree t p) (ov_pendingMsg ov))" by auto
  note e = checkPendingMessages_eq [OF assms(3) c, unfolded assms(4)]
  from r1 show ?thesis
  proof
    assume "r1 = Ret (filter (\<lambda>p. \<not> for_tree t p) (ov_pendingMsg ov))"
    with e s show ?thesis by (simp add: same_pending_def)
  qed (use e in simp)
qed

section \<open>Reachable states\<close>

text \<open>
  What the overlay relies on in a constructor of a protocol: it embeds the instance it is
  given, if it returns one at all, and leaves its token, its binding and its queue alone.
\<close>

definition ctor_post :: "('p, 'm) node \<Rightarrow> (string, addr option) go \<Rightarrow> ('p, 'm) node \<Rightarrow> bool" where
  "ctor_post n r n' \<longleftrightarrow> nd_addr n' = nd_addr n \<and> nd_Token n' = nd_Token n \<and>
    tni_bound (nd_tni n') = tni_bound (nd_tni n) \<and> tni_dispatchQueue (nd_tni n') = tni_dispatchQueue (nd_tni n) \<and>
    (\<forall>a. r = Ret (Some a) \<longrightarrow> a = nd_addr n)"

definition ctors_ok :: "('p, 'm) ovenv \<Rightarrow> bool" where
  "ctors_ok E \<longleftrightarrow>
    (\<forall>s f c n r n'. oe_services E s = Some f \<and> f c n = (r, n') \<longrightarrow> ctor_post n r n') \<and>
    (\<forall>nm f n r n'. (nm, f) \<in> set (oe_protocols E) \<and> f n = (r, n') \<longrightarrow> ctor_post n r n')"

lemma protocolInstantiate_post:
  assumes "ctors_ok E" and "protocolInstantiate v (oe_protocols E) pid n = (r, n')"
  shows "ctor_post n r n'"
  using assms by (auto simp: protocolInstantiate_def ctors_ok_def ctor_post_def dest!: map_of_SomeD split: option.splits)

lemma newProtocol_post:
  assumes "ctors_ok E" and "newProtocol v (oe_services E) (oe_protocols E) tok c n = (r, n')"
  shows "ctor_post n r n'"
proof (cases "oe_services E (tok_ServiceID tok)")
  case None
  then show ?thesis using assms protocolInstantiate_post by (simp add: newProtocol_def)
next
  case (Some f)
  obtain r1 n1 where f: "f c n = (r1, n1)" by force
  have p: "ctor_post n r1 n1" using assms(1) Some f unfolding ctors_ok_def by blast
  show ?thesis
  proof (cases "r1 = Ret None")
    case True
    then have "protocolInstantiate v (oe_protocols E) (tok_ProtoID tok) n1 = (r, n')"
      using assms(2) Some f by (simp add: newProtocol_def)
    from protocolInstantiate_post [OF assms(1) this] p show ?thesis by (auto simp: ctor_post_def)
  next
    case False
    then have "r = r1 \<and> n' = n1" using assms(2) Some f by (auto simp: newProtocol_def split: go.splits option.splits)
    with p show ?thesis by simp
  qed
qed

text \<open>The maps of instances point to live heap objects, each under the identifier of its token.\<close>

definition heap_ok :: "('p, 'm) ovenv \<Rightarrow> ('p, 'm) Overlay \<Rightarrow> bool" where
  "heap_ok E ov \<longleftrightarrow> (\<forall>a < length (ov_heap ov). nd_addr (ov_heap ov ! a) = a) \<and>
    (\<forall>i a. ov_instances ov i = Some a \<or> ov_protocolInstances ov i = Some a \<longrightarrow>
      a < length (ov_heap ov) \<and> tokenID E (nd_Token (ov_heap ov ! a)) = i)"

definition pending_ok :: "('p, 'm) Overlay \<Rightarrow> bool" where
  "pending_ok ov \<longleftrightarrow> (\<forall>p \<in> set (ov_pendingMsg ov). on_To (fst p) \<noteq> None) \<and> \<not> ov_pendingMsgLock ov \<and>
    tree_ID ` set (ov_checks ov) \<subseteq> dom (ov_trees ov)"

lemma heap_ok_cong:
  "ov_heap ov' = ov_heap ov \<Longrightarrow> ov_instances ov' = ov_instances ov \<Longrightarrow>
    ov_protocolInstances ov' = ov_protocolInstances ov \<Longrightarrow> heap_ok E ov' = heap_ok E ov"
  by (simp add: heap_ok_def)

lemma heap_ok_replace:
  assumes "heap_ok E ov" and "nd_addr nd = nd_addr (ov_heap ov ! a)" and "nd_Token nd = nd_Token (ov_heap ov ! a)"
  shows "heap_ok E (ov\<lparr>ov_heap := (ov_heap ov)[a := nd]\<rparr>)"
  using assms by (cases "a < length (ov_heap ov)") (auto simp: heap_ok_def nth_list_update list_update_beyond)

lemma heap_ok_set_tni: "heap_ok E ov \<Longrightarrow> heap_ok E (set_tni a f ov)"
  unfolding set_tni_def Let_def by (rule heap_ok_replace) auto

lemma heap_ok_new:
  assumes "heap_ok E ov" and "newTreeNodeInstanceFromToken E tn tok io ov = (a, ov')"
  shows "heap_ok E ov'" and "a = length (ov_heap ov)" and "length (ov_heap ov') = Suc a"
    and "nd_Token (ov_heap ov' ! a) = tok" and "nd_addr (ov_heap ov' ! a) = a"
proof -
  have [simp]: "a = length (ov_heap ov)" and h: "length (ov_heap ov') = Suc a" "nd_Token (ov_heap ov' ! a) = tok"
      "nd_addr (ov_heap ov' ! a) = a" "\<forall>b < a. ov_heap ov' ! b = ov_heap ov ! b"
      "ov_instances ov' = (ov_instances ov)(tokenID E tok \<mapsto> a)" "ov_protocolInstances ov' = ov_protocolInstances ov"
    using assms(2) by (auto simp: newTreeNodeInstanceFromToken_def Let_def nth_append)
  show "heap_ok E ov'" using assms(1) h by (auto simp: heap_ok_def less_Suc_eq)
  show "a = length (ov_heap ov)" "length (ov_heap ov') = Suc a" "nd_Token (ov_heap ov' ! a) = tok" "nd_addr (ov_heap ov' ! a) = a"
    using h by auto
qed

lemma set_tni_heap [simp]:
  "length (ov_heap (set_tni a f ov)) = length (ov_heap ov)"
  "nd_Token (ov_heap (set_tni a f ov) ! b) = nd_Token (ov_heap ov ! b)"
  "ov_instances (set_tni a f ov) = ov_instances ov"
  "ov_protocolInstances (set_tni a f ov) = ov_protocolInstances ov"
  "ov_done (set_tni a f ov) = ov_done ov"
proof -
  show "nd_Token (ov_heap (set_tni a f ov) ! b) = nd_Token (ov_heap ov ! b)"
    by (cases "a = b"; cases "b < length (ov_heap ov)") (auto simp: set_tni_def Let_def list_update_beyond)
qed (simp_all add: set_tni_def Let_def)

lemma heap_ok_bind:
  "heap_ok E ov \<Longrightarrow> pi < length (ov_heap ov) \<Longrightarrow> i = tokenID E (nd_Token (ov_heap ov ! pi)) \<Longrightarrow>
    heap_ok E (ov\<lparr>ov_protocolInstances := (ov_protocolInstances ov)(i \<mapsto> pi)\<rparr>)"
  by (simp add: heap_ok_def)

lemma heap_ok_RegisterProtocolInstance:
  assumes "heap_ok E ov" and "RegisterProtocolInstance E pi ov = (r, ov')" and "pi < length (ov_heap ov)"
  shows "heap_ok E ov'"
proof (cases "ov' = ov")
  case False
  then obtain a where ov': "ov' = set_tni a (\<lambda>n. n\<lparr>tni_bound := True\<rparr>) ov\<lparr>ov_protocolInstances :=
      (ov_protocolInstances (set_tni a (\<lambda>n. n\<lparr>tni_bound := True\<rparr>) ov))(tokenID E (nd_Token (ov_heap ov ! pi)) \<mapsto> pi)\<rparr>"
    using assms(2) by (auto simp: RegisterProtocolInstance_def Let_def split: option.splits if_splits)
  show ?thesis unfolding ov' by (rule heap_ok_bind) (use heap_ok_set_tni [OF assms(1)] assms(3) in auto)
qed (use assms in simp)

lemma heap_ok_TreeNodeFromToken: "TreeNodeFromToken t ov = (r, ov') \<Longrightarrow> heap_ok E ov' = heap_ok E ov"
  by (rule heap_ok_cong) (auto simp: TreeNodeFromToken_def split: option.splits go.splits)

lemma heap_ok_getConfig: "getConfig i ov = (c, ov') \<Longrightarrow> heap_ok E ov' = heap_ok E ov \<and> ov_heap ov' = ov_heap ov"
  by (auto simp: getConfig_def heap_ok_def)

lemma heap_ok_pass_to: "heap_ok E ov \<Longrightarrow> pass_to pi m ov = (r, ov') \<Longrightarrow> heap_ok E ov'"
  by (auto simp: pass_to_def heap_ok_set_tni split: option.splits)

text \<open>The instance after the constructor ran, before it is registered.\<close>

lemma constructed_ok:
  assumes "ctors_ok E" and "heap_ok E ov" and "TreeNodeFromToken (Some to) ov = (Ret tn, ov1)"
    and "newTreeNodeInstanceFromToken E tn to io ov1 = (a, ov2)" and "getConfig (tokenID E to) ov2 = (c, ov3)"
    and "newProtocol (oe_newV3 E) (oe_services E) (oe_protocols E) to c (ov_heap ov3 ! a) = (rp, nd)"
  shows "heap_ok E (ov3\<lparr>ov_heap := (ov_heap ov3)[a := nd]\<rparr>)" and "ctor_post (ov_heap ov3 ! a) rp nd"
    and "a < length (ov_heap ov3)" and "nd_addr (ov_heap ov3 ! a) = a" and "nd_Token (ov_heap ov3 ! a) = to"
proof -
  have h: "heap_ok E ov1" using assms(2) heap_ok_TreeNodeFromToken [OF assms(3)] by simp
  note n = heap_ok_new [OF h assms(4)] and g = heap_ok_getConfig [OF assms(5)]
  show p: "ctor_post (ov_heap ov3 ! a) rp nd" using newProtocol_post [OF assms(1,6)] .
  show "heap_ok E (ov3\<lparr>ov_heap := (ov_heap ov3)[a := nd]\<rparr>)"
    by (rule heap_ok_replace) (use n(1) g p in \<open>auto simp: ctor_post_def\<close>)
  show "a < length (ov_heap ov3)" "nd_addr (ov_heap ov3 ! a) = a" "nd_Token (ov_heap ov3 ! a) = to"
    using n g by auto
qed

lemma heap_ok_create_instance:
  assumes "ctors_ok E" and "heap_ok E ov" and "create_instance E to io ov = (r, ov')"
  shows "heap_ok E ov'"
  using assms(3)
proof (cases rule: create_instance_cases)
  case (fail r1)
  then show ?thesis using heap_ok_TreeNodeFromToken assms(2) by blast
next
  case (noproto tn ov1 a ov2 c ov3 rp nd)
  then show ?thesis using constructed_ok(1) [OF assms(1,2) noproto(1-4)] by simp
next
  case (register tn ov1 a ov2 c ov3 pi nd rr)
  note k = constructed_ok [OF assms(1,2) register(1-4)]
  have "pi = a" using k(2,4) by (simp add: ctor_post_def)
  then show ?thesis using heap_ok_RegisterProtocolInstance [OF k(1) register(5)] k(3) by simp
qed

lemma requestTree_eq:
  assumes "requestTree E si to m io ov = (r, ov')"
  shows "heap_ok E ov' = heap_ok E ov \<and> ov_trees ov' = ov_trees ov \<and> ov_checks ov' = ov_checks ov \<and>
    ov_done ov' = ov_done ov \<and> ov_pendingMsgLock ov' = ov_pendingMsgLock ov \<and>
    (ov_pendingMsg ov' = ov_pendingMsg ov @ [(m, io)] \<or> ov_pendingMsg ov' = ov_pendingMsg ov)"
  using assms by (auto simp: requestTree_def act_bind_def savePendingMsg_def act_go_def Server_Send_def heap_ok_def
      split: go.splits if_splits option.splits prod.splits)

lemma heap_ok_TransmitMsg:
  assumes "ctors_ok E" and "heap_ok E ov" and "TransmitMsg E m io ov = (r, ov')"
  shows "heap_ok E ov'"
proof (cases "on_To m")
  case (Some to)
  consider "ov_trees ov (tok_TreeID to) = None" | "tokenID E to \<in> ov_done ov" |
    "ov_protocolInstances ov (tokenID E to) \<noteq> None" |
    "ov_trees ov (tok_TreeID to) \<noteq> None" "tokenID E to \<notin> ov_done ov" "ov_protocolInstances ov (tokenID E to) = None"
    by blast
  then show ?thesis
  proof cases
    case 4
    obtain r1 ov1 where c: "create_instance E to io ov = (r1, ov1)" by force
    then have "ov' = ov1 \<or> (\<exists>pi. pass_to pi m ov1 = (r, ov'))"
      using assms(3) Some 4 by (auto simp: TransmitMsg_def act_bind_def split: go.splits option.splits)
    then show ?thesis using heap_ok_create_instance [OF assms(1,2) c] heap_ok_pass_to by blast
  qed (use assms Some in \<open>auto simp: TransmitMsg_def dest: heap_ok_pass_to requestTree_eq split: if_splits option.splits\<close>)
qed (use assms in \<open>auto simp: TransmitMsg_def\<close>)

lemma TransmitMsg_ok:
  assumes "ctors_ok E" and "TransmitMsg E m io ov = (r, ov')" and "heap_ok E ov" and "pending_ok ov"
  shows "heap_ok E ov' \<and> pending_ok ov' \<and> ov_done ov' = ov_done ov"
proof (cases "\<exists>to. on_To m = Some to \<and> ov_trees ov (tok_TreeID to) \<noteq> None")
  case True
  then have "same_pending ov ov'" using TransmitMsg_known [OF assms(2)] by blast
  then show ?thesis using heap_ok_TransmitMsg [OF assms(1,3,2)] assms(4) by (simp add: pending_ok_def same_pending_def)
next
  case False
  then consider "ov' = ov" | to where "on_To m = Some to" "requestTree E (on_SI m) to m io ov = (r, ov')"
    using assms(2) by (auto simp: TransmitMsg_def split: option.splits)
  then show ?thesis
  proof cases
    case (2 to)
    from requestTree_eq [OF 2(2)] 2(1) assms(3,4) show ?thesis by (auto simp: pending_ok_def)
  qed (use assms(3,4) in auto)
qed

lemma logged_eq: "logged m ov = (r, ov') \<Longrightarrow> \<exists>r1. m ov = (r1, ov')"
  by (auto simp: logged_def split: prod.splits go.splits ovstop.splits)

lemma check_loop_ok:
  assumes "ctors_ok E" and "\<forall>p \<in> set pending. on_To (fst p) \<noteq> None" and "ov_trees ov (tree_ID t) \<noteq> None"
    and "check_loop E t pending newPending ov = (r, ov')" and "heap_ok E ov"
  shows "heap_ok E ov'"
  using assms(2-)
proof (induction pending arbitrary: newPending ov)
  case (Cons p pending)
  obtain m io to where p: "p = (m, io)" "on_To m = Some to" using Cons.prems(1) by (cases p) auto
  show ?case
  proof (cases "tree_ID t = tok_TreeID to")
    case True
    obtain r1 ov1 where l: "logged (TransmitMsg E m io) ov = (r1, ov1)" by force
    then obtain r2 where t: "TransmitMsg E m io ov = (r2, ov1)" using logged_eq by blast
    have k: "same_pending ov ov1" using TransmitMsg_known [OF t p(2)] Cons.prems(2) True by simp
    have h: "heap_ok E ov1" using heap_ok_TransmitMsg [OF assms(1) Cons.prems(4) t] .
    show ?thesis
    proof (cases "\<exists>x. r1 = Ret x")
      case True
      then show ?thesis using Cons.IH [of ov1 newPending] Cons.prems l p h k \<open>tree_ID t = tok_TreeID to\<close>
        by (auto simp: act_bind_def same_pending_def)
    next
      case False
      then have "ov' = ov1" using Cons.prems(3) p l \<open>tree_ID t = tok_TreeID to\<close> by (cases r1) (auto simp: act_bind_def)
      with h show ?thesis by simp
    qed
  next
    case False
    then show ?thesis using Cons.IH [of ov "newPending @ [p]"] Cons.prems p by auto
  qed
qed simp

text \<open>What the handlers of trees, rosters and configurations do to the rest of the state.\<close>

definition keeps :: "('p, 'm) Overlay \<Rightarrow> ('p, 'm) Overlay \<Rightarrow> bool" where
  "keeps ov ov' \<longleftrightarrow> ov_heap ov' = ov_heap ov \<and> ov_instances ov' = ov_instances ov \<and>
    ov_protocolInstances ov' = ov_protocolInstances ov \<and> ov_done ov' = ov_done ov \<and>
    ov_pendingMsg ov' = ov_pendingMsg ov \<and> ov_pendingMsgLock ov' = ov_pendingMsgLock ov \<and>
    dom (ov_trees ov) \<subseteq> dom (ov_trees ov') \<and>
    (\<forall>t \<in> set (ov_checks ov'). t \<in> set (ov_checks ov) \<or> tree_ID t \<in> dom (ov_trees ov'))"

lemma keeps_refl [simp]: "keeps ov ov"
  by (simp add: keeps_def)

lemma keeps_trans: "keeps a b \<Longrightarrow> keeps b c \<Longrightarrow> keeps a c"
  unfolding keeps_def by (simp, blast)

lemma keeps_ok: "keeps ov ov' \<Longrightarrow> heap_ok E ov \<Longrightarrow> pending_ok ov \<Longrightarrow> heap_ok E ov' \<and> pending_ok ov' \<and> ov_done ov' = ov_done ov"
  using heap_ok_cong [of ov' ov E] unfolding keeps_def pending_ok_def by (simp add: image_subset_iff, blast)

lemma keeps_RegisterTree [simp]: "keeps ov (RegisterTree t ov)"
  by (auto simp: keeps_def RegisterTree_def)

lemma keeps_upd [simp]:
  "keeps ov (RegisterRoster el ov)" "keeps ov (ov\<lparr>ov_pendingTreeLock := b\<rparr>)"
  "keeps ov (ov\<lparr>ov_pendingTreeMarshal := p\<rparr>)" "keeps ov (ov\<lparr>ov_sent := s\<rparr>)" "keeps ov (ov\<lparr>ov_pendingConfigs := c\<rparr>)"
  by (auto simp: keeps_def RegisterRoster_def)

lemma keeps_Send: "Server_Send E si p ov = (r, ov') \<Longrightarrow> keeps ov ov'"
  by (auto simp: Server_Send_def split: option.splits)

lemma keeps_logged: "(\<And>r ov'. m ov = (r, ov') \<Longrightarrow> keeps ov ov') \<Longrightarrow> logged m ov = (r, ov') \<Longrightarrow> keeps ov ov'"
  using logged_eq by blast

lemma keeps_bind:
  "act_bind m f ov = (r, ov') \<Longrightarrow> (\<And>r1 ov1. m ov = (r1, ov1) \<Longrightarrow> keeps ov ov1) \<Longrightarrow>
    (\<And>a ov1 r2 ov2. f a ov1 = (r2, ov2) \<Longrightarrow> keeps ov1 ov2) \<Longrightarrow> keeps ov ov'"
  by (erule act_bind_rel [where R = keeps]) (auto intro: keeps_trans)

lemma keeps_act_go: "act_go m ov = (r, ov') \<Longrightarrow> keeps ov ov'"
  by (simp add: act_go_def)

lemmas keeps_rules = keeps_Send keeps_act_go

lemma keeps_make_pending: "make_pending el sl ov = (r, ov') \<Longrightarrow> keeps ov ov'"
proof (induction el sl ov arbitrary: r ov' rule: make_pending.induct)
  case (2 el tm sl ov)
  then show ?case by (auto split: go.splits intro: keeps_trans [OF keeps_RegisterTree])
qed simp

lemma keeps_checkPendingTreeMarshal: "checkPendingTreeMarshal el ov = (r, ov') \<Longrightarrow> keeps ov ov'"
proof -
  assume a: "checkPendingTreeMarshal el ov = (r, ov')"
  let ?ov = "ov\<lparr>ov_pendingTreeLock := True\<rparr>"
  have "ov' = ov \<or> ov' = ?ov \<or>
      (\<exists>sl. act_bind (make_pending el sl) (\<lambda>_. modify (\<lambda>ov. ov\<lparr>ov_pendingTreeLock := False\<rparr>)) ?ov = (r, ov'))"
    using a by (auto simp: checkPendingTreeMarshal_def Let_def split: if_splits option.splits)
  moreover have "keeps ?ov ov'" if "act_bind (make_pending el sl) (\<lambda>_. modify (\<lambda>ov. ov\<lparr>ov_pendingTreeLock := False\<rparr>)) ?ov = (r, ov')" for sl
    using that by (rule keeps_bind) (auto simp: modify_def intro: keeps_make_pending)
  ultimately show ?thesis using keeps_trans [of ov ?ov ov'] by auto
qed

lemma keeps_handleRequestTree: "handleRequestTree E si tid io ov = (r, ov') \<Longrightarrow> keeps ov ov'"
  unfolding handleRequestTree_def Let_def
  by (erule keeps_bind) (auto intro: keeps_act_go elim!: keeps_logged [rotated] keeps_bind keeps_Send)

lemma keeps_handleRequestRoster: "handleRequestRoster E si i io ov = (r, ov') \<Longrightarrow> keeps ov ov'"
  unfolding handleRequestRoster_def Let_def
  by (erule keeps_logged [rotated]) (auto elim!: keeps_bind keeps_Send intro: keeps_act_go)

lemma keeps_handleSendTree: "handleSendTree E si tm io ov = (r, ov') \<Longrightarrow> keeps ov ov'"
proof -
  assume a: "handleSendTree E si tm io ov = (r, ov')"
  have "ov' = ov \<or> (\<exists>tree. ov' = RegisterTree tree ov) \<or>
      (\<exists>msg. act_bind (logged (Server_Send E si msg)) (\<lambda>_. addPendingTreeMarshal tm) ov = (r, ov'))"
    using a by (auto simp: handleSendTree_def Let_def split: if_splits option.splits go.splits)
  moreover have "keeps ov ov'" if "act_bind (logged (Server_Send E si msg)) (\<lambda>_. addPendingTreeMarshal tm) ov = (r, ov')" for msg
    using that by (rule keeps_bind)
      (auto simp: addPendingTreeMarshal_def Let_def split: if_splits dest!: logged_eq keeps_Send)
  ultimately show ?thesis by auto
qed

lemma keeps_handleSendRoster: "handleSendRoster roster ov = (r, ov') \<Longrightarrow> keeps ov ov'"
  by (auto simp: handleSendRoster_def split: if_splits
      intro: keeps_trans [OF keeps_upd(1) keeps_checkPendingTreeMarshal])

lemma keeps_handleConfigMessage: "handleConfigMessage msg ov = (r, ov') \<Longrightarrow> keeps ov ov'"
  by (auto simp: handleConfigMessage_def split: packet.splits)

lemma Process_cases:
  assumes "Process E si mt msg ov = (r, ov')"
  shows "keeps ov ov' \<or> (\<exists>m io r1. TransmitMsg E m io ov = (r1, ov'))"
  using assms by (auto simp: Process_def Let_def split: if_splits go.splits prod.splits option.splits
      dest: keeps_handleConfigMessage keeps_handleRequestTree keeps_handleSendTree keeps_handleRequestRoster
        keeps_handleSendRoster logged_eq)

lemma heap_ok_nodeDelete:
  assumes "heap_ok E ov"
  shows "heap_ok E (nodeDelete E tok ov)"
proof (cases "ov_instances ov (tokenID E tok)")
  case (Some a)
  then show ?thesis using heap_ok_set_tni [OF assms, of a] by (auto simp: nodeDelete_def Let_def heap_ok_def)
qed (use assms in \<open>simp add: nodeDelete_def\<close>)

lemma nodeDelete_frame:
  "pending_ok ov \<Longrightarrow> pending_ok (nodeDelete E tok ov)" "ov_done ov \<subseteq> ov_done (nodeDelete E tok ov)"
  by (auto simp: nodeDelete_def set_tni_def pending_ok_def Let_def split: option.splits)

lemma NewTreeNodeInstanceFromService_ok:
  assumes "NewTreeNodeInstanceFromService E u t tn pid sid io ov = (r, ov')" and "heap_ok E ov" and "pending_ok ov"
  shows "heap_ok E ov' \<and> pending_ok ov' \<and> ov_done ov' = ov_done ov \<and>
    (\<forall>a. r = Ret a \<longrightarrow> a < length (ov_heap ov') \<and> nd_addr (ov_heap ov' ! a) = a)"
proof (cases "tn \<noteq> None \<and> tree_Roster t \<noteq> None")
  case True
  then obtain l el tok a ov1 where n: "newTreeNodeInstanceFromToken E l tok io ov = (a, ov1)"
    and r: "r = Ret a" "ov' = RegisterRoster el (RegisterTree t ov1)"
    using assms(1) by (auto simp: NewTreeNodeInstanceFromService_def Let_def split: prod.splits)
  have k: "keeps ov1 ov'" unfolding r by (rule keeps_trans [OF keeps_RegisterTree keeps_upd(1)])
  note h = heap_ok_new [OF assms(2) n]
  have "pending_ok ov1" using newTNI_same [OF n] assms(3) by (simp add: same_pending_def pending_ok_def)
  then show ?thesis using keeps_ok [OF k h(1)] h newTNI_same [OF n] r k by (auto simp: keeps_def same_pending_def)
qed (use assms in \<open>auto simp: NewTreeNodeInstanceFromService_def split: option.splits\<close>)

lemma same_pending_ok: "same_pending ov ov' \<Longrightarrow> pending_ok ov' = pending_ok ov \<and> ov_done ov' = ov_done ov"
  by (simp add: same_pending_def pending_ok_def)

lemma CreateProtocol_cases:
  assumes "Overlay_CreateProtocol E u name t sid ov = (r, ov')"
  obtains (fail) io r1 where "NewTreeNodeInstanceFromService E u t (tree_root_loc t) (ProtocolNameToID (oe_newV3 E) name) sid io ov = (r1, ov')"
  | (made) io a ov1 rp nd where
      "NewTreeNodeInstanceFromService E u t (tree_root_loc t) (ProtocolNameToID (oe_newV3 E) name) sid io ov = (Ret a, ov1)"
      "protocolInstantiate (oe_newV3 E) (oe_protocols E) (ProtocolNameToID (oe_newV3 E) name) (ov_heap ov1 ! a) = (rp, nd)"
      "ov' = ov1\<lparr>ov_heap := (ov_heap ov1)[a := nd]\<rparr> \<or>
        (\<exists>pi rr. rp = Ret (Some pi) \<and> RegisterProtocolInstance E pi (ov1\<lparr>ov_heap := (ov_heap ov1)[a := nd]\<rparr>) = (rr, ov'))"
proof -
  let ?pid = "ProtocolNameToID (oe_newV3 E) name" and ?io = "ps_getByName (ov_protoIO ov) name"
  obtain r1 ov1 where n: "NewTreeNodeInstanceFromService E u t (tree_root_loc t) ?pid sid ?io ov = (r1, ov1)" by force
  show thesis
  proof (cases "\<exists>a. r1 = Ret a")
    case False
    then have "ov' = ov1" using assms n by (cases r1) (auto simp: Overlay_CreateProtocol_def act_bind_def)
    with n fail show thesis by blast
  next
    case True
    then obtain a where a: "r1 = Ret a" by blast
    obtain rp nd where p: "protocolInstantiate (oe_newV3 E) (oe_protocols E) ?pid (ov_heap ov1 ! a) = (rp, nd)" by force
    have "ov' = ov1\<lparr>ov_heap := (ov_heap ov1)[a := nd]\<rparr> \<or>
        (\<exists>pi rr. rp = Ret (Some pi) \<and> RegisterProtocolInstance E pi (ov1\<lparr>ov_heap := (ov_heap ov1)[a := nd]\<rparr>) = (rr, ov'))"
      using assms n a p
      by (cases rp) (auto simp: Overlay_CreateProtocol_def Let_def act_bind_def deref_def act_go_def
          split: go.splits option.splits prod.splits)
    with made n p a show thesis by blast
  qed
qed

lemma CreateProtocol_ok:
  assumes "ctors_ok E" and "Overlay_CreateProtocol E u name t sid ov = (r, ov')" and "heap_ok E ov" and "pending_ok ov"
  shows "heap_ok E ov' \<and> pending_ok ov'"
  using assms(2)
proof (cases rule: CreateProtocol_cases)
  case (fail io r1)
  then show ?thesis using NewTreeNodeInstanceFromService_ok [OF fail assms(3,4)] by blast
next
  case (made io a ov1 rp nd)
  note h = NewTreeNodeInstanceFromService_ok [OF made(1) assms(3,4)]
  let ?ov = "ov1\<lparr>ov_heap := (ov_heap ov1)[a := nd]\<rparr>"
  have post: "ctor_post (ov_heap ov1 ! a) rp nd" using protocolInstantiate_post [OF assms(1) made(2)] .
  then have ok: "heap_ok E ?ov" using h heap_ok_replace [of E ov1 nd a] by (simp add: ctor_post_def)
  from made(3) show ?thesis
  proof
    assume "\<exists>pi rr. rp = Ret (Some pi) \<and> RegisterProtocolInstance E pi ?ov = (rr, ov')"
    then obtain pi rr where pi: "rp = Ret (Some pi)" "RegisterProtocolInstance E pi ?ov = (rr, ov')" by blast
    have "pi = a" "a < length (ov_heap ?ov)" using post pi h by (auto simp: ctor_post_def)
    moreover have "same_pending ?ov ov'" using RegisterProtocolInstance_same [OF pi(2)] by simp
    ultimately show ?thesis using heap_ok_RegisterProtocolInstance [OF ok pi(2)] same_pending_ok h
      by (simp add: same_pending_def pending_ok_def)
  qed (use ok h in \<open>simp add: pending_ok_def\<close>)
qed

text \<open>
  The steps of an overlay: a packet is processed, a started check of the pending messages
  runs, a protocol instance says that it is done, a protocol is created. A panic ends the
  program.
\<close>

inductive ov_step :: "('p :: ab_group_add, 'm) ovenv \<Rightarrow> ('p, 'm) Overlay \<Rightarrow> ('p, 'm) Overlay \<Rightarrow> bool" for E where
  process: "Process E si mt msg ov = (r, ov') \<Longrightarrow> r \<noteq> Panic \<Longrightarrow> ov_step E ov ov'"
| check: "ov_checks ov = ts @ t # us \<Longrightarrow> checkPendingMessages E t (ov\<lparr>ov_checks := ts @ us\<rparr>) = (r, ov') \<Longrightarrow>
    r \<noteq> Panic \<Longrightarrow> ov_step E ov ov'"
| finish: "ov_step E ov (nodeDone E tok ov)"
| create: "Overlay_CreateProtocol E u name t sid ov = (r, ov') \<Longrightarrow> r \<noteq> Panic \<Longrightarrow> ov_step E ov ov'"

inductive_cases ov_stepE: "ov_step E ov ov'"

abbreviation ov_reachable :: "('p :: ab_group_add, 'm) ovenv \<Rightarrow> ('p, 'm) Overlay \<Rightarrow> bool" where
  "ov_reachable E ov \<equiv> \<exists>factories. (ov_step E)\<^sup>*\<^sup>* (NewOverlay (oe_codec E) factories) ov"

lemma checkPendingMessages_heap:
  assumes "ctors_ok E" and "checkPendingMessages E t ov = (r, ov')" and "r \<noteq> Panic"
    and "heap_ok E ov" and "pending_ok ov" and "tree_ID t \<in> dom (ov_trees ov)"
  shows "heap_ok E ov' \<and> pending_ok ov' \<and> ov_done ov' = ov_done ov"
proof -
  let ?ov = "ov\<lparr>ov_pendingMsgLock := True\<rparr>"
  have p: "\<forall>p \<in> set (ov_pendingMsg ov). on_To (fst p) \<noteq> None" "\<not> ov_pendingMsgLock ov" "ov_trees ov (tree_ID t) \<noteq> None"
    using assms(5,6) by (auto simp: pending_ok_def)
  note c = checkPendingMessages_completes [OF p(1,3,2) assms(2)]
  obtain r1 ov1 where l: "check_loop E t (ov_pendingMsg ov) [] ?ov = (r1, ov1)" by force
  have h: "heap_ok E ov1" by (rule check_loop_ok [OF assms(1) p(1) _ l]) (use p(3) assms(4) in \<open>simp_all add: heap_ok_def\<close>)
  have "heap_ok E ov' = heap_ok E ov1"
    by (rule heap_ok_cong) (use assms(2) l p(2) in \<open>auto simp: checkPendingMessages_def act_bind_def modify_def split: go.splits\<close>)
  moreover have "pending_ok ov'" using c assms(3,5) by (auto simp: pending_ok_def)
  ultimately show ?thesis using c assms(3) h by simp
qed

lemma ov_step_ok:
  assumes "ov_step E ov ov'" and "ctors_ok E" and "heap_ok E ov" and "pending_ok ov"
  shows "heap_ok E ov' \<and> pending_ok ov'"
  using assms(1)
proof cases
  case (process si mt msg r)
  from Process_cases [OF process(1)] show ?thesis
  proof
    assume "keeps ov ov'"
    from keeps_ok [OF this assms(3,4)] show ?thesis by simp
  qed (use TransmitMsg_ok [OF assms(2) _ assms(3,4)] in blast)
next
  case (check ts t us r)
  have "heap_ok E (ov\<lparr>ov_checks := ts @ us\<rparr>)" "pending_ok (ov\<lparr>ov_checks := ts @ us\<rparr>)" "tree_ID t \<in> dom (ov_trees ov)"
    using assms(3,4) check(1) by (auto simp: heap_ok_def pending_ok_def)
  with checkPendingMessages_heap [OF assms(2) check(2,3)] show ?thesis by simp
next
  case (finish tok)
  then show ?thesis using heap_ok_nodeDelete [OF assms(3)] nodeDelete_frame(1) [OF assms(4)] by (simp add: nodeDone_def)
next
  case (create u name t sid r)
  then show ?thesis using CreateProtocol_ok [OF assms(2) create(1) assms(3,4)] by simp
qed

lemma ov_reachable_ok:
  assumes "ctors_ok E" and "ov_reachable E ov"
  shows "heap_ok E ov" and "pending_ok ov"
proof -
  obtain fs where "(ov_step E)\<^sup>*\<^sup>* (NewOverlay (oe_codec E) fs) ov" using assms(2) by blast
  then have "heap_ok E ov \<and> pending_ok ov"
  proof (induction rule: rtranclp_induct)
    case base
    show ?case by (simp add: NewOverlay_def heap_ok_def pending_ok_def)
  next
    case (step y z)
    then show ?case using ov_step_ok [OF step(2) assms(1)] by blast
  qed
  then show "heap_ok E ov" "pending_ok ov" by auto
qed


text \<open>The identifiers of finished instances only grow.\<close>

lemma TransmitMsg_done: "TransmitMsg E m io ov = (r, ov') \<Longrightarrow> ov_done ov' = ov_done ov"
proof (cases "\<exists>to. on_To m = Some to \<and> ov_trees ov (tok_TreeID to) \<noteq> None")
  case True
  assume "TransmitMsg E m io ov = (r, ov')"
  with True show ?thesis using TransmitMsg_known [of E m io ov r ov'] by (auto simp: same_pending_def)
next
  case False
  assume "TransmitMsg E m io ov = (r, ov')"
  with False show ?thesis by (auto simp: TransmitMsg_def dest: requestTree_eq split: option.splits)
qed

lemma check_loop_done: "check_loop E t pending np ov = (r, ov') \<Longrightarrow> ov_done ov' = ov_done ov"
proof (induction E t pending np ov arbitrary: r ov' rule: check_loop.induct)
  case (2 E t m io pending np ov)
  obtain r1 ov1 where l: "logged (TransmitMsg E m io) ov = (r1, ov1)" by force
  then have "ov_done ov1 = ov_done ov" using logged_eq TransmitMsg_done by metis
  then show ?case using 2 l by (auto simp: act_bind_def split: option.splits if_splits go.splits)
qed simp

lemma checkPendingMessages_done:
  assumes "checkPendingMessages E t ov = (r, ov')"
  shows "ov_done ov' = ov_done ov"
proof -
  obtain r1 ov1 where l: "check_loop E t (ov_pendingMsg ov) [] (ov\<lparr>ov_pendingMsgLock := True\<rparr>) = (r1, ov1)" by force
  show ?thesis
  proof (cases "ov_pendingMsgLock ov")
    case False
    have "ov_done ov' = ov_done ov1"
      using checkPendingMessages_eq [OF False l, unfolded assms] by (cases r1) simp_all
    then show ?thesis using check_loop_done [OF l] by simp
  qed (use assms in \<open>simp add: checkPendingMessages_def\<close>)
qed

lemma NewTNI_done: "NewTreeNodeInstanceFromService E u t tn pid sid io ov = (r, ov') \<Longrightarrow> ov_done ov' = ov_done ov"
  by (auto simp: NewTreeNodeInstanceFromService_def newTreeNodeInstanceFromToken_def RegisterRoster_def RegisterTree_def
      Let_def split: option.splits)

lemma CreateProtocol_done:
  assumes "Overlay_CreateProtocol E u name t sid ov = (r, ov')"
  shows "ov_done ov' = ov_done ov"
  using assms
proof (cases rule: CreateProtocol_cases)
  case (made io a ov1 rp nd)
  from made(3) show ?thesis
  proof
    assume "\<exists>pi rr. rp = Ret (Some pi) \<and> RegisterProtocolInstance E pi (ov1\<lparr>ov_heap := (ov_heap ov1)[a := nd]\<rparr>) = (rr, ov')"
    then obtain pi rr where "RegisterProtocolInstance E pi (ov1\<lparr>ov_heap := (ov_heap ov1)[a := nd]\<rparr>) = (rr, ov')" by blast
    from RegisterProtocolInstance_same [OF this] NewTNI_done [OF made(1)] show ?thesis by (simp add: same_pending_def)
  qed (use NewTNI_done [OF made(1)] in simp)
qed (rule NewTNI_done)

lemma ov_step_done: "ov_step E ov ov' \<Longrightarrow> ov_done ov \<subseteq> ov_done ov'"
proof (induction rule: ov_step.induct)
  case (process si mt msg ov r ov')
  from Process_cases [OF this(1)] show ?case by (auto simp: keeps_def dest: TransmitMsg_done)
next
  case (check ov ts t us r ov')
  from checkPendingMessages_done [OF check(2)] show ?case by simp
next
  case (finish ov tok)
  then show ?case using nodeDelete_frame(2) by (simp add: nodeDone_def)
next
  case (create u name t sid ov r ov')
  from CreateProtocol_done [OF create(1)] show ?case by simp
qed

text \<open>C34: 
  A finished instance stays finished: once \<open>nodeDone\<close> was called for a registered instance,
  then after whatever steps the overlay takes, a message to its token is dropped without an
  error and without any effect; in particular no second instance is created for the token.
\<close>
theorem finished_instance_ignored:
  assumes "ov_instances ov (tokenID E tok) \<noteq> None" and "(ov_step E)\<^sup>*\<^sup>* (nodeDone E tok ov) ov'"
    and "on_To m = Some to" and "tokenID E to = tokenID E tok" and "ov_trees ov' (tok_TreeID to) \<noteq> None"
  shows "TransmitMsg E m io ov' = (Ret (), ov')"
proof -
  have "tokenID E tok \<in> ov_done (nodeDone E tok ov)"
    using assms(1) by (auto simp: nodeDone_def nodeDelete_def Let_def)
  with assms(2) have "tokenID E tok \<in> ov_done ov'"
    by (induction rule: rtranclp_induct) (auto dest: ov_step_done)
  then show ?thesis using assms(3-5) by (auto simp: TransmitMsg_def)
qed


end
