(* ===== verification/Overlay_Run.thy ===== *)
theory Overlay_Run
  imports Overlay
begin

text \<open>
  Two overlays at work: a message arrives for a tree that the receiver does not know, the
  receiver asks the sender for the tree and then for its roster, and in the end the message
  is in the queue of a new protocol instance. The wire format is reached through the
  contract of a message proxy, which the default proxy satisfies.
\<close>

section \<open>The contract of a message proxy\<close>

text \<open>An overlay that has this proxy only.\<close>

definition uses_proxy :: "('p, 'm) MessageProxy \<Rightarrow> ('p, 'm) Overlay \<Rightarrow> bool" where
  "uses_proxy io ov \<longleftrightarrow> ov_protoIO ov = \<lparr>ps_protos = [], ps_defaultIO = io\<rparr>"

text \<open>What is wrapped is unwrapped as it was, for the messages of the overlay and of a protocol.\<close>

locale message_proxy =
  fixes io :: "('p :: ab_group_add, 'm) MessageProxy" and C :: "'m codec"
  assumes wrap_RequestTree: "\<exists>p. mp_Wrap io None (empty_info\<lparr>om_RequestTree := Some i\<rparr>) = Ret p \<and>
      mp_Unwrap io p = Ret (None, empty_info\<lparr>om_RequestTree := Some i\<rparr>)"
    and wrap_TreeMarshal: "\<exists>p. mp_Wrap io None (empty_info\<lparr>om_TreeMarshal := Some tm\<rparr>) = Ret p \<and>
      mp_Unwrap io p = Ret (None, empty_info\<lparr>om_TreeMarshal := Some tm\<rparr>)"
    and wrap_RequestRoster: "\<exists>p. mp_Wrap io None (empty_info\<lparr>om_RequestRoster := Some i\<rparr>) = Ret p \<and>
      mp_Unwrap io p = Ret (None, empty_info\<lparr>om_RequestRoster := Some i\<rparr>)"
    and wrap_Roster: "\<exists>p. mp_Wrap io None (empty_info\<lparr>om_Roster := Some el\<rparr>) = Ret p \<and>
      mp_Unwrap io p = Ret (None, empty_info\<lparr>om_Roster := Some el\<rparr>)"
    and wrap_msg: "(\<And>b. co_Marshal C m = Ret b \<Longrightarrow> co_Unmarshal C b = Ret m) \<Longrightarrow>
      mp_Wrap io (Some m) (empty_info\<lparr>om_TreeNodeInfo := Some ti\<rparr>) = Ret p \<Longrightarrow>
      mp_Unwrap io p = Ret (Some m, empty_info\<lparr>om_TreeNodeInfo := Some ti\<rparr>)"
begin

lemma proxy_found: "uses_proxy io ov \<Longrightarrow> ps_getByPacketType (ov_protoIO ov) mt = io"
  by (simp add: uses_proxy_def ps_getByPacketType_def)

text \<open>The handlers, reached through \<open>Process\<close>.\<close>

lemma Process_info:
  assumes "uses_proxy io ov" and "mt \<noteq> oe_ConfigMsgID E" and "mp_Unwrap io p = Ret (inner, info)"
  shows "om_RequestTree info = Some i \<Longrightarrow> Process E si mt p ov = handleRequestTree E si i io ov"
    and "info = empty_info\<lparr>om_TreeMarshal := Some tm\<rparr> \<Longrightarrow> Process E si mt p ov = handleSendTree E si tm io ov"
    and "info = empty_info\<lparr>om_RequestRoster := Some i\<rparr> \<Longrightarrow> Process E si mt p ov = handleRequestRoster E si i io ov"
    and "info = empty_info\<lparr>om_Roster := Some el\<rparr> \<Longrightarrow> Process E si mt p ov = handleSendRoster el ov"
  using assms by (simp_all add: Process_def Let_def proxy_found empty_info_def)

lemma Process_msg:
  assumes "uses_proxy io ov" and "mt \<noteq> oe_ConfigMsgID E"
    and "mp_Unwrap io p = Ret (Some m, empty_info\<lparr>om_TreeNodeInfo := Some \<lparr>ti_To = to, ti_From = frm\<rparr>\<rparr>)"
  shows "Process E si mt p ov = logged (TransmitMsg E
    \<lparr>on_From = frm, on_To = to, on_SI = si, on_MsgType = co_MessageType (oe_codec E) m, on_Msg = Some m\<rparr> io) ov"
  using assms by (simp add: Process_def Let_def proxy_found empty_info_def)

lemma ask_for_tree:
  assumes "uses_proxy io ov" and "mt \<noteq> oe_ConfigMsgID E" and "oe_sendErr E = (\<lambda>_ _ _. None)"
    and "mp_Unwrap io p = Ret (Some m, empty_info\<lparr>om_TreeNodeInfo := Some \<lparr>ti_To = Some to, ti_From = frm\<rparr>\<rparr>)"
    and "ov_trees ov (tok_TreeID to) = None" and "\<not> ov_pendingMsgLock ov"
  obtains q where "mp_Unwrap io q = Ret (None, empty_info\<lparr>om_RequestTree := Some (tok_TreeID to)\<rparr>)"
    "Process E si mt p ov = (Ret (), ov\<lparr>ov_pendingMsg := ov_pendingMsg ov @ [(\<lparr>on_From = frm, on_To = Some to,
      on_SI = si, on_MsgType = co_MessageType (oe_codec E) m, on_Msg = Some m\<rparr>, io)], ov_sent := ov_sent ov @ [(si, q)]\<rparr>)"
proof -
  obtain q where q: "mp_Wrap io None (empty_info\<lparr>om_RequestTree := Some (tok_TreeID to)\<rparr>) = Ret q"
    "mp_Unwrap io q = Ret (None, empty_info\<lparr>om_RequestTree := Some (tok_TreeID to)\<rparr>)"
    using wrap_RequestTree by blast
  show thesis
    by (rule that [OF q(2)]) (use assms q(1) in \<open>simp add: Process_msg logged_def TransmitMsg_def requestTree_def act_bind_def
      savePendingMsg_def act_go_def Server_Send_def\<close>)
qed

lemma answer_tree:
  assumes "uses_proxy io ov" and "mt \<noteq> oe_ConfigMsgID E" and "oe_sendErr E = (\<lambda>_ _ _. None)"
    and "mp_Unwrap io p = Ret (None, empty_info\<lparr>om_RequestTree := Some i\<rparr>)"
    and "ov_trees ov i = Some t" and "MakeTreeMarshal t = Ret tm"
  obtains q where "mp_Unwrap io q = Ret (None, empty_info\<lparr>om_TreeMarshal := Some tm\<rparr>)"
    "Process E si mt p ov = (Ret (), ov\<lparr>ov_sent := ov_sent ov @ [(si, q)]\<rparr>)"
proof -
  obtain q where q: "mp_Wrap io None (empty_info\<lparr>om_TreeMarshal := Some tm\<rparr>) = Ret q"
    "mp_Unwrap io q = Ret (None, empty_info\<lparr>om_TreeMarshal := Some tm\<rparr>)"
    using wrap_TreeMarshal by blast
  have "Process E si mt p ov = handleRequestTree E si i io ov"
    by (rule Process_info(1) [OF assms(1,2,4)]) simp
  then show thesis
    by (intro that [OF q(2)]) (use assms q(1) in \<open>simp add: handleRequestTree_def act_bind_def act_go_def logged_def
      Server_Send_def\<close>)
qed

lemma ask_for_roster:
  assumes "uses_proxy io ov" and "mt \<noteq> oe_ConfigMsgID E" and "oe_sendErr E = (\<lambda>_ _ _. None)"
    and "mp_Unwrap io p = Ret (None, empty_info\<lparr>om_TreeMarshal := Some tm\<rparr>)"
    and "tm_TreeID tm \<noteq> 0" and "ov_entityLists ov (tm_RosterID tm) = None" and "\<not> ov_pendingTreeLock ov"
    and "ov_pendingTreeMarshal ov (tm_RosterID tm) = None"
  obtains q where "mp_Unwrap io q = Ret (None, empty_info\<lparr>om_RequestRoster := Some (tm_RosterID tm)\<rparr>)"
    "Process E si mt p ov = (Ret (), ov\<lparr>ov_sent := ov_sent ov @ [(si, q)],
      ov_pendingTreeMarshal := (ov_pendingTreeMarshal ov)(tm_RosterID tm \<mapsto> [tm])\<rparr>)"
proof -
  obtain q where q: "mp_Wrap io None (empty_info\<lparr>om_RequestRoster := Some (tm_RosterID tm)\<rparr>) = Ret q"
    "mp_Unwrap io q = Ret (None, empty_info\<lparr>om_RequestRoster := Some (tm_RosterID tm)\<rparr>)"
    using wrap_RequestRoster by blast
  have "Process E si mt p ov = handleSendTree E si tm io ov"
    by (rule Process_info(2) [OF assms(1,2,4)]) simp
  then show thesis
    by (intro that [OF q(2)]) (use assms q(1) in \<open>simp add: handleSendTree_def Let_def act_bind_def logged_def
      Server_Send_def addPendingTreeMarshal_def\<close>)
qed

lemma answer_roster:
  assumes "uses_proxy io ov" and "mt \<noteq> oe_ConfigMsgID E" and "oe_sendErr E = (\<lambda>_ _ _. None)"
    and "mp_Unwrap io p = Ret (None, empty_info\<lparr>om_RequestRoster := Some i\<rparr>)" and "ov_entityLists ov i = Some el"
  obtains q where "mp_Unwrap io q = Ret (None, empty_info\<lparr>om_Roster := Some el\<rparr>)"
    "Process E si mt p ov = (Ret (), ov\<lparr>ov_sent := ov_sent ov @ [(si, q)]\<rparr>)"
proof -
  obtain q where q: "mp_Wrap io None (empty_info\<lparr>om_Roster := Some el\<rparr>) = Ret q"
    "mp_Unwrap io q = Ret (None, empty_info\<lparr>om_Roster := Some el\<rparr>)"
    using wrap_Roster by blast
  have "Process E si mt p ov = handleRequestRoster E si i io ov"
    by (rule Process_info(3) [OF assms(1,2,4)]) simp
  then show thesis
    by (intro that [OF q(2)]) (use assms q(1) in \<open>simp add: handleRequestRoster_def Let_def act_bind_def act_go_def logged_def
      Server_Send_def\<close>)
qed

lemma take_roster:
  assumes "uses_proxy io ov" and "mt \<noteq> oe_ConfigMsgID E"
    and "mp_Unwrap io p = Ret (None, empty_info\<lparr>om_Roster := Some el\<rparr>)" and "ro_ID el \<noteq> 0"
    and "\<not> ov_pendingTreeLock ov" and "ov_pendingTreeMarshal ov (ro_ID el) = Some [tm]" and "MakeTree tm el = Ret t"
  shows "Process E si mt p ov = (Ret (), (RegisterTree t (RegisterRoster el ov\<lparr>ov_pendingTreeLock := True\<rparr>))\<lparr>ov_pendingTreeLock := False\<rparr>)"
proof -
  have "Process E si mt p ov = handleSendRoster el ov"
    by (rule Process_info(4) [OF assms(1,2,3)]) simp
  then show ?thesis
    using assms by (simp add: handleSendRoster_def checkPendingTreeMarshal_def RegisterRoster_def act_bind_def modify_def)
qed

text \<open>The whole exchange up to the arrival of the roster.\<close>

lemma fetch_tree:
  assumes A: "uses_proxy io oA" "oe_sendErr EA = (\<lambda>_ _ _. None)" and B: "uses_proxy io oB" "oe_sendErr EB = (\<lambda>_ _ _. None)"
    and mty: "\<And>p. mtype p \<noteq> oe_ConfigMsgID EA" "\<And>p. mtype p \<noteq> oe_ConfigMsgID EB"
    and oB: "ov_trees oB (tok_TreeID to) = Some t" "ov_entityLists oB (tm_RosterID tm) = Some el"
    and tm: "MakeTreeMarshal t = Ret tm" "MakeTree tm el = Ret t" "tm_TreeID tm \<noteq> 0" "tm_RosterID tm = ro_ID el" "ro_ID el \<noteq> 0"
    and oA: "ov_trees oA (tok_TreeID to) = None" "\<not> ov_pendingMsgLock oA" "ov_entityLists oA (tm_RosterID tm) = None"
      "\<not> ov_pendingTreeLock oA" "ov_pendingTreeMarshal oA (tm_RosterID tm) = None"
    and p0: "mp_Unwrap io p0 = Ret (Some m, empty_info\<lparr>om_TreeNodeInfo := Some \<lparr>ti_To = Some to, ti_From = frm\<rparr>\<rparr>)"
  obtains p1 p2 p3 p4 oA1 oA2 oB1 oB2 oA3 where
    "Process EA siB (mtype p0) p0 oA = (Ret (), oA1)" "ov_sent oA1 = ov_sent oA @ [(siB, p1)]"
    "Process EB siA (mtype p1) p1 oB = (Ret (), oB1)" "ov_sent oB1 = ov_sent oB @ [(siA, p2)]"
    "Process EA siB (mtype p2) p2 oA1 = (Ret (), oA2)" "ov_sent oA2 = ov_sent oA1 @ [(siB, p3)]"
    "Process EB siA (mtype p3) p3 oB1 = (Ret (), oB2)" "ov_sent oB2 = ov_sent oB1 @ [(siA, p4)]"
    "Process EA siB (mtype p4) p4 oA2 = (Ret (), oA3)"
    "oA3 = oA\<lparr>ov_trees := (ov_trees oA)(tree_ID t \<mapsto> t), ov_entityLists := (ov_entityLists oA)(ro_ID el \<mapsto> el),
      ov_checks := ov_checks oA @ [t], ov_sent := ov_sent oA @ [(siB, p1), (siB, p3)],
      ov_pendingTreeMarshal := (ov_pendingTreeMarshal oA)(ro_ID el \<mapsto> [tm]), ov_pendingTreeLock := False,
      ov_pendingMsg := ov_pendingMsg oA @ [(\<lparr>on_From = frm, on_To = Some to, on_SI = siB,
        on_MsgType = co_MessageType (oe_codec EA) m, on_Msg = Some m\<rparr>, io)]\<rparr>"
proof -
  let ?m = "\<lparr>on_From = frm, on_To = Some to, on_SI = siB, on_MsgType = co_MessageType (oe_codec EA) m, on_Msg = Some m\<rparr>"
  obtain p1 where p1: "mp_Unwrap io p1 = Ret (None, empty_info\<lparr>om_RequestTree := Some (tok_TreeID to)\<rparr>)"
    and s1: "Process EA siB (mtype p0) p0 oA = (Ret (), oA\<lparr>ov_pendingMsg := ov_pendingMsg oA @ [(?m, io)], ov_sent := ov_sent oA @ [(siB, p1)]\<rparr>)"
    by (rule ask_for_tree [OF A(1) mty(1) A(2) p0 oA(1,2)]) (rule that)
  let ?A1 = "oA\<lparr>ov_pendingMsg := ov_pendingMsg oA @ [(?m, io)], ov_sent := ov_sent oA @ [(siB, p1)]\<rparr>"
  obtain p2 where p2: "mp_Unwrap io p2 = Ret (None, empty_info\<lparr>om_TreeMarshal := Some tm\<rparr>)"
    and s2: "Process EB siA (mtype p1) p1 oB = (Ret (), oB\<lparr>ov_sent := ov_sent oB @ [(siA, p2)]\<rparr>)"
    by (rule answer_tree [OF B(1) mty(2) B(2) p1 oB(1) tm(1)]) (rule that)
  let ?B1 = "oB\<lparr>ov_sent := ov_sent oB @ [(siA, p2)]\<rparr>"
  have a1: "uses_proxy io ?A1" and b1: "uses_proxy io ?B1" using A(1) B(1) by (simp_all add: uses_proxy_def)
  obtain p3 where p3: "mp_Unwrap io p3 = Ret (None, empty_info\<lparr>om_RequestRoster := Some (tm_RosterID tm)\<rparr>)"
    and s3: "Process EA siB (mtype p2) p2 ?A1 = (Ret (), ?A1\<lparr>ov_sent := ov_sent ?A1 @ [(siB, p3)],
      ov_pendingTreeMarshal := (ov_pendingTreeMarshal ?A1)(tm_RosterID tm \<mapsto> [tm])\<rparr>)"
    by (rule ask_for_roster [OF a1 mty(1) A(2) p2 tm(3), where si = siB]) (use oA(3-5) that in simp_all)
  let ?A2 = "?A1\<lparr>ov_sent := ov_sent ?A1 @ [(siB, p3)], ov_pendingTreeMarshal := (ov_pendingTreeMarshal ?A1)(tm_RosterID tm \<mapsto> [tm])\<rparr>"
  have a2: "uses_proxy io ?A2" and e: "ov_entityLists ?B1 (tm_RosterID tm) = Some el" using A(1) oB(2) by (simp_all add: uses_proxy_def)
  obtain p4 where p4: "mp_Unwrap io p4 = Ret (None, empty_info\<lparr>om_Roster := Some el\<rparr>)"
    and s4: "Process EB siA (mtype p3) p3 ?B1 = (Ret (), ?B1\<lparr>ov_sent := ov_sent ?B1 @ [(siA, p4)]\<rparr>)"
    by (rule answer_roster [OF b1 mty(2) B(2) p3 e]) (rule that)
  have s5: "Process EA siB (mtype p4) p4 ?A2 = (Ret (), (RegisterTree t (RegisterRoster el ?A2\<lparr>ov_pendingTreeLock := True\<rparr>))\<lparr>ov_pendingTreeLock := False\<rparr>)"
    by (rule take_roster [OF a2 mty(1) p4 tm(5) _ _ tm(2)]) (use oA(4) tm(4) in simp_all)
  show thesis
    by (rule that [OF s1 _ s2 _ s3 _ s4 _ s5]) (simp_all add: tm(4) RegisterTree_def RegisterRoster_def)
qed

end

interpretation default_io: message_proxy "defaultProtoIO C" C for C
proof
  show "mp_Unwrap (defaultProtoIO C) p = Ret (Some m, empty_info\<lparr>om_TreeNodeInfo := Some ti\<rparr>)"
    if "\<And>b. co_Marshal C m = Ret b \<Longrightarrow> co_Unmarshal C b = Ret m"
      "mp_Wrap (defaultProtoIO C) (Some m) (empty_info\<lparr>om_TreeNodeInfo := Some ti\<rparr>) = Ret p" for m p ti
    using default_roundtrip [OF that(1)] that(2) by (simp add: defaultProtoIO_def)
qed (simp_all add: defaultProtoIO_def default_Wrap_def default_Unwrap_def empty_info_def)

section \<open>The message reaches a new instance\<close>

text \<open>The protocol of the token can be instantiated.\<close>

definition can_instantiate :: "('p, 'm) ovenv \<Rightarrow> Token \<Rightarrow> bool" where
  "can_instantiate E to \<longleftrightarrow> (\<forall>c nd. \<exists>a nd'.
    newProtocol (oe_newV3 E) (oe_services E) (oe_protocols E) to c nd = (Ret (Some a), nd'))"

lemma RegisterProtocolInstance_new:
  assumes "nd_Token (ov_heap ov ! a) = to" and "ov_instances ov (tokenID E to) = Some a" and "a < length (ov_heap ov)"
    and "\<not> tni_bound (nd_tni (ov_heap ov ! a))"
  obtains ov' where "RegisterProtocolInstance E a ov = (Ret (), ov')" "ov_protocolInstances ov' (tokenID E to) = Some a"
    "length (ov_heap ov') = length (ov_heap ov)"
    "tni_dispatchQueue (nd_tni (ov_heap ov' ! a)) = tni_dispatchQueue (nd_tni (ov_heap ov ! a))"
  using assms by (simp add: RegisterProtocolInstance_def Let_def set_tni_def)

lemma create_instance_new:
  assumes "ctors_ok E" and "heap_ok E ov" and "TreeNodeFromToken (Some to) ov = (Ret tn, ov1)" and "can_instantiate E to"
  obtains a ov' where "create_instance E to io ov = (Ret (Some a), ov')" "a < length (ov_heap ov')"
    "ov_protocolInstances ov' (tokenID E to) = Some a" "tni_dispatchQueue (nd_tni (ov_heap ov' ! a)) = []"
proof -
  obtain a ov2 where n: "newTreeNodeInstanceFromToken E tn to io ov1 = (a, ov2)" by force
  obtain c ov3 where c: "getConfig (tokenID E to) ov2 = (c, ov3)" by force
  obtain pi nd where p: "newProtocol (oe_newV3 E) (oe_services E) (oe_protocols E) to c (ov_heap ov3 ! a) = (Ret (Some pi), nd)"
    using assms(4) unfolding can_instantiate_def by blast
  note k = constructed_ok [OF assms(1-3) n c p]
  let ?ov = "ov3\<lparr>ov_heap := (ov_heap ov3)[a := nd]\<rparr>"
  have f: "ov_instances ov3 (tokenID E to) = Some a" "\<not> tni_bound (nd_tni (ov_heap ov3 ! a))"
      "tni_dispatchQueue (nd_tni (ov_heap ov3 ! a)) = []"
    using n c by (auto simp: newTreeNodeInstanceFromToken_def getConfig_def Let_def newTreeNodeInstance_def)
  have pi: "pi = a" using k(2,4) by (simp add: ctor_post_def)
  have "nd_Token (ov_heap ?ov ! a) = to" "ov_instances ?ov (tokenID E to) = Some a" "a < length (ov_heap ?ov)"
      "\<not> tni_bound (nd_tni (ov_heap ?ov ! a))" "tni_dispatchQueue (nd_tni (ov_heap ?ov ! a)) = []"
    using k(2,3,5) f by (auto simp: ctor_post_def)
  with RegisterProtocolInstance_new obtain ov' where r: "RegisterProtocolInstance E a ?ov = (Ret (), ov')"
    "ov_protocolInstances ov' (tokenID E to) = Some a" "a < length (ov_heap ov')"
    "tni_dispatchQueue (nd_tni (ov_heap ov' ! a)) = []" by metis
  have "create_instance E to io ov = (Ret (Some a), ov')"
    using assms(3) n c p r(1) pi by (simp add: create_instance_def)
  with that r(2-4) show thesis by blast
qed

text \<open>The message as it stands in the queue of the instance.\<close>

definition queued :: "('p, 'm) OnetMsg \<Rightarrow> Token \<Rightarrow> 'm option ProtocolMsg" where
  "queued m frm = \<lparr>pm_From = tok_TreeNodeID frm, pm_MsgType = on_MsgType m, pm_Msg = on_Msg m\<rparr>"

lemma TransmitMsg_new:
  assumes "ctors_ok E" and "heap_ok E ov" and "on_To m = Some to" and "on_From m = Some frm"
    and "ov_trees ov (tok_TreeID to) = Some t" and "loc_Search t (tok_TreeNodeID to) = Ret (Some l)"
    and "ov_cache ov (tok_TreeID to) = None" and "tokenID E to \<notin> ov_done ov"
    and "ov_protocolInstances ov (tokenID E to) = None" and "can_instantiate E to"
  obtains a ov' where "TransmitMsg E m io ov = (Ret (), ov')" "ov_protocolInstances ov' (tokenID E to) = Some a"
    "tni_dispatchQueue (nd_tni (ov_heap ov' ! a)) = [queued m frm]"
proof -
  have "TreeNodeFromToken (Some to) ov = (Ret l, ov\<lparr>ov_cache := Cache t l (ov_cache ov)\<rparr>)"
    using assms(5-7) by (simp add: TreeNodeFromToken_def GetFromToken_def)
  from create_instance_new [OF assms(1,2) this assms(10), of io]
  obtain a ov1 where c: "create_instance E to io ov = (Ret (Some a), ov1)" "a < length (ov_heap ov1)"
    "ov_protocolInstances ov1 (tokenID E to) = Some a" "tni_dispatchQueue (nd_tni (ov_heap ov1 ! a)) = []" by blast
  have "TransmitMsg E m io ov = (Ret (), set_tni a (ProcessProtocolMsg (queued m frm)) ov1)"
    using assms c by (simp add: TransmitMsg_def act_bind_def pass_to_def queued_def)
  moreover have "tni_dispatchQueue (nd_tni (ov_heap (set_tni a (ProcessProtocolMsg (queued m frm)) ov1) ! a)) = [queued m frm]"
    using c(2,4) by (simp add: set_tni_def Let_def ProcessProtocolMsg_def)
  ultimately show thesis using that c(3) by simp
qed

lemma check_loop_last:
  assumes "\<forall>p \<in> set ps. on_To (fst p) \<noteq> None \<and> \<not> for_tree t p" and "for_tree t (m, io)"
  shows "check_loop E t (ps @ [(m, io)]) np ov =
    act_bind (logged (TransmitMsg E m io)) (\<lambda>_ ov. (Ret (np @ ps), ov)) ov"
  using assms
proof (induction ps arbitrary: np)
  case Nil
  then show ?case by (auto simp: for_tree_def act_bind_def split: go.splits prod.splits)
next
  case (Cons p ps)
  then obtain m' io' to where "p = (m', io')" "on_To m' = Some to" "tree_ID t \<noteq> tok_TreeID to"
    by (cases p) (auto simp: for_tree_def)
  then show ?case using Cons by simp
qed

lemma check_delivers:
  assumes "ctors_ok E" and "heap_ok E ov" and "pending_ok ov" and "ov_pendingMsg ov = ps @ [(m, io)]"
    and "\<forall>p \<in> set ps. \<not> for_tree t p" and "on_To m = Some to" and "on_From m = Some frm" and "tree_ID t = tok_TreeID to"
    and "ov_trees ov (tok_TreeID to) = Some t" and "loc_Search t (tok_TreeNodeID to) = Ret (Some l)"
    and "ov_cache ov (tok_TreeID to) = None" and "tokenID E to \<notin> ov_done ov"
    and "ov_protocolInstances ov (tokenID E to) = None" and "can_instantiate E to"
  obtains a ov' where "checkPendingMessages E t ov = (Ret (), ov')" "ov_pendingMsg ov' = ps"
    "ov_protocolInstances ov' (tokenID E to) = Some a" "tni_dispatchQueue (nd_tni (ov_heap ov' ! a)) = [queued m frm]"
proof -
  let ?ov = "ov\<lparr>ov_pendingMsgLock := True\<rparr>"
  have h: "heap_ok E ?ov" using assms(2) by (simp add: heap_ok_def)
  obtain a ov1 where t: "TransmitMsg E m io ?ov = (Ret (), ov1)" "ov_protocolInstances ov1 (tokenID E to) = Some a"
    "tni_dispatchQueue (nd_tni (ov_heap ov1 ! a)) = [queued m frm]"
    by (rule TransmitMsg_new [OF assms(1) h assms(6,7), of t l io]) (use assms(9-14) in simp_all)
  have "for_tree t (m, io)" using assms(6,8) by (simp add: for_tree_def)
  moreover have "\<forall>p \<in> set ps. on_To (fst p) \<noteq> None \<and> \<not> for_tree t p"
    using assms(3-5) by (auto simp: pending_ok_def)
  ultimately have "check_loop E t (ov_pendingMsg ov) [] ?ov = (Ret ps, ov1)"
    unfolding assms(4) by (subst check_loop_last) (auto simp: act_bind_def logged_def t(1))
  from checkPendingMessages_eq [OF _ this] assms(3)
  have "checkPendingMessages E t ov = (Ret (), ov1\<lparr>ov_pendingMsg := ps, ov_pendingMsgLock := False\<rparr>)"
    by (simp add: pending_ok_def)
  with that t(2,3) show thesis by simp
qed

section \<open>From an unknown tree to a delivered message\<close>

lemma generated_marshal:
  assumes "GenerateNaryTree v5 us ids el N = Ret t" and "0 < N" and "ro_List el \<noteq> []" and "distinct (map si_ID (ro_List el))"
  obtains tm where "MakeTreeMarshal t = Ret tm" "MakeTree tm el = Ret t" "tm_TreeID tm = tree_ID t" "tm_RosterID tm = ro_ID el"
proof -
  obtain n t' where n: "addNary ids el N 0 (int (length (ro_List el)) - 1) = Some n"
    and t': "GenerateNaryTree v5 us ids el N = Ret t'" and wf: "node_wf el n"
    using GenerateNaryTree_root [OF assms(2,3), of ids v5 us] by metis
  then have "NewTree v5 us el (Some n) = Ret t" using assms(1) by (simp add: GenerateNaryTree_def)
  from MakeTree_MakeTreeMarshal [OF this wf assms(4)] obtain tm where tm: "MakeTreeMarshal t = Ret tm" "MakeTree tm el = Ret t"
    by (auto simp: go_bind_eq_Ret)
  then have "tm_TreeID tm = tree_ID t" "tm_RosterID tm = ro_ID el"
    by (auto simp: MakeTree_def go_bind_eq_Ret split: if_splits)
  with that tm show thesis by blast
qed

text \<open>
  The receiver: it knows neither the tree nor the roster, nothing else waits for them, and
  the instance the message is for was neither created nor finished before.
\<close>

definition new_to :: "('p :: ab_group_add, 'm) ovenv \<Rightarrow> 'p Roster \<Rightarrow> 'p Tree \<Rightarrow> Token \<Rightarrow> ('p, 'm) Overlay \<Rightarrow> bool" where
  "new_to E el t to ov \<longleftrightarrow> ov_trees ov (tree_ID t) = None \<and> ov_entityLists ov (ro_ID el) = None \<and>
    ov_pendingTreeMarshal ov (ro_ID el) = None \<and> \<not> ov_pendingTreeLock ov \<and>
    (\<forall>p \<in> set (ov_pendingMsg ov). \<not> for_tree t p) \<and> ov_cache ov (tree_ID t) = None \<and>
    tokenID E to \<notin> ov_done ov \<and> ov_protocolInstances ov (tokenID E to) = None \<and> heap_ok E ov \<and> pending_ok ov"

text \<open>The five packets of the exchange and the states of the two overlays, from each to the next.\<close>

definition tree_exchange ::
  "('p :: ab_group_add, 'm) ovenv \<Rightarrow> ('p, 'm) ovenv \<Rightarrow> 'p ServerIdentity \<Rightarrow> 'p ServerIdentity \<Rightarrow>
    (('p, 'm) packet \<Rightarrow> MessageTypeID) \<Rightarrow> ('p, 'm) packet \<Rightarrow> 'p Tree \<Rightarrow>
    ('p, 'm) Overlay \<Rightarrow> ('p, 'm) Overlay \<Rightarrow> ('p, 'm) Overlay \<Rightarrow> bool" where
  "tree_exchange EA EB siA siB mtype p0 t oA oB oA' \<longleftrightarrow> (\<exists>p1 oA1 p2 oB1 p3 oA2 p4 oB2 oA3.
    Process EA siB (mtype p0) p0 oA = (Ret (), oA1) \<and> ov_sent oA1 = ov_sent oA @ [(siB, p1)] \<and>
    Process EB siA (mtype p1) p1 oB = (Ret (), oB1) \<and> ov_sent oB1 = ov_sent oB @ [(siA, p2)] \<and>
    Process EA siB (mtype p2) p2 oA1 = (Ret (), oA2) \<and> ov_sent oA2 = ov_sent oA1 @ [(siB, p3)] \<and>
    Process EB siA (mtype p3) p3 oB1 = (Ret (), oB2) \<and> ov_sent oB2 = ov_sent oB1 @ [(siA, p4)] \<and>
    Process EA siB (mtype p4) p4 oA2 = (Ret (), oA3) \<and> ov_checks oA3 = ov_checks oA @ [t] \<and>
    checkPendingMessages EA t oA3 = (Ret (), oA'))"

text \<open>C7: 
  A message for an unknown tree is delivered. A server sends a message of a protocol that runs
  on a generated tree; the receiver knows neither the tree nor its roster. It answers with a
  request for the tree; the sender answers with the tree; the receiver asks for the
  roster; the sender answers with the roster; and when the check that the new tree starts has
  run, the receiver has a new protocol instance for the token with exactly this message in its
  queue, and the messages that wait for other trees still wait.
\<close>
theorem unknown_tree_message_delivered:
  assumes tree: "GenerateNaryTree v5 us ids el N = Ret t" "0 < N" "ro_List el \<noteq> []" "distinct (map si_ID (ro_List el))"
      "ro_ID el \<noteq> 0" "tree_ID t \<noteq> 0"
    and sender: "uses_proxy (defaultProtoIO C) oB" "ov_trees oB (tree_ID t) = Some t" "ov_entityLists oB (ro_ID el) = Some el"
    and receiver: "uses_proxy (defaultProtoIO C) oA" "new_to EA el t to oA" "ctors_ok EA" "can_instantiate EA to"
    and net: "oe_sendErr EA = (\<lambda>_ _ _. None)" "oe_sendErr EB = (\<lambda>_ _ _. None)"
      "\<forall>p. mtype p \<noteq> oe_ConfigMsgID EA \<and> mtype p \<noteq> oe_ConfigMsgID EB"
    and msg: "co_Marshal C m = Ret b" "co_Unmarshal C b = Ret m" "tok_TreeID to = tree_ID t"
      "loc_Search t (tok_TreeNodeID to) = Ret (Some l)"
      "mp_Wrap (defaultProtoIO C) (Some m) (empty_info\<lparr>om_TreeNodeInfo := Some \<lparr>ti_To = Some to, ti_From = Some frm\<rparr>\<rparr>) = Ret p0"
  shows "\<exists>oA' a. tree_exchange EA EB siA siB mtype p0 t oA oB oA' \<and> ov_protocolInstances oA' (tokenID EA to) = Some a \<and>
    tni_dispatchQueue (nd_tni (ov_heap oA' ! a)) =
      [\<lparr>pm_From = tok_TreeNodeID frm, pm_MsgType = co_MessageType (oe_codec EA) m, pm_Msg = Some m\<rparr>] \<and>
    ov_pendingMsg oA' = ov_pendingMsg oA"
proof -
  obtain tm where tm: "MakeTreeMarshal t = Ret tm" "MakeTree tm el = Ret t" "tm_TreeID tm = tree_ID t" "tm_RosterID tm = ro_ID el"
    by (rule generated_marshal [OF tree(1-4)])
  let ?io = "defaultProtoIO C :: ('a, 'b) MessageProxy"
  note new = receiver(2) [unfolded new_to_def]
  have u0: "mp_Unwrap ?io p0 = Ret (Some m, empty_info\<lparr>om_TreeNodeInfo := Some \<lparr>ti_To = Some to, ti_From = Some frm\<rparr>\<rparr>)"
    by (rule default_io.wrap_msg [OF _ msg(5)]) (use msg(1,2) in simp)
  have mty: "\<And>p. mtype p \<noteq> oe_ConfigMsgID EA" "\<And>p. mtype p \<noteq> oe_ConfigMsgID EB" using net(3) by auto
  have oA: "ov_trees oA (tok_TreeID to) = None" "\<not> ov_pendingMsgLock oA" "ov_entityLists oA (tm_RosterID tm) = None"
    "\<not> ov_pendingTreeLock oA" "ov_pendingTreeMarshal oA (tm_RosterID tm) = None" "tm_TreeID tm \<noteq> 0"
    using new msg(3) tm(3,4) tree(6) by (simp_all add: pending_ok_def)
  have oB: "ov_trees oB (tok_TreeID to) = Some t" "ov_entityLists oB (tm_RosterID tm) = Some el"
    using sender msg(3) tm(4) by simp_all
  obtain p1 p2 p3 p4 oA1 oA2 oB1 oB2 oA3 where run:
    "Process EA siB (mtype p0) p0 oA = (Ret (), oA1)" "ov_sent oA1 = ov_sent oA @ [(siB, p1)]"
    "Process EB siA (mtype p1) p1 oB = (Ret (), oB1)" "ov_sent oB1 = ov_sent oB @ [(siA, p2)]"
    "Process EA siB (mtype p2) p2 oA1 = (Ret (), oA2)" "ov_sent oA2 = ov_sent oA1 @ [(siB, p3)]"
    "Process EB siA (mtype p3) p3 oB1 = (Ret (), oB2)" "ov_sent oB2 = ov_sent oB1 @ [(siA, p4)]"
    "Process EA siB (mtype p4) p4 oA2 = (Ret (), oA3)"
    and oA3: "oA3 = oA\<lparr>ov_trees := (ov_trees oA)(tree_ID t \<mapsto> t), ov_entityLists := (ov_entityLists oA)(ro_ID el \<mapsto> el),
      ov_checks := ov_checks oA @ [t], ov_sent := ov_sent oA @ [(siB, p1), (siB, p3)],
      ov_pendingTreeMarshal := (ov_pendingTreeMarshal oA)(ro_ID el \<mapsto> [tm]), ov_pendingTreeLock := False,
      ov_pendingMsg := ov_pendingMsg oA @ [(\<lparr>on_From = Some frm, on_To = Some to, on_SI = siB,
        on_MsgType = co_MessageType (oe_codec EA) m, on_Msg = Some m\<rparr>, ?io)]\<rparr>"
    by (rule default_io.fetch_tree [OF receiver(1) net(1) sender(1) net(2) mty oB tm(1,2) oA(6) tm(4) tree(5) oA(1-5) u0]) (rule that)
  have ok: "heap_ok EA oA3" "pending_ok oA3" using new by (auto simp: heap_ok_def pending_ok_def oA3)
  obtain a oA' where f: "checkPendingMessages EA t oA3 = (Ret (), oA')" "ov_pendingMsg oA' = ov_pendingMsg oA"
    "ov_protocolInstances oA' (tokenID EA to) = Some a" "tni_dispatchQueue (nd_tni (ov_heap oA' ! a)) = [queued
      \<lparr>on_From = Some frm, on_To = Some to, on_SI = siB, on_MsgType = co_MessageType (oe_codec EA) m, on_Msg = Some m\<rparr> frm]"
    by (rule check_delivers [OF receiver(3) ok, where to = to and frm = frm and l = l and t = t])
      ((rule that; assumption) | (use new msg(3,4) receiver(4) in \<open>simp add: oA3\<close>))+
  have "ov_checks oA3 = ov_checks oA @ [t]" using oA3 by simp
  with run f(1) have "tree_exchange EA EB siA siB mtype p0 t oA oB oA'" unfolding tree_exchange_def by blast
  with f(2-4) show ?thesis unfolding queued_def by auto
qed

section \<open>An example\<close>

text \<open>Two servers, a tree of two nodes, one protocol; messages are numbers below 256.\<close>

definition ex_el :: "int Roster" where
  "ex_el = \<lparr>ro_ID = 5, ro_List = [ex_si 1, ex_si 2], ro_Aggregate = 3\<rparr>"

definition ex_tree :: "int Tree" where
  "ex_tree = \<lparr>tree_ID = 9, tree_Roster = Some ex_el, tree_Root = Some
    (TreeNode 1 (Some (ex_si 1)) 0 [TreeNode 2 (Some (ex_si 2)) 1 [] 2] 3)\<rparr>"

definition ex_codec :: "nat codec" where
  "ex_codec = \<lparr>co_Marshal = (\<lambda>m. if m < 256 then Ret [word_of_nat m] else Err ''too large''),
    co_Unmarshal = (\<lambda>b. case b of [w] \<Rightarrow> Ret (unat w) | _ \<Rightarrow> Err ''bad message''), co_MessageType = (\<lambda>_. 7)\<rparr>"

definition ex_ov_env :: "(int, nat) ovenv" where
  "ex_ov_env = \<lparr>oe_newV5 = (\<lambda>_. 4), oe_newV3 = (\<lambda>_. 3), oe_uuidString = (\<lambda>_. []), oe_ConfigMsgID = 99,
    oe_codec = ex_codec, oe_services = Map.empty, oe_protocols = [(''p'', \<lambda>n. (Ret (Some (nd_addr n)), n))],
    oe_sendErr = (\<lambda>_ _ _. None), oe_shutdown = (\<lambda>_. None)\<rparr>"

definition ex_tok :: "uuid \<Rightarrow> Token" where
  "ex_tok i = \<lparr>tok_RosterID = 5, tok_TreeID = 9, tok_ProtoID = 3, tok_ServiceID = 0, tok_RoundID = 8,
    tok_TreeNodeID = i, tok_cacheID = 0\<rparr>"

abbreviation ex_ov0 :: "(int, nat) Overlay" where
  "ex_ov0 \<equiv> NewOverlay ex_codec []"

definition ex_ovB :: "(int, nat) Overlay" where
  "ex_ovB = RegisterRoster ex_el (RegisterTree ex_tree ex_ov0)"

lemma ex_tree_generated: "GenerateNaryTree (\<lambda>_. 9) (\<lambda>_. []) (\<lambda>i. word_of_int (i + 1)) ex_el 1 = Ret ex_tree"
  by (simp add: GenerateNaryTree_def NewTree_def ex_el_def ex_tree_def addNary.simps ex_si_def)

lemma ex_ctors: "ctors_ok ex_ov_env"
  by (auto simp: ctors_ok_def ctor_post_def ex_ov_env_def)

lemma ex_can_instantiate: "can_instantiate ex_ov_env (ex_tok i)"
  by (simp add: can_instantiate_def newProtocol_def protocolInstantiate_def ProtocolIDToName_def ProtocolNameToID_def
      ex_ov_env_def ex_tok_def)

theorem unknown_tree_message_delivered_witness:
  "\<exists>oA' a p0. tree_exchange ex_ov_env ex_ov_env (ex_si 2) (ex_si 1) (\<lambda>_. 1) p0 ex_tree ex_ov0 ex_ovB oA' \<and>
    tni_dispatchQueue (nd_tni (ov_heap oA' ! a)) = [\<lparr>pm_From = 1, pm_MsgType = 7, pm_Msg = Some 42\<rparr>] \<and> ov_pendingMsg oA' = []"
proof -
  obtain p0 :: "(int, nat) packet" where p0: "mp_Wrap (defaultProtoIO ex_codec) (Some 42)
      (empty_info\<lparr>om_TreeNodeInfo := Some \<lparr>ti_To = Some (ex_tok 2), ti_From = Some (ex_tok 1)\<rparr>\<rparr>) = Ret p0"
    by (simp add: defaultProtoIO_def default_Wrap_def ex_codec_def empty_info_def)
  have l: "loc_Search ex_tree (tok_TreeNodeID (ex_tok 2)) = Ret (Some (TreeNode 2 (Some (ex_si 2)) 1 [] 2,
      [TreeNode 1 (Some (ex_si 1)) 0 [TreeNode 2 (Some (ex_si 2)) 1 [] 2] 3]))"
    by (simp add: loc_Search_def ex_tree_def ex_tok_def)
  have a: "uses_proxy (defaultProtoIO ex_codec) ex_ov0" "uses_proxy (defaultProtoIO ex_codec) ex_ovB"
    by (simp_all add: uses_proxy_def NewOverlay_def newMessageProxyStore_def ex_ovB_def RegisterRoster_def RegisterTree_def)
  have b: "new_to ex_ov_env ex_el ex_tree (ex_tok 2) ex_ov0"
    by (simp add: new_to_def NewOverlay_def NewTreeNodeCache_def heap_ok_def pending_ok_def)
  have c: "co_Marshal ex_codec 42 = Ret [42]" "co_Unmarshal ex_codec [42] = Ret 42"
    by (simp_all add: ex_codec_def)
  have "\<exists>oA' a. tree_exchange ex_ov_env ex_ov_env (ex_si 2) (ex_si 1) (\<lambda>_. 1) p0 ex_tree ex_ov0 ex_ovB oA' \<and>
      ov_protocolInstances oA' (tokenID ex_ov_env (ex_tok 2)) = Some a \<and>
      tni_dispatchQueue (nd_tni (ov_heap oA' ! a)) =
        [\<lparr>pm_From = tok_TreeNodeID (ex_tok 1), pm_MsgType = co_MessageType (oe_codec ex_ov_env) 42, pm_Msg = Some 42\<rparr>] \<and>
      ov_pendingMsg oA' = ov_pendingMsg ex_ov0"
    by (rule unknown_tree_message_delivered [OF ex_tree_generated _ _ _ _ _ a(2) _ _ a(1) b ex_ctors ex_can_instantiate _ _ _ c _ l p0])
      (simp_all add: ex_el_def ex_tree_def ex_ovB_def RegisterRoster_def RegisterTree_def ex_ov_env_def ex_tok_def ex_si_def)
  then obtain oA' a where f: "tree_exchange ex_ov_env ex_ov_env (ex_si 2) (ex_si 1) (\<lambda>_. 1) p0 ex_tree ex_ov0 ex_ovB oA'"
      "tni_dispatchQueue (nd_tni (ov_heap oA' ! a)) =
        [\<lparr>pm_From = tok_TreeNodeID (ex_tok 1), pm_MsgType = co_MessageType (oe_codec ex_ov_env) 42, pm_Msg = Some 42\<rparr>]"
      "ov_pendingMsg oA' = ov_pendingMsg ex_ov0" by blast
  from f(2,3) have "tni_dispatchQueue (nd_tni (ov_heap oA' ! a)) = [\<lparr>pm_From = 1, pm_MsgType = 7, pm_Msg = Some 42\<rparr>]"
      "ov_pendingMsg oA' = []"
    by (simp_all add: ex_tok_def ex_ov_env_def ex_codec_def NewOverlay_def)
  with f(1) show ?thesis by blast
qed

text \<open>The states after a protocol was created at the root of the tree.\<close>

definition ex_ov1 :: "(int, nat) Overlay" where
  "ex_ov1 = snd (Overlay_CreateProtocol ex_ov_env 8 ''p'' ex_tree 0 ex_ov0)"

lemma ex_created: "Overlay_CreateProtocol ex_ov_env 8 ''p'' ex_tree 0 ex_ov0 = (Ret 0, ex_ov1)"
  by (simp add: ex_ov1_def Overlay_CreateProtocol_def NewTreeNodeInstanceFromService_def newTreeNodeInstanceFromToken_def
      tree_root_loc_def ex_tree_def act_bind_def act_go_def protocolInstantiate_def ProtocolIDToName_def ProtocolNameToID_def
      RegisterProtocolInstance_def RegisterRoster_def RegisterTree_def NewOverlay_def ex_ov_env_def set_tni_def tokenID_def
      Token_ID_def newTreeNodeInstance_def Let_def loc_Parent_def)

lemma ex_ov1_facts: "ov_checks ex_ov1 = [ex_tree]" "ov_pendingMsg ex_ov1 = []" "ov_trees ex_ov1 9 = Some ex_tree"
    "ov_instances ex_ov1 4 = Some 0" "\<not> ov_pendingMsgLock ex_ov1"
  by (simp_all add: ex_ov1_def Overlay_CreateProtocol_def NewTreeNodeInstanceFromService_def newTreeNodeInstanceFromToken_def
      tree_root_loc_def ex_tree_def act_bind_def act_go_def protocolInstantiate_def ProtocolIDToName_def ProtocolNameToID_def
      RegisterProtocolInstance_def RegisterRoster_def RegisterTree_def NewOverlay_def ex_ov_env_def set_tni_def tokenID_def
      Token_ID_def newTreeNodeInstance_def Let_def loc_Parent_def)

lemma ex_reachable: "ov_reachable ex_ov_env ex_ov1"
proof -
  have "ov_step ex_ov_env ex_ov0 ex_ov1" by (rule ov_step.create [OF ex_created]) simp
  moreover have "oe_codec ex_ov_env = ex_codec" by (simp add: ex_ov_env_def)
  ultimately show ?thesis by auto
qed


theorem finished_instance_ignored_witness:
  "TransmitMsg ex_ov_env \<lparr>on_From = None, on_To = Some (ex_tok 1), on_SI = ex_si 2, on_MsgType = 7, on_Msg = Some 1\<rparr>
      (defaultProtoIO ex_codec) (nodeDone ex_ov_env (ex_tok 1) ex_ov1) = (Ret (), nodeDone ex_ov_env (ex_tok 1) ex_ov1)"
proof (rule finished_instance_ignored [where tok = "ex_tok 1" and ov = ex_ov1])
  have i: "tokenID ex_ov_env (ex_tok 1) = 4" by (simp add: tokenID_def Token_ID_def ex_tok_def ex_ov_env_def)
  then show "ov_instances ex_ov1 (tokenID ex_ov_env (ex_tok 1)) \<noteq> None" using ex_ov1_facts by simp
  show "ov_trees (nodeDone ex_ov_env (ex_tok 1) ex_ov1) (tok_TreeID (ex_tok 1)) \<noteq> None"
    using ex_ov1_facts i by (simp add: nodeDone_def nodeDelete_def Let_def set_tni_def ex_tok_def)
qed simp_all



end
