(* ===== verification/Net_Codec.thy ===== *)
theory Net_Codec
  imports Tcp Overlay_Run
begin

text \<open>
  The codec of the overlay, made of \<open>Marshal\<close>, \<open>Unmarshal\<close> and \<open>MessageType\<close> of
  \<open>network/encoding.go\<close>: what the theorems about the overlay ask of a codec holds of it.
\<close>

definition err_text :: "net_err \<Rightarrow> string" where
  "err_text e = (case e of NE t \<Rightarrow> t | ErrClosed \<Rightarrow> ''Connection Closed'' | ErrEOF \<Rightarrow> ''EOF'' | ErrCanceled \<Rightarrow> ''Operation Canceled''
    | ErrTimeout \<Rightarrow> ''Timeout Error'' | ErrUnknown \<Rightarrow> ''Unknown Error'' | NE_pb _ \<Rightarrow> ''protobuf'')"

definition net_codec :: "'o netenv \<Rightarrow> typeRegistry \<Rightarrow> 'o Message codec" where
  "net_codec N types =
    \<lparr>co_Marshal = (\<lambda>m. go_err err_text (Marshal N types m)),
     co_Unmarshal = (\<lambda>b. go_err err_text (go_bind (Unmarshal N types b) (\<lambda>(i, m). Ret m))),
     co_MessageType = (\<lambda>m. case MessageType N types m of Ret i \<Rightarrow> i | _ \<Rightarrow> ErrorType)\<rparr>"

lemma net_codec_back:
  assumes "sendable N types m"
  obtains b where "co_Marshal (net_codec N types) m = Ret b" "co_Unmarshal (net_codec N types) b = Ret m"
proof -
  obtain b where "Marshal N types m = Ret b" "Unmarshal N types b = Ret (with_id N m)"
    by (rule sendable_back [OF assms]) (rule that)
  then show thesis using that by (simp add: net_codec_def with_id_def)
qed

text \<open>
  A message of a protocol that the default proxy wraps with the codec of the network comes out of
  the proxy of the receiver, with its tokens.
\<close>

lemma default_proxy_over_network:
  assumes "sendable N types m"
  obtains p :: "('p :: ab_group_add, 'o Message) packet"
  where "mp_Wrap (defaultProtoIO (net_codec N types)) (Some m) (empty_info\<lparr>om_TreeNodeInfo := Some ti\<rparr>) = Ret p"
    and "mp_Unwrap (defaultProtoIO (net_codec N types)) p = Ret (Some m, empty_info\<lparr>om_TreeNodeInfo := Some ti\<rparr>)"
proof -
  obtain b where b: "co_Marshal (net_codec N types) m = Ret b" "co_Unmarshal (net_codec N types) b = Ret m"
    by (rule net_codec_back [OF assms])
  show thesis
  proof (rule that)
    let ?p = "PProtocolMsg \<lparr>pw_From = ti_From ti, pw_To = ti_To ti, pw_MsgType = co_MessageType (net_codec N types) m, pw_MsgSlice = b\<rparr>"
    show "mp_Wrap (defaultProtoIO (net_codec N types)) (Some m) (empty_info\<lparr>om_TreeNodeInfo := Some ti\<rparr>) = Ret ?p"
      by (simp add: defaultProtoIO_def default_Wrap_def b(1) empty_info_def deref_def Let_def)
    show "mp_Unwrap (defaultProtoIO (net_codec N types)) ?p = Ret (Some m, empty_info\<lparr>om_TreeNodeInfo := Some ti\<rparr>)"
      by (simp add: defaultProtoIO_def default_Unwrap_def b(2))
  qed
qed

end
