(* ===== verification/Dkg.thy ===== *)
theory Dkg
  imports Onchain Tree_Instance
begin

text \<open>
  \<open>protocol/dkg.go\<close> and \<open>protocol/dkg_struct.go\<close>: the set-up of the distributed key of the
  secret-management nodes, and \<open>CreateDKGs\<close> of \<open>protocol/onchain.go\<close>. The package
  \<open>share/dkg\<close> is outside the repository and is a record of functions; justifications and
  complaints appear by their printed form only.
\<close>

section \<open>The key-generation package and the messages\<close>

record ('p, 's, 'd, 'dl, 'rs, 'sc) dkg_lib =
  dk_New :: "'s \<Rightarrow> 'p option list \<Rightarrow> nat \<Rightarrow> int \<Rightarrow> (string, 'd) go"
  dk_Deals :: "'d \<Rightarrow> (string, (nat \<times> 'dl) list) go \<times> 'd"
  dk_ProcessDeal :: "'d \<Rightarrow> 'dl \<Rightarrow> (string, 'rs) go \<times> 'd"
  dk_ProcessResponse :: "'d \<Rightarrow> 'rs \<Rightarrow> (string, string option) go \<times> 'd"
  dk_SecretCommits :: "'d \<Rightarrow> (string, 'sc) go \<times> 'd"
  dk_ProcessSecretCommits :: "'d \<Rightarrow> 'sc \<Rightarrow> (string, string option) go \<times> 'd"
  dk_Finished :: "'d \<Rightarrow> bool"
  dk_DistKeyShare :: "'d \<Rightarrow> (string, 's \<times> 'p) go"
  dk_Index :: "'d \<Rightarrow> int"

datatype ('p, 'dl, 'rs, 'sc) dkg_msg =
    Init bool
  | InitReply 'p
  | StartDeal "'p option list" "32 word"
  | Deal 'dl
  | Response 'rs
  | SecretCommit 'sc
  | WaitSetup
  | WaitReply

text \<open>\<open>NewSharedSecret\<close>: what a node keeps of a finished key generation.\<close>

definition NewSharedSecret ::
  "('p, 's, 'd, 'dl, 'rs, 'sc) dkg_lib \<Rightarrow> 'd option \<Rightarrow> (string, ('p, 's) SharedSecret) go" where
  "NewSharedSecret L dkg =
    (case dkg of
       None \<Rightarrow> Err ''no valid dkg given''
     | Some d \<Rightarrow>
         if \<not> dk_Finished L d then Err ''dkg is not finished yet''
         else go_bind (dk_DistKeyShare L d) (\<lambda>(v, x). Ret \<lparr>ss_Index = dk_Index L d, ss_V = v, ss_X = x\<rparr>))"

section \<open>State\<close>

text \<open>
  \<open>SetupDKG\<close>: \<open>sd_publics\<close> holds nil until a key is known, \<open>sd_Done\<close> counts what is in the channel
  \<open>Done\<close>. The nodes are the ids of the tree nodes in the order of \<open>List\<close>.
\<close>

record ('p, 's, 'd, 'dl, 'rs, 'sc) SetupDKG =
  sd_tni :: "('p, ('p, 'dl, 'rs, 'sc) dkg_msg) TreeNodeInstance"
  sd_DKG :: "'d option"
  sd_Threshold :: "32 word"
  sd_nodes :: "uuid list"
  sd_keypair :: "'s \<times> 'p"
  sd_publics :: "'p option list"
  sd_commit :: bool
  sd_Wait :: bool
  sd_Done :: nat

text \<open>\<open>NewSetupDKG\<close>; the registration of the handlers and channels of fixed types succeeds.\<close>

definition NewSetupDKG ::
  "'s \<times> 'p \<Rightarrow> uuid list \<Rightarrow> ('p, ('p, 'dl, 'rs, 'sc) dkg_msg) TreeNodeInstance \<Rightarrow> ('p, 's, 'd, 'dl, 'rs, 'sc) SetupDKG" where
  "NewSetupDKG keypair nodes n =
    \<lparr>sd_tni = n, sd_DKG = None, sd_Threshold = 2, sd_nodes = nodes, sd_keypair = keypair,
     sd_publics = replicate (length nodes) None, sd_commit = False, sd_Wait = False, sd_Done = 0\<rparr>"

text \<open>
  The handlers act on the state of the node and on the network, which \<open>send\<close> (\<open>SendToTreeNode\<close>)
  changes and which may refuse a message.
\<close>

type_synonym ('p, 'dl, 'rs, 'sc, 'w) sender =
  "uuid \<Rightarrow> ('p, 'dl, 'rs, 'sc) dkg_msg \<Rightarrow> bytes option \<Rightarrow> 'w \<Rightarrow> string option \<times> 'w"

type_synonym ('p, 's, 'd, 'dl, 'rs, 'sc, 'w) dkg_act =
  "(('p, 's, 'd, 'dl, 'rs, 'sc) SetupDKG \<times> 'w, string, unit) act"

definition lift_send ::
  "(('p, ('p, 'dl, 'rs, 'sc) dkg_msg) TreeNodeInstance \<Rightarrow> 'w \<Rightarrow>
      string option \<times> ('p, ('p, 'dl, 'rs, 'sc) dkg_msg) TreeNodeInstance \<times> 'w) \<Rightarrow>
    ('p, 's, 'd, 'dl, 'rs, 'sc, 'w) dkg_act" where
  "lift_send f st =
    (case f (sd_tni (fst st)) (snd st) of
       (err, n, w) \<Rightarrow> ((case err of None \<Rightarrow> Ret () | Some e \<Rightarrow> Err e), ((fst st)\<lparr>sd_tni := n\<rparr>, w)))"

definition fullBroadcast ::
  "('p, 'dl, 'rs, 'sc, 'w) sender \<Rightarrow> ('p, 'dl, 'rs, 'sc) dkg_msg \<Rightarrow> ('p, 's, 'd, 'dl, 'rs, 'sc, 'w) dkg_act" where
  "fullBroadcast send msg st = lift_send (Multicast send msg (sd_nodes (fst st))) st"

definition DKG_Start ::
  "('p, 'dl, 'rs, 'sc, 'w) sender \<Rightarrow> ('p, 's, 'd, 'dl, 'rs, 'sc, 'w) dkg_act" where
  "DKG_Start send st = lift_send (Broadcast send (sd_nodes (fst st)) (Init (sd_Wait (fst st)))) st"

section \<open>Handlers\<close>

definition childInit ::
  "('p, 'dl, 'rs, 'sc, 'w) sender \<Rightarrow> bool \<Rightarrow> ('p, 's, 'd, 'dl, 'rs, 'sc, 'w) dkg_act" where
  "childInit send wait st =
    (let st = ((fst st)\<lparr>sd_Wait := wait\<rparr>, snd st) in
     lift_send (SendToParent send (InitReply (snd (sd_keypair (fst st))))) st)"

text \<open>
  \<open>rootStartDeal\<close>: the replies with the server id of their sender. The root's key goes to the
  first place, the others to the index of the sender in the roster.
\<close>

fun place_publics ::
  "'q Roster \<Rightarrow> (uuid \<times> 'p) list \<Rightarrow> 'p option list \<Rightarrow> (string, unit) go \<times> 'p option list" where
  "place_publics el [] publics = (Ret (), publics)"
| "place_publics el ((sid, pub) # replies) publics =
    (let index = fst (Roster_Search el sid) in
     if index < 0 then (Err ''unknown serverIdentity'', publics)
     else
       (case (assign publics index (Some pub) :: (string, _) go) of
          Ret publics \<Rightarrow> place_publics el replies publics
        | _ \<Rightarrow> (Panic, publics)))"

definition rootStartDeal ::
  "('p, 'dl, 'rs, 'sc, 'w) sender \<Rightarrow> 'q Roster \<Rightarrow> (uuid \<times> 'p) list \<Rightarrow> ('p, 's, 'd, 'dl, 'rs, 'sc, 'w) dkg_act" where
  "rootStartDeal send el replies st =
    (case (assign (sd_publics (fst st)) 0 (Some (snd (sd_keypair (fst st)))) :: (string, _) go) of
       Ret publics \<Rightarrow>
         let (r, publics) = place_publics el replies publics;
             st = ((fst st)\<lparr>sd_publics := publics\<rparr>, snd st) in
         act_bind (act_go r) (\<lambda>_. fullBroadcast send (StartDeal publics (sd_Threshold (fst st)))) st
     | _ \<Rightarrow> (Panic, st))"

text \<open>\<open>allStartDeal\<close>; \<open>rnd\<close> is what the generator draws. The deals come in the order a range visits the map.\<close>

fun send_deals ::
  "('p, 'dl, 'rs, 'sc, 'w) sender \<Rightarrow> (nat \<times> 'dl) list \<Rightarrow> ('p, 's, 'd, 'dl, 'rs, 'sc, 'w) dkg_act" where
  "send_deals send [] st = (Ret (), st)"
| "send_deals send ((i, d) # deals) st =
    act_bind (act_go (index (sd_nodes (fst st)) (int i))) (\<lambda>node.
    act_bind (lift_send (SendTo send (Some node) (Deal d))) (\<lambda>_.
    send_deals send deals)) st"

definition allStartDeal ::
  "('p, 's, 'd, 'dl, 'rs, 'sc) dkg_lib \<Rightarrow> ('p, 'dl, 'rs, 'sc, 'w) sender \<Rightarrow> nat \<Rightarrow> 'p option list \<times> 32 word \<Rightarrow>
    ('p, 's, 'd, 'dl, 'rs, 'sc, 'w) dkg_act" where
  "allStartDeal L send rnd ssd st =
    (let (publics, threshold) = ssd in
     case dk_New L (fst (sd_keypair (fst st))) publics rnd (uint threshold) of
       Panic \<Rightarrow> (Panic, st)
     | Err e \<Rightarrow> (Err e, ((fst st)\<lparr>sd_DKG := None, sd_publics := publics\<rparr>, snd st))
     | Ret d \<Rightarrow>
         let (r, d) = dk_Deals L d;
             st = ((fst st)\<lparr>sd_DKG := Some d, sd_publics := publics\<rparr>, snd st) in
         act_bind (act_go r) (send_deals send) st)"

definition allDeal ::
  "('p, 's, 'd, 'dl, 'rs, 'sc) dkg_lib \<Rightarrow> ('p, 'dl, 'rs, 'sc, 'w) sender \<Rightarrow> 'dl \<Rightarrow> ('p, 's, 'd, 'dl, 'rs, 'sc, 'w) dkg_act" where
  "allDeal L send deal st =
    (case sd_DKG (fst st) of
       None \<Rightarrow> (Panic, st)
     | Some d \<Rightarrow>
         let (r, d) = dk_ProcessDeal L d deal;
             st = ((fst st)\<lparr>sd_DKG := Some d\<rparr>, snd st) in
         act_bind (act_go r) (\<lambda>resp. fullBroadcast send (Response resp)) st)"

text \<open>\<open>allResponse\<close>: the commitments are asked for after every accepted response and sent once.\<close>

definition allResponse ::
  "('p, 's, 'd, 'dl, 'rs, 'sc) dkg_lib \<Rightarrow> ('p, 'dl, 'rs, 'sc, 'w) sender \<Rightarrow> 'rs \<Rightarrow> ('p, 's, 'd, 'dl, 'rs, 'sc, 'w) dkg_act" where
  "allResponse L send resp st =
    (case sd_DKG (fst st) of
       None \<Rightarrow> (Panic, st)
     | Some d \<Rightarrow>
         let (r, d) = dk_ProcessResponse L d resp;
             st = ((fst st)\<lparr>sd_DKG := Some d\<rparr>, snd st) in
         (case r of
            Panic \<Rightarrow> (Panic, st)
          | Err e \<Rightarrow> (Err e, st)
          | Ret (Some just) \<Rightarrow> (Err (''Got a justification: '' @ just), st)
          | Ret None \<Rightarrow>
              let (c, d) = dk_SecretCommits L d;
                  st = ((fst st)\<lparr>sd_DKG := Some d\<rparr>, snd st) in
              (case c of
                 Panic \<Rightarrow> (Panic, st)
               | Err _ \<Rightarrow> (Err ''not enough responses yet'', st)
               | Ret commit \<Rightarrow>
                   if \<not> sd_commit (fst st)
                   then fullBroadcast send (SecretCommit commit) ((fst st)\<lparr>sd_commit := True\<rparr>, snd st)
                   else (Err ''not enough responses yet'', st))))"

definition allSecretCommit ::
  "('p, 's, 'd, 'dl, 'rs, 'sc) dkg_lib \<Rightarrow> 'sc \<Rightarrow> ('p, 's, 'd, 'dl, 'rs, 'sc, 'w) dkg_act" where
  "allSecretCommit L comm st =
    (case sd_DKG (fst st) of
       None \<Rightarrow> (Panic, st)
     | Some d \<Rightarrow>
         let (r, d) = dk_ProcessSecretCommits L d comm;
             st = ((fst st)\<lparr>sd_DKG := Some d\<rparr>, snd st) in
         (case r of
            Panic \<Rightarrow> (Panic, st)
          | Err e \<Rightarrow> (Err e, st)
          | Ret (Some compl) \<Rightarrow> (Err (''got a complaint: '' @ compl), st)
          | Ret None \<Rightarrow> (Ret (), st)))"

section \<open>Dispatch\<close>

text \<open>The channels of a node, each with the messages that arrive on it.\<close>

record ('p, 'dl, 'rs, 'sc) dkg_chans =
  ch_StartDeal :: "('p option list \<times> 32 word) list"
  ch_Deal :: "'dl list"
  ch_Response :: "'rs list"
  ch_SecretCommit :: "'sc list"
  ch_WaitSetup :: "unit list"
  ch_WaitReply :: "unit list"

text \<open>
  Receiving \<open>k\<close> times from a channel and handling each message, whose error is dropped.
  \<open>None\<close>: the node waits for ever, because fewer messages arrive.
\<close>

fun receive :: "nat \<Rightarrow> 'a list \<Rightarrow> ('a \<Rightarrow> ('st, string, unit) act) \<Rightarrow> 'st \<Rightarrow> ((string, unit) go \<times> 'st) option" where
  "receive 0 xs f st = Some (Ret (), st)"
| "receive (Suc k) [] f st = None"
| "receive (Suc k) (x # xs) f st =
    (case f x st of (Panic, st) \<Rightarrow> Some (Panic, st) | (_, st) \<Rightarrow> receive k xs f st)"

fun then_do ::
  "((string, unit) go \<times> 'st) option \<Rightarrow> ('st \<Rightarrow> ((string, unit) go \<times> 'st) option) \<Rightarrow> ((string, unit) go \<times> 'st) option" where
  "then_do None f = None"
| "then_do (Some (Ret _, st)) f = f st"
| "then_do (Some r) f = Some r"

definition DKG_Dispatch ::
  "('p, 's, 'd, 'dl, 'rs, 'sc) dkg_lib \<Rightarrow> ('p, 'dl, 'rs, 'sc, 'w) sender \<Rightarrow> nat \<Rightarrow> ('p, 'dl, 'rs, 'sc) dkg_chans \<Rightarrow>
    ('p, 's, 'd, 'dl, 'rs, 'sc) SetupDKG \<times> 'w \<Rightarrow>
    ((string, unit) go \<times> ('p, 's, 'd, 'dl, 'rs, 'sc) SetupDKG \<times> 'w) option" where
  "DKG_Dispatch L send rnd ch st =
    then_do (receive 1 (ch_StartDeal ch) (allStartDeal L send rnd) st) (\<lambda>st.
      if sd_publics (fst st) = [] then Some (Panic, st)
      else
        let l = length (sd_publics (fst st)) in
        then_do (receive (l - 1) (ch_Deal ch) (allDeal L send) st) (\<lambda>st.
        then_do (receive (l * (l - 1)) (ch_Response ch) (allResponse L send) st) (\<lambda>st.
        then_do (receive l (ch_SecretCommit ch) (allSecretCommit L) st) (\<lambda>st.
        then_do
          (if sd_Wait (fst st) then
             (if tni_IsRoot (sd_tni (fst st))
              then (case lift_send (SendToChildren send WaitSetup) st of (_, st) \<Rightarrow>
                      receive 1 (ch_WaitReply ch) (\<lambda>_. act_ret ()) st)
              else receive 1 (ch_WaitSetup ch) (\<lambda>_. lift_send (SendToParent send WaitReply)) st)
           else Some (Ret (), st))
          (\<lambda>st.
            (case sd_DKG (fst st) of
               None \<Rightarrow> Some (Panic, st)
             | Some d \<Rightarrow>
                 if dk_Finished L d then
                   (if sd_Done (fst st) < 1 then Some (Ret (), ((fst st)\<lparr>sd_Done := sd_Done (fst st) + 1\<rparr>, snd st)) else None)
                 else Some (Ret (), st)))))))"

definition SetupDKG_SharedSecret ::
  "('p, 's, 'd, 'dl, 'rs, 'sc) dkg_lib \<Rightarrow> ('p, 's, 'd, 'dl, 'rs, 'sc) SetupDKG \<Rightarrow> (string, ('p, 's) SharedSecret) go" where
  "SetupDKG_SharedSecret L s = NewSharedSecret L (sd_DKG s)"

section \<open>What the protocol relies on\<close>

text \<open>
  The documented behaviour of \<open>share/dkg\<close> among \<open>n\<close> honest participants, with what they exchange:
  \<open>deal i j\<close> is the deal of \<open>i\<close> for \<open>j\<close>, \<open>resp i j\<close> the answer of \<open>j\<close> to it, \<open>commit i\<close> the secret
  commitments of \<open>i\<close>. \<open>St i D R C d\<close> says that \<open>d\<close> is a state of participant \<open>i\<close> that has processed
  the deals of \<open>D\<close>, the responses \<open>R\<close> of others and the commitments of \<open>C\<close>. The commitments may be
  ready early, and are ready once all the responses of others were processed; a
  participant's own response may be refused.
\<close>

definition foreign :: "nat \<Rightarrow> nat \<Rightarrow> (nat \<times> nat) set" where
  "foreign n i = {(j, k). j < n \<and> k < n \<and> j \<noteq> k \<and> k \<noteq> i}"

definition dkg_laws ::
  "('p, 's, 'd, 'dl, 'rs, 'sc) dkg_lib \<Rightarrow> nat \<Rightarrow> (nat \<Rightarrow> 's) \<Rightarrow> 'p option list \<Rightarrow> (nat \<Rightarrow> nat) \<Rightarrow> 32 word \<Rightarrow>
    (nat \<Rightarrow> nat \<Rightarrow> 'dl) \<Rightarrow> (nat \<Rightarrow> nat \<Rightarrow> 'rs) \<Rightarrow> (nat \<Rightarrow> 'sc) \<Rightarrow>
    (nat \<Rightarrow> nat set \<Rightarrow> (nat \<times> nat) set \<Rightarrow> nat set \<Rightarrow> 'd \<Rightarrow> bool) \<Rightarrow> bool" where
  "dkg_laws L n sec publics rnd thr deal resp commit St \<longleftrightarrow>
    (\<forall>i < n. \<exists>d. dk_New L (sec i) publics (rnd i) (uint thr) = Ret d \<and> St i {} {} {} d) \<and>
    (\<forall>i < n. \<forall>d. St i {} {} {} d \<longrightarrow> (\<exists>js d'. dk_Deals L d = (Ret (map (\<lambda>j. (j, deal i j)) js), d') \<and>
      St i {} {} {} d' \<and> mset js = mset_set ({..<n} - {i}))) \<and>
    (\<forall>i < n. \<forall>j < n. \<forall>D d. St i D {} {} d \<and> j \<noteq> i \<and> j \<notin> D \<longrightarrow>
      (\<exists>d'. dk_ProcessDeal L d (deal j i) = (Ret (resp j i), d') \<and> St i (insert j D) {} {} d')) \<and>
    (\<forall>i < n. \<forall>R d. \<forall>(j, k) \<in> foreign n i. St i ({..<n} - {i}) R {} d \<and> (j, k) \<notin> R \<longrightarrow>
      (\<exists>d'. dk_ProcessResponse L d (resp j k) = (Ret None, d') \<and> St i ({..<n} - {i}) (insert (j, k) R) {} d')) \<and>
    (\<forall>i < n. \<forall>j < n. \<forall>R d. St i ({..<n} - {i}) R {} d \<and> j \<noteq> i \<longrightarrow>
      (\<exists>r d'. dk_ProcessResponse L d (resp j i) = (r, d') \<and> r \<noteq> Panic \<and> St i ({..<n} - {i}) R {} d')) \<and>
    (\<forall>i < n. \<forall>R d. St i ({..<n} - {i}) R {} d \<longrightarrow>
      (\<exists>r d'. dk_SecretCommits L d = (r, d') \<and> St i ({..<n} - {i}) R {} d' \<and>
        (r = Ret (commit i) \<or> (\<exists>e. r = Err e) \<and> R \<noteq> foreign n i))) \<and>
    (\<forall>i < n. \<forall>k < n. \<forall>C d. St i ({..<n} - {i}) (foreign n i) C d \<and> k \<notin> C \<longrightarrow>
      (\<exists>d'. dk_ProcessSecretCommits L d (commit k) = (Ret None, d') \<and> St i ({..<n} - {i}) (foreign n i) (insert k C) d')) \<and>
    (\<forall>i < n. \<forall>d. St i ({..<n} - {i}) (foreign n i) {..<n} d \<longrightarrow> dk_Finished L d)"

lemma dkg_lawsD:
  assumes "dkg_laws L n sec publics rnd thr deal resp commit St" and "i < n"
  shows new: "\<exists>d. dk_New L (sec i) publics (rnd i) (uint thr) = Ret d \<and> St i {} {} {} d"
    and deals: "St i {} {} {} d \<Longrightarrow> \<exists>js d'. dk_Deals L d = (Ret (map (\<lambda>j. (j, deal i j)) js), d') \<and>
      St i {} {} {} d' \<and> mset js = mset_set ({..<n} - {i})"
    and process_deal: "St i D {} {} d \<Longrightarrow> j < n \<Longrightarrow> j \<noteq> i \<Longrightarrow> j \<notin> D \<Longrightarrow>
      \<exists>d'. dk_ProcessDeal L d (deal j i) = (Ret (resp j i), d') \<and> St i (insert j D) {} {} d'"
    and process_response: "St i ({..<n} - {i}) R {} d \<Longrightarrow> (j, k) \<in> foreign n i \<Longrightarrow> (j, k) \<notin> R \<Longrightarrow>
      \<exists>d'. dk_ProcessResponse L d (resp j k) = (Ret None, d') \<and> St i ({..<n} - {i}) (insert (j, k) R) {} d'"
    and process_own: "St i ({..<n} - {i}) R {} d \<Longrightarrow> j < n \<Longrightarrow> j \<noteq> i \<Longrightarrow>
      \<exists>r d'. dk_ProcessResponse L d (resp j i) = (r, d') \<and> r \<noteq> Panic \<and> St i ({..<n} - {i}) R {} d'"
    and secret_commits: "St i ({..<n} - {i}) R {} d \<Longrightarrow> \<exists>r d'. dk_SecretCommits L d = (r, d') \<and>
      St i ({..<n} - {i}) R {} d' \<and> (r = Ret (commit i) \<or> (\<exists>e. r = Err e) \<and> R \<noteq> foreign n i)"
    and process_commit: "St i ({..<n} - {i}) (foreign n i) C d \<Longrightarrow> k < n \<Longrightarrow> k \<notin> C \<Longrightarrow>
      \<exists>d'. dk_ProcessSecretCommits L d (commit k) = (Ret None, d') \<and> St i ({..<n} - {i}) (foreign n i) (insert k C) d'"
    and finished: "St i ({..<n} - {i}) (foreign n i) {..<n} d \<Longrightarrow> dk_Finished L d"
proof -
  note l = assms(1) [unfolded dkg_laws_def]
  show "\<exists>d. dk_New L (sec i) publics (rnd i) (uint thr) = Ret d \<and> St i {} {} {} d"
    using l [THEN conjunct1] assms(2) by blast
  show "St i {} {} {} d \<Longrightarrow> \<exists>js d'. dk_Deals L d = (Ret (map (\<lambda>j. (j, deal i j)) js), d') \<and>
      St i {} {} {} d' \<and> mset js = mset_set ({..<n} - {i})"
    using l [THEN conjunct2, THEN conjunct1] assms(2) by blast
  show "St i D {} {} d \<Longrightarrow> j < n \<Longrightarrow> j \<noteq> i \<Longrightarrow> j \<notin> D \<Longrightarrow>
      \<exists>d'. dk_ProcessDeal L d (deal j i) = (Ret (resp j i), d') \<and> St i (insert j D) {} {} d'"
    using l [THEN conjunct2, THEN conjunct2, THEN conjunct1] assms(2) by blast
  show "St i ({..<n} - {i}) R {} d \<Longrightarrow> (j, k) \<in> foreign n i \<Longrightarrow> (j, k) \<notin> R \<Longrightarrow>
      \<exists>d'. dk_ProcessResponse L d (resp j k) = (Ret None, d') \<and> St i ({..<n} - {i}) (insert (j, k) R) {} d'"
    using l [THEN conjunct2, THEN conjunct2, THEN conjunct2, THEN conjunct1] assms(2) by fast
  show "St i ({..<n} - {i}) R {} d \<Longrightarrow> j < n \<Longrightarrow> j \<noteq> i \<Longrightarrow>
      \<exists>r d'. dk_ProcessResponse L d (resp j i) = (r, d') \<and> r \<noteq> Panic \<and> St i ({..<n} - {i}) R {} d'"
    using l [THEN conjunct2, THEN conjunct2, THEN conjunct2, THEN conjunct2, THEN conjunct1] assms(2) by blast
  show "St i ({..<n} - {i}) R {} d \<Longrightarrow> \<exists>r d'. dk_SecretCommits L d = (r, d') \<and>
      St i ({..<n} - {i}) R {} d' \<and> (r = Ret (commit i) \<or> (\<exists>e. r = Err e) \<and> R \<noteq> foreign n i)"
    using l [THEN conjunct2, THEN conjunct2, THEN conjunct2, THEN conjunct2, THEN conjunct2, THEN conjunct1] assms(2) by blast
  show "St i ({..<n} - {i}) (foreign n i) C d \<Longrightarrow> k < n \<Longrightarrow> k \<notin> C \<Longrightarrow>
      \<exists>d'. dk_ProcessSecretCommits L d (commit k) = (Ret None, d') \<and> St i ({..<n} - {i}) (foreign n i) (insert k C) d'"
    using l [THEN conjunct2, THEN conjunct2, THEN conjunct2, THEN conjunct2, THEN conjunct2, THEN conjunct2, THEN conjunct1] assms(2) by blast
  show "St i ({..<n} - {i}) (foreign n i) {..<n} d \<Longrightarrow> dk_Finished L d"
    using l [THEN conjunct2, THEN conjunct2, THEN conjunct2, THEN conjunct2, THEN conjunct2, THEN conjunct2, THEN conjunct2] assms(2) by blast
qed

text \<open>A network that takes every message and records it with its destination.\<close>

definition rec_send :: "('p, 'dl, 'rs, 'sc, (uuid \<times> ('p, 'dl, 'rs, 'sc) dkg_msg) list) sender" where
  "rec_send t m c w = (None, w @ [(t, m)])"

abbreviation to_all :: "uuid list \<Rightarrow> 'm \<Rightarrow> (uuid \<times> 'm) list" where
  "to_all ts m \<equiv> map (\<lambda>t. (t, m)) ts"

text \<open>What a handler leaves alone.\<close>

definition keeps_setup :: "('p, 's, 'd, 'dl, 'rs, 'sc) SetupDKG \<Rightarrow> ('p, 's, 'd, 'dl, 'rs, 'sc) SetupDKG \<Rightarrow> bool" where
  "keeps_setup s s' \<longleftrightarrow> sd_nodes s' = sd_nodes s \<and> sd_publics s' = sd_publics s \<and> sd_keypair s' = sd_keypair s \<and>
    sd_Wait s' = sd_Wait s \<and> sd_Done s' = sd_Done s"

lemma keeps_setup_refl [simp]: "keeps_setup s s"
  by (simp add: keeps_setup_def)

lemma keeps_setup_trans: "keeps_setup a b \<Longrightarrow> keeps_setup b c \<Longrightarrow> keeps_setup a c"
  by (simp add: keeps_setup_def)

lemma SendTo_rec: "\<exists>n'. SendTo rec_send (Some t) msg n w = (None, n', w @ [(t, msg)])"
  by (auto simp: SendTo_def rec_send_def)

lemma Multicast_rec: "\<exists>n'. Multicast rec_send msg ts n w = (None, n', w @ to_all ts msg)"
proof (induction ts arbitrary: n w)
  case (Cons t ts)
  obtain n1 where n1: "SendTo rec_send (Some t) msg n w = (None, n1, w @ [(t, msg)])" using SendTo_rec by blast
  from Cons [of n1 "w @ [(t, msg)]"] show ?case by (simp add: n1)
qed simp

lemma fullBroadcast_rec:
  obtains n' where "fullBroadcast rec_send msg (s, w) = (Ret (), (s\<lparr>sd_tni := n'\<rparr>, w @ to_all (sd_nodes s) msg))"
  using Multicast_rec [of msg "sd_nodes s" "sd_tni s" w] by (auto simp: fullBroadcast_def lift_send_def)

lemma send_deals_rec:
  assumes "\<forall>(j, d) \<in> set deals. j < length (sd_nodes s)"
  shows "\<exists>n'. send_deals rec_send deals (s, w) = (Ret (), (s\<lparr>sd_tni := n'\<rparr>, w @ map (\<lambda>(j, d). (sd_nodes s ! j, Deal d)) deals))"
  using assms
proof (induction deals arbitrary: s w)
  case Nil
  show ?case by (intro exI [of _ "sd_tni s"]) simp
next
  case (Cons jd deals)
  obtain j d where jd: "jd = (j, d)" by force
  obtain n1 where "SendTo rec_send (Some (sd_nodes s ! j)) (Deal d) (sd_tni s) w = (None, n1, w @ [(sd_nodes s ! j, Deal d)])"
    using SendTo_rec by blast
  moreover obtain n2 where "send_deals rec_send deals (s\<lparr>sd_tni := n1\<rparr>, w @ [(sd_nodes s ! j, Deal d)]) =
      (Ret (), (s\<lparr>sd_tni := n1, sd_tni := n2\<rparr>, (w @ [(sd_nodes s ! j, Deal d)]) @ map (\<lambda>(j, d). (sd_nodes s ! j, Deal d)) deals))"
    using Cons.IH [of "s\<lparr>sd_tni := n1\<rparr>" "w @ [(sd_nodes s ! j, Deal d)]"] Cons.prems by auto
  ultimately show ?case using Cons.prems jd by (auto simp: act_bind_def lift_send_def)
qed

section \<open>The phases of a participant\<close>

lemma phase_start:
  assumes "dkg_laws L n sec publics rnd thr deal resp commit St" and "i < n"
    and "fst (sd_keypair s) = sec i" and "length (sd_nodes s) = n"
  obtains s' js d where "receive 1 [(publics, thr)] (allStartDeal L rec_send (rnd i)) (s, w) =
      Some (Ret (), (s', w @ map (\<lambda>j. (sd_nodes s ! j, Deal (deal i j))) js))"
    "sd_DKG s' = Some d" "St i {} {} {} d" "sd_publics s' = publics" "sd_nodes s' = sd_nodes s" "sd_commit s' = sd_commit s"
    "sd_Wait s' = sd_Wait s" "sd_Done s' = sd_Done s" "mset js = mset_set ({..<n} - {i})"
proof -
  obtain d0 where d0: "dk_New L (sec i) publics (rnd i) (uint thr) = Ret d0" "St i {} {} {} d0"
    using new [OF assms(1,2)] by blast
  then obtain js d where d: "dk_Deals L d0 = (Ret (map (\<lambda>j. (j, deal i j)) js), d)" "St i {} {} {} d" "mset js = mset_set ({..<n} - {i})"
    using deals [OF assms(1,2)] by blast
  let ?s = "s\<lparr>sd_DKG := Some d, sd_publics := publics\<rparr>"
  have "set js = {..<n} - {i}" using d(3) by (metis finite_Diff finite_lessThan finite_set_mset_mset_set set_mset_mset)
  then have "\<forall>(j, dl) \<in> set (map (\<lambda>j. (j, deal i j)) js). j < length (sd_nodes ?s)" using assms(4) by auto
  from send_deals_rec [OF this, of w] obtain n' where
    "send_deals rec_send (map (\<lambda>j. (j, deal i j)) js) (?s, w) =
      (Ret (), (?s\<lparr>sd_tni := n'\<rparr>, w @ map (\<lambda>j. (sd_nodes s ! j, Deal (deal i j))) js))"
    by (auto simp: comp_def)
  then have "receive 1 [(publics, thr)] (allStartDeal L rec_send (rnd i)) (s, w) =
      Some (Ret (), (?s\<lparr>sd_tni := n'\<rparr>, w @ map (\<lambda>j. (sd_nodes s ! j, Deal (deal i j))) js))"
    using d0(1) d(1) assms(3) by (simp add: allStartDeal_def act_bind_def)
  from that [OF this _ d(2)] d(3) show thesis by simp
qed

lemma phase_deals:
  assumes "dkg_laws L n sec publics rnd thr deal resp commit St" and "i < n"
    and "sd_DKG s = Some d" and "St i D {} {} d" and "distinct js" and "set js \<subseteq> {..<n} - {i} - D"
  shows "\<exists>s' d'. receive (length js) (map (\<lambda>j. deal j i) js) (allDeal L rec_send) (s, w) =
      Some (Ret (), (s', w @ concat (map (\<lambda>j. to_all (sd_nodes s) (Response (resp j i))) js))) \<and>
    sd_DKG s' = Some d' \<and> St i (D \<union> set js) {} {} d' \<and> keeps_setup s s' \<and> sd_commit s' = sd_commit s"
  using assms(3-)
proof (induction js arbitrary: s d D w)
  case (Cons j js)
  have "j < n" "j \<noteq> i" "j \<notin> D" using Cons.prems by auto
  then obtain d1 where d1: "dk_ProcessDeal L d (deal j i) = (Ret (resp j i), d1)" "St i (insert j D) {} {} d1"
    using process_deal [OF assms(1,2) Cons.prems(2)] by blast
  obtain n' where b: "fullBroadcast rec_send (Response (resp j i)) (s\<lparr>sd_DKG := Some d1\<rparr>, w) =
      (Ret (), (s\<lparr>sd_DKG := Some d1, sd_tni := n'\<rparr>, w @ to_all (sd_nodes s) (Response (resp j i))))"
    using fullBroadcast_rec [of "Response (resp j i)" "s\<lparr>sd_DKG := Some d1\<rparr>" w] by auto
  let ?s = "s\<lparr>sd_DKG := Some d1, sd_tni := n'\<rparr>"
  have a: "allDeal L rec_send (deal j i) (s, w) = (Ret (), (?s, w @ to_all (sd_nodes s) (Response (resp j i))))"
    using Cons.prems(1) d1(1) b by (simp add: allDeal_def act_bind_def)
  from Cons.IH [of ?s d1 "insert j D" "w @ to_all (sd_nodes s) (Response (resp j i))"] d1(2) Cons.prems(3,4)
  obtain s' d' where "receive (length js) (map (\<lambda>j. deal j i) js) (allDeal L rec_send)
      (?s, w @ to_all (sd_nodes s) (Response (resp j i))) = Some (Ret (), (s', (w @ to_all (sd_nodes s) (Response (resp j i))) @
        concat (map (\<lambda>j. to_all (sd_nodes s) (Response (resp j i))) js)))"
    "sd_DKG s' = Some d'" "St i (insert j D \<union> set js) {} {} d'" "keeps_setup ?s s'" "sd_commit s' = sd_commit ?s"
    by auto
  with a show ?case by (auto simp: keeps_setup_def)
qed auto

text \<open>One response: the commitments go out at the first response after which they are ready.\<close>

lemma allResponse_step:
  assumes "dkg_laws L n sec publics rnd thr deal resp commit St" and "i < n"
    and "sd_DKG s = Some d" and "St i ({..<n} - {i}) R {} d" and "j < n" "k < n" "j \<noteq> k" and "(j, k) \<notin> R"
  obtains r s' d' where "allResponse L rec_send (resp j k) (s, w) =
      (r, (s', w @ (if sd_commit s' \<and> \<not> sd_commit s then to_all (sd_nodes s) (SecretCommit (commit i)) else [])))"
    "r \<noteq> Panic" "sd_DKG s' = Some d'" "St i ({..<n} - {i}) (R \<union> ({(j, k)} \<inter> foreign n i)) {} d'" "keeps_setup s s'"
    "sd_commit s \<Longrightarrow> sd_commit s'" "k \<noteq> i \<Longrightarrow> insert (j, k) R = foreign n i \<Longrightarrow> sd_commit s'"
proof -
  let ?R = "R \<union> ({(j, k)} \<inter> foreign n i)"
  obtain r1 d1 where p: "dk_ProcessResponse L d (resp j k) = (r1, d1)" "r1 \<noteq> Panic" "St i ({..<n} - {i}) ?R {} d1"
    "k \<noteq> i \<Longrightarrow> r1 = Ret None"
  proof (cases "k = i")
    case True
    then show thesis using that process_own [OF assms(1,2,4), of j] assms(5-7) by (auto simp: foreign_def)
  next
    case False
    then have "(j, k) \<in> foreign n i" using assms(5-7) by (simp add: foreign_def)
    with that process_response [OF assms(1,2,4) this assms(8)] show thesis by auto
  qed
  show thesis
  proof (cases "r1 = Ret None")
    case False
    then have "k = i" using p(4) by blast
    with False show thesis
      using that [of _ "s\<lparr>sd_DKG := Some d1\<rparr>" d1] assms(3) p(1-3)
      by (cases r1) (auto simp: allResponse_def keeps_setup_def split: option.splits)
  next
    case True
    obtain r2 d2 where c: "dk_SecretCommits L d1 = (r2, d2)" "St i ({..<n} - {i}) ?R {} d2"
        "r2 = Ret (commit i) \<or> (\<exists>e. r2 = Err e) \<and> ?R \<noteq> foreign n i"
      using secret_commits [OF assms(1,2) p(3)] by blast
    obtain n' where b: "fullBroadcast rec_send (SecretCommit (commit i)) (s\<lparr>sd_DKG := Some d2, sd_commit := True\<rparr>, w) =
        (Ret (), (s\<lparr>sd_DKG := Some d2, sd_commit := True, sd_tni := n'\<rparr>, w @ to_all (sd_nodes s) (SecretCommit (commit i))))"
      using fullBroadcast_rec [of "SecretCommit (commit i)" "s\<lparr>sd_DKG := Some d2, sd_commit := True\<rparr>" w] by auto
    have R: "?R = insert (j, k) R" if "k \<noteq> i" using that assms(5-7) by (auto simp: foreign_def)
    show thesis
    proof (cases "r2 = Ret (commit i) \<and> \<not> sd_commit s")
      case True
      then show thesis using that [of _ "s\<lparr>sd_DKG := Some d2, sd_commit := True, sd_tni := n'\<rparr>" d2] assms(3) p(1) \<open>r1 = Ret None\<close> c b
        by (auto simp: allResponse_def keeps_setup_def)
    next
      case False
      then have "sd_commit s" if "k \<noteq> i" "insert (j, k) R = foreign n i" using c(3) R [OF that(1)] that(2) by auto
      moreover have "allResponse L rec_send (resp j k) (s, w) = (Err ''not enough responses yet'', (s\<lparr>sd_DKG := Some d2\<rparr>, w))"
        using False assms(3) p(1) \<open>r1 = Ret None\<close> c(1,3) by (auto simp: allResponse_def)
      ultimately show thesis using that [of "Err ''not enough responses yet''" "s\<lparr>sd_DKG := Some d2\<rparr>" d2] c(2)
        by (simp add: keeps_setup_def)
    qed
  qed
qed

lemma phase_responses:
  assumes "dkg_laws L n sec publics rnd thr deal resp commit St" and "i < n"
    and "sd_DKG s = Some d" and "St i ({..<n} - {i}) R {} d" and "distinct qs"
    and "set qs \<subseteq> {(j, k). j < n \<and> k < n \<and> j \<noteq> k} - R" and "R \<subseteq> foreign n i" and "R = foreign n i \<longrightarrow> sd_commit s"
  shows "\<exists>s' d'. receive (length qs) (map (\<lambda>(j, k). resp j k) qs) (allResponse L rec_send) (s, w) =
      Some (Ret (), (s', w @ (if sd_commit s' \<and> \<not> sd_commit s then to_all (sd_nodes s) (SecretCommit (commit i)) else []))) \<and>
    sd_DKG s' = Some d' \<and> St i ({..<n} - {i}) (R \<union> (set qs \<inter> foreign n i)) {} d' \<and> keeps_setup s s' \<and>
    (sd_commit s \<longrightarrow> sd_commit s') \<and> (R \<union> (set qs \<inter> foreign n i) = foreign n i \<longrightarrow> sd_commit s')"
  using assms(3-)
proof (induction qs arbitrary: s d R w)
  case (Cons q qs)
  obtain j k where q: "q = (j, k)" by force
  let ?bc = "to_all (sd_nodes s) (SecretCommit (commit i))"
  let ?R = "R \<union> ({(j, k)} \<inter> foreign n i)"
  obtain r s1 d1 where a: "allResponse L rec_send (resp j k) (s, w) = (r, (s1, w @ (if sd_commit s1 \<and> \<not> sd_commit s then ?bc else [])))"
    "r \<noteq> Panic" "sd_DKG s1 = Some d1" "St i ({..<n} - {i}) ?R {} d1" "keeps_setup s s1"
    "sd_commit s \<Longrightarrow> sd_commit s1" "k \<noteq> i \<Longrightarrow> insert (j, k) R = foreign n i \<Longrightarrow> sd_commit s1"
    by (rule allResponse_step [OF assms(1,2) Cons.prems(1,2), of j k w]) (use Cons.prems(4) q in auto)
  have c: "?R = foreign n i \<longrightarrow> sd_commit s1"
  proof (cases "(j, k) \<in> foreign n i")
    case True
    then show ?thesis using a(7) by (simp add: foreign_def)
  qed (use Cons.prems(6) a(6) in simp)
  have p: "distinct qs" "set qs \<subseteq> {(j, k). j < n \<and> k < n \<and> j \<noteq> k} - ?R" "?R \<subseteq> foreign n i"
    using Cons.prems(3-5) q by auto
  from Cons.IH [OF a(3,4) p c, of "w @ (if sd_commit s1 \<and> \<not> sd_commit s then ?bc else [])"]
  obtain s' d' where IH: "receive (length qs) (map (\<lambda>(j, k). resp j k) qs) (allResponse L rec_send)
      (s1, w @ (if sd_commit s1 \<and> \<not> sd_commit s then ?bc else [])) =
      Some (Ret (), (s', (w @ (if sd_commit s1 \<and> \<not> sd_commit s then ?bc else [])) @
        (if sd_commit s' \<and> \<not> sd_commit s1 then to_all (sd_nodes s1) (SecretCommit (commit i)) else [])))"
    "sd_DKG s' = Some d'" "St i ({..<n} - {i}) (?R \<union> (set qs \<inter> foreign n i)) {} d'" "keeps_setup s1 s'"
    "sd_commit s1 \<longrightarrow> sd_commit s'" "?R \<union> (set qs \<inter> foreign n i) = foreign n i \<longrightarrow> sd_commit s'"
    by (elim exE conjE) (rule that)
  have e: "R \<union> (set (q # qs) \<inter> foreign n i) = ?R \<union> (set qs \<inter> foreign n i)" using q by auto
  have st: "receive (length (q # qs)) (map (\<lambda>(j, k). resp j k) (q # qs)) (allResponse L rec_send) (s, w) =
      receive (length qs) (map (\<lambda>(j, k). resp j k) qs) (allResponse L rec_send) (s1, w @ (if sd_commit s1 \<and> \<not> sd_commit s then ?bc else []))"
    using a(1,2) q by (cases r) simp_all
  have k: "keeps_setup s s'" using a(5) IH(4) keeps_setup_trans by blast
  have "sd_nodes s1 = sd_nodes s" using a(5) by (simp add: keeps_setup_def)
  then have "(w @ (if sd_commit s1 \<and> \<not> sd_commit s then ?bc else [])) @
      (if sd_commit s' \<and> \<not> sd_commit s1 then to_all (sd_nodes s1) (SecretCommit (commit i)) else []) =
      w @ (if sd_commit s' \<and> \<not> sd_commit s then ?bc else [])"
    using a(6) IH(5) by (cases "sd_commit s"; cases "sd_commit s1"; cases "sd_commit s'") simp_all
  note IH(1) [unfolded this]
  with IH(2,3,5,6) a(6) k show ?case unfolding e st by (intro exI [of _ s'] exI [of _ d']) simp
qed auto

lemma phase_commits:
  assumes "dkg_laws L n sec publics rnd thr deal resp commit St" and "i < n"
    and "sd_DKG s = Some d" and "St i ({..<n} - {i}) (foreign n i) C d" and "distinct ks" and "set ks \<subseteq> {..<n} - C"
  shows "\<exists>s' d'. receive (length ks) (map commit ks) (allSecretCommit L) (s, w) = Some (Ret (), (s', w)) \<and>
    sd_DKG s' = Some d' \<and> St i ({..<n} - {i}) (foreign n i) (C \<union> set ks) d' \<and> keeps_setup s s'"
  using assms(3-)
proof (induction ks arbitrary: s d C)
  case (Cons k ks)
  then obtain d1 where d1: "dk_ProcessSecretCommits L d (commit k) = (Ret None, d1)" "St i ({..<n} - {i}) (foreign n i) (insert k C) d1"
    using process_commit [OF assms(1,2) Cons.prems(2), of k] by auto
  have "\<exists>s' d'. receive (length ks) (map commit ks) (allSecretCommit L) (s\<lparr>sd_DKG := Some d1\<rparr>, w) = Some (Ret (), (s', w)) \<and>
      sd_DKG s' = Some d' \<and> St i ({..<n} - {i}) (foreign n i) (insert k C \<union> set ks) d' \<and> keeps_setup (s\<lparr>sd_DKG := Some d1\<rparr>) s'"
    by (rule Cons.IH) (use d1(2) Cons.prems(3,4) in auto)
  moreover have "allSecretCommit L (commit k) (s, w) = (Ret (), (s\<lparr>sd_DKG := Some d1\<rparr>, w))"
    using d1(1) Cons.prems(1) by (simp add: allSecretCommit_def)
  ultimately show ?case by (auto simp: keeps_setup_def)
qed auto

section \<open>All participants finish\<close>

text \<open>Multisets of messages: permutations of a family, and families over pairs.\<close>

lemma mset_image_list: "mset ys = image_mset f M \<Longrightarrow> \<exists>xs. ys = map f xs \<and> mset xs = M"
proof (induction ys arbitrary: M)
  case (Cons y ys)
  then have "y \<in># image_mset f M" by (metis list.set_intros(1) set_mset_mset)
  then obtain x where x: "x \<in># M" "y = f x" by auto
  then have "mset ys = image_mset f (M - {#x#})" using Cons.prems by (metis add_mset_remove_trivial image_mset_add_mset insert_DiffM mset.simps(2))
  with Cons.IH obtain xs where "ys = map f xs" "mset xs = M - {#x#}" by blast
  then show ?case using x by (intro exI [of _ "x # xs"]) simp
qed simp

lemma mset_set_list: "finite A \<Longrightarrow> mset xs = mset_set A \<Longrightarrow> distinct xs \<and> set xs = A \<and> length xs = card A"
  by (metis distinct_count_atmost_1 count_mset_set(1,3) finite_set_mset_mset_set length_map set_mset_mset size_mset size_mset_set
      count_eq_zero_iff)

lemma sum_image_Sigma:
  assumes "finite A" and "\<And>a. a \<in> A \<Longrightarrow> finite (B a)"
  shows "(\<Sum>a \<in> A. image_mset (f a) (mset_set (B a))) = image_mset (\<lambda>(a, b). f a b) (mset_set (Sigma A B))"
  using assms
proof (induction A rule: finite_induct)
  case (insert a A)
  have e: "Sigma (insert a A) B = Pair a ` B a \<union> Sigma A B" and "Pair a ` B a \<inter> Sigma A B = {}"
    using insert.hyps by auto
  then have "mset_set (Sigma (insert a A) B) = mset_set (Pair a ` B a) + mset_set (Sigma A B)"
    using insert.prems insert.hyps(1) by (simp add: mset_set_Union)
  moreover have "image_mset (\<lambda>(a, b). f a b) (mset_set (Pair a ` B a)) = image_mset (f a) (mset_set (B a))"
    by (simp add: image_mset_mset_set [symmetric] inj_on_def multiset.map_comp comp_def)
  ultimately show ?case using insert by simp
qed simp

lemma sum_singles: "finite A \<Longrightarrow> (\<Sum>a \<in> A. {#f a#}) = image_mset f (mset_set A)"
  by (induction A rule: finite_induct) auto

text \<open>What participant \<open>i\<close> sends, and what the dispatcher of participant \<open>k\<close> waits for after the start.\<close>

definition dkg_out ::
  "nat \<Rightarrow> uuid list \<Rightarrow> (nat \<Rightarrow> nat \<Rightarrow> 'dl) \<Rightarrow> (nat \<Rightarrow> nat \<Rightarrow> 'rs) \<Rightarrow> (nat \<Rightarrow> 'sc) \<Rightarrow> nat \<Rightarrow>
    (uuid \<times> ('p, 'dl, 'rs, 'sc) dkg_msg) multiset" where
  "dkg_out n nodes deal resp commit i =
    image_mset (\<lambda>j. (nodes ! j, Deal (deal i j))) (mset_set ({..<n} - {i})) +
    image_mset (\<lambda>(j, t). (nodes ! t, Response (resp j i))) (mset_set (({..<n} - {i}) \<times> {..<n})) +
    image_mset (\<lambda>t. (nodes ! t, SecretCommit (commit i))) (mset_set {..<n})"

definition dkg_in ::
  "nat \<Rightarrow> (nat \<Rightarrow> nat \<Rightarrow> 'dl) \<Rightarrow> (nat \<Rightarrow> nat \<Rightarrow> 'rs) \<Rightarrow> (nat \<Rightarrow> 'sc) \<Rightarrow> nat \<Rightarrow> ('p, 'dl, 'rs, 'sc) dkg_msg multiset" where
  "dkg_in n deal resp commit k =
    image_mset (\<lambda>j. Deal (deal j k)) (mset_set ({..<n} - {k})) +
    image_mset (\<lambda>(l, j). Response (resp j l)) (mset_set (SIGMA l:{..<n}. {..<n} - {l})) +
    image_mset (\<lambda>j. SecretCommit (commit j)) (mset_set {..<n})"

lemma addressed:
  assumes "finite A" and "distinct nodes" and "k < length nodes" and "\<And>x. x \<in> A \<Longrightarrow> g x < length nodes"
  shows "image_mset snd (filter_mset (\<lambda>(t, m). t = nodes ! k) (image_mset (\<lambda>x. (nodes ! g x, h x)) (mset_set A))) =
    image_mset h (mset_set {x \<in> A. g x = k})"
proof -
  have "{x \<in> A. nodes ! g x = nodes ! k} = {x \<in> A. g x = k}" using assms(2-4) by (auto simp: nth_eq_iff_index_eq)
  then show ?thesis using assms(1) by (simp add: filter_mset_image_mset multiset.map_comp comp_def filter_mset_mset_set case_prod_beta)
qed

lemma dkg_balance:
  fixes deal :: "nat \<Rightarrow> nat \<Rightarrow> 'dl" and resp :: "nat \<Rightarrow> nat \<Rightarrow> 'rs" and commit :: "nat \<Rightarrow> 'sc"
  assumes "distinct nodes" and "length nodes = n" and "k < n"
  shows "(\<Sum>i < n. image_mset snd (filter_mset (\<lambda>(t, m). t = nodes ! k) (dkg_out n nodes deal resp commit i))) =
    (dkg_in n deal resp commit k :: ('p, 'dl, 'rs, 'sc) dkg_msg multiset)"
proof -
  let ?Deal = "Deal :: 'dl \<Rightarrow> ('p, 'dl, 'rs, 'sc) dkg_msg"
  let ?Response = "Response :: 'rs \<Rightarrow> ('p, 'dl, 'rs, 'sc) dkg_msg"
  let ?Commit = "SecretCommit :: 'sc \<Rightarrow> ('p, 'dl, 'rs, 'sc) dkg_msg"
  have a: "image_mset snd (filter_mset (\<lambda>(t, m). t = nodes ! k) (dkg_out n nodes deal resp commit i)) =
      image_mset (\<lambda>j. ?Deal (deal i j)) (mset_set {j \<in> {..<n} - {i}. j = k}) +
      image_mset (\<lambda>x. ?Response (resp (fst x) i)) (mset_set {x \<in> ({..<n} - {i}) \<times> {..<n}. snd x = k}) +
      image_mset (\<lambda>t. ?Commit (commit i)) (mset_set {t \<in> {..<n}. t = k})" for i
  proof -
    have x: "(\<lambda>(j, t). (nodes ! t, ?Response (resp j i))) = (\<lambda>x. (nodes ! snd x, ?Response (resp (fst x) i)))" by auto
    show ?thesis unfolding dkg_out_def x filter_union_mset image_mset_union
      by (subst (1 2 3) addressed) (use assms in auto)
  qed
  have s1: "(SIGMA i:{..<n}. {j \<in> {..<n} - {i}. j = k}) = (\<lambda>i. (i, k)) ` ({..<n} - {k})" using assms(3) by auto
  have s2: "{x \<in> ({..<n} - {i}) \<times> {..<n}. snd x = k} = (\<lambda>j. (j, k)) ` ({..<n} - {i})" for i using assms(3) by auto
  have s3: "{t \<in> {..<n}. t = k} = {k}" using assms(3) by auto
  have "(\<Sum>i < n. image_mset (\<lambda>j. ?Deal (deal i j)) (mset_set {j \<in> {..<n} - {i}. j = k})) =
      image_mset (\<lambda>j. ?Deal (deal j k)) (mset_set ({..<n} - {k}))"
    using sum_image_Sigma [of "{..<n}" "\<lambda>i. {j \<in> {..<n} - {i}. j = k}" "\<lambda>i j. ?Deal (deal i j)", unfolded s1]
    by (simp add: image_mset_mset_set [symmetric] inj_on_def multiset.map_comp comp_def)
  moreover have "(\<Sum>i < n. image_mset (\<lambda>x. ?Response (resp (fst x) i)) (mset_set {x \<in> ({..<n} - {i}) \<times> {..<n}. snd x = k})) =
      image_mset (\<lambda>(l, j). ?Response (resp j l)) (mset_set (SIGMA l:{..<n}. {..<n} - {l}))"
    by (subst sum_image_Sigma [symmetric])
      (simp_all add: s2 image_mset_mset_set [symmetric] inj_on_def multiset.map_comp comp_def)
  moreover have "(\<Sum>i < n. image_mset (\<lambda>t. ?Commit (commit i)) (mset_set {t \<in> {..<n}. t = k})) =
      image_mset (\<lambda>j. ?Commit (commit j)) (mset_set {..<n})"
    unfolding s3 by (simp add: sum_singles)
  ultimately show ?thesis by (simp add: a sum.distrib dkg_in_def)
qed

text \<open>The state of a participant that has not started.\<close>

definition fresh_setup :: "nat \<Rightarrow> (nat \<Rightarrow> 's) \<Rightarrow> uuid list \<Rightarrow> nat \<Rightarrow> ('p, 's, 'd, 'dl, 'rs, 'sc) SetupDKG \<Rightarrow> bool" where
  "fresh_setup n sec nodes i s \<longleftrightarrow> fst (sd_keypair s) = sec i \<and> sd_nodes s = nodes \<and>
    \<not> sd_commit s \<and> \<not> sd_Wait s \<and> sd_Done s = 0"

text \<open>The channels hold what the others send, in any order.\<close>

definition chans_ok ::
  "nat \<Rightarrow> 'p option list \<Rightarrow> 32 word \<Rightarrow> (nat \<Rightarrow> nat \<Rightarrow> 'dl) \<Rightarrow> (nat \<Rightarrow> nat \<Rightarrow> 'rs) \<Rightarrow> (nat \<Rightarrow> 'sc) \<Rightarrow> nat \<Rightarrow>
    ('p, 'dl, 'rs, 'sc) dkg_chans \<Rightarrow> bool" where
  "chans_ok n publics thr deal resp commit k ch \<longleftrightarrow> ch_StartDeal ch = [(publics, thr)] \<and>
    mset (ch_Deal ch) = image_mset (\<lambda>j. deal j k) (mset_set ({..<n} - {k})) \<and>
    mset (ch_Response ch) = image_mset (\<lambda>(l, j). resp j l) (mset_set (SIGMA l:{..<n}. {..<n} - {l})) \<and>
    mset (ch_SecretCommit ch) = image_mset commit (mset_set {..<n})"

lemma chans_lists:
  assumes "chans_ok n publics thr deal resp commit k ch" and "k < n"
  obtains js qs ks where "ch_StartDeal ch = [(publics, thr)]"
    "ch_Deal ch = map (\<lambda>j. deal j k) js" "distinct js" "set js = {..<n} - {k}" "length js = n - 1"
    "ch_Response ch = map (\<lambda>(j, l). resp j l) qs" "distinct qs" "set qs = {(j, l). j < n \<and> l < n \<and> j \<noteq> l}" "length qs = n * (n - 1)"
    "ch_SecretCommit ch = map commit ks" "distinct ks" "set ks = {..<n}" "length ks = n"
proof -
  let ?S = "SIGMA l:{..<n}. {..<n} - {l}"
  have m: "mset (ch_Deal ch) = image_mset (\<lambda>j. deal j k) (mset_set ({..<n} - {k}))"
    "mset (ch_Response ch) = image_mset (\<lambda>(l, j). resp j l) (mset_set ?S)"
    "mset (ch_SecretCommit ch) = image_mset commit (mset_set {..<n})" and st: "ch_StartDeal ch = [(publics, thr)]"
    using assms(1) unfolding chans_ok_def by - (elim conjE, assumption)+
  obtain js where js: "ch_Deal ch = map (\<lambda>j. deal j k) js" "mset js = mset_set ({..<n} - {k})"
    using mset_image_list [OF m(1)] by blast
  obtain ps where ps: "ch_Response ch = map (\<lambda>(l, j). resp j l) ps" "mset ps = mset_set ?S"
    using mset_image_list [OF m(2)] by blast
  obtain ks where ks: "ch_SecretCommit ch = map commit ks" "mset ks = mset_set {..<n}"
    using mset_image_list [OF m(3)] by blast
  have j: "distinct js \<and> set js = {..<n} - {k} \<and> length js = n - 1" using mset_set_list [OF _ js(2)] assms(2) by simp
  have p: "distinct ps \<and> set ps = ?S \<and> length ps = n * (n - 1)"
  proof -
    have "card ?S = (\<Sum>l < n. card ({..<n} - {l}))" by (rule card_SigmaI) auto
    also have "\<dots> = n * (n - 1)" by simp
    finally show ?thesis using mset_set_list [OF _ ps(2)] by simp
  qed
  have "prod.swap ` ?S = {(j, l). j < n \<and> l < n \<and> j \<noteq> l}" by force
  then have q: "distinct (map prod.swap ps)" "set (map prod.swap ps) = {(j, l). j < n \<and> l < n \<and> j \<noteq> l}"
    using p by (simp_all add: distinct_map inj_on_def)
  have "ch_Response ch = map (\<lambda>(j, l). resp j l) (map prod.swap ps)" using ps(1) by (simp add: comp_def case_prod_beta)
  moreover have "distinct ks \<and> set ks = {..<n} \<and> length ks = n" using mset_set_list [OF _ ks(2)] by simp
  ultimately show thesis
    using that [of js "map prod.swap ps" ks] js(1) j q p ks(1) st by simp
qed

lemma mset_sent:
  assumes "length nodes = n" and "distinct js" "set js = {..<n} - {i}" and "mset js' = mset_set ({..<n} - {i})"
  shows "mset (map (\<lambda>j. (nodes ! j, Deal (deal i j))) js' @ concat (map (\<lambda>j. to_all nodes (Response (resp j i))) js) @
    to_all nodes (SecretCommit (commit i))) = dkg_out n nodes deal resp commit i"
proof -
  have n: "mset nodes = image_mset ((!) nodes) (mset_set {..<n})"
    using assms(1) by (metis mset_map map_nth mset_set_upto_eq_mset_upto atLeast0LessThan)
  have "mset (concat (map (\<lambda>j. to_all nodes (Response (resp j i))) js)) =
      (\<Sum>j \<in> set js. image_mset (\<lambda>t. (nodes ! t, Response (resp j i))) (mset_set {..<n}))"
    using assms(2) by (simp add: mset_concat comp_def n multiset.map_comp sum_list_distinct_conv_sum_set)
  also have "\<dots> = image_mset (\<lambda>(j, t). (nodes ! t, Response (resp j i))) (mset_set (({..<n} - {i}) \<times> {..<n}))"
    unfolding assms(3) by (subst sum_image_Sigma) simp_all
  finally show ?thesis using assms(4) by (simp add: dkg_out_def n multiset.map_comp comp_def)
qed

text \<open>The run of one participant, phase after phase.\<close>

lemma DKG_Dispatch_phases:
  assumes "receive 1 (ch_StartDeal ch) (allStartDeal L send rnd) st = Some (Ret (), st1)"
    and "length (sd_publics (fst st1)) = n" and "0 < n"
    and "receive (n - 1) (ch_Deal ch) (allDeal L send) st1 = Some (Ret (), st2)"
    and "receive (n * (n - 1)) (ch_Response ch) (allResponse L send) st2 = Some (Ret (), st3)"
    and "receive n (ch_SecretCommit ch) (allSecretCommit L) st3 = Some (Ret (), st4)"
    and "\<not> sd_Wait (fst st4)" and "sd_DKG (fst st4) = Some d" and "dk_Finished L d" and "sd_Done (fst st4) = 0"
  shows "DKG_Dispatch L send rnd ch st = Some (Ret (), ((fst st4)\<lparr>sd_Done := 1\<rparr>, snd st4))"
proof -
  have "sd_publics (fst st1) \<noteq> []" using assms(2,3) by auto
  then show ?thesis
    by (simp only: DKG_Dispatch_def assms(1) then_do.simps Let_def if_False assms(2,4-6)) (simp add: assms(7-10))
qed

lemma dkg_run:
  fixes L :: "('p, 's, 'd, 'dl, 'rs, 'sc) dkg_lib"
  assumes laws: "dkg_laws L n sec publics rnd thr deal resp commit St" "2 \<le> n" "i < n" "length publics = n" "length nodes = n"
    and s: "fresh_setup n sec nodes i s" and ch: "chans_ok n publics thr deal resp commit i ch"
  shows "\<exists>s' w d. DKG_Dispatch L rec_send (rnd i) ch (s, []) = Some (Ret (), (s', w)) \<and> sd_Done s' = 1 \<and>
    sd_DKG s' = Some d \<and> dk_Finished L d \<and> mset w = dkg_out n nodes deal resp commit i"
proof -
  note law = laws(1,3) and fresh = s [unfolded fresh_setup_def]
  obtain js qs ks where c: "ch_StartDeal ch = [(publics, thr)]"
    "ch_Deal ch = map (\<lambda>j. deal j i) js" "distinct js" "set js = {..<n} - {i}" "length js = n - 1"
    "ch_Response ch = map (\<lambda>(j, l). resp j l) qs" "distinct qs" "set qs = {(j, l). j < n \<and> l < n \<and> j \<noteq> l}" "length qs = n * (n - 1)"
    "ch_SecretCommit ch = map commit ks" "distinct ks" "set ks = {..<n}" "length ks = n"
    by (rule chans_lists [OF ch laws(3)])
  let ?w1 = "\<lambda>js'. map (\<lambda>j. (nodes ! j, Deal (deal i j))) js'"
  let ?w2 = "concat (map (\<lambda>j. to_all nodes (Response (resp j i))) js)"
  let ?w3 = "to_all nodes (SecretCommit (commit i)) :: (uuid \<times> ('p, 'dl, 'rs, 'sc) dkg_msg) list"
  obtain s1 js' d1 where p1: "receive 1 [(publics, thr)] (allStartDeal L rec_send (rnd i)) (s, []) = Some (Ret (), (s1, ?w1 js'))"
    "sd_DKG s1 = Some d1" "St i {} {} {} d1" "sd_publics s1 = publics" "sd_nodes s1 = nodes" "\<not> sd_commit s1"
    "\<not> sd_Wait s1" "sd_Done s1 = 0" "mset js' = mset_set ({..<n} - {i})"
    by (rule phase_start [OF law, of s "[]"]) (use fresh laws(5) in auto)
  obtain s2 d2 where p2: "receive (n - 1) (ch_Deal ch) (allDeal L rec_send) (s1, ?w1 js') = Some (Ret (), (s2, ?w1 js' @ ?w2))"
    "sd_DKG s2 = Some d2" "St i ({..<n} - {i}) {} {} d2" "keeps_setup s1 s2" "\<not> sd_commit s2"
    using phase_deals [OF law p1(2,3) c(3), of "?w1 js'"] c(2,4,5) p1(5,6) by auto
  have "(i, if i = 0 then 1 else 0) \<in> foreign n i" using laws(2,3) by (auto simp: foreign_def)
  then have f: "foreign n i \<noteq> {}" by blast
  have g: "set qs \<inter> foreign n i = foreign n i" unfolding c(8) by (auto simp: foreign_def)
  have nd: "sd_nodes s2 = nodes" using p1(5) p2(4) by (simp add: keeps_setup_def)
  obtain s3 d3 where p3: "receive (n * (n - 1)) (ch_Response ch) (allResponse L rec_send) (s2, ?w1 js' @ ?w2) =
      Some (Ret (), (s3, (?w1 js' @ ?w2) @ ?w3))" "sd_DKG s3 = Some d3" "St i ({..<n} - {i}) (foreign n i) {} d3" "keeps_setup s2 s3"
  proof -
    have "set qs \<subseteq> {(j, k). j < n \<and> k < n \<and> j \<noteq> k} - {}" "{} = foreign n i \<longrightarrow> sd_commit s2" using c(8) f by auto
    from phase_responses [OF law p2(2,3) c(7) this(1) _ this(2), of "?w1 js' @ ?w2"] that c(6,9) g p2(5) nd
    show thesis by (fastforce simp: g)
  qed
  obtain s4 d4 where p4: "receive n (ch_SecretCommit ch) (allSecretCommit L) (s3, (?w1 js' @ ?w2) @ ?w3) = Some (Ret (), (s4, (?w1 js' @ ?w2) @ ?w3))"
    "sd_DKG s4 = Some d4" "St i ({..<n} - {i}) (foreign n i) {..<n} d4" "keeps_setup s3 s4"
    using phase_commits [OF law p3(2,3) c(11), of "(?w1 js' @ ?w2) @ ?w3"] c(10,12,13) by auto
  have k: "keeps_setup s1 s4" using p2(4) p3(4) p4(4) keeps_setup_trans by blast
  have "dk_Finished L d4" using finished [OF law p4(3)] .
  moreover have "DKG_Dispatch L rec_send (rnd i) ch (s, []) = Some (Ret (), (s4\<lparr>sd_Done := 1\<rparr>, (?w1 js' @ ?w2) @ ?w3))"
    using DKG_Dispatch_phases [OF p1(1) [folded c(1)] _ _ p2(1) p3(1) p4(1) _ _ calculation] p1(4,7,8) p4(2) k laws(2,4)
    by (simp add: keeps_setup_def)
  ultimately show ?thesis using p4(2) mset_sent [OF laws(5) c(3,4) p1(9), of deal resp commit] by (auto simp: append_assoc)
qed


text \<open>A generator for two participants that keeps what it has processed.\<close>

type_synonym ex_dkg_state = "nat \<times> nat set \<times> (nat \<times> nat) set \<times> nat set"

definition ex_dkg :: "(int, nat, ex_dkg_state, nat \<times> nat, nat \<times> nat, nat) dkg_lib" where
  "ex_dkg = \<lparr>dk_New = (\<lambda>i _ _ _. Ret (i, {}, {}, {})),
    dk_Deals = (\<lambda>(i, st). (Ret (map (\<lambda>j. (j, (i, j))) [1 - i]), (i, st))),
    dk_ProcessDeal = (\<lambda>(i, D, st) (j, k). (Ret (j, k), (i, insert j D, st))),
    dk_ProcessResponse = (\<lambda>(i, D, R, C) (j, k). if k = i then (Err ''own response'', (i, D, R, C)) else (Ret None, (i, D, insert (j, k) R, C))),
    dk_SecretCommits = (\<lambda>(i, D, R, C). (if R = foreign 2 i then Ret i else Err ''not certified'', (i, D, R, C))),
    dk_ProcessSecretCommits = (\<lambda>(i, D, R, C) k. (Ret None, (i, D, R, insert k C))),
    dk_Finished = (\<lambda>(i, D, R, C). C = {..<2}),
    dk_DistKeyShare = (\<lambda>(i, st). Ret (i, 0)), dk_Index = (\<lambda>(i, st). int i)\<rparr>"

lemma ex_dkg_laws:
  "dkg_laws ex_dkg 2 (\<lambda>i. i) [Some 1, Some 2] (\<lambda>_. 0) 2 Pair Pair (\<lambda>i. i) (\<lambda>i D R C d. d = (i, D, R, C))"
proof -
  have "mset [1 - i] = mset_set ({..<2} - {i})" if "i < 2" for i :: nat
  proof -
    have "{..<2} - {i} = {1 - i}" using that by (auto simp: less_2_cases_iff)
    then show ?thesis by simp
  qed
  then have "\<exists>js. [(1 - i, i, 1 - i)] = map (\<lambda>j. (j, i, j)) js \<and> mset js = mset_set ({..<2} - {i})" if "i < 2" for i :: nat
    using that by (intro exI [of _ "[1 - i]"]) simp
  then show ?thesis by (auto simp: dkg_laws_def ex_dkg_def foreign_def)
qed

definition ex_setup :: "nat \<Rightarrow> (int, nat, ex_dkg_state, nat \<times> nat, nat \<times> nat, nat) SetupDKG" where
  "ex_setup i = NewSetupDKG (i, int i) [10, 11] (newTreeNodeInstance (10 + of_nat i) None [])"

definition ex_chans :: "nat \<Rightarrow> (int, nat \<times> nat, nat \<times> nat, nat) dkg_chans" where
  "ex_chans i = \<lparr>ch_StartDeal = [([Some 1, Some 2], 2)], ch_Deal = [(1 - i, i)], ch_Response = [(0, 1), (1, 0)],
    ch_SecretCommit = [1, 0], ch_WaitSetup = [], ch_WaitReply = []\<rparr>"

lemma ex_chans_ok: "i < 2 \<Longrightarrow> chans_ok 2 [Some 1, Some 2] 2 Pair Pair (\<lambda>i. i) i (ex_chans i)"
proof -
  assume "i < 2"
  then have "{..<2} - {i} = {1 - i}" by (auto simp: less_2_cases_iff)
  moreover have "{..<2} = {0, 1 :: nat}" "(SIGMA l:{..<2}. {..<2} - {l}) = {(0, 1), (1, 0 :: nat)}" by auto
  ultimately show ?thesis by (simp add: chans_ok_def ex_chans_def)
qed


text \<open>
  With a single participant the set-up never ends: there are no responses, so the commitments
  are never sent, and the dispatcher waits for its own.
\<close>
lemma dkg_alone_waits:
  assumes "ch_SecretCommit ch = []" and "ch_StartDeal ch = [([p0], thr)]"
    and "dk_New L (fst (sd_keypair (fst st))) [p0] rnd (uint thr) = Ret d" and "dk_Deals L d = (Ret [], d')"
  shows "DKG_Dispatch L send rnd ch st = None"
  using assms by (simp add: DKG_Dispatch_def allStartDeal_def act_bind_def)

section \<open>The keys of the root\<close>

text \<open>The root puts the key of each server at the index of the server in the roster.\<close>

lemma place_publics_all:
  assumes "distinct (map si_ID (ro_List el))" and "length publics = length (ro_List el)" and "\<forall>i \<in> set is. i < length (ro_List el)"
    and "distinct is"
  shows "place_publics el (map (\<lambda>i. (si_ID (ro_List el ! i), pub i)) is) publics =
    (Ret (), fold (\<lambda>i ps. ps[i := Some (pub i)]) is publics)"
  using assms(2-)
proof (induction "is" arbitrary: publics)
  case (Cons i "is")
  then show ?case by (simp add: Roster_Search_distinct [OF assms(1)])
qed simp

lemma rootStartDeal_publics:
  assumes "distinct (map si_ID (ro_List el))" and "length (sd_publics s) = length (ro_List el)" and "mset is = mset [1..<length (ro_List el)]"
    and "ro_List el \<noteq> []" and "snd (sd_keypair s) = pub 0"
  obtains n' where "rootStartDeal rec_send el (map (\<lambda>i. (si_ID (ro_List el ! i), pub i)) is) (s, w) =
    (Ret (), (s\<lparr>sd_publics := map (\<lambda>i. Some (pub i)) [0..<length (ro_List el)], sd_tni := n'\<rparr>,
      w @ to_all (sd_nodes s) (StartDeal (map (\<lambda>i. Some (pub i)) [0..<length (ro_List el)]) (sd_Threshold s))))"
proof -
  let ?n = "length (ro_List el)" and ?ps = "(sd_publics s)[0 := Some (pub 0)]"
  have d: "distinct is" "set is = {1..<?n}" using assms(3) by (metis distinct_upt mset_eq_imp_distinct_iff, metis set_upt mset_eq_setD)
  have "fold (\<lambda>i ps. ps[i := Some (pub i)]) is ?ps ! j = Some (pub j)" if "j < ?n" for j
  proof -
    have "fold (\<lambda>i ps. ps[i := Some (pub i)]) is ?ps ! j = (if j \<in> set is then Some (pub j) else ?ps ! j)"
      by (rule nth_list_update_fold_same) (use d that assms(2) in auto)
    then show ?thesis using that d(2) assms(2,4) by (cases "j = 0") auto
  qed
  moreover have "length (fold (\<lambda>i ps. ps[i := Some (pub i)]) is ps) = length ps" for ps
    by (induction "is" arbitrary: ps) auto
  ultimately have f: "fold (\<lambda>i ps. ps[i := Some (pub i)]) is ?ps = map (\<lambda>i. Some (pub i)) [0..<?n]"
    using assms(2) by (intro nth_equalityI) auto
  have "place_publics el (map (\<lambda>i. (si_ID (ro_List el ! i), pub i)) is) ?ps = (Ret (), map (\<lambda>i. Some (pub i)) [0..<?n])"
    using place_publics_all [OF assms(1), of ?ps "is" pub] d assms(2) f by auto
  moreover obtain n' where "fullBroadcast rec_send (StartDeal (map (\<lambda>i. Some (pub i)) [0..<?n]) (sd_Threshold s))
      (s\<lparr>sd_publics := map (\<lambda>i. Some (pub i)) [0..<?n]\<rparr>, w) =
      (Ret (), (s\<lparr>sd_publics := map (\<lambda>i. Some (pub i)) [0..<?n], sd_tni := n'\<rparr>,
        w @ to_all (sd_nodes s) (StartDeal (map (\<lambda>i. Some (pub i)) [0..<?n]) (sd_Threshold s))))"
    using fullBroadcast_rec [of "StartDeal (map (\<lambda>i. Some (pub i)) [0..<?n]) (sd_Threshold s)"
        "s\<lparr>sd_publics := map (\<lambda>i. Some (pub i)) [0..<?n]\<rparr>" w] by auto
  moreover have "(assign (sd_publics s) 0 (Some (pub 0)) :: (string, _) go) = Ret ?ps"
    using assms(2,4) assign_Ret [of 0 "sd_publics s" "Some (pub 0)"] by simp
  ultimately have "rootStartDeal rec_send el (map (\<lambda>i. (si_ID (ro_List el ! i), pub i)) is) (s, w) =
    (Ret (), (s\<lparr>sd_publics := map (\<lambda>i. Some (pub i)) [0..<?n], sd_tni := n'\<rparr>,
      w @ to_all (sd_nodes s) (StartDeal (map (\<lambda>i. Some (pub i)) [0..<?n]) (sd_Threshold s))))"
    using assms(5) by (simp add: rootStartDeal_def act_bind_def)
  with that show thesis by blast
qed

end
