(* ===== verification/Router.thy ===== *)
theory Router
  imports Tcp
begin

text \<open>
  \<open>imported/onet/network/router.go\<close> and \<open>dispatch.go\<close>: the router with its connections, the
  goroutines that handle them, sending with one reconnection, stopping, and the dispatchers. The
  connections are an interface (\<open>network.go\<close>): a record of operations whose documented
  contract is a locale, interpreted on the TCP connections of \<open>Tcp\<close>.
\<close>

section \<open>Dispatchers\<close>

text \<open>
  The processors by message type. Dispatching to the \<open>BlockingDispatcher\<close> calls the processor,
  to the \<open>RoutineDispatcher\<close> starts a goroutine that calls it; both under the lock.
\<close>

type_synonym 'q Dispatcher = "uuid \<rightharpoonup> 'q"

definition NewBlockingDispatcher :: "'q Dispatcher" where
  "NewBlockingDispatcher = Map.empty"

definition RegisterProcessor :: "'q \<Rightarrow> uuid list \<Rightarrow> 'q Dispatcher \<Rightarrow> 'q Dispatcher" where
  "RegisterProcessor p msgType procs = fold (\<lambda>t procs. procs(t \<mapsto> p)) msgType procs"

definition RegisterProcessorFunc :: "uuid \<Rightarrow> 'q \<Rightarrow> 'q Dispatcher \<Rightarrow> 'q Dispatcher" where
  "RegisterProcessorFunc msgType fn = RegisterProcessor fn [msgType]"

text \<open>The result, and the call of the processor that is made.\<close>

definition Blocking_Dispatch :: "'q Dispatcher \<Rightarrow> uuid \<times> 'm \<Rightarrow> (net_err, unit) go \<times> ('q \<times> uuid \<times> 'm) list" where
  "Blocking_Dispatch procs packet =
    (case procs (fst packet) of
       None \<Rightarrow> (Err (NE ''No Processor attached to this message type''), [])
     | Some p \<Rightarrow> (Ret (), [(p, packet)]))"

definition Routine_Dispatch ::
  "'q Dispatcher \<Rightarrow> uuid \<times> 'm \<Rightarrow> ('q \<times> uuid \<times> 'm) list \<Rightarrow> (net_err, unit) go \<times> ('q \<times> uuid \<times> 'm) list" where
  "Routine_Dispatch procs packet goroutines =
    (case procs (fst packet) of
       None \<Rightarrow> (Err (NE ''no Processor attached to this message type''), goroutines)
     | Some p \<Rightarrow> (Ret (), goroutines @ [(p, packet)]))"

lemma RegisterProcessor_get:
  "RegisterProcessor p ts procs t = (if t \<in> set ts then Some p else procs t)"
  by (induction ts arbitrary: procs) (auto simp: RegisterProcessor_def)

text \<open>The processor registered last for a type is called, and no other.\<close>

lemma Dispatch_latest:
  "Blocking_Dispatch (RegisterProcessor p ts procs) packet =
    (if fst packet \<in> set ts then (Ret (), [(p, packet)]) else Blocking_Dispatch procs packet)"
  by (simp add: Blocking_Dispatch_def RegisterProcessor_get)

section \<open>The interface of connections\<close>

text \<open>
  \<open>Host\<close> and \<open>Conn\<close>, on a state of the network: \<open>Connect\<close>, \<open>Send\<close>, \<open>Receive\<close> (\<open>None\<close>: it
  waits), \<open>Close\<close>, the counters, and the changes that the network makes by itself.
\<close>

record ('p, 'm, 'w) host_ops =
  ho_Connect :: "'p ServerIdentity \<Rightarrow> 'w \<Rightarrow> (net_err, addr) go \<times> 'w"
  ho_Send :: "addr \<Rightarrow> 'm \<Rightarrow> 'w \<Rightarrow> (net_err, unit) go \<times> 'w"
  ho_Receive :: "addr \<Rightarrow> 'w \<Rightarrow> ((net_err, uuid \<times> 'm) go \<times> 'w) option"
  ho_Close :: "addr \<Rightarrow> 'w \<Rightarrow> (net_err, unit) go \<times> 'w"
  ho_Tx :: "addr \<Rightarrow> 'w \<Rightarrow> 64 word"
  ho_Rx :: "addr \<Rightarrow> 'w \<Rightarrow> 64 word"
  ho_net :: "'w \<Rightarrow> 'w \<Rightarrow> bool"
  ho_siMsg :: "'p ServerIdentity \<Rightarrow> 'm"
  ho_asSI :: "'m \<Rightarrow> 'p ServerIdentity option"
  ho_siType :: uuid

section \<open>The router\<close>

text \<open>
  The connections by identity, in an arbitrary order of the identities; \<open>rt_wg\<close> is the counter
  of the wait group. Error handlers are names.
\<close>

record ('p, 'q) Router =
  rt_SI :: "'p ServerIdentity"
  rt_procs :: "'q Dispatcher"
  rt_conns :: "(uuid \<times> addr list) list"
  rt_closed :: bool
  rt_wg :: nat
  rt_errHandlers :: "nat list"
  rt_traffic :: counterSafe

definition NewRouter :: "'p ServerIdentity \<Rightarrow> ('p, 'q) Router" where
  "NewRouter own = \<lparr>rt_SI = own, rt_procs = NewBlockingDispatcher, rt_conns = [], rt_closed = False, rt_wg = 0,
    rt_errHandlers = [], rt_traffic = \<lparr>cs_tx = 0, cs_rx = 0\<rparr>\<rparr>"

text \<open>The slice of an identity, nil when the map has none.\<close>

definition rt_get :: "('p, 'q) Router \<Rightarrow> uuid \<Rightarrow> addr list" where
  "rt_get r i = (case map_of (rt_conns r) i of None \<Rightarrow> [] | Some arr \<Rightarrow> arr)"

definition AddErrorHandler :: "nat \<Rightarrow> ('p, 'q) Router \<Rightarrow> ('p, 'q) Router" where
  "AddErrorHandler h r = r\<lparr>rt_errHandlers := rt_errHandlers r @ [h]\<rparr>"

definition connection :: "('p, 'q) Router \<Rightarrow> uuid \<Rightarrow> addr option" where
  "connection r sid = (case rt_get r sid of [] \<Rightarrow> None | c # _ \<Rightarrow> Some c)"

definition registerConnection :: "'p ServerIdentity \<Rightarrow> addr \<Rightarrow> ('p, 'q) Router \<Rightarrow> (net_err, unit) go \<times> ('p, 'q) Router" where
  "registerConnection remote c r =
    (if rt_closed r then (Err ErrClosed, r)
     else (Ret (), r\<lparr>rt_conns := AList.update (si_ID remote) (rt_get r (si_ID remote) @ [c]) (rt_conns r)\<rparr>))"

text \<open>The index of the last occurrence.\<close>

fun find_last :: "addr \<Rightarrow> nat \<Rightarrow> addr list \<Rightarrow> nat option \<Rightarrow> nat option" where
  "find_last c i [] toDelete = toDelete"
| "find_last c i (cc # arr) toDelete = find_last c (Suc i) arr (if c = cc then Some i else toDelete)"

definition removeConnection :: "'p ServerIdentity \<Rightarrow> addr \<Rightarrow> ('p, 'q) Router \<Rightarrow> ('p, 'q) Router" where
  "removeConnection si c r =
    (let arr = rt_get r (si_ID si) in
     case find_last c 0 arr None of
       None \<Rightarrow> r
     | Some toDelete \<Rightarrow>
         r\<lparr>rt_conns := AList.update (si_ID si) (butlast (arr[toDelete := last arr])) (rt_conns r)\<rparr>)"

text \<open>The sums over all connections, as of \<open>Tx\<close> and \<open>Rx\<close>, which add \<open>traffic\<close>.\<close>

definition Router_Tx :: "('p, 'm, 'w) host_ops \<Rightarrow> 'w \<Rightarrow> ('p, 'q) Router \<Rightarrow> 64 word" where
  "Router_Tx H w r = sum_list (map (\<lambda>(_, arr). sum_list (map (\<lambda>c. ho_Tx H c w) arr)) (rt_conns r)) + cs_tx (rt_traffic r)"

definition Router_Rx :: "('p, 'm, 'w) host_ops \<Rightarrow> 'w \<Rightarrow> ('p, 'q) Router \<Rightarrow> 64 word" where
  "Router_Rx H w r = sum_list (map (\<lambda>(_, arr). sum_list (map (\<lambda>c. ho_Rx H c w) arr)) (rt_conns r)) + cs_rx (rt_traffic r)"

section \<open>Goroutines\<close>

text \<open>
  The program counter of \<open>handleConn\<close>: at \<open>Receive\<close>; before the check of \<open>Closed\<close>; before
  \<open>Dispatch\<close>; and in the deferred function before closing, before \<open>wg.Done\<close> and before
  \<open>removeConnection\<close>. A goroutine that has ended is dropped.
\<close>

datatype 'm hpc =
    HReceive
  | HGot "(net_err, uuid \<times> 'm) go"
  | HDispatch "uuid \<times> 'm"
  | HClose
  | HDone
  | HRemove

text \<open>\<open>Stop\<close>: not called, waiting for the wait group, returned.\<close>

datatype rstop = RIdle | RWait | RReturned

record ('p, 'm, 'q, 'w) rsys =
  y_r :: "('p, 'q) Router"
  y_w :: 'w
  y_handlers :: "('p ServerIdentity \<times> addr \<times> 'm hpc) list"
  y_stop :: rstop
  y_calls :: "('q \<times> 'p ServerIdentity \<times> uuid \<times> 'm) list"
  y_triggered :: "(nat \<times> 'p ServerIdentity) list"

definition new_rsys :: "('p, 'q) Router \<Rightarrow> 'w \<Rightarrow> ('p, 'm, 'q, 'w) rsys" where
  "new_rsys r w = \<lparr>y_r = r, y_w = w, y_handlers = [], y_stop = RIdle, y_calls = [], y_triggered = []\<rparr>"

definition launchHandleRoutine ::
  "'p ServerIdentity \<Rightarrow> addr \<Rightarrow> ('p, 'm, 'q, 'w) rsys \<Rightarrow> (net_err, unit) go \<times> ('p, 'm, 'q, 'w) rsys" where
  "launchHandleRoutine dst c s =
    (if rt_closed (y_r s) then (Err ErrClosed, s)
     else (Ret (), s\<lparr>y_r := (y_r s)\<lparr>rt_wg := Suc (rt_wg (y_r s))\<rparr>, y_handlers := y_handlers s @ [(dst, c, HReceive)]\<rparr>))"

text \<open>The check after \<open>Receive\<close>: where \<open>handleConn\<close> goes on, and whether the error handlers are called.\<close>

definition handleConn_check :: "bool \<Rightarrow> (net_err, uuid \<times> 'm) go \<Rightarrow> 'm hpc \<times> bool" where
  "handleConn_check closed res =
    (if closed then (HClose, False)
     else
       (case res of
          Ret packet \<Rightarrow> (HDispatch packet, False)
        | Err err \<Rightarrow>
            if err = ErrTimeout then (HClose, True)
            else if err = ErrClosed \<or> err = ErrEOF then (HClose, True)
            else (HReceive, False)
        | Panic \<Rightarrow> (HClose, False)))"

text \<open>The deferred function up to \<open>wg.Done\<close>: close, and keep the counters.\<close>

definition handleConn_close :: "('p, 'm, 'w) host_ops \<Rightarrow> addr \<Rightarrow> ('p, 'm, 'q, 'w) rsys \<Rightarrow> ('p, 'm, 'q, 'w) rsys" where
  "handleConn_close H c s =
    (let w = snd (ho_Close H c (y_w s)); r = y_r s in
     s\<lparr>y_w := w, y_r := r\<lparr>rt_traffic := updateTx (ho_Tx H c w) (updateRx (ho_Rx H c w) (rt_traffic r))\<rparr>\<rparr>)"

text \<open>One step of the goroutine at \<open>pc\<close>: the state, and the new program counter or the end. \<open>None\<close>: it waits.\<close>

definition handleConn_step ::
  "('p, 'm, 'w) host_ops \<Rightarrow> 'p ServerIdentity \<Rightarrow> addr \<Rightarrow> 'm hpc \<Rightarrow> ('p, 'm, 'q, 'w) rsys \<Rightarrow>
    (('p, 'm, 'q, 'w) rsys \<times> 'm hpc option) option" where
  "handleConn_step H remote c pc s =
    (case pc of
       HReceive \<Rightarrow> map_option (\<lambda>(res, w). (s\<lparr>y_w := w\<rparr>, Some (HGot res))) (ho_Receive H c (y_w s))
     | HGot res \<Rightarrow>
         (case handleConn_check (rt_closed (y_r s)) res of (pc, trigger) \<Rightarrow>
            Some (if trigger then s\<lparr>y_triggered := y_triggered s @ map (\<lambda>h. (h, remote)) (rt_errHandlers (y_r s))\<rparr> else s, Some pc))
     | HDispatch packet \<Rightarrow>
         Some (s\<lparr>y_calls := y_calls s @ map (\<lambda>(p, e). (p, remote, e)) (snd (Blocking_Dispatch (rt_procs (y_r s)) packet))\<rparr>, Some HReceive)
     | HClose \<Rightarrow> Some (handleConn_close H c s, Some HDone)
     | HDone \<Rightarrow> Some (s\<lparr>y_r := (y_r s)\<lparr>rt_wg := rt_wg (y_r s) - 1\<rparr>\<rparr>, Some HRemove)
     | HRemove \<Rightarrow> Some (s\<lparr>y_r := removeConnection remote c (y_r s)\<rparr>, None))"

definition replace_at :: "nat \<Rightarrow> 'a option \<Rightarrow> 'a list \<Rightarrow> 'a list" where
  "replace_at i x xs = take i xs @ (case x of None \<Rightarrow> [] | Some y \<Rightarrow> [y]) @ drop (Suc i) xs"

text \<open>\<open>Stop\<close> after the host has stopped: the locked region, which closes every connection.\<close>

definition Stop_close :: "('p, 'm, 'w) host_ops \<Rightarrow> ('p, 'm, 'q, 'w) rsys \<Rightarrow> ('p, 'm, 'q, 'w) rsys" where
  "Stop_close H s =
    s\<lparr>y_r := (y_r s)\<lparr>rt_closed := True\<rparr>, y_stop := RWait,
      y_w := fold (\<lambda>c w. snd (ho_Close H c w)) (concat (map snd (rt_conns (y_r s)))) (y_w s)\<rparr>"

section \<open>Connecting, sending, accepting\<close>

text \<open>
  \<open>connect\<close>. When the identity cannot be sent, or the router is closed, the new connection is
  not closed.
\<close>

definition Router_connect ::
  "('p, 'm, 'w) host_ops \<Rightarrow> 'p ServerIdentity \<Rightarrow> ('p, 'm, 'q, 'w) rsys \<Rightarrow> (net_err, addr) go \<times> ('p, 'm, 'q, 'w) rsys" where
  "Router_connect H si s =
    (case ho_Connect H si (y_w s) of
       (Ret c, w) \<Rightarrow>
         (case ho_Send H c (ho_siMsg H (rt_SI (y_r s))) w of
            (Ret _, w) \<Rightarrow>
              (case registerConnection si c (y_r s) of
                 (Ret _, r) \<Rightarrow>
                   (case launchHandleRoutine si c (s\<lparr>y_w := w, y_r := r\<rparr>) of
                      (Ret _, s) \<Rightarrow> (Ret c, s)
                    | (Err e, s) \<Rightarrow> (Err e, s)
                    | (Panic, s) \<Rightarrow> (Panic, s))
               | (Err e, r) \<Rightarrow> (Err e, s\<lparr>y_w := w, y_r := r\<rparr>)
               | (Panic, r) \<Rightarrow> (Panic, s\<lparr>y_w := w, y_r := r\<rparr>))
          | (Err e, w) \<Rightarrow> (Err e, s\<lparr>y_w := w\<rparr>)
          | (Panic, w) \<Rightarrow> (Panic, s\<lparr>y_w := w\<rparr>))
     | (Err e, w) \<Rightarrow> (Err e, s\<lparr>y_w := w\<rparr>)
     | (Panic, w) \<Rightarrow> (Panic, s\<lparr>y_w := w\<rparr>))"

definition send_on :: "('p, 'm, 'w) host_ops \<Rightarrow> addr \<Rightarrow> 'm \<Rightarrow> ('p, 'm, 'q, 'w) rsys \<Rightarrow> (net_err, unit) go \<times> ('p, 'm, 'q, 'w) rsys" where
  "send_on H c msg s = (case ho_Send H c msg (y_w s) of (r, w) \<Rightarrow> (r, s\<lparr>y_w := w\<rparr>))"

text \<open>The second half of \<open>Send\<close>: the new connection and the second try.\<close>

definition Router_resend ::
  "('p, 'm, 'w) host_ops \<Rightarrow> 'p ServerIdentity \<Rightarrow> 'm \<Rightarrow> ('p, 'm, 'q, 'w) rsys \<Rightarrow> (net_err, unit) go \<times> ('p, 'm, 'q, 'w) rsys" where
  "Router_resend H e msg s =
    (case Router_connect H e s of
       (Ret c, s) \<Rightarrow> send_on H c msg s
     | (Err err, s) \<Rightarrow> (Err err, s)
     | (Panic, s) \<Rightarrow> (Panic, s))"

definition Router_Send ::
  "('p, 'm, 'w) host_ops \<Rightarrow> 'p ServerIdentity \<Rightarrow> 'm option \<Rightarrow> ('p, 'm, 'q, 'w) rsys \<Rightarrow> (net_err, unit) go \<times> ('p, 'm, 'q, 'w) rsys" where
  "Router_Send H e msg s =
    (case msg of
       None \<Rightarrow> (Err (NE ''Can not send nil-packet''), s)
     | Some m \<Rightarrow>
         (case (case connection (y_r s) (si_ID e) of Some c \<Rightarrow> (Ret c, s) | None \<Rightarrow> Router_connect H e s) of
            (Ret c, s) \<Rightarrow>
              (case send_on H c m s of
                 (Ret _, s) \<Rightarrow> (Ret (), s)
               | (Err err, s) \<Rightarrow> Router_resend H e m s
               | (Panic, s) \<Rightarrow> (Panic, s))
          | (Err err, s) \<Rightarrow> (Err err, s)
          | (Panic, s) \<Rightarrow> (Panic, s)))"

definition receiveServerIdentity ::
  "('p, 'm, 'w) host_ops \<Rightarrow> addr \<Rightarrow> 'w \<Rightarrow> ((net_err, 'p ServerIdentity) go \<times> 'w) option" where
  "receiveServerIdentity H c w =
    Option.bind (ho_Receive H c w) (\<lambda>(res, w). Some (
      (case res of
         Ret (t, msg) \<Rightarrow>
           if t \<noteq> ho_siType H then Err (NE ''Received wrong type during negotiation'')
           else deref (ho_asSI H msg)
       | Err e \<Rightarrow> Err (NE ''Error while receiving ServerIdentity during negotiation'')
       | Panic \<Rightarrow> Panic), w))"

text \<open>
  The function that \<open>Start\<close> gives to \<open>Listen\<close>, on an incoming connection. When the router is
  closed the connection is left open.
\<close>

definition Start_incoming :: "('p, 'm, 'w) host_ops \<Rightarrow> addr \<Rightarrow> ('p, 'm, 'q, 'w) rsys \<Rightarrow> (net_err, unit) go \<times> ('p, 'm, 'q, 'w) rsys" where
  "Start_incoming H c s =
    (case receiveServerIdentity H c (y_w s) of
       None \<Rightarrow> (Ret (), s)
     | Some (Ret dst, w) \<Rightarrow>
         (case registerConnection dst c (y_r s) of
            (Ret _, r) \<Rightarrow> launchHandleRoutine dst c (s\<lparr>y_w := w, y_r := r\<rparr>)
          | (e, r) \<Rightarrow> (e, s\<lparr>y_w := w, y_r := r\<rparr>))
     | Some (Err e, w) \<Rightarrow> (Err e, s\<lparr>y_w := snd (ho_Close H c w)\<rparr>)
     | Some (Panic, w) \<Rightarrow> (Panic, s\<lparr>y_w := w\<rparr>))"

section \<open>Interleavings\<close>

text \<open>
  The system: the network changes; any goroutine dials, sends, receives on and closes
  connections; a connection that exists is registered and then launched, in two locked regions; a
  handler makes a step; \<open>Stop\<close> runs. \<open>alive\<close> says which connections exist. \<open>pending\<close> holds
  the connections between their registration and their launch.
\<close>

type_synonym ('p, 'm, 'q, 'w) router_state = "('p, 'm, 'q, 'w) rsys \<times> ('p ServerIdentity \<times> addr) list"

inductive router_step ::
  "('p, 'm, 'w) host_ops \<Rightarrow> (addr \<Rightarrow> 'w \<Rightarrow> bool) \<Rightarrow> ('p, 'm, 'q, 'w) router_state \<Rightarrow> ('p, 'm, 'q, 'w) router_state \<Rightarrow> bool"
  for H alive where
  net: "ho_net H (y_w s) w \<Longrightarrow> router_step H alive (s, ps) (s\<lparr>y_w := w\<rparr>, ps)"
| dial: "router_step H alive (s, ps) (s\<lparr>y_w := snd (ho_Connect H si (y_w s))\<rparr>, ps)"
| send: "router_step H alive (s, ps) (s\<lparr>y_w := snd (ho_Send H c m (y_w s))\<rparr>, ps)"
| recv: "ho_Receive H c (y_w s) = Some (res, w) \<Longrightarrow> router_step H alive (s, ps) (s\<lparr>y_w := w\<rparr>, ps)"
| shut: "router_step H alive (s, ps) (s\<lparr>y_w := snd (ho_Close H c (y_w s))\<rparr>, ps)"
| register: "alive c (y_w s) \<Longrightarrow> registerConnection si c (y_r s) = (Ret (), r) \<Longrightarrow>
    router_step H alive (s, ps) (s\<lparr>y_r := r\<rparr>, (si, c) # ps)"
| launch: "(si, c) \<in> set ps \<Longrightarrow> launchHandleRoutine si c s = (res, s') \<Longrightarrow>
    router_step H alive (s, ps) (s', remove1 (si, c) ps)"
| handler: "i < length (y_handlers s) \<Longrightarrow> y_handlers s ! i = (si, c, pc) \<Longrightarrow> handleConn_step H si c pc s = Some (s', pc') \<Longrightarrow>
    router_step H alive (s, ps) (s'\<lparr>y_handlers := replace_at i (map_option (\<lambda>pc. (si, c, pc)) pc') (y_handlers s)\<rparr>, ps)"
| stop: "y_stop s = RIdle \<Longrightarrow> router_step H alive (s, ps) (Stop_close H s, ps)"
| stopped: "y_stop s = RWait \<Longrightarrow> rt_wg (y_r s) = 0 \<Longrightarrow> router_step H alive (s, ps) (s\<lparr>y_stop := RReturned\<rparr>, ps)"

section \<open>The table of connections\<close>

lemma find_last_spec:
  assumes "find_last c i arr d = Some k"
  shows "d = Some k \<and> c \<notin> set arr \<or> i \<le> k \<and> k - i < length arr \<and> arr ! (k - i) = c"
  using assms
proof (induction c i arr d rule: find_last.induct)
  case (2 c i cc arr d)
  have "Suc i \<le> k \<Longrightarrow> k - i = Suc (k - Suc i)" by simp
  with 2 show ?case by (cases "c = cc") (auto simp: Suc_diff_le)
qed simp

lemma find_last_Some: "c \<in> set arr \<or> d \<noteq> None \<Longrightarrow> find_last c i arr d \<noteq> None"
  by (induction c i arr d rule: find_last.induct) auto

lemma swap_delete:
  assumes "k < length arr"
  shows "mset (butlast (arr[k := last arr])) = mset arr - {#arr ! k#}"
proof -
  have b: "mset (butlast ys) = mset ys - {#last ys#}" if "ys \<noteq> []" for ys :: "'a list"
    using that by (cases ys rule: rev_cases) simp_all
  have "last (arr[k := last arr]) = last arr" using assms last_list_update [of arr k "last arr"] by (cases "arr = []") auto
  moreover have "arr[k := last arr] \<noteq> []" using assms by auto
  ultimately show ?thesis using b [of "arr[k := last arr]"] assms by (simp add: mset_update)
qed

lemma rt_get_update: "rt_get (r\<lparr>rt_conns := AList.update k v (rt_conns r)\<rparr>) i = (if i = k then v else rt_get r i)"
  by (simp add: rt_get_def AList.update_conv')

lemma removeConnection_mset:
  "mset (rt_get (removeConnection si c r) i) = (if i = si_ID si then mset (rt_get r i) - {#c#} else mset (rt_get r i))"
proof (cases "find_last c 0 (rt_get r (si_ID si)) None")
  case None
  then have "c \<notin> set (rt_get r (si_ID si))" using find_last_Some by blast
  then show ?thesis using None by (simp add: removeConnection_def)
next
  case (Some k)
  then have k: "k < length (rt_get r (si_ID si))" "rt_get r (si_ID si) ! k = c" using find_last_spec [OF Some] by auto
  have "rt_get (removeConnection si c r) i =
      (if i = si_ID si then butlast ((rt_get r i)[k := last (rt_get r i)]) else rt_get r i)"
    by (simp add: removeConnection_def Some rt_get_update Let_def)
  then show ?thesis using swap_delete [OF k(1)] k(2) by simp
qed

lemma registerConnection_get:
  "registerConnection si c r = (Ret (), r') \<Longrightarrow> \<not> rt_closed r \<and> r' = r\<lparr>rt_conns := rt_conns r'\<rparr> \<and>
    rt_get r' i = (if i = si_ID si then rt_get r i @ [c] else rt_get r i)"
  by (auto simp: registerConnection_def rt_get_update split: if_splits)

lemma removeConnection_simps [simp]:
  "rt_closed (removeConnection si c r) = rt_closed r" "rt_wg (removeConnection si c r) = rt_wg r"
  "rt_procs (removeConnection si c r) = rt_procs r" "rt_traffic (removeConnection si c r) = rt_traffic r"
  "distinct (map fst (rt_conns r)) \<Longrightarrow> distinct (map fst (rt_conns (removeConnection si c r)))"
  by (auto simp: removeConnection_def Let_def distinct_update split: option.splits)

lemma rt_get_simps [simp]:
  "rt_get (r\<lparr>rt_wg := n\<rparr>) i = rt_get r i" "rt_get (r\<lparr>rt_closed := b\<rparr>) i = rt_get r i" "rt_get (r\<lparr>rt_traffic := t\<rparr>) i = rt_get r i"
  by (simp_all add: rt_get_def)

lemma rt_get_all:
  assumes "distinct (map fst (rt_conns r))"
  shows "c \<in> set (concat (map snd (rt_conns r))) \<longleftrightarrow> (\<exists>i. c \<in> set (rt_get r i))"
proof
  assume "c \<in> set (concat (map snd (rt_conns r)))"
  then obtain i arr where "(i, arr) \<in> set (rt_conns r)" "c \<in> set arr" by auto
  then have "rt_get r i = arr" using assms by (simp add: rt_get_def)
  with \<open>c \<in> set arr\<close> show "\<exists>i. c \<in> set (rt_get r i)" by blast
next
  assume "\<exists>i. c \<in> set (rt_get r i)"
  then obtain i where i: "c \<in> set (rt_get r i)" by blast
  then obtain arr where "map_of (rt_conns r) i = Some arr" "c \<in> set arr"
    by (cases "map_of (rt_conns r) i") (simp_all add: rt_get_def)
  then show "c \<in> set (concat (map snd (rt_conns r)))" by (force dest: map_of_SomeD)
qed

lemma replace_at_split:
  assumes "i < length xs" "xs ! i = x"
  obtains a b where "xs = a @ x # b" "\<And>y. replace_at i y xs = a @ (case y of None \<Rightarrow> [] | Some z \<Rightarrow> [z]) @ b"
  using that [of "take i xs" "drop (Suc i) xs"] assms id_take_nth_drop [OF assms(1)] by (simp add: replace_at_def)

text \<open>The sum of a counter over all connections.\<close>

definition total_of :: "(addr \<Rightarrow> 64 word) \<Rightarrow> (uuid \<times> addr list) list \<Rightarrow> 64 word" where
  "total_of f conns = sum_list (map (\<lambda>(_, arr). sum_list (map f arr)) conns)"

lemma Router_Tx_total: "Router_Tx H w r = total_of (\<lambda>c. ho_Tx H c w) (rt_conns r) + cs_tx (rt_traffic r)"
  and Router_Rx_total: "Router_Rx H w r = total_of (\<lambda>c. ho_Rx H c w) (rt_conns r) + cs_rx (rt_traffic r)"
  by (simp_all add: Router_Tx_def Router_Rx_def total_of_def)

lemma total_of_update:
  "map_of conns k = Some arr \<Longrightarrow>
    total_of f (AList.update k arr' conns) = total_of f conns - sum_list (map f arr) + sum_list (map f arr')"
  by (induction conns) (auto simp: total_of_def)

lemma total_remove:
  assumes "c \<in> set (rt_get r (si_ID si))"
  shows "total_of f (rt_conns (removeConnection si c r)) = total_of f (rt_conns r) - f c"
proof -
  obtain k where k: "find_last c 0 (rt_get r (si_ID si)) None = Some k" using find_last_Some assms by fastforce
  then have n: "k < length (rt_get r (si_ID si))" "rt_get r (si_ID si) ! k = c" using find_last_spec [OF k] by auto
  have m: "map_of (rt_conns r) (si_ID si) = Some (rt_get r (si_ID si))"
    using assms by (cases "map_of (rt_conns r) (si_ID si)") (simp_all add: rt_get_def)
  let ?arr = "butlast ((rt_get r (si_ID si))[k := last (rt_get r (si_ID si))])"
  have sm: "sum_list (map f xs) = \<Sum>\<^sub># (image_mset f (mset xs))" for xs :: "addr list"
    by (metis mset_map sum_mset_sum_list)
  have "mset (rt_get r (si_ID si)) = add_mset c (mset ?arr)" using swap_delete [OF n(1)] n assms by simp
  then have "sum_list (map f (rt_get r (si_ID si))) = f c + sum_list (map f ?arr)" unfolding sm by simp
  then show ?thesis using total_of_update [OF m, of f ?arr] by (simp add: removeConnection_def k Let_def)
qed

text \<open>How many steps a handler is away from \<open>wg.Done\<close> when its connection and the router are closed.\<close>

fun pc_rank :: "'m hpc \<Rightarrow> nat" where
  "pc_rank (HDispatch _) = 5"
| "pc_rank HReceive = 4"
| "pc_rank (HGot _) = 3"
| "pc_rank HClose = 2"
| "pc_rank HDone = 1"
| "pc_rank HRemove = 0"

section \<open>The contract of connections\<close>

text \<open>
  What \<open>network.go\<close> documents of \<open>Conn\<close>: a closed connection stays closed, a \<open>Receive\<close> on it
  returns with an error, a \<open>Send\<close> fails, closing it again gives \<open>ErrClosed\<close>. Closing leaves
  the counters as they are. \<open>wfw\<close> is an invariant of the network and \<open>alive\<close> says which
  connections exist.
\<close>

definition net_keeping :: "('w \<Rightarrow> bool) \<Rightarrow> (addr \<Rightarrow> 'w \<Rightarrow> bool) \<Rightarrow> (addr \<Rightarrow> 'w \<Rightarrow> bool) \<Rightarrow> 'w \<Rightarrow> 'w \<Rightarrow> bool" where
  "net_keeping wfw alive closedc w w' \<longleftrightarrow> (wfw w \<longrightarrow> wfw w') \<and> (\<forall>c. alive c w \<longrightarrow> alive c w') \<and> (\<forall>c. closedc c w \<longrightarrow> closedc c w')"

lemma net_keeping_refl [simp]: "net_keeping wfw alive closedc w w"
  by (simp add: net_keeping_def)

lemma net_keeping_trans: "net_keeping wfw alive closedc w w' \<Longrightarrow> net_keeping wfw alive closedc w' w'' \<Longrightarrow> net_keeping wfw alive closedc w w''"
  by (simp add: net_keeping_def)

definition active :: "'a \<times> 'b \<times> 'm hpc \<Rightarrow> bool" where
  "active = (\<lambda>(si, c, pc). pc \<noteq> HRemove)"

text \<open>The connections of an identity that a goroutine will still handle or remove.\<close>

definition held :: "uuid \<Rightarrow> ('p ServerIdentity \<times> addr \<times> 'm hpc) list \<Rightarrow> ('p ServerIdentity \<times> addr) list \<Rightarrow> addr multiset" where
  "held i hs ps = mset (map (\<lambda>(si, c, pc). c) (filter (\<lambda>(si, c, pc). si_ID si = i) hs)) +
    mset (map snd (filter (\<lambda>(si, c). si_ID si = i) ps))"

lemma held_remove: "held i (a @ (si, c, pc) # b) ps = (if si_ID si = i then add_mset c (held i (a @ b) ps) else held i (a @ b) ps)"
  by (simp add: held_def)

lemma held_pending:
  "held i hs (a @ (si, c) # b) = (if si_ID si = i then add_mset c (held i hs (a @ b)) else held i hs (a @ b))"
  by (simp add: held_def)

lemma held_member: "(si, c, pc) \<in> set hs \<Longrightarrow> c \<in># held (si_ID si) hs ps"
  by (force simp: held_def)

locale conn_contract =
  fixes H :: "('p, 'm, 'w) host_ops"
    and wfw :: "'w \<Rightarrow> bool" and alive :: "addr \<Rightarrow> 'w \<Rightarrow> bool" and closedc :: "addr \<Rightarrow> 'w \<Rightarrow> bool"
  assumes connect_keeps: "net_keeping wfw alive closedc w (snd (ho_Connect H si w))"
    and connect_alive: "ho_Connect H si w = (Ret c, w') \<Longrightarrow> alive c w'"
    and send_keeps: "net_keeping wfw alive closedc w (snd (ho_Send H c m w))"
    and receive_keeps: "ho_Receive H c w = Some (res, w') \<Longrightarrow> net_keeping wfw alive closedc w w'"
    and close_keeps: "net_keeping wfw alive closedc w (snd (ho_Close H c w))"
    and net_keeps: "ho_net H w w' \<Longrightarrow> net_keeping wfw alive closedc w w'"
    and close_closes: "wfw w \<Longrightarrow> alive c w \<Longrightarrow> closedc c (snd (ho_Close H c w))"
    and close_again: "wfw w \<Longrightarrow> closedc c w \<Longrightarrow> fst (ho_Close H c w) = Err ErrClosed"
    and receive_closed: "wfw w \<Longrightarrow> closedc c w \<Longrightarrow> \<exists>e w'. ho_Receive H c w = Some (Err e, w')"
    and send_closed: "wfw w \<Longrightarrow> closedc c w \<Longrightarrow> fst (ho_Send H c m w) \<noteq> Ret ()"
    and close_counters: "ho_Tx H d (snd (ho_Close H c w)) = ho_Tx H d w" "ho_Rx H d (snd (ho_Close H c w)) = ho_Rx H d w"
begin

definition rinv :: "('p, 'm, 'q, 'w) router_state \<Rightarrow> bool" where
  "rinv = (\<lambda>(s, ps).
    wfw (y_w s) \<and> distinct (map fst (rt_conns (y_r s))) \<and> rt_wg (y_r s) = length (filter active (y_handlers s)) \<and>
    (\<forall>i. held i (y_handlers s) ps \<subseteq># mset (rt_get (y_r s) i)) \<and>
    (\<forall>i. \<forall>c \<in> set (rt_get (y_r s) i). alive c (y_w s)) \<and>
    (rt_closed (y_r s) \<longleftrightarrow> y_stop s \<noteq> RIdle) \<and>
    (rt_closed (y_r s) \<longrightarrow> (\<forall>h \<in> set (y_handlers s). closedc (fst (snd h)) (y_w s))) \<and>
    (y_stop s = RReturned \<longrightarrow> \<not> list_ex active (y_handlers s)))"

lemma rinv_world: "rinv (s, ps) \<Longrightarrow> net_keeping wfw alive closedc (y_w s) w \<Longrightarrow> rinv (s\<lparr>y_w := w\<rparr>, ps)"
  by (fastforce simp: rinv_def net_keeping_def)

lemma close_all: "net_keeping wfw alive closedc w (fold (\<lambda>c w. snd (ho_Close H c w)) cs w)"
  by (induction cs arbitrary: w) (auto intro: net_keeping_trans [OF close_keeps])

lemma close_all_closed:
  assumes "wfw w" "\<forall>c \<in> set cs. alive c w" "c \<in> set cs"
  shows "closedc c (fold (\<lambda>c w. snd (ho_Close H c w)) cs w)"
  using assms
proof (induction cs arbitrary: w)
  case (Cons d cs)
  have k: "net_keeping wfw alive closedc w (snd (ho_Close H d w))" by (rule close_keeps)
  show ?case
  proof (cases "c = d")
    case True
    then have "closedc c (snd (ho_Close H d w))" using close_closes Cons.prems(1,2) by simp
    then show ?thesis using close_all [of "snd (ho_Close H d w)" cs] by (simp add: net_keeping_def)
  next
    case False
    then show ?thesis using Cons.IH [of "snd (ho_Close H d w)"] Cons.prems k by (auto simp: net_keeping_def)
  qed
qed simp

lemma rinv_register:
  assumes "rinv (s, ps)" "alive c (y_w s)" "registerConnection si c (y_r s) = (Ret (), r)"
  shows "rinv (s\<lparr>y_r := r\<rparr>, (si, c) # ps)"
proof -
  note g = registerConnection_get [OF assms(3)]
  have r: "rt_wg r = rt_wg (y_r s)" "rt_closed r = rt_closed (y_r s)" "distinct (map fst (rt_conns r))"
    using assms(1,3) by (auto simp: registerConnection_def rinv_def distinct_update split: if_splits)
  have "held i (y_handlers s) ((si, c) # ps) \<subseteq># mset (rt_get r i)" for i
  proof -
    have "held i (y_handlers s) ps \<subseteq># mset (rt_get (y_r s) i)" using assms(1) by (simp add: rinv_def)
    then show ?thesis using g [of i] held_pending [of i "y_handlers s" "[]" si c ps] by simp
  qed
  moreover have "\<forall>d \<in> set (rt_get r i). alive d (y_w s)" for i using assms(1,2) g [of i] by (auto simp: rinv_def)
  ultimately show ?thesis using assms(1) r by (simp add: rinv_def)
qed

lemma rinv_launch:
  assumes "rinv (s, ps)" "(si, c) \<in> set ps" "launchHandleRoutine si c s = (res, s')"
  shows "rinv (s', remove1 (si, c) ps)"
proof -
  obtain a b where ps: "ps = a @ (si, c) # b" "remove1 (si, c) ps = a @ b"
    using assms(2) by (metis remove1_append remove1.simps(2) split_list_first)
  show ?thesis
  proof (cases "rt_closed (y_r s)")
    case True
    have "held i (y_handlers s) (a @ b) \<subseteq># held i (y_handlers s) ps" for i unfolding ps by (simp add: held_pending)
    then have "held i (y_handlers s) (a @ b) \<subseteq># mset (rt_get (y_r s) i)" for i
      using assms(1) subset_mset.order_trans unfolding rinv_def by blast
    moreover have "s' = s" using assms(3) True by (simp add: launchHandleRoutine_def)
    ultimately show ?thesis using assms(1) unfolding ps(2) by (simp add: rinv_def)
  next
    case False
    have h: "held i (y_handlers s @ [(si, c, HReceive)]) (a @ b) = held i (y_handlers s) ps" for i
      unfolding ps using held_remove [of i "y_handlers s" si c HReceive "[]" "a @ b"] by (simp add: held_pending)
    have "s' = s\<lparr>y_r := (y_r s)\<lparr>rt_wg := Suc (rt_wg (y_r s))\<rparr>, y_handlers := y_handlers s @ [(si, c, HReceive)]\<rparr>"
      using assms(3) False by (simp add: launchHandleRoutine_def)
    moreover have "active (si, c, HReceive)" by (simp add: active_def)
    ultimately show ?thesis using assms(1) False h unfolding ps(2) by (simp add: rinv_def)
  qed
qed

lemma rinv_stop: "rinv (s, ps) \<Longrightarrow> y_stop s = RIdle \<Longrightarrow> rinv (Stop_close H s, ps)"
proof -
  assume i: "rinv (s, ps)" "y_stop s = RIdle"
  let ?cs = "concat (map snd (rt_conns (y_r s)))"
  let ?w = "fold (\<lambda>c w. snd (ho_Close H c w)) ?cs (y_w s)"
  have k: "net_keeping wfw alive closedc (y_w s) ?w" by (rule close_all)
  have d: "distinct (map fst (rt_conns (y_r s)))" using i(1) by (simp add: rinv_def)
  have "closedc c ?w" if "(si, c, pc) \<in> set (y_handlers s)" for si c pc
  proof -
    have "held (si_ID si) (y_handlers s) ps \<subseteq># mset (rt_get (y_r s) (si_ID si))" using i(1) by (simp add: rinv_def)
    then have "c \<in> set (rt_get (y_r s) (si_ID si))" using held_member [OF that, of ps] by (metis mset_subset_eqD set_mset_mset)
    then have "c \<in> set ?cs" using rt_get_all [OF d] by blast
    moreover have "\<forall>d \<in> set ?cs. alive d (y_w s)" using rt_get_all [OF d] i(1) unfolding rinv_def by blast
    ultimately show ?thesis using close_all_closed i(1) by (simp add: rinv_def)
  qed
  then show ?thesis using i k by (auto simp: rinv_def Stop_close_def net_keeping_def)
qed

text \<open>A goroutine that changes only its program counter and the network.\<close>

lemma rinv_pc:
  assumes "rinv (s, ps)" "y_handlers s = a @ (si, c, pc) # b" "pc \<noteq> HRemove" "pc' \<noteq> HRemove"
    and "net_keeping wfw alive closedc (y_w s) w" "y_r s' = (y_r s)\<lparr>rt_traffic := t\<rparr>" "y_w s' = w" "y_stop s' = y_stop s"
  shows "rinv (s'\<lparr>y_handlers := a @ (si, c, pc') # b\<rparr>, ps)"
proof -
  have "held i (a @ (si, c, pc') # b) ps = held i (y_handlers s) ps" for i unfolding assms(2) by (simp add: held_remove)
  moreover have "active (si, c, pc)" "active (si, c, pc')" using assms(3,4) by (simp_all add: active_def)
  ultimately show ?thesis using assms(1,2,5-8) by (auto simp: rinv_def net_keeping_def)
qed

lemma handleConn_check_pc: "handleConn_check cl res = (pc, trigger) \<Longrightarrow> pc \<noteq> HRemove"
  by (auto simp: handleConn_check_def split: if_splits go.splits)

lemma rinv_handler:
  assumes "rinv (s, ps)" "y_handlers s = a @ (si, c, pc) # b" "handleConn_step H si c pc s = Some (s', pc')"
  shows "rinv (s'\<lparr>y_handlers := a @ (case map_option (\<lambda>pc. (si, c, pc)) pc' of None \<Rightarrow> [] | Some h \<Rightarrow> [h]) @ b\<rparr>, ps)"
proof (cases pc)
  case HReceive
  then obtain res w where r: "ho_Receive H c (y_w s) = Some (res, w)" "s' = s\<lparr>y_w := w\<rparr>" "pc' = Some (HGot res)"
    using assms(3) by (auto simp: handleConn_step_def)
  show ?thesis using rinv_pc [OF assms(1,2), of "HGot res" w s' "rt_traffic (y_r s)"] receive_keeps [OF r(1)] r HReceive by simp
next
  case (HGot res)
  obtain pc1 trigger where c: "handleConn_check (rt_closed (y_r s)) res = (pc1, trigger)" by fastforce
  have "pc' = Some pc1" "y_r s' = y_r s" "y_w s' = y_w s" "y_stop s' = y_stop s"
    using assms(3) c HGot by (auto simp: handleConn_step_def)
  then show ?thesis using rinv_pc [OF assms(1,2), of pc1 "y_w s" s' "rt_traffic (y_r s)"] handleConn_check_pc [OF c] HGot by simp
next
  case (HDispatch packet)
  then have "pc' = Some HReceive" "y_r s' = y_r s" "y_w s' = y_w s" "y_stop s' = y_stop s"
    using assms(3) by (auto simp: handleConn_step_def)
  then show ?thesis using rinv_pc [OF assms(1,2), of HReceive "y_w s" s' "rt_traffic (y_r s)"] HDispatch by simp
next
  case HClose
  then have "pc' = Some HDone" "y_w s' = snd (ho_Close H c (y_w s))" "y_stop s' = y_stop s"
      "\<exists>t. y_r s' = (y_r s)\<lparr>rt_traffic := t\<rparr>"
    using assms(3) by (auto simp: handleConn_step_def handleConn_close_def Let_def)
  then show ?thesis using rinv_pc [OF assms(1,2), of HDone "snd (ho_Close H c (y_w s))" s'] close_keeps HClose by auto
next
  case HDone
  then have s': "pc' = Some HRemove" "s' = s\<lparr>y_r := (y_r s)\<lparr>rt_wg := rt_wg (y_r s) - 1\<rparr>\<rparr>"
    using assms(3) by (auto simp: handleConn_step_def)
  have "held i (a @ (si, c, HRemove) # b) ps = held i (y_handlers s) ps" for i unfolding assms(2) by (simp add: held_remove)
  moreover have "active (si, c, pc)" "\<not> active (si, c, HRemove)" using HDone by (simp_all add: active_def)
  ultimately show ?thesis using assms(1,2) s' by (auto simp: rinv_def)
next
  case HRemove
  then have s': "pc' = None" "s' = s\<lparr>y_r := removeConnection si c (y_r s)\<rparr>" using assms(3) by (auto simp: handleConn_step_def)
  let ?get = "rt_get (removeConnection si c (y_r s))"
  have "held i (a @ b) ps \<subseteq># mset (?get i)" for i
  proof -
    have "held i (y_handlers s) ps \<subseteq># mset (rt_get (y_r s) i)" using assms(1) by (simp add: rinv_def)
    then show ?thesis unfolding assms(2) held_remove removeConnection_mset by (auto simp: insert_subset_eq_iff)
  qed
  moreover have "\<forall>d \<in> set (?get i). alive d (y_w s)" for i
  proof -
    have "set (?get i) \<subseteq> set (rt_get (y_r s) i)"
      using removeConnection_mset [of si c "y_r s" i] by (metis diff_subset_eq_self set_mset_mono set_mset_mset subset_mset.order_refl)
    then show ?thesis using assms(1) unfolding rinv_def by blast
  qed
  moreover have "\<not> active (si, c, pc)" using HRemove by (simp add: active_def)
  ultimately show ?thesis using assms(1,2) s' by (auto simp: rinv_def)
qed

lemma router_step_inv: "router_step H alive st st' \<Longrightarrow> rinv st \<Longrightarrow> rinv st'"
proof (induction rule: router_step.induct)
  case (handler i s si c pc s' pc' ps)
  obtain a b where ab: "y_handlers s = a @ (si, c, pc) # b"
    "\<And>y. replace_at i y (y_handlers s) = a @ (case y of None \<Rightarrow> [] | Some z \<Rightarrow> [z]) @ b"
    using replace_at_split [OF handler(1,2)] by metis
  show ?case unfolding ab(2) by (rule rinv_handler [OF handler(4) ab(1) handler(3)])
next
  case (net s w ps)
  then show ?case by (auto intro: rinv_world net_keeps)
next
  case (recv c s res w ps)
  then show ?case by (auto intro: rinv_world receive_keeps)
next
  case (stopped s ps)
  then have "filter active (y_handlers s) = []" by (simp add: rinv_def)
  then have "\<not> list_ex active (y_handlers s)" by (auto simp: list_ex_iff filter_empty_conv)
  with stopped show ?case by (simp add: rinv_def)
qed (auto intro: rinv_world connect_keeps send_keeps close_keeps rinv_register rinv_launch rinv_stop)

lemma reachable_inv: "(router_step H alive)\<^sup>*\<^sup>* st st' \<Longrightarrow> rinv st \<Longrightarrow> rinv st'"
  by (induction rule: rtranclp_induct) (blast intro: router_step_inv)+

lemma new_rinv: "wfw w \<Longrightarrow> rinv (new_rsys (NewRouter own) w, [])"
  by (simp add: rinv_def new_rsys_def NewRouter_def held_def rt_get_def)


text \<open>After \<open>Stop\<close> has returned no goroutine handles a connection, and nothing is dispatched any more.\<close>

lemma step_quiet:
  assumes "router_step H alive st st'" "rinv st" "y_stop (fst st) = RReturned"
  shows "y_calls (fst st') = y_calls (fst st) \<and> y_triggered (fst st') = y_triggered (fst st) \<and> y_stop (fst st') = RReturned"
  using assms
proof (induction rule: router_step.induct)
  case (handler i s si c pc s' pc' ps)
  have "(si, c, pc) \<in> set (y_handlers s)" using handler(1,2) by (metis nth_mem)
  moreover have "\<not> list_ex active (y_handlers s)" using handler(4,5) by (simp add: rinv_def)
  ultimately have "pc = HRemove" by (auto simp: list_ex_iff active_def)
  then show ?case using handler(3,5) by (auto simp: handleConn_step_def)
next
  case (launch si c ps s res s')
  then show ?case by (auto simp: launchHandleRoutine_def split: if_splits)
qed (auto simp: Stop_close_def)

lemma stop_quiescent:
  assumes "rinv st" "y_stop (fst st) = RReturned"
  shows "\<not> list_ex active (y_handlers (fst st))"
    and "(router_step H alive)\<^sup>*\<^sup>* st st' \<Longrightarrow>
      y_calls (fst st') = y_calls (fst st) \<and> y_triggered (fst st') = y_triggered (fst st) \<and> y_stop (fst st') = RReturned"
proof -
  show "\<not> list_ex active (y_handlers (fst st))" using assms by (cases st) (simp add: rinv_def)
  assume "(router_step H alive)\<^sup>*\<^sup>* st st'"
  then show "y_calls (fst st') = y_calls (fst st) \<and> y_triggered (fst st') = y_triggered (fst st) \<and> y_stop (fst st') = RReturned"
  proof (induction rule: rtranclp_induct)
    case base
    then show ?case using assms by simp
  next
    case (step y z)
    then show ?case using step_quiet [OF step(2)] reachable_inv [OF step(1) assms(1)] by simp
  qed
qed

lemma handler_progress:
  assumes "wfw (y_w s)" "closedc c (y_w s)" "rt_closed (y_r s)" "pc \<noteq> HRemove"
  obtains s' pc' where "handleConn_step H si c pc s = Some (s', Some pc')" "pc_rank pc' < pc_rank pc" "y_stop s' = y_stop s"
proof (cases pc)
  case HReceive
  obtain e w where "ho_Receive H c (y_w s) = Some (Err e, w)" using receive_closed [OF assms(1,2)] by blast
  then show thesis using that HReceive by (simp add: handleConn_step_def)
qed (use assms that in \<open>simp_all add: handleConn_step_def handleConn_check_def handleConn_close_def Let_def\<close>)

lemma stop_completes:
  assumes "rinv (s, ps)" "y_stop s = RWait"
  shows "\<exists>st'. (router_step H alive)\<^sup>*\<^sup>* (s, ps) st' \<and> y_stop (fst st') = RReturned"
  using assms
proof (induction "sum_list (map (\<lambda>h. pc_rank (snd (snd h))) (y_handlers s))" arbitrary: s rule: less_induct)
  case less
  have cl: "rt_closed (y_r s)" "wfw (y_w s)" "\<forall>h \<in> set (y_handlers s). closedc (fst (snd h)) (y_w s)"
    using less.prems by (simp_all add: rinv_def)
  show ?case
  proof (cases "list_ex active (y_handlers s)")
    case False
    then have "filter active (y_handlers s) = []" by (auto simp: list_ex_iff filter_empty_conv)
    then have "rt_wg (y_r s) = 0" using less.prems(1) by (simp add: rinv_def)
    then have "router_step H alive (s, ps) (s\<lparr>y_stop := RReturned\<rparr>, ps)" by (rule router_step.stopped [OF less.prems(2)])
    then show ?thesis by (intro exI [of _ "(s\<lparr>y_stop := RReturned\<rparr>, ps)"] conjI r_into_rtranclp) simp_all
  next
    case True
    then obtain i si c pc where i: "i < length (y_handlers s)" "y_handlers s ! i = (si, c, pc)" "pc \<noteq> HRemove"
      by (auto simp: list_ex_iff active_def in_set_conv_nth)
    then have "closedc c (y_w s)" using cl(3) by (metis fst_conv nth_mem snd_conv)
    then obtain s' pc' where h: "handleConn_step H si c pc s = Some (s', Some pc')" "pc_rank pc' < pc_rank pc" "y_stop s' = y_stop s"
      using handler_progress [OF cl(2) _ cl(1) i(3)] by metis
    obtain a b where ab: "y_handlers s = a @ (si, c, pc) # b"
      "\<And>y. replace_at i y (y_handlers s) = a @ (case y of None \<Rightarrow> [] | Some z \<Rightarrow> [z]) @ b"
      using replace_at_split [OF i(1,2)] by metis
    let ?s = "s'\<lparr>y_handlers := replace_at i (map_option (\<lambda>pc. (si, c, pc)) (Some pc')) (y_handlers s)\<rparr>"
    have st: "router_step H alive (s, ps) (?s, ps)" by (rule router_step.handler [OF i(1,2) h(1)])
    have "sum_list (map (\<lambda>h. pc_rank (snd (snd h))) (y_handlers ?s)) < sum_list (map (\<lambda>h. pc_rank (snd (snd h))) (y_handlers s))"
      unfolding ab(2) using h(2) ab(1) by simp
    then obtain st' where "(router_step H alive)\<^sup>*\<^sup>* (?s, ps) st'" "y_stop (fst st') = RReturned"
      using less.hyps [of ?s] router_step_inv [OF st less.prems(1)] less.prems(2) h(3) by auto
    with st show ?thesis by (meson converse_rtranclp_into_rtranclp)
  qed
qed


text \<open>
  \<open>connect\<close> and \<open>Send\<close> are sequences of steps of the system, and a message that \<open>Send\<close> reports
  as sent was accepted by a connection that is registered for its destination.
\<close>

lemma Router_connect_steps:
  assumes "Router_connect H si s = (res, s')"
  shows "(router_step H alive)\<^sup>*\<^sup>* (s, ps) (s', ps) \<and> (\<forall>c. res = Ret c \<longrightarrow> c \<in> set (rt_get (y_r s') (si_ID si)))"
proof -
  obtain r1 w1 where c1: "ho_Connect H si (y_w s) = (r1, w1)" by fastforce
  have d: "router_step H alive (s, ps) (s\<lparr>y_w := w1\<rparr>, ps)" using router_step.dial [of H alive s ps si] c1 by simp
  show ?thesis
  proof (cases r1)
    case (Ret d')
    obtain r2 w2 where c2: "ho_Send H d' (ho_siMsg H (rt_SI (y_r s))) w1 = (r2, w2)" by fastforce
    have e: "router_step H alive (s\<lparr>y_w := w1\<rparr>, ps) (s\<lparr>y_w := w2\<rparr>, ps)"
      using router_step.send [of H alive "s\<lparr>y_w := w1\<rparr>" ps d' "ho_siMsg H (rt_SI (y_r s))"] c2 by simp
    have de: "(router_step H alive)\<^sup>*\<^sup>* (s, ps) (s\<lparr>y_w := w2\<rparr>, ps)" using d e by (blast intro: rtranclp.rtrancl_into_rtrancl)
    have al: "alive d' w2" using connect_alive [OF c1 [unfolded Ret]] send_keeps [of w1 d'] c2 unfolding net_keeping_def by (metis snd_conv)
    show ?thesis
    proof (cases "is_Ret r2 \<and> \<not> rt_closed (y_r s)")
      case True
      then obtain u r where r: "r2 = Ret u" "registerConnection si d' (y_r s) = (Ret (), r)"
        by (cases r2) (simp_all add: registerConnection_def)
      note g = registerConnection_get [OF r(2)]
      obtain s3 where l: "launchHandleRoutine si d' (s\<lparr>y_w := w2, y_r := r\<rparr>) = (Ret (), s3)" "rt_conns (y_r s3) = rt_conns r"
        using True r(2) by (auto simp: launchHandleRoutine_def registerConnection_def)
      have "router_step H alive (s\<lparr>y_w := w2\<rparr>, ps) (s\<lparr>y_w := w2, y_r := r\<rparr>, (si, d') # ps)"
        using router_step.register [of alive d' "s\<lparr>y_w := w2\<rparr>" si r H ps] al r(2) by simp
      moreover have "router_step H alive (s\<lparr>y_w := w2, y_r := r\<rparr>, (si, d') # ps) (s3, ps)"
        using router_step.launch [OF _ l(1), of "(si, d') # ps"] by simp
      ultimately have "(router_step H alive)\<^sup>*\<^sup>* (s, ps) (s3, ps)" using de by (meson rtranclp.rtrancl_into_rtrancl)
      moreover have "res = Ret d'" "s' = s3" using assms Ret c1 c2 r l(1) by (simp_all add: Router_connect_def)
      moreover have "d' \<in> set (rt_get (y_r s3) (si_ID si))" using g [of "si_ID si"] l(2) by (simp add: rt_get_def)
      ultimately show ?thesis by simp
    next
      case False
      then have "s' = s\<lparr>y_w := w2\<rparr> \<and> \<not> is_Ret res"
        using assms Ret c1 c2 by (cases r2) (auto simp: Router_connect_def registerConnection_def split: if_splits)
      with de show ?thesis by (cases res) auto
    qed
  qed (use assms c1 d in \<open>auto simp: Router_connect_def\<close>)
qed

lemma send_on_steps:
  "send_on H c m s = (res, s') \<Longrightarrow> router_step H alive (s, ps) (s', ps) \<and> y_r s' = y_r s \<and> ho_Send H c m (y_w s) = (res, y_w s')"
  using router_step.send [of H alive s ps c m] by (cases "ho_Send H c m (y_w s)") (auto simp: send_on_def)

lemma Router_resend_steps:
  assumes "Router_resend H e m s = (res, s')"
  shows "(router_step H alive)\<^sup>*\<^sup>* (s, ps) (s', ps) \<and>
    (res = Ret () \<longrightarrow> (\<exists>c w. ho_Send H c m w = (Ret (), y_w s') \<and> c \<in> set (rt_get (y_r s') (si_ID e))))"
proof -
  obtain r1 s1 where c: "Router_connect H e s = (r1, s1)" by fastforce
  note st = Router_connect_steps [OF c, of ps]
  show ?thesis
  proof (cases r1)
    case (Ret d)
    then have "send_on H d m s1 = (res, s')" using assms c by (simp add: Router_resend_def)
    from send_on_steps [OF this, of ps] st Ret show ?thesis by (metis rtranclp.rtrancl_into_rtrancl)
  qed (use assms c st in \<open>auto simp: Router_resend_def\<close>)
qed

lemma Router_Send_steps:
  assumes "Router_Send H e (Some m) s = (res, s')"
  shows "(router_step H alive)\<^sup>*\<^sup>* (s, ps) (s', ps) \<and>
    (res = Ret () \<longrightarrow> (\<exists>c w. ho_Send H c m w = (Ret (), y_w s') \<and> c \<in> set (rt_get (y_r s') (si_ID e))))"
proof -
  obtain r1 s1 where c: "(case connection (y_r s) (si_ID e) of Some c \<Rightarrow> (Ret c, s) | None \<Rightarrow> Router_connect H e s) = (r1, s1)" by fastforce
  have st: "(router_step H alive)\<^sup>*\<^sup>* (s, ps) (s1, ps) \<and> (\<forall>d. r1 = Ret d \<longrightarrow> d \<in> set (rt_get (y_r s1) (si_ID e)))"
  proof (cases "connection (y_r s) (si_ID e)")
    case None
    then show ?thesis using c Router_connect_steps [of e s r1 s1 ps] by simp
  next
    case (Some d)
    then have "d \<in> set (rt_get (y_r s) (si_ID e))" by (auto simp: connection_def split: list.splits)
    then show ?thesis using c Some by auto
  qed
  show ?thesis
  proof (cases r1)
    case (Ret d)
    obtain r2 s2 where s2: "send_on H d m s1 = (r2, s2)" by fastforce
    note sn = send_on_steps [OF s2, of ps]
    have st2: "(router_step H alive)\<^sup>*\<^sup>* (s, ps) (s2, ps)" using st sn by (meson rtranclp.rtrancl_into_rtrancl)
    have d: "d \<in> set (rt_get (y_r s2) (si_ID e))" using st sn Ret by simp
    show ?thesis
    proof (cases r2)
      case r2: (Ret u)
      then have "res = Ret ()" "s' = s2" using assms c Ret s2 by (simp_all add: Router_Send_def)
      then show ?thesis using st2 d sn r2 by auto
    next
      case (Err err)
      then have "Router_resend H e m s2 = (res, s')" using assms c Ret s2 by (simp add: Router_Send_def)
      from Router_resend_steps [OF this, of ps] st2 show ?thesis by (meson rtranclp_trans)
    next
      case Panic
      then have "res = Panic" "s' = s2" using assms c Ret s2 by (simp_all add: Router_Send_def)
      then show ?thesis using st2 by simp
    qed
  qed (use assms c st in \<open>auto simp: Router_Send_def\<close>)
qed

text \<open>
  The counters of the router: between its accounting and the removal of its connection a
  handler's bytes count twice, after the removal once.
\<close>

lemma handler_end_counters:
  assumes "c \<in> set (rt_get (y_r s) (si_ID si))"
  defines "s1 \<equiv> handleConn_close H c s"
  defines "r2 \<equiv> removeConnection si c ((y_r s1)\<lparr>rt_wg := rt_wg (y_r s1) - 1\<rparr>)"
  shows "Router_Tx H (y_w s1) (y_r s1) = Router_Tx H (y_w s) (y_r s) + ho_Tx H c (y_w s)"
    and "Router_Rx H (y_w s1) (y_r s1) = Router_Rx H (y_w s) (y_r s) + ho_Rx H c (y_w s)"
    and "Router_Tx H (y_w s1) r2 = Router_Tx H (y_w s) (y_r s)" "Router_Rx H (y_w s1) r2 = Router_Rx H (y_w s) (y_r s)"
proof -
  have c: "ho_Tx H d (y_w s1) = ho_Tx H d (y_w s)" "ho_Rx H d (y_w s1) = ho_Rx H d (y_w s)" for d
    by (simp_all add: s1_def handleConn_close_def Let_def close_counters)
  have r1: "y_r s1 = (y_r s)\<lparr>rt_traffic := updateTx (ho_Tx H c (y_w s)) (updateRx (ho_Rx H c (y_w s)) (rt_traffic (y_r s)))\<rparr>"
    by (simp add: s1_def handleConn_close_def Let_def close_counters)
  have t: "total_of f (rt_conns r2) = total_of f (rt_conns (y_r s)) - f c" for f :: "addr \<Rightarrow> 64 word"
    unfolding r2_def using total_remove [of c "(y_r s1)\<lparr>rt_wg := rt_wg (y_r s1) - 1\<rparr>" si f] assms(1) by (simp add: r1 rt_get_def)
  have tr: "rt_traffic r2 = rt_traffic (y_r s1)" by (simp add: r2_def)
  show "Router_Tx H (y_w s1) (y_r s1) = Router_Tx H (y_w s) (y_r s) + ho_Tx H c (y_w s)"
    "Router_Rx H (y_w s1) (y_r s1) = Router_Rx H (y_w s) (y_r s) + ho_Rx H c (y_w s)"
    unfolding Router_Tx_total Router_Rx_total c by (simp_all add: r1 updateTx_def updateRx_def)
  show "Router_Tx H (y_w s1) r2 = Router_Tx H (y_w s) (y_r s)" "Router_Rx H (y_w s1) r2 = Router_Rx H (y_w s) (y_r s)"
    unfolding Router_Tx_total Router_Rx_total c t tr by (simp_all add: r1 updateTx_def updateRx_def)
qed

end

end
