(* ===== verification/Router_Tcp.thy ===== *)
theory Router_Tcp
  imports Router
begin

text \<open>
  The router on TCP: the connections of \<open>Tcp\<close> satisfy the contract of \<open>Router\<close>, so the
  properties of the router hold of them.
\<close>

section \<open>TCP as a host\<close>

text \<open>The TCP connections of a server and the state of the operating system.\<close>

record 'w tworld =
  tw_conns :: "TCPConn list"
  tw_os :: 'w

text \<open>An operation on one connection; a nil connection panics.\<close>

definition at_conn :: "addr \<Rightarrow> (TCPConn \<Rightarrow> ('e, 'a) go \<times> TCPConn) \<Rightarrow> 'w tworld \<Rightarrow> ('e, 'a) go \<times> 'w tworld" where
  "at_conn c f w =
    (if c < length (tw_conns w) then (case f (tw_conns w ! c) of (r, x) \<Rightarrow> (r, w\<lparr>tw_conns := (tw_conns w)[c := x]\<rparr>))
     else (Panic, w))"

definition tcp_Connect :: "'w netos \<Rightarrow> 'p ServerIdentity \<Rightarrow> 'w tworld \<Rightarrow> (net_err, addr) go \<times> 'w tworld" where
  "tcp_Connect os si w =
    (case TCPHost_Connect os si (tw_os w) of
       (Ret c, o') \<Rightarrow> (Ret (length (tw_conns w)), w\<lparr>tw_conns := tw_conns w @ [c], tw_os := o'\<rparr>)
     | (Err e, o') \<Rightarrow> (Err e, w\<lparr>tw_os := o'\<rparr>)
     | (Panic, o') \<Rightarrow> (Panic, w\<lparr>tw_os := o'\<rparr>))"

text \<open>By itself the network lets data and faults arrive, and the listener accepts connections.\<close>

definition arrives :: "TCPConn \<Rightarrow> TCPConn \<Rightarrow> bool" where
  "arrives c c' \<longleftrightarrow> (\<exists>evs. c' = c\<lparr>tc_conn := (tc_conn c)\<lparr>nc_in := nc_in (tc_conn c) @ evs\<rparr>\<rparr>)"

definition tcp_net :: "'w tworld \<Rightarrow> 'w tworld \<Rightarrow> bool" where
  "tcp_net w w' \<longleftrightarrow> (\<exists>cs remote nc. list_all2 arrives (tw_conns w) cs \<and>
    (w' = w\<lparr>tw_conns := cs\<rparr> \<or> w' = w\<lparr>tw_conns := cs @ [new_TCPConn (NewAddress ''tcp'' remote) nc]\<rparr>))"

definition tcp_ops ::
  "'o netenv \<Rightarrow> typeRegistry \<Rightarrow> 'w netos \<Rightarrow> ('p ServerIdentity \<Rightarrow> 'o Message) \<Rightarrow> ('o Message \<Rightarrow> 'p ServerIdentity option) \<Rightarrow>
    uuid \<Rightarrow> ('p, 'o Message, 'w tworld) host_ops" where
  "tcp_ops N types os siMsg asSI siType =
    \<lparr>ho_Connect = tcp_Connect os,
     ho_Send = (\<lambda>c m. at_conn c (TCPConn_Send N types m)),
     ho_Receive = (\<lambda>c w. if c < length (tw_conns w)
       then map_option (\<lambda>(r, x). (r, w\<lparr>tw_conns := (tw_conns w)[c := x]\<rparr>)) (TCPConn_Receive N types (tw_conns w ! c))
       else Some (Panic, w)),
     ho_Close = (\<lambda>c. at_conn c TCPConn_Close),
     ho_Tx = (\<lambda>c w. cs_tx (tc_counter (tw_conns w ! c))),
     ho_Rx = (\<lambda>c w. cs_rx (tc_counter (tw_conns w ! c))),
     ho_net = tcp_net, ho_siMsg = siMsg, ho_asSI = asSI, ho_siType = siType\<rparr>"

definition tcp_wf :: "'w tworld \<Rightarrow> bool" where
  "tcp_wf w \<longleftrightarrow> list_all (\<lambda>c. tc_closed c \<longrightarrow> nc_closed (tc_conn c)) (tw_conns w)"

definition tcp_alive :: "addr \<Rightarrow> 'w tworld \<Rightarrow> bool" where
  "tcp_alive c w \<longleftrightarrow> c < length (tw_conns w)"

definition tcp_closed :: "addr \<Rightarrow> 'w tworld \<Rightarrow> bool" where
  "tcp_closed c w \<longleftrightarrow> c < length (tw_conns w) \<and> tc_closed (tw_conns w ! c)"

subsection \<open>The contract holds\<close>

definition same_closed :: "TCPConn \<Rightarrow> TCPConn \<Rightarrow> bool" where
  "same_closed c c' \<longleftrightarrow> tc_closed c' = tc_closed c \<and> nc_closed (tc_conn c') = nc_closed (tc_conn c)"

lemma conn_Read_closed: "conn_Read k c = Some (r, c') \<Longrightarrow> nc_closed c' = nc_closed c"
  by (auto simp: conn_Read_def split: if_splits list.splits rd_event.splits)

lemma ReadFull_closed: "ReadFull k acc c = Some y \<Longrightarrow> nc_closed (snd y) = nc_closed c"
proof (erule ReadFull.raw_induct [of "\<lambda>k acc c y. nc_closed (snd y) = nc_closed c", rotated])
  fix f k acc c y
  assume ih: "\<And>k acc c y. f k acc c = Some y \<Longrightarrow> nc_closed (snd y) = nc_closed c" and
    eq: "(if k = 0 then Some (Ret acc, c)
      else Option.bind (conn_Read k c) (\<lambda>r. case fst r of
        Ret d \<Rightarrow> f (k - length d) (acc @ d) (snd r)
      | Err e \<Rightarrow> Some (Err (if acc \<noteq> [] \<and> e = io_EOF then io_ErrUnexpectedEOF else e), snd r)
      | Panic \<Rightarrow> Some (Panic, snd r))) = Some y"
  show "nc_closed (snd y) = nc_closed c"
  proof (cases "k = 0")
    case False
    with eq obtain r c' where r: "conn_Read k c = Some (r, c')" by (cases "conn_Read k c") auto
    with eq False ih conn_Read_closed [OF r] show ?thesis by (cases r) auto
  qed (use eq in auto)
qed

lemma receiveRaw_loop_closed: "receiveRaw_loop tot st c = Some y \<Longrightarrow> nc_closed (snd y) = nc_closed c"
proof (erule receiveRaw_loop.raw_induct [of "\<lambda>tot st c y. nc_closed (snd y) = nc_closed c", rotated])
  fix f :: "32 word \<Rightarrow> 32 word \<times> nat \<times> bytes \<Rightarrow> netconn \<Rightarrow> ((net_err, 32 word \<times> bytes) go \<times> netconn) option" and tot st c y
  assume ih: "\<And>tot st c y. f tot st c = Some y \<Longrightarrow> nc_closed (snd y) = nc_closed c" and
    eq: "(if fst st < tot then Option.bind (conn_Read (fst (snd st)) c) (\<lambda>r. case fst r of
        Ret d \<Rightarrow> f tot (fst st + word_of_nat (length d), fst (snd st) - length d, snd (snd st) @ d) (snd r)
      | Err e \<Rightarrow> Some (Err (handleError e), snd r)
      | Panic \<Rightarrow> Some (Panic, snd r)) else Some (Ret (fst st, snd (snd st)), c)) = Some y"
  show "nc_closed (snd y) = nc_closed c"
  proof (cases "fst st < tot")
    case True
    with eq obtain r c' where r: "conn_Read (fst (snd st)) c = Some (r, c')" by (cases "conn_Read (fst (snd st)) c") auto
    with eq True ih conn_Read_closed [OF r] show ?thesis by (cases r) auto
  qed (use eq in auto)
qed

lemma receiveRaw_closed: "receiveRaw c = Some (r, c') \<Longrightarrow> same_closed c c'"
proof -
  assume eq: "receiveRaw c = Some (r, c')"
  then obtain r1 nc where r1: "ReadFull 4 [] (tc_conn c) = Some (r1, nc)"
    by (cases "ReadFull 4 [] (tc_conn c)") (auto simp: receiveRaw_def)
  have n: "nc_closed nc = nc_closed (tc_conn c)" using ReadFull_closed [OF r1] by simp
  show ?thesis
  proof (cases "\<exists>b. r1 = Ret b \<and> unat (fromBigEndian b :: 32 word) \<le> maxPacketSize")
    case True
    then obtain b where b: "r1 = Ret b" "\<not> maxPacketSize < unat (fromBigEndian b :: 32 word)" by auto
    let ?tot = "fromBigEndian b :: 32 word"
    obtain r2 nc2 where r2: "receiveRaw_loop ?tot (0, unat ?tot, []) nc = Some (r2, nc2)"
      using eq r1 b by (cases "receiveRaw_loop ?tot (0, unat ?tot, []) nc") (auto simp: receiveRaw_def)
    have "nc_closed nc2 = nc_closed nc" using receiveRaw_loop_closed [OF r2] by simp
    then show ?thesis using eq r1 r2 b n by (cases r2) (auto simp: receiveRaw_def same_closed_def)
  next
    case False
    then show ?thesis using eq r1 n by (cases r1) (auto simp: receiveRaw_def same_closed_def not_less)
  qed
qed

lemma TCPConn_Receive_closed: "TCPConn_Receive N types c = Some (r, c') \<Longrightarrow> same_closed c c'"
  by (cases "receiveRaw c") (auto simp: TCPConn_Receive_def dest: receiveRaw_closed)

lemma conn_Write_closed: "conn_Write d c = (r, c') \<Longrightarrow> nc_closed c' = nc_closed c"
  by (auto simp: conn_Write_def split: if_splits list.splits)

lemma sendRaw_loop_closed: "sendRaw_loop b sent c = (r, c') \<Longrightarrow> nc_closed c' = nc_closed c"
proof (induction b sent c rule: sendRaw_loop.induct)
  case (1 b sent c)
  show ?case
  proof (cases "sent < of_nat (length b)")
    case True
    obtain x c1 where x: "conn_Write (drop (unat sent) b) c = (x, c1)" by fastforce
    note cl = conn_Write_closed [OF x]
    have "sendRaw_loop b sent c = (case x of Ret n \<Rightarrow> sendRaw_loop b (sent + of_nat n) c1 | Err e \<Rightarrow> (Err (handleError e), c1) | Panic \<Rightarrow> (Panic, c1))"
      using True x by (subst sendRaw_loop.simps) (simp split: go.splits)
    then show ?thesis using "1.IH" [OF True x [symmetric]] "1.prems" cl by (cases x) auto
  next
    case False
    then show ?thesis using "1.prems" by (subst (asm) sendRaw_loop.simps) simp
  qed
qed

lemma TCPConn_Send_closed: "TCPConn_Send N types m c = (r, c') \<Longrightarrow> same_closed c c'"
proof -
  have "sendRaw b c = (r, c') \<Longrightarrow> same_closed c c'" for b r c'
  proof -
    assume eq: "sendRaw b c = (r, c')"
    obtain x nc where x: "conn_Write (bigEndian 4 (of_nat (length b) :: 32 word)) (tc_conn c) = (x, nc)" by fastforce
    obtain y nc2 where y: "sendRaw_loop b 0 nc = (y, nc2)" by fastforce
    show ?thesis using eq x y conn_Write_closed [OF x] sendRaw_loop_closed [OF y]
      by (cases x; cases y) (auto simp: sendRaw_def same_closed_def Let_def)
  qed
  then show "TCPConn_Send N types m c = (r, c') \<Longrightarrow> same_closed c c'"
    by (cases "Marshal N types m") (auto simp: TCPConn_Send_def same_closed_def)
qed

definition mono_closed :: "TCPConn \<Rightarrow> TCPConn \<Rightarrow> bool" where
  "mono_closed c c' \<longleftrightarrow> (tc_closed c \<longrightarrow> tc_closed c') \<and>
    ((tc_closed c \<longrightarrow> nc_closed (tc_conn c)) \<longrightarrow> tc_closed c' \<longrightarrow> nc_closed (tc_conn c'))"

lemma mono_closed_same: "same_closed c c' \<Longrightarrow> mono_closed c c'"
  by (simp add: same_closed_def mono_closed_def)

lemma mono_closed_refl: "mono_closed c c"
  by (simp add: mono_closed_def)

lemma mono_closed_Close: "TCPConn_Close c = (r, c') \<Longrightarrow> mono_closed c c' \<and> tc_closed c' \<and> tc_counter c' = tc_counter c"
  by (auto simp: TCPConn_Close_def mono_closed_def conn_Close_def split: if_splits)

lemma keeps_all:
  assumes "list_all2 mono_closed (tw_conns w) cs" "tw_conns w' = cs @ ds" "list_all (\<lambda>c. \<not> tc_closed c) ds"
  shows "net_keeping tcp_wf tcp_alive tcp_closed w w'"
proof -
  have l: "length cs = length (tw_conns w)" using assms(1) by (simp add: list_all2_lengthD)
  have m: "mono_closed (tw_conns w ! i) (cs ! i)" if "i < length cs" for i
    using assms(1) that by (simp add: list_all2_conv_all_nth)
  have "tcp_wf w'" if wf: "tcp_wf w" unfolding tcp_wf_def assms(2) list_all_append
  proof
    show "list_all (\<lambda>c. tc_closed c \<longrightarrow> nc_closed (tc_conn c)) cs"
      unfolding list_all_length using wf m l by (simp add: tcp_wf_def list_all_length mono_closed_def)
    show "list_all (\<lambda>c. tc_closed c \<longrightarrow> nc_closed (tc_conn c)) ds" using assms(3) by (auto simp: list_all_iff)
  qed
  moreover have "tcp_closed c w'" if "tcp_closed c w" for c
    using that m [of c] l by (simp add: tcp_closed_def assms(2) mono_closed_def nth_append)
  ultimately show ?thesis using l by (simp add: net_keeping_def tcp_alive_def assms(2))
qed

lemma keeps_update:
  assumes "mono_closed (tw_conns w ! c) x"
  shows "net_keeping tcp_wf tcp_alive tcp_closed w (w\<lparr>tw_conns := (tw_conns w)[c := x]\<rparr>)"
proof (rule keeps_all [of _ "(tw_conns w)[c := x]" _ "[]"])
  have "mono_closed (tw_conns w ! i) ((tw_conns w)[c := x] ! i)" if "i < length (tw_conns w)" for i
    using assms that by (cases "i = c") (simp_all add: mono_closed_refl)
  then show "list_all2 mono_closed (tw_conns w) ((tw_conns w)[c := x])" by (simp add: list_all2_conv_all_nth)
qed simp_all

lemma keeps_at_conn:
  assumes "\<And>x r x'. f x = (r, x') \<Longrightarrow> mono_closed x x'"
  shows "net_keeping tcp_wf tcp_alive tcp_closed w (snd (at_conn c f w))"
proof (cases "c < length (tw_conns w)")
  case True
  obtain r x where x: "f (tw_conns w ! c) = (r, x)" by fastforce
  from keeps_update [OF assms [OF x]] True x show ?thesis by (simp add: at_conn_def)
qed (simp add: at_conn_def)

lemma new_conn_open: "TCPHost_Connect os si w = (Ret c, w') \<Longrightarrow> \<not> tc_closed c"
proof -
  have "NewTCPConn_loop os a n i e w = (Ret c, w') \<Longrightarrow> \<not> tc_closed c" for a n i e w
    by (induction os a n i e w rule: NewTCPConn_loop.induct) (auto simp: new_TCPConn_def split: prod.splits go.splits)
  then show "TCPHost_Connect os si w = (Ret c, w') \<Longrightarrow> \<not> tc_closed c"
    by (auto simp: TCPHost_Connect_def NewTCPConn_def split: go.splits if_splits)
qed

lemma keeps_Connect: "net_keeping tcp_wf tcp_alive tcp_closed w (snd (tcp_Connect os si w))"
proof -
  obtain r w1 where r: "TCPHost_Connect os si (tw_os w) = (r, w1)" by fastforce
  have refl: "list_all2 mono_closed (tw_conns w) (tw_conns w)" by (simp add: list_all2_conv_all_nth mono_closed_def)
  show ?thesis
  proof (cases r)
    case (Ret c)
    have "\<not> tc_closed c" by (rule new_conn_open [OF r [unfolded Ret]])
    then show ?thesis using r Ret keeps_all [OF refl, of "snd (tcp_Connect os si w)" "[c]"] by (simp add: tcp_Connect_def)
  qed (use r keeps_all [OF refl, of "snd (tcp_Connect os si w)" "[]"] in \<open>simp_all add: tcp_Connect_def\<close>)
qed

lemma receiveRaw_on_closed: "nc_closed (tc_conn c) \<Longrightarrow> receiveRaw c = Some (Err ErrClosed, c)"
  by (simp add: receiveRaw_def ReadFull.simps conn_Read_def handleError_closed)

lemma keeps_net: "tcp_net w w' \<Longrightarrow> net_keeping tcp_wf tcp_alive tcp_closed w w'"
proof -
  have a: "arrives c c' \<Longrightarrow> mono_closed c c'" for c c' by (auto simp: arrives_def mono_closed_def)
  assume "tcp_net w w'"
  then obtain cs remote nc where ar: "list_all2 arrives (tw_conns w) cs" and cs2: "w' = w\<lparr>tw_conns := cs\<rparr> \<or> w' = w\<lparr>tw_conns := cs @ [new_TCPConn (NewAddress ''tcp'' remote) nc]\<rparr>"
    unfolding tcp_net_def by blast
  have cs: "list_all2 mono_closed (tw_conns w) cs" by (rule list_all2_mono [OF ar a])
  from cs2 show ?thesis
  proof
    assume "w' = w\<lparr>tw_conns := cs\<rparr>"
    then show ?thesis by (intro keeps_all [OF cs, of _ "[]"]) simp_all
  next
    assume "w' = w\<lparr>tw_conns := cs @ [new_TCPConn (NewAddress ''tcp'' remote) nc]\<rparr>"
    then show ?thesis by (intro keeps_all [OF cs, of _ "[new_TCPConn (NewAddress ''tcp'' remote) nc]"]) (simp_all add: new_TCPConn_def)
  qed
qed

interpretation tcp_host: conn_contract "tcp_ops N types os siMsg asSI siType" tcp_wf tcp_alive tcp_closed
  for N types os siMsg asSI siType
proof (unfold_locales, goal_cases)
  case (1 w si)
  show ?case by (simp add: tcp_ops_def keeps_Connect)
next
  case (2 si w c w')
  then show ?case by (auto simp: tcp_ops_def tcp_Connect_def tcp_alive_def split: prod.splits go.splits)
next
  case (3 w c m)
  show ?case by (simp add: tcp_ops_def) (blast intro: keeps_at_conn mono_closed_same TCPConn_Send_closed)
next
  case (4 c w res w')
  then show ?case by (auto simp: tcp_ops_def split: if_splits intro!: keeps_update mono_closed_same TCPConn_Receive_closed)
next
  case (5 w c)
  have "mono_closed x x'" if "TCPConn_Close x = (r, x')" for x r x' using mono_closed_Close [OF that] by blast
  then show ?case by (simp add: tcp_ops_def keeps_at_conn)
next
  case (6 w w')
  then show ?case by (simp add: tcp_ops_def keeps_net)
next
  case (7 w c)
  then show ?case using mono_closed_Close by (cases "TCPConn_Close (tw_conns w ! c)") (auto simp: tcp_ops_def tcp_alive_def tcp_closed_def at_conn_def)
next
  case (8 w c)
  then show ?case by (simp add: tcp_ops_def tcp_closed_def at_conn_def TCPConn_Close_def)
next
  case (9 w c)
  then have "nc_closed (tc_conn (tw_conns w ! c))" by (simp add: tcp_wf_def tcp_closed_def list_all_length)
  then show ?case using 9 by (simp add: tcp_ops_def tcp_closed_def TCPConn_Receive_def receiveRaw_on_closed)
next
  case (10 w c m)
  then have "nc_closed (tc_conn (tw_conns w ! c))" by (simp add: tcp_wf_def tcp_closed_def list_all_length)
  then show ?case using 10
    by (cases "Marshal N types m") (simp_all add: tcp_ops_def tcp_closed_def at_conn_def TCPConn_Send_def sendRaw_def conn_Write_def Let_def)
next
  case (11 d c w)
  show ?case using mono_closed_Close by (cases "TCPConn_Close (tw_conns w ! c)"; cases "d = c") (auto simp: tcp_ops_def at_conn_def)
next
  case (12 d c w)
  show ?case using mono_closed_Close by (cases "TCPConn_Close (tw_conns w ! c)"; cases "d = c") (auto simp: tcp_ops_def at_conn_def)
qed

section \<open>Properties of the router on TCP\<close>

text \<open>C14: 
  When \<open>Stop\<close> of a router on TCP has returned, no goroutine handles a connection any more, and
  whatever happens afterwards (data that arrives, connections that are opened or accepted,
  registered or launched, attempts to send), no message is dispatched and no error handler is
  called. This holds for every interleaving of the goroutines from a fresh router.
\<close>
theorem router_stop_quiescent:
  assumes "tcp_wf w"
    and "(router_step (tcp_ops N types os siMsg asSI siType) tcp_alive)\<^sup>*\<^sup>* (new_rsys (NewRouter own) w, []) (s, ps)"
    and "y_stop s = RReturned"
    and "(router_step (tcp_ops N types os siMsg asSI siType) tcp_alive)\<^sup>*\<^sup>* (s, ps) (s', ps')"
  shows "\<not> list_ex active (y_handlers s) \<and> y_calls s' = y_calls s \<and> y_triggered s' = y_triggered s \<and> y_stop s' = RReturned"
proof -
  have i: "tcp_host.rinv (s, ps)" by (rule tcp_host.reachable_inv [OF assms(2) tcp_host.new_rinv [OF assms(1)]])
  show ?thesis using tcp_host.stop_quiescent(1) [OF i] tcp_host.stop_quiescent(2) [OF i _ assms(4)] assms(3) by simp
qed


text \<open>C38: 
  The counters of a router on TCP. When a handler ends, its connection's bytes are added to
  those of the closed connections before the connection is removed: in between \<open>Tx\<close> and \<open>Rx\<close>
  count them twice, and after the removal they are what they were before (modulo \<open>2^64\<close>).
\<close>
theorem router_counters:
  assumes "c \<in> set (rt_get (y_r s) (si_ID si))" "H = tcp_ops N types os siMsg asSI siType"
    and "handleConn_step H si c HClose s = Some (s1, Some HDone)" "handleConn_step H si c HDone s1 = Some (s2, Some HRemove)"
      "handleConn_step H si c HRemove s2 = Some (s3, None)"
  shows "Router_Tx H (y_w s1) (y_r s1) = Router_Tx H (y_w s) (y_r s) + cs_tx (tc_counter (tw_conns (y_w s) ! c)) \<and>
    Router_Rx H (y_w s1) (y_r s1) = Router_Rx H (y_w s) (y_r s) + cs_rx (tc_counter (tw_conns (y_w s) ! c)) \<and>
    Router_Tx H (y_w s3) (y_r s3) = Router_Tx H (y_w s) (y_r s) \<and> Router_Rx H (y_w s3) (y_r s3) = Router_Rx H (y_w s) (y_r s)"
proof -
  have s: "s1 = handleConn_close H c s" "s2 = s1\<lparr>y_r := (y_r s1)\<lparr>rt_wg := rt_wg (y_r s1) - 1\<rparr>\<rparr>" "s3 = s2\<lparr>y_r := removeConnection si c (y_r s2)\<rparr>"
    using assms(3-5) by (simp_all add: handleConn_step_def)
  note t = tcp_host.handler_end_counters [OF assms(1), of N types os siMsg asSI siType, folded assms(2)]
  show ?thesis using t unfolding s by (simp add: assms(2) tcp_ops_def)
qed


section \<open>An example\<close>

definition ex_rsi :: "nat ServerIdentity" where
  "ex_rsi = \<lparr>si_Public = 3, si_ID = 8, si_Address = ''tcp://h:1'', si_Description = []\<rparr>"

definition ex_os :: "unit netos" where
  "ex_os = \<lparr>os_Dial = (\<lambda>_ w. (Ret (tc_conn ex_tcp), w)), os_Listen = (\<lambda>_ w. (Ret ''0.0.0.0:1'', w))\<rparr>"

definition ex_host :: "(nat, unit Message, unit tworld) host_ops" where
  "ex_host = tcp_ops ex_net ex_types ex_os (\<lambda>_. ex_netmsg) (\<lambda>_. None) 5"

definition ex_tworld :: "unit tworld" where
  "ex_tworld = \<lparr>tw_conns = [ex_tcp\<lparr>tc_counter := \<lparr>cs_tx = 9, cs_rx = 4\<rparr>\<rparr>], tw_os = ()\<rparr>"

text \<open>A fresh router, with the connection registered, launched, and stopped.\<close>

definition ex_rs0 :: "(nat, unit Message, nat, unit tworld) rsys" where
  "ex_rs0 = new_rsys (NewRouter ex_rsi) ex_tworld"

definition ex_rs1 :: "(nat, unit Message, nat, unit tworld) rsys" where
  "ex_rs1 = ex_rs0\<lparr>y_r := snd (registerConnection ex_rsi 0 (y_r ex_rs0))\<rparr>"

definition ex_rs2 :: "(nat, unit Message, nat, unit tworld) rsys" where
  "ex_rs2 = snd (launchHandleRoutine ex_rsi 0 ex_rs1)"

lemma ex_wf: "tcp_wf ex_tworld"
  by (simp add: tcp_wf_def ex_tworld_def ex_tcp_def new_TCPConn_def)

lemma ex_run: "(router_step ex_host tcp_alive)\<^sup>*\<^sup>* (ex_rs0, []) (Stop_close ex_host ex_rs2, [])"
proof -
  have "router_step ex_host tcp_alive (ex_rs0, []) (ex_rs1, [(ex_rsi, 0)])" unfolding ex_rs1_def
    by (rule router_step.register) (simp_all add: tcp_alive_def ex_rs0_def new_rsys_def ex_tworld_def NewRouter_def registerConnection_def)
  moreover have "router_step ex_host tcp_alive (ex_rs1, [(ex_rsi, 0)]) (ex_rs2, [])"
    using router_step.launch [of ex_rsi 0 "[(ex_rsi, 0)]" ex_rs1 "fst (launchHandleRoutine ex_rsi 0 ex_rs1)" ex_rs2 ex_host tcp_alive]
    by (simp add: ex_rs2_def)
  moreover have "router_step ex_host tcp_alive (ex_rs2, []) (Stop_close ex_host ex_rs2, [])"
    by (rule router_step.stop) (simp add: ex_rs2_def launchHandleRoutine_def ex_rs1_def ex_rs0_def new_rsys_def)
  ultimately show ?thesis by (meson rtranclp.rtrancl_into_rtrancl rtranclp.rtrancl_refl)
qed


lemma ex_stopped: "(router_step ex_host tcp_alive)\<^sup>*\<^sup>* (ex_rs0, []) ((Stop_close ex_host ex_rs0)\<lparr>y_stop := RReturned\<rparr>, [])"
proof -
  have "router_step ex_host tcp_alive (ex_rs0, []) (Stop_close ex_host ex_rs0, [])"
    by (rule router_step.stop) (simp add: ex_rs0_def new_rsys_def)
  moreover have "router_step ex_host tcp_alive (Stop_close ex_host ex_rs0, []) ((Stop_close ex_host ex_rs0)\<lparr>y_stop := RReturned\<rparr>, [])"
    by (rule router_step.stopped) (simp_all add: Stop_close_def ex_rs0_def new_rsys_def NewRouter_def)
  ultimately show ?thesis by (meson rtranclp.rtrancl_into_rtrancl rtranclp.rtrancl_refl)
qed

theorem router_stop_quiescent_witness:
  "\<not> list_ex active (y_handlers ((Stop_close ex_host ex_rs0)\<lparr>y_stop := RReturned\<rparr>)) \<and>
    y_calls ((Stop_close ex_host ex_rs0)\<lparr>y_stop := RReturned\<rparr>) = y_calls ((Stop_close ex_host ex_rs0)\<lparr>y_stop := RReturned\<rparr>) \<and>
    y_triggered ((Stop_close ex_host ex_rs0)\<lparr>y_stop := RReturned\<rparr>) = y_triggered ((Stop_close ex_host ex_rs0)\<lparr>y_stop := RReturned\<rparr>) \<and>
    y_stop ((Stop_close ex_host ex_rs0)\<lparr>y_stop := RReturned\<rparr>) = RReturned"
  unfolding ex_host_def ex_rs0_def
  by (rule router_stop_quiescent [OF ex_wf ex_stopped [unfolded ex_host_def ex_rs0_def] _ rtranclp.rtrancl_refl]) simp

theorem router_counters_witness:
  "\<exists>(s1 :: (nat, unit Message, nat, unit tworld) rsys) (s3 :: (nat, unit Message, nat, unit tworld) rsys). Router_Tx ex_host (y_w s1) (y_r s1) = 18 \<and> Router_Tx ex_host (y_w s3) (y_r s3) = 9"
proof -
  obtain s1 where s1: "handleConn_step ex_host ex_rsi 0 HClose ex_rs1 = Some (s1, Some HDone)" by (simp add: handleConn_step_def)
  obtain s2 where s2: "handleConn_step ex_host ex_rsi 0 HDone s1 = Some (s2, Some HRemove)" by (simp add: handleConn_step_def)
  obtain s3 where s3: "handleConn_step ex_host ex_rsi 0 HRemove s2 = Some (s3, None)" by (simp add: handleConn_step_def)
  have c: "0 \<in> set (rt_get (y_r ex_rs1) (si_ID ex_rsi))"
    by (simp add: ex_rs1_def ex_rs0_def new_rsys_def NewRouter_def registerConnection_def rt_get_def)
  have e: "Router_Tx ex_host (y_w ex_rs1) (y_r ex_rs1) = 9" "cs_tx (tc_counter (tw_conns (y_w ex_rs1) ! 0)) = 9"
    by (simp_all add: ex_rs1_def ex_rs0_def new_rsys_def NewRouter_def registerConnection_def rt_get_def Router_Tx_def ex_host_def
        tcp_ops_def ex_tworld_def)
  have "Router_Tx ex_host (y_w s1) (y_r s1) = 18 \<and> Router_Tx ex_host (y_w s3) (y_r s3) = 9"
    using router_counters [OF c ex_host_def s1 s2 s3] unfolding e by simp
  then show ?thesis by blast
qed


end
