(* ===== verification/Local_Net.thy ===== *)
theory Local_Net
  imports Tcp
begin

text \<open>
  \<open>imported/onet/network/local.go\<close>: connections between routers of one process over channels.
  All the connections share one manager with one lock; every connection has a goroutine that
  moves messages from one bounded channel to another. The functions are cut where they wait for a
  channel, and the step relation interleaves them.
\<close>

section \<open>State\<close>

definition LocalMaxBuffer :: nat where
  "LocalMaxBuffer = 200"

type_synonym endpoint = "string \<times> 64 word"

text \<open>
  The goroutine \<open>start\<close>: in its \<open>select\<close>; with a message in hand that it sends to the outgoing
  queue; waiting to confirm the close; ended.
\<close>

datatype start_pc = PSelect | PForward bytes | PConfirm | PEnded

text \<open>
  A connection; \<open>lc_sent\<close> and \<open>lc_got\<close> record what was put into its incoming queue and what was
  taken from its outgoing queue.
\<close>

record LocalConn =
  lc_local :: endpoint
  lc_remote :: endpoint
  lc_incoming :: "bytes list"
  lc_outgoing :: "bytes list"
  lc_queuesClosed :: bool
  lc_closeCh :: bool
  lc_pc :: start_pc
  lc_counter :: counterSafe
  lc_sent :: "bytes list"
  lc_got :: "bytes list"

text \<open>
  The lock of the manager: free, held by a \<open>send\<close> that waits for room in a queue, or by a
  \<open>close\<close> that waits for the confirmation of a connection, of the closed one or then of its remote.
\<close>

datatype lm_lock = Free | Sending addr bytes | Closing addr bool

text \<open>
  The manager with the connections made so far, the functions started for incoming ones, and
  whether a goroutine has panicked on a closed channel.
\<close>

record 'f LocalManager =
  lm_conns :: "endpoint \<rightharpoonup> addr"
  lm_listening :: "string \<rightharpoonup> 'f"
  lm_counter :: "64 word"
  lm_heap :: "LocalConn list"
  lm_started :: "('f \<times> addr) list"
  lm_lock :: lm_lock
  lm_panic :: bool

definition NewLocalManager :: "'f LocalManager" where
  "NewLocalManager = \<lparr>lm_conns = Map.empty, lm_listening = Map.empty, lm_counter = 0, lm_heap = [], lm_started = [],
    lm_lock = Free, lm_panic = False\<rparr>"

definition newLocalConn :: "endpoint \<Rightarrow> endpoint \<Rightarrow> LocalConn" where
  "newLocalConn loc remote = \<lparr>lc_local = loc, lc_remote = remote, lc_incoming = [], lc_outgoing = [], lc_queuesClosed = False,
    lc_closeCh = False, lc_pc = PSelect, lc_counter = \<lparr>cs_tx = 0, cs_rx = 0\<rparr>, lc_sent = [], lc_got = []\<rparr>"

definition upd :: "addr \<Rightarrow> (LocalConn \<Rightarrow> LocalConn) \<Rightarrow> 'f LocalManager \<Rightarrow> 'f LocalManager" where
  "upd a f m = m\<lparr>lm_heap := (lm_heap m)[a := f (lm_heap m ! a)]\<rparr>"

section \<open>The manager\<close>

definition isListening :: "string \<Rightarrow> 'f LocalManager \<Rightarrow> bool" where
  "isListening remote m \<longleftrightarrow> lm_listening m remote \<noteq> None"

definition setListening :: "string \<Rightarrow> 'f \<Rightarrow> 'f LocalManager \<Rightarrow> 'f LocalManager" where
  "setListening a fn m = m\<lparr>lm_listening := (lm_listening m)(a \<mapsto> fn)\<rparr>"

definition unsetListening :: "string \<Rightarrow> 'f LocalManager \<Rightarrow> 'f LocalManager" where
  "unsetListening a m = m\<lparr>lm_listening := (lm_listening m)(a := None)\<rparr>"

definition lm_connect :: "string \<Rightarrow> string \<Rightarrow> 'f LocalManager \<Rightarrow> (net_err, addr) go \<times> 'f LocalManager" where
  "lm_connect loc remote m =
    (case lm_listening m remote of
       None \<Rightarrow> (Err (NE (loc @ '' can not connect to '' @ remote @ '': it is not listening'')), m)
     | Some fn \<Rightarrow>
         let outEndpoint = (loc, lm_counter m); incEndpoint = (remote, lm_counter m + 1); a = length (lm_heap m) in
         (Ret a, m\<lparr>lm_counter := lm_counter m + 2,
            lm_heap := lm_heap m @ [newLocalConn outEndpoint incEndpoint, newLocalConn incEndpoint outEndpoint],
            lm_conns := (lm_conns m)(outEndpoint \<mapsto> a, incEndpoint \<mapsto> Suc a),
            lm_started := lm_started m @ [(fn, Suc a)]\<rparr>))"

text \<open>\<open>send\<close> up to the channel, and its end.\<close>

definition lm_send :: "endpoint \<Rightarrow> bytes \<Rightarrow> 'f LocalManager \<Rightarrow> (net_err, unit) go \<times> 'f LocalManager" where
  "lm_send e msg m =
    (case lm_conns m e of
       None \<Rightarrow> (Err ErrClosed, m)
     | Some q \<Rightarrow> (Ret (), m\<lparr>lm_lock := Sending q msg\<rparr>))"

definition lm_enqueue :: "addr \<Rightarrow> bytes \<Rightarrow> 'f LocalManager \<Rightarrow> 'f LocalManager option" where
  "lm_enqueue q msg m =
    (let c = lm_heap m ! q in
     if lc_queuesClosed c then Some (m\<lparr>lm_panic := True\<rparr>)
     else if length (lc_incoming c) < LocalMaxBuffer then
       Some ((upd q (\<lambda>c. c\<lparr>lc_incoming := lc_incoming c @ [msg], lc_sent := lc_sent c @ [msg]\<rparr>) m)\<lparr>lm_lock := Free\<rparr>)
     else None)"

text \<open>\<open>closeChannels\<close> up to the wait for the confirmation; closing \<open>closeCh\<close> twice panics.\<close>

definition closeChannels :: "addr \<Rightarrow> bool \<Rightarrow> 'f LocalManager \<Rightarrow> 'f LocalManager" where
  "closeChannels a first m =
    (if lc_closeCh (lm_heap m ! a) then m\<lparr>lm_panic := True\<rparr>
     else (upd a (\<lambda>c. c\<lparr>lc_closeCh := True\<rparr>) m)\<lparr>lm_lock := Closing a first\<rparr>)"

definition lm_close :: "addr \<Rightarrow> 'f LocalManager \<Rightarrow> (net_err, unit) go \<times> 'f LocalManager" where
  "lm_close a m =
    (let loc = lc_local (lm_heap m ! a) in
     case lm_conns m loc of
       None \<Rightarrow> (Err ErrClosed, m)
     | Some _ \<Rightarrow> (Ret (), closeChannels a True (m\<lparr>lm_conns := (lm_conns m)(loc := None)\<rparr>)))"

text \<open>The rest of \<open>close\<close> once a connection has confirmed: the remote one follows the first.\<close>

definition lm_confirm :: "addr \<Rightarrow> bool \<Rightarrow> 'f LocalManager \<Rightarrow> 'f LocalManager option" where
  "lm_confirm a first m =
    (if lc_pc (lm_heap m ! a) = PConfirm then
       Some (let m = (upd a (\<lambda>c. c\<lparr>lc_pc := PEnded\<rparr>) m)\<lparr>lm_lock := Free\<rparr>; remote = lc_remote (lm_heap m ! a) in
         if \<not> first then m
         else (case lm_conns m remote of
                 None \<Rightarrow> m
               | Some r \<Rightarrow> closeChannels r False (m\<lparr>lm_conns := (lm_conns m)(remote := None)\<rparr>)))
     else None)"

section \<open>Connections\<close>

text \<open>One step of \<open>start\<close>; \<open>quit\<close> chooses the case of the \<open>select\<close>. \<open>None\<close>: it waits.\<close>

definition start_step :: "bool \<Rightarrow> LocalConn \<Rightarrow> LocalConn option" where
  "start_step quit c =
    (case lc_pc c of
       PSelect \<Rightarrow>
         if quit then
           if lc_closeCh c then Some (c\<lparr>lc_queuesClosed := True, lc_pc := PConfirm\<rparr>) else None
         else (case lc_incoming c of [] \<Rightarrow> None | buff # q \<Rightarrow> Some (c\<lparr>lc_incoming := q, lc_pc := PForward buff\<rparr>))
     | PForward buff \<Rightarrow>
         if length (lc_outgoing c) < LocalMaxBuffer then Some (c\<lparr>lc_outgoing := lc_outgoing c @ [buff], lc_pc := PSelect\<rparr>) else None
     | PConfirm \<Rightarrow> None
     | PEnded \<Rightarrow> None)"

definition LocalConn_Send ::
  "'o netenv \<Rightarrow> typeRegistry \<Rightarrow> 'o Message \<Rightarrow> addr \<Rightarrow> 'f LocalManager \<Rightarrow> (net_err, unit) go \<times> 'f LocalManager" where
  "LocalConn_Send N types msg a m =
    (case Marshal N types msg of
       Ret buff \<Rightarrow>
         lm_send (lc_remote (lm_heap m ! a)) buff (upd a (\<lambda>c. c\<lparr>lc_counter := updateTx (of_nat (length buff)) (lc_counter c)\<rparr>) m)
     | Err e \<Rightarrow> (Err e, m)
     | Panic \<Rightarrow> (Panic, m))"

text \<open>The queue is read to its end even when it is closed.\<close>

definition LocalConn_receive :: "addr \<Rightarrow> 'f LocalManager \<Rightarrow> ((net_err, bytes) go \<times> 'f LocalManager) option" where
  "LocalConn_receive a m =
    (case lc_outgoing (lm_heap m ! a) of
       buff # q \<Rightarrow>
         Some (Ret buff, upd a (\<lambda>c. c\<lparr>lc_outgoing := q, lc_got := lc_got c @ [buff],
           lc_counter := updateRx (of_nat (length buff)) (lc_counter c)\<rparr>) m)
     | [] \<Rightarrow> if lc_queuesClosed (lm_heap m ! a) then Some (Err ErrClosed, m) else None)"

definition LocalConn_Receive ::
  "'o netenv \<Rightarrow> typeRegistry \<Rightarrow> addr \<Rightarrow> 'f LocalManager \<Rightarrow> ((net_err, uuid \<times> 'o Message) go \<times> 'f LocalManager) option" where
  "LocalConn_Receive N types a m =
    map_option (\<lambda>(r, m). (go_bind r (Unmarshal N types), m)) (LocalConn_receive a m)"

definition LocalConn_Close :: "addr \<Rightarrow> 'f LocalManager \<Rightarrow> (net_err, unit) go \<times> 'f LocalManager" where
  "LocalConn_Close a m = (if lc_closeCh (lm_heap m ! a) then (Err ErrClosed, m) else lm_close a m)"

section \<open>Connecting with retries, listeners, hosts\<close>

text \<open>\<open>tick\<close> is what other goroutines do to the manager while this one sleeps.\<close>

fun NewLocalConn_loop ::
  "('f LocalManager \<Rightarrow> 'f LocalManager) \<Rightarrow> string \<Rightarrow> string \<Rightarrow> nat \<Rightarrow> 'f LocalManager \<Rightarrow> (net_err, addr) go \<times> 'f LocalManager" where
  "NewLocalConn_loop tick loc remote 0 m = (Err (NE ''Could not connect''), m)"
| "NewLocalConn_loop tick loc remote (Suc i) m =
    (case lm_connect loc remote m of
       (Ret c, m) \<Rightarrow> (Ret c, m)
     | (Err e, m) \<Rightarrow> if i = 0 then (Err e, m) else NewLocalConn_loop tick loc remote i (tick m)
     | (Panic, m) \<Rightarrow> (Panic, m))"

definition NewLocalConnWithManager ::
  "('f LocalManager \<Rightarrow> 'f LocalManager) \<Rightarrow> string \<Rightarrow> string \<Rightarrow> 'f LocalManager \<Rightarrow> (net_err, addr) go \<times> 'f LocalManager" where
  "NewLocalConnWithManager tick loc remote = NewLocalConn_loop tick loc remote MaxRetryConnect"

fun LocalHost_loop ::
  "('f LocalManager \<Rightarrow> 'f LocalManager) \<Rightarrow> string \<Rightarrow> string \<Rightarrow> nat \<Rightarrow> net_err option \<Rightarrow> 'f LocalManager \<Rightarrow>
    (net_err, addr option) go \<times> 'f LocalManager" where
  "LocalHost_loop tick loc remote 0 finalErr m = (case finalErr of None \<Rightarrow> Ret None | Some e \<Rightarrow> Err e, m)"
| "LocalHost_loop tick loc remote (Suc i) finalErr m =
    (case NewLocalConnWithManager tick loc remote m of
       (Ret c, m) \<Rightarrow> (Ret (Some c), m)
     | (Err e, m) \<Rightarrow> LocalHost_loop tick loc remote i (Some e) (tick m)
     | (Panic, m) \<Rightarrow> (Panic, m))"

definition LocalHost_Connect ::
  "('f LocalManager \<Rightarrow> 'f LocalManager) \<Rightarrow> string \<Rightarrow> 'p ServerIdentity \<Rightarrow> 'f LocalManager \<Rightarrow>
    (net_err, addr option) go \<times> 'f LocalManager" where
  "LocalHost_Connect tick loc si m =
    (case ConnType (si_Address si) of
       Ret t \<Rightarrow>
         if t \<noteq> ''local'' then (Err (NE ''Can not connect to non-Local address''), m)
         else LocalHost_loop tick loc (si_Address si) MaxRetryConnect None m
     | Err e \<Rightarrow> (Err (NE e), m)
     | Panic \<Rightarrow> (Panic, m))"

record LocalListener =
  ll_addr :: string
  ll_listening :: bool
  ll_quit :: bool

definition NewLocalListenerWithManager :: "string \<Rightarrow> 'f LocalManager \<Rightarrow> (net_err, LocalListener) go" where
  "NewLocalListenerWithManager a m =
    go_bind (go_err NE (ConnType a)) (\<lambda>t.
      if t \<noteq> ''local'' then Err (NE ''Wrong address type for local listener'')
      else if isListening a m then Err (NE (a @ '' is already listening: can not listen again''))
      else Ret \<lparr>ll_addr = a, ll_listening = False, ll_quit = False\<rparr>)"

text \<open>\<open>Listen\<close> up to its wait for \<open>quit\<close>, and \<open>Stop\<close>, which ends the wait.\<close>

definition LocalListener_Listen ::
  "'f \<Rightarrow> LocalListener \<times> 'f LocalManager \<Rightarrow> (net_err, unit) go \<times> LocalListener \<times> 'f LocalManager" where
  "LocalListener_Listen fn = (\<lambda>(ll, m).
    if ll_listening ll then (Err (NE (''Already listening on '' @ ll_addr ll)), ll, m)
    else (Ret (), ll\<lparr>ll_quit := False, ll_listening := True\<rparr>, setListening (ll_addr ll) fn m))"

definition LocalListener_Stop :: "LocalListener \<times> 'f LocalManager \<Rightarrow> LocalListener \<times> 'f LocalManager" where
  "LocalListener_Stop = (\<lambda>(ll, m).
    if \<not> ll_listening ll then (ll, m)
    else (ll\<lparr>ll_quit := True, ll_listening := False\<rparr>, unsetListening (ll_addr ll) m))"

section \<open>Interleavings\<close>

text \<open>
  A step of the process: a connection is made, a message sent or received, a connection closed, a
  goroutine \<open>start\<close> moves on, a listener is set or removed. The steps that take the lock need
  it free; the waits of \<open>send\<close> and \<open>close\<close> end with the lock held.
\<close>

inductive local_step :: "'f LocalManager \<Rightarrow> 'f LocalManager \<Rightarrow> bool" where
  l_connect: "lm_lock m = Free \<Longrightarrow> length (lm_heap m) + 2 < 2 ^ 64 \<Longrightarrow> lm_connect loc remote m = (res, m') \<Longrightarrow> local_step m m'"
| l_count: "a < length (lm_heap m) \<Longrightarrow>
    local_step m (upd a (\<lambda>c. c\<lparr>lc_counter := updateTx n (lc_counter c)\<rparr>) m)"
| l_send: "lm_lock m = Free \<Longrightarrow> a < length (lm_heap m) \<Longrightarrow> lm_send (lc_remote (lm_heap m ! a)) msg m = (res, m') \<Longrightarrow> local_step m m'"
| l_enqueue: "lm_lock m = Sending q msg \<Longrightarrow> lm_enqueue q msg m = Some m' \<Longrightarrow> local_step m m'"
| l_close: "lm_lock m = Free \<Longrightarrow> a < length (lm_heap m) \<Longrightarrow> lm_close a m = (res, m') \<Longrightarrow> local_step m m'"
| l_confirm: "lm_lock m = Closing a first \<Longrightarrow> lm_confirm a first m = Some m' \<Longrightarrow> local_step m m'"
| l_start: "a < length (lm_heap m) \<Longrightarrow> start_step quit (lm_heap m ! a) = Some c \<Longrightarrow> local_step m (upd a (\<lambda>_. c) m)"
| l_receive: "a < length (lm_heap m) \<Longrightarrow> LocalConn_receive a m = Some (res, m') \<Longrightarrow> local_step m m'"
| l_listen: "lm_lock m = Free \<Longrightarrow> local_step m (setListening addr fn m)"
| l_unlisten: "lm_lock m = Free \<Longrightarrow> local_step m (unsetListening addr m)"

section \<open>Order and absence of panics\<close>

definition in_hand :: "start_pc \<Rightarrow> bytes list" where
  "in_hand pc = (case pc of PForward b \<Rightarrow> [b] | _ \<Rightarrow> [])"

text \<open>The invariant of the connection number \<open>i\<close>.\<close>

definition conn_ok :: "nat \<Rightarrow> LocalConn \<Rightarrow> bool" where
  "conn_ok i c \<longleftrightarrow> snd (lc_local c) = of_nat i \<and>
    lc_sent c = lc_got c @ lc_outgoing c @ in_hand (lc_pc c) @ lc_incoming c \<and>
    length (lc_incoming c) \<le> LocalMaxBuffer \<and> length (lc_outgoing c) \<le> LocalMaxBuffer \<and>
    (lc_queuesClosed c \<longleftrightarrow> lc_pc c \<in> {PConfirm, PEnded}) \<and> (lc_queuesClosed c \<longrightarrow> lc_closeCh c)"

definition lock_ok :: "LocalConn list \<Rightarrow> lm_lock \<Rightarrow> bool" where
  "lock_ok h l \<longleftrightarrow>
    (case l of
       Free \<Rightarrow> True
     | Sending q msg \<Rightarrow> q < length h \<and> \<not> lc_closeCh (h ! q)
     | Closing a first \<Rightarrow> a < length h \<and> lc_closeCh (h ! a) \<and> lc_pc (h ! a) \<noteq> PEnded)"

definition lm_ok :: "'f LocalManager \<Rightarrow> bool" where
  "lm_ok m \<longleftrightarrow> \<not> lm_panic m \<and> lm_counter m = of_nat (length (lm_heap m)) \<and> length (lm_heap m) < 2 ^ 64 \<and>
    (\<forall>i < length (lm_heap m). conn_ok i (lm_heap m ! i)) \<and> lock_ok (lm_heap m) (lm_lock m) \<and>
    (\<forall>e q. lm_conns m e = Some q \<longrightarrow> q < length (lm_heap m) \<and> lc_local (lm_heap m ! q) = e \<and> \<not> lc_closeCh (lm_heap m ! q))"

lemma lm_okI:
  assumes "\<not> lm_panic m" "lm_counter m = of_nat (length (lm_heap m))" "length (lm_heap m) < 2 ^ 64"
    "\<And>i. i < length (lm_heap m) \<Longrightarrow> conn_ok i (lm_heap m ! i)" "lock_ok (lm_heap m) (lm_lock m)"
    "\<And>e q. lm_conns m e = Some q \<Longrightarrow>
      q < length (lm_heap m) \<and> lc_local (lm_heap m ! q) = e \<and> \<not> lc_closeCh (lm_heap m ! q)"
  shows "lm_ok m"
  unfolding lm_ok_def using assms by blast

lemma upd_simps [simp]:
  "length (lm_heap (upd a f m)) = length (lm_heap m)" "lm_conns (upd a f m) = lm_conns m" "lm_lock (upd a f m) = lm_lock m"
  "lm_panic (upd a f m) = lm_panic m" "lm_counter (upd a f m) = lm_counter m" "lm_listening (upd a f m) = lm_listening m"
  by (simp_all add: upd_def)

lemma upd_nth: "i < length (lm_heap m) \<Longrightarrow> lm_heap (upd a f m) ! i = (if i = a then f (lm_heap m ! i) else lm_heap m ! i)"
  by (simp add: upd_def)

text \<open>A change of one connection that keeps its place, its flags, and not more than they allow.\<close>

lemma lm_ok_upd:
  assumes "lm_ok m" "a < length (lm_heap m)" "conn_ok a (f (lm_heap m ! a))"
    "lc_local (f (lm_heap m ! a)) = lc_local (lm_heap m ! a)" "lc_closeCh (f (lm_heap m ! a)) = lc_closeCh (lm_heap m ! a)"
    "lc_pc (f (lm_heap m ! a)) = PEnded \<Longrightarrow> lc_pc (lm_heap m ! a) = PEnded"
  shows "lm_ok (upd a f m)"
proof -
  have "lock_ok (lm_heap (upd a f m)) (lm_lock m)"
    using assms by (auto simp: lm_ok_def lock_ok_def upd_nth split: lm_lock.splits)
  then show ?thesis using assms by (auto simp: lm_ok_def upd_nth)
qed

lemma lm_ok_conns:
  assumes "lm_ok m" "lm_conns m e = Some q"
  shows "q < length (lm_heap m)" "lc_local (lm_heap m ! q) = e" "\<not> lc_closeCh (lm_heap m ! q)"
  using assms unfolding lm_ok_def by blast+

lemma same_place:
  assumes "lm_ok m" "a < length (lm_heap m)" "lm_conns m (lc_local (lm_heap m ! a)) = Some q"
  shows "q = a"
proof -
  have q: "q < length (lm_heap m)" "lc_local (lm_heap m ! q) = lc_local (lm_heap m ! a)" "length (lm_heap m) < 2 ^ 64"
    using lm_ok_conns [OF assms(1,3)] assms(1) by (simp_all add: lm_ok_def)
  have "snd (lc_local (lm_heap m ! i)) = of_nat i" if "i < length (lm_heap m)" for i using assms(1) that by (simp add: lm_ok_def conn_ok_def)
  with q assms(2) have "(of_nat q :: 64 word) = of_nat a" by metis
  then have "unat (of_nat q :: 64 word) = unat (of_nat a :: 64 word)" by simp
  then show ?thesis using q(1,3) assms(2) by (simp add: unat_of_nat)
qed

lemma lm_ok_closeChannels:
  assumes "lm_ok m" "a < length (lm_heap m)" "\<not> lc_closeCh (lm_heap m ! a)" "lm_lock m = Free"
    and "e = lc_local (lm_heap m ! a)"
  shows "lm_ok (closeChannels a first (m\<lparr>lm_conns := (lm_conns m)(e := None)\<rparr>))"
proof -
  let ?m = "m\<lparr>lm_conns := (lm_conns m)(e := None)\<rparr>"
  have c: "conn_ok a (lm_heap m ! a)" using assms(1,2) by (simp add: lm_ok_def)
  have o: "q \<noteq> a" if "lm_conns ?m e' = Some q" for e' q
  proof
    assume "q = a"
    from that have q: "e' \<noteq> e" "lm_conns m e' = Some q" by (simp_all split: if_splits)
    then show False using lm_ok_conns(2) [OF assms(1) q(2)] assms(5) \<open>q = a\<close> by simp
  qed
  let ?m' = "(upd a (\<lambda>c. c\<lparr>lc_closeCh := True\<rparr>) ?m)\<lparr>lm_lock := Closing a first\<rparr>"
  have e: "closeChannels a first ?m = ?m'" using assms(3) by (simp add: closeChannels_def)
  have nth: "lm_heap ?m' ! i = (if i = a then (lm_heap m ! i)\<lparr>lc_closeCh := True\<rparr> else lm_heap m ! i)" if "i < length (lm_heap m)" for i
    using that upd_nth [of i ?m a "\<lambda>c. c\<lparr>lc_closeCh := True\<rparr>"] by simp
  have conns: "conn_ok i (lm_heap ?m' ! i)" if "i < length (lm_heap m)" for i
  proof -
    have "conn_ok i (lm_heap m ! i)" using assms(1) that by (simp add: lm_ok_def)
    then show ?thesis unfolding nth [OF that] by (auto simp: conn_ok_def)
  qed
  have tab: "q < length (lm_heap m) \<and> lc_local (lm_heap ?m' ! q) = e' \<and> \<not> lc_closeCh (lm_heap ?m' ! q)" if x: "lm_conns ?m e' = Some q" for e' q
  proof -
    have y: "lm_conns m e' = Some q" using x by (simp split: if_splits)
    show ?thesis using lm_ok_conns [OF assms(1) y] o [OF x] nth [of q] by simp
  qed
  have "lc_pc (lm_heap m ! a) \<noteq> PEnded" using c assms(3) by (auto simp: conn_ok_def)
  then have lock: "lock_ok (lm_heap ?m') (lm_lock ?m')" using assms(2) nth [OF assms(2)] by (simp add: lock_ok_def)
  show ?thesis unfolding e
  proof (rule lm_okI)
    show "lock_ok (lm_heap ?m') (lm_lock ?m')" by (rule lock)
    show "conn_ok i (lm_heap ?m' ! i)" if "i < length (lm_heap ?m')" for i using conns that by simp
    show "q < length (lm_heap ?m') \<and> lc_local (lm_heap ?m' ! q) = e' \<and> \<not> lc_closeCh (lm_heap ?m' ! q)"
      if "lm_conns ?m' e' = Some q" for e' q using tab [of e' q] that by simp
  qed (use assms(1) in \<open>simp_all add: lm_ok_def\<close>)
qed


lemma lm_ok_connect:
  assumes "lm_ok m" "length (lm_heap m) + 2 < 2 ^ 64" "lm_connect loc remote m = (res, m')" "lm_lock m = Free"
  shows "lm_ok m'"
proof (cases "lm_listening m remote")
  case None
  then show ?thesis using assms by (simp add: lm_connect_def)
next
  case (Some fn)
  let ?n = "length (lm_heap m)"
  let ?c1 = "newLocalConn (loc, lm_counter m) (remote, lm_counter m + 1)" and ?c2 = "newLocalConn (remote, lm_counter m + 1) (loc, lm_counter m)"
  have m': "lm_heap m' = lm_heap m @ [?c1, ?c2]" "lm_conns m' = (lm_conns m)((loc, lm_counter m) \<mapsto> ?n, (remote, lm_counter m + 1) \<mapsto> Suc ?n)"
    "lm_counter m' = lm_counter m + 2" "lm_lock m' = Free" "lm_panic m' = lm_panic m"
    using assms(3,4) Some by (auto simp: lm_connect_def Let_def)
  have k: "lm_counter m = of_nat ?n" using assms(1) by (simp add: lm_ok_def)
  have new: "conn_ok ?n ?c1" "conn_ok (Suc ?n) ?c2" by (simp_all add: conn_ok_def newLocalConn_def in_hand_def k)
  have nth: "lm_heap m' ! i = (if i < ?n then lm_heap m ! i else if i = ?n then ?c1 else ?c2)" if "i < ?n + 2" for i
    using that by (auto simp: m'(1) nth_append nth_Cons split: nat.splits)
  have "q < ?n + 2 \<and> lc_local (lm_heap m' ! q) = e \<and> \<not> lc_closeCh (lm_heap m' ! q)" if "lm_conns m' e = Some q" for e q
  proof -
    show ?thesis
    proof (cases "e = (remote, lm_counter m + 1) \<or> e = (loc, lm_counter m)")
      case True
      then show ?thesis using that nth [of ?n] nth [of "Suc ?n"] by (auto simp: m'(2) newLocalConn_def)
    next
      case False
      then have o: "lm_conns m e = Some q" using that by (simp add: m'(2))
      from lm_ok_conns [OF assms(1) o] nth [of q] show ?thesis by simp
    qed
  qed
  moreover have "conn_ok i (lm_heap m' ! i)" if "i < ?n + 2" for i
  proof -
    from that consider "i < ?n" | "i = ?n" | "i = Suc ?n" by linarith
    then show ?thesis using new assms(1) that by cases (simp_all add: nth lm_ok_def)
  qed
  ultimately show ?thesis using assms(1,2) m' k by (simp add: lm_ok_def lock_ok_def)
qed

lemma conn_ok_start:
  assumes "conn_ok i c" "start_step quit c = Some c'"
  shows "conn_ok i c' \<and> lc_local c' = lc_local c \<and> lc_closeCh c' = lc_closeCh c \<and> lc_pc c' \<noteq> PEnded \<and> lc_got c' = lc_got c"
  using assms
  by (cases "lc_pc c"; cases quit; cases "lc_incoming c")
    (auto simp: start_step_def conn_ok_def in_hand_def split: if_splits)

lemma lm_ok_enqueue:
  assumes "lm_ok m" "lm_lock m = Sending q msg" "lm_enqueue q msg m = Some m'"
  shows "lm_ok m'"
proof -
  have q: "q < length (lm_heap m)" "\<not> lc_closeCh (lm_heap m ! q)" "conn_ok q (lm_heap m ! q)"
    using assms(1,2) by (auto simp: lm_ok_def lock_ok_def)
  let ?f = "\<lambda>c. c\<lparr>lc_incoming := lc_incoming c @ [msg], lc_sent := lc_sent c @ [msg]\<rparr>"
  have "\<not> lc_queuesClosed (lm_heap m ! q)" using q by (auto simp: conn_ok_def)
  then have m': "m' = (upd q ?f m)\<lparr>lm_lock := Free\<rparr>" "length (lc_incoming (lm_heap m ! q)) < LocalMaxBuffer"
    using assms(3) by (auto simp: lm_enqueue_def Let_def split: if_splits)
  have "lm_ok (upd q ?f m)" by (rule lm_ok_upd [OF assms(1) q(1)]) (use q(3) m'(2) in \<open>auto simp: conn_ok_def\<close>)
  then show ?thesis unfolding m'(1) by (simp add: lm_ok_def lock_ok_def)
qed

lemma lm_ok_confirm:
  assumes "lm_ok m" "lm_lock m = Closing a first" "lm_confirm a first m = Some m'"
  shows "lm_ok m'"
proof -
  have a: "a < length (lm_heap m)" "lc_closeCh (lm_heap m ! a)" "conn_ok a (lm_heap m ! a)" using assms(1,2) by (auto simp: lm_ok_def lock_ok_def)
  have pc: "lc_pc (lm_heap m ! a) = PConfirm" using assms(3) by (auto simp: lm_confirm_def split: if_splits)
  let ?m = "(upd a (\<lambda>c. c\<lparr>lc_pc := PEnded\<rparr>) m)\<lparr>lm_lock := Free\<rparr>"
  have nth: "lm_heap ?m ! i = (if i = a then (lm_heap m ! i)\<lparr>lc_pc := PEnded\<rparr> else lm_heap m ! i)" if "i < length (lm_heap m)" for i
    using upd_nth [OF that] by simp
  have ok: "lm_ok ?m"
  proof -
    have "conn_ok i (lm_heap ?m ! i)" if "i < length (lm_heap m)" for i
    proof -
      have "conn_ok i (lm_heap m ! i)" using assms(1) that by (simp add: lm_ok_def)
      then show ?thesis using pc unfolding nth [OF that] by (cases "i = a") (auto simp: conn_ok_def in_hand_def)
    qed
    moreover have "q < length (lm_heap m) \<and> lc_local (lm_heap ?m ! q) = e \<and> \<not> lc_closeCh (lm_heap ?m ! q)" if "lm_conns m e = Some q" for e q
      using lm_ok_conns [OF assms(1) that] unfolding nth [OF lm_ok_conns(1) [OF assms(1) that]] by auto
    ultimately show ?thesis using assms(1) by (simp add: lm_ok_def lock_ok_def)
  qed
  let ?e = "lc_remote (lm_heap ?m ! a)"
  have m': "m' = (if \<not> first then ?m else (case lm_conns ?m ?e of None \<Rightarrow> ?m
      | Some r \<Rightarrow> closeChannels r False (?m\<lparr>lm_conns := (lm_conns ?m)(?e := None)\<rparr>)))"
    using assms(3) pc by (simp add: lm_confirm_def Let_def)
  show ?thesis
  proof (cases "first \<and> lm_conns ?m ?e \<noteq> None")
    case True
    then obtain r where r: "lm_conns ?m ?e = Some r" by blast
    note c = lm_ok_conns [OF ok r]
    show ?thesis unfolding m' using True r lm_ok_closeChannels [OF ok c(1) c(3) _ c(2) [symmetric], of False] by simp
  next
    case False
    then show ?thesis unfolding m' using ok by (auto split: option.splits)
  qed
qed

lemma local_step_ok: "local_step m m' \<Longrightarrow> lm_ok m \<Longrightarrow> lm_ok m'"
proof (induction rule: local_step.induct)
  case (l_connect m loc remote res m')
  then show ?case by (blast intro: lm_ok_connect)
next
  case (l_count a m n)
  then have "conn_ok a (lm_heap m ! a)" by (simp add: lm_ok_def)
  then show ?case by (intro lm_ok_upd [OF l_count(2,1)]) (simp_all add: conn_ok_def)
next
  case (l_send m a msg res m')
  show ?case
  proof (cases "lm_conns m (lc_remote (lm_heap m ! a))")
    case (Some q)
    from lm_ok_conns [OF l_send(4) Some] show ?thesis using l_send Some by (auto simp: lm_send_def lm_ok_def lock_ok_def)
  qed (use l_send in \<open>simp add: lm_send_def\<close>)
next
  case (l_enqueue m q msg m')
  then show ?case by (blast intro: lm_ok_enqueue)
next
  case (l_close m a res m')
  show ?case
  proof (cases "lm_conns m (lc_local (lm_heap m ! a))")
    case (Some q)
    have "q = a" by (rule same_place [OF l_close(4,2) Some])
    then have "\<not> lc_closeCh (lm_heap m ! a)" using lm_ok_conns(3) [OF l_close(4) Some] by simp
    from lm_ok_closeChannels [OF l_close(4,2) this l_close(1) refl, of True] show ?thesis
      using l_close(3) Some by (auto simp: lm_close_def Let_def)
  qed (use l_close in \<open>simp add: lm_close_def Let_def\<close>)
next
  case (l_confirm m a first m')
  then show ?case by (blast intro: lm_ok_confirm)
next
  case (l_start a m quit c)
  then have "conn_ok a (lm_heap m ! a)" by (simp add: lm_ok_def)
  from conn_ok_start [OF this l_start(2)] show ?case by (intro lm_ok_upd [OF l_start(3,1)]) auto
next
  case (l_receive a m res m')
  then have c: "conn_ok a (lm_heap m ! a)" by (simp add: lm_ok_def)
  show ?case
  proof (cases "lc_outgoing (lm_heap m ! a)")
    case Nil
    then show ?thesis using l_receive by (auto simp: LocalConn_receive_def split: if_splits)
  next
    case (Cons b q)
    have "lm_ok (upd a (\<lambda>c. c\<lparr>lc_outgoing := q, lc_got := lc_got c @ [b], lc_counter := updateRx (of_nat (length b)) (lc_counter c)\<rparr>) m)"
      by (rule lm_ok_upd [OF l_receive(3,1)]) (use c Cons in \<open>auto simp: conn_ok_def\<close>)
    then show ?thesis using l_receive(2) Cons by (simp add: LocalConn_receive_def)
  qed
qed (simp_all add: lm_ok_def setListening_def unsetListening_def)

lemma local_reachable_ok: "local_step\<^sup>*\<^sup>* m m' \<Longrightarrow> lm_ok m \<Longrightarrow> lm_ok m'"
  by (induction rule: rtranclp_induct) (blast intro: local_step_ok)+

lemma new_manager_ok: "lm_ok NewLocalManager"
  by (simp add: lm_ok_def NewLocalManager_def lock_ok_def)


section \<open>Delivery\<close>

lemma local_start:
  assumes "a < length (lm_heap m)" "start_step quit (lm_heap m ! a) = Some c"
  shows "local_step m (upd a (\<lambda>_. c) m)" "lm_heap (upd a (\<lambda>_. c) m) ! a = c"
  using local_step.l_start [OF assms] assms(1) by (simp_all add: upd_nth)

text \<open>One step towards the delivery of what has been sent over an open connection.\<close>

lemma deliver_step:
  assumes "lm_ok m" "a < length (lm_heap m)" "\<not> lc_closeCh (lm_heap m ! a)"
    and "lc_got (lm_heap m ! a) \<noteq> lc_sent (lm_heap m ! a)"
  defines "rank \<equiv> \<lambda>c. 3 * length (lc_incoming c) + 2 * length (in_hand (lc_pc c)) + length (lc_outgoing c)"
  obtains m' where "local_step m m'" "length (lm_heap m') = length (lm_heap m)" "lc_closeCh (lm_heap m' ! a) = lc_closeCh (lm_heap m ! a)"
    "lc_sent (lm_heap m' ! a) = lc_sent (lm_heap m ! a)" "rank (lm_heap m' ! a) < rank (lm_heap m ! a)"
proof -
  let ?c = "lm_heap m ! a"
  have c: "lc_sent ?c = lc_got ?c @ lc_outgoing ?c @ in_hand (lc_pc ?c) @ lc_incoming ?c" "lc_pc ?c \<notin> {PConfirm, PEnded}"
    using assms(1-3) by (auto simp: lm_ok_def conn_ok_def)
  show thesis
  proof (cases "lc_outgoing ?c")
    case (Cons b q)
    let ?m = "upd a (\<lambda>c. c\<lparr>lc_outgoing := q, lc_got := lc_got c @ [b], lc_counter := updateRx (of_nat (length b)) (lc_counter c)\<rparr>) m"
    have "LocalConn_receive a m = Some (Ret b, ?m)" using Cons by (simp add: LocalConn_receive_def)
    from local_step.l_receive [OF assms(2) this] show thesis using that [of ?m] assms(2) Cons by (simp add: upd_nth rank_def)
  next
    case Nil
    show thesis
    proof (cases "lc_pc ?c")
      case (PForward b)
      then have "start_step False ?c = Some (?c\<lparr>lc_outgoing := [b], lc_pc := PSelect\<rparr>)"
        using Nil by (simp add: start_step_def LocalMaxBuffer_def)
      from local_start [OF assms(2) this] show thesis using that PForward Nil by (simp add: rank_def in_hand_def)
    next
      case PSelect
      then obtain b q where q: "lc_incoming ?c = b # q" using c(1) Nil assms(4) by (cases "lc_incoming ?c") (auto simp: in_hand_def)
      then have "start_step False ?c = Some (?c\<lparr>lc_incoming := q, lc_pc := PForward b\<rparr>)" using PSelect by (simp add: start_step_def)
      from local_start [OF assms(2) this] show thesis using that PSelect q by (simp add: rank_def in_hand_def)
    qed (use c(2) in simp_all)
  qed
qed

lemma deliver_all:
  assumes "lm_ok m" "a < length (lm_heap m)" "\<not> lc_closeCh (lm_heap m ! a)"
  shows "\<exists>m'. local_step\<^sup>*\<^sup>* m m' \<and> lc_got (lm_heap m' ! a) = lc_sent (lm_heap m ! a)"
  using assms
proof (induction "3 * length (lc_incoming (lm_heap m ! a)) + 2 * length (in_hand (lc_pc (lm_heap m ! a))) + length (lc_outgoing (lm_heap m ! a))"
    arbitrary: m rule: less_induct)
  case less
  show ?case
  proof (cases "lc_got (lm_heap m ! a) = lc_sent (lm_heap m ! a)")
    case False
    obtain m1 where m1: "local_step m m1" "length (lm_heap m1) = length (lm_heap m)" "lc_closeCh (lm_heap m1 ! a) = lc_closeCh (lm_heap m ! a)"
      "lc_sent (lm_heap m1 ! a) = lc_sent (lm_heap m ! a)"
      "3 * length (lc_incoming (lm_heap m1 ! a)) + 2 * length (in_hand (lc_pc (lm_heap m1 ! a))) + length (lc_outgoing (lm_heap m1 ! a)) <
       3 * length (lc_incoming (lm_heap m ! a)) + 2 * length (in_hand (lc_pc (lm_heap m ! a))) + length (lc_outgoing (lm_heap m ! a))"
      using deliver_step [OF less.prems False] by metis
    obtain m' where "local_step\<^sup>*\<^sup>* m1 m'" "lc_got (lm_heap m' ! a) = lc_sent (lm_heap m1 ! a)"
      using less.hyps [OF m1(5) local_step_ok [OF m1(1) less.prems(1)]] m1(2,3) less.prems(2,3) by auto
    then show ?thesis using m1(1,4) by (metis converse_rtranclp_into_rtranclp)
  qed (intro exI [of _ m], simp)
qed

section \<open>The lock of the manager\<close>

text \<open>
  A connection whose outgoing queue is full and whose goroutine has one more message in hand,
  while the lock is held to close it, or to send to its full incoming queue.
\<close>

definition blocked :: "addr \<Rightarrow> 'f LocalManager \<Rightarrow> bool" where
  "blocked a m \<longleftrightarrow> a < length (lm_heap m) \<and> (\<exists>b. lc_pc (lm_heap m ! a) = PForward b) \<and>
    LocalMaxBuffer \<le> length (lc_outgoing (lm_heap m ! a)) \<and>
    ((\<exists>first. lm_lock m = Closing a first) \<or>
     (\<exists>msg. lm_lock m = Sending a msg) \<and> \<not> lc_queuesClosed (lm_heap m ! a) \<and> LocalMaxBuffer \<le> length (lc_incoming (lm_heap m ! a)))"

lemma blocked_other:
  assumes "blocked a m" "i \<noteq> a \<or> lc_pc (f (lm_heap m ! a)) = lc_pc (lm_heap m ! a) \<and> lc_outgoing (f (lm_heap m ! a)) = lc_outgoing (lm_heap m ! a) \<and>
    lc_queuesClosed (f (lm_heap m ! a)) = lc_queuesClosed (lm_heap m ! a) \<and> lc_incoming (f (lm_heap m ! a)) = lc_incoming (lm_heap m ! a)"
  shows "blocked a (upd i f m)"
  using assms by (cases "i = a") (auto simp: blocked_def upd_nth)

lemma blocked_step:
  assumes "local_step m m'" "blocked a m" "lc_got (lm_heap m' ! a) = lc_got (lm_heap m ! a)"
  shows "blocked a m' \<and> lm_lock m' = lm_lock m"
  using assms
proof (cases rule: local_step.cases)
  case (l_count i n)
  then show ?thesis using blocked_other [OF assms(2), of i] by simp
next
  case (l_start i quit c)
  have "i \<noteq> a"
  proof
    assume "i = a"
    then show False using l_start(3) assms(2) by (auto simp: blocked_def start_step_def)
  qed
  then show ?thesis using blocked_other [OF assms(2)] l_start(1) by simp
next
  case (l_receive i res)
  obtain b q where out: "lc_outgoing (lm_heap m ! a) = b # q"
    using assms(2) by (cases "lc_outgoing (lm_heap m ! a)") (auto simp: blocked_def LocalMaxBuffer_def)
  have "i \<noteq> a"
  proof
    assume "i = a"
    then have "m' = upd a (\<lambda>c. c\<lparr>lc_outgoing := q, lc_got := lc_got c @ [b], lc_counter := updateRx (of_nat (length b)) (lc_counter c)\<rparr>) m"
      using l_receive(2) out by (simp add: LocalConn_receive_def)
    then show False using assms(2,3) by (simp add: upd_nth blocked_def)
  qed
  then show ?thesis using blocked_other [OF assms(2), of i] l_receive(2) assms(2)
    by (auto simp: LocalConn_receive_def split: list.splits if_splits)
next
  case (l_enqueue q msg)
  then show ?thesis using assms(2) by (auto simp: blocked_def lm_enqueue_def Let_def split: if_splits)
next
  case (l_confirm i first)
  then show ?thesis using assms(2) by (auto simp: blocked_def lm_confirm_def split: if_splits)
qed (auto simp: blocked_def)

lemma closeChannels_heap:
  "length (lm_heap (closeChannels i first m)) = length (lm_heap m)"
  "a < length (lm_heap m) \<Longrightarrow> lc_got (lm_heap (closeChannels i first m) ! a) = lc_got (lm_heap m ! a)"
  by (simp_all add: closeChannels_def upd_nth)

lemma got_grows:
  assumes "local_step m m'" "lm_ok m" "a < length (lm_heap m)"
  shows "a < length (lm_heap m') \<and> prefix (lc_got (lm_heap m ! a)) (lc_got (lm_heap m' ! a))"
  using assms
proof (induction rule: local_step.induct)
  case (l_connect m loc remote res m')
  then show ?case by (auto simp: lm_connect_def Let_def nth_append split: option.splits)
next
  case (l_start i m quit c)
  then have "conn_ok i (lm_heap m ! i)" by (simp add: lm_ok_def)
  from conn_ok_start [OF this l_start(2)] show ?case using l_start by (auto simp: upd_nth)
next
  case (l_receive i m res m')
  then show ?case by (auto simp: LocalConn_receive_def upd_nth split: list.splits if_splits)
next
  case (l_enqueue m q msg m')
  then show ?case by (auto simp: lm_enqueue_def Let_def upd_nth split: if_splits)
next
  case (l_close m i res m')
  then show ?case by (auto simp: lm_close_def Let_def closeChannels_heap split: option.splits)
next
  case (l_confirm m i first m')
  let ?m = "(upd i (\<lambda>c. c\<lparr>lc_pc := PEnded\<rparr>) m)\<lparr>lm_lock := Free\<rparr>"
  have "lc_got (lm_heap ?m ! a) = lc_got (lm_heap m ! a)" using l_confirm(4) by (simp add: upd_nth)
  moreover have "m' = ?m \<or> (\<exists>r t. m' = closeChannels r False (?m\<lparr>lm_conns := t\<rparr>))"
    using l_confirm(2) by (auto simp: lm_confirm_def Let_def split: option.splits if_splits)
  ultimately show ?case using l_confirm(4) by (auto simp: closeChannels_heap)
qed (auto simp: upd_nth lm_send_def setListening_def unsetListening_def split: option.splits)

lemma blocked_stays:
  assumes "local_step\<^sup>*\<^sup>* m m'" "lm_ok m" "blocked a m" "lc_got (lm_heap m' ! a) = lc_got (lm_heap m ! a)"
  shows "lm_lock m' = lm_lock m"
proof -
  have "a < length (lm_heap m') \<and> prefix (lc_got (lm_heap m ! a)) (lc_got (lm_heap m' ! a)) \<and>
      (lc_got (lm_heap m' ! a) = lc_got (lm_heap m ! a) \<longrightarrow> blocked a m' \<and> lm_lock m' = lm_lock m)"
    using assms(1)
  proof (induction rule: rtranclp_induct)
    case base
    show ?case using assms(3) by (auto simp: blocked_def)
  next
    case (step y z)
    have y: "lm_ok y" by (rule local_reachable_ok [OF step(1) assms(2)])
    have g: "a < length (lm_heap z)" "prefix (lc_got (lm_heap y ! a)) (lc_got (lm_heap z ! a))"
      using got_grows [OF step(2) y] step(3) by auto
    have "blocked a z \<and> lm_lock z = lm_lock m" if "lc_got (lm_heap z ! a) = lc_got (lm_heap m ! a)"
    proof -
      have "lc_got (lm_heap y ! a) = lc_got (lm_heap m ! a)" using that g(2) step(3) by (metis prefix_order.antisym)
      then show ?thesis using step(3) blocked_step [OF step(2)] that by auto
    qed
    then show ?case using g step(3) by (blast intro: prefix_order.trans)
  qed
  with assms(4) show ?thesis by blast
qed


text \<open>The states on the way to a full queue: two connections, \<open>n\<close> messages in the outgoing queue of the second.\<close>

definition backlog :: "nat \<Rightarrow> start_pc \<Rightarrow> 'f LocalManager \<Rightarrow> bool" where
  "backlog n pc m \<longleftrightarrow> lm_lock m = Free \<and> length (lm_heap m) = 2 \<and> lm_conns m (lc_remote (lm_heap m ! 0)) = Some 1 \<and>
    lc_local (lm_heap m ! 1) = lc_remote (lm_heap m ! 0) \<and> lc_pc (lm_heap m ! 1) = pc \<and> lc_incoming (lm_heap m ! 1) = [] \<and>
    length (lc_outgoing (lm_heap m ! 1)) = n \<and> \<not> lc_queuesClosed (lm_heap m ! 1) \<and> \<not> lc_closeCh (lm_heap m ! 1)"

lemma backlog_take:
  assumes "backlog n PSelect m"
  shows "\<exists>m'. local_step\<^sup>*\<^sup>* m m' \<and> backlog n (PForward b) m'"
proof -
  note q = assms [unfolded backlog_def]
  let ?m1 = "m\<lparr>lm_lock := Sending 1 b\<rparr>"
  let ?f = "\<lambda>c. c\<lparr>lc_incoming := lc_incoming c @ [b], lc_sent := lc_sent c @ [b]\<rparr>"
  let ?m2 = "(upd 1 ?f ?m1)\<lparr>lm_lock := Free\<rparr>"
  let ?c = "(lm_heap ?m2 ! 1)\<lparr>lc_incoming := [], lc_pc := PForward b\<rparr>"
  have "local_step m ?m1" by (rule local_step.l_send [of m 0 b "Ret ()"]) (use q in \<open>simp_all add: lm_send_def\<close>)
  moreover have "local_step ?m1 ?m2"
    by (rule local_step.l_enqueue [of _ 1 b]) (use q in \<open>simp_all add: lm_enqueue_def LocalMaxBuffer_def\<close>)
  moreover have h: "lm_heap ?m2 ! 1 = ?f (lm_heap m ! 1)" "lm_heap ?m2 ! 0 = lm_heap m ! 0" using q by (simp_all add: upd_def)
  have "local_step ?m2 (upd 1 (\<lambda>_. ?c) ?m2)"
    by (rule local_step.l_start [of 1 _ False]) (use q h in \<open>simp_all add: start_step_def\<close>)
  ultimately have "local_step\<^sup>*\<^sup>* m (upd 1 (\<lambda>_. ?c) ?m2)" by (meson rtranclp.rtrancl_into_rtrancl rtranclp.rtrancl_refl)
  moreover have "backlog n (PForward b) (upd 1 (\<lambda>_. ?c) ?m2)" using q h by (simp add: backlog_def upd_def)
  ultimately show ?thesis by blast
qed

lemma backlog_forward:
  assumes "backlog n (PForward b) m" "n < LocalMaxBuffer"
  shows "\<exists>m'. local_step m m' \<and> backlog (Suc n) PSelect m'"
proof -
  note q = assms(1) [unfolded backlog_def]
  let ?c = "(lm_heap m ! 1)\<lparr>lc_outgoing := lc_outgoing (lm_heap m ! 1) @ [b], lc_pc := PSelect\<rparr>"
  have "local_step m (upd 1 (\<lambda>_. ?c) m)"
    by (rule local_step.l_start [of 1 _ False]) (use q assms(2) in \<open>simp_all add: start_step_def\<close>)
  moreover have "backlog (Suc n) PSelect (upd 1 (\<lambda>_. ?c) m)" using q by (simp add: backlog_def upd_def)
  ultimately show ?thesis by blast
qed

lemma queue_fills:
  assumes "n \<le> LocalMaxBuffer"
  shows "\<exists>m :: unit LocalManager. local_step\<^sup>*\<^sup>* NewLocalManager m \<and> backlog n PSelect m"
  using assms
proof (induction n)
  case 0
  let ?m1 = "setListening ''b'' () NewLocalManager"
  have "local_step NewLocalManager ?m1" by (rule local_step.l_listen) (simp add: NewLocalManager_def)
  moreover have "local_step ?m1 (snd (lm_connect ''a'' ''b'' ?m1))"
    by (rule local_step.l_connect [OF _ _ prod.collapse [symmetric]]) (simp_all add: NewLocalManager_def setListening_def)
  ultimately have "local_step\<^sup>*\<^sup>* NewLocalManager (snd (lm_connect ''a'' ''b'' ?m1))" by (meson rtranclp.rtrancl_into_rtrancl rtranclp.rtrancl_refl)
  moreover have "backlog 0 PSelect (snd (lm_connect ''a'' ''b'' ?m1))"
    by (simp add: backlog_def lm_connect_def setListening_def NewLocalManager_def newLocalConn_def Let_def)
  ultimately show ?case by blast
next
  case (Suc n)
  then obtain m :: "unit LocalManager" where m: "local_step\<^sup>*\<^sup>* NewLocalManager m" "backlog n PSelect m" by auto
  obtain m1 where m1: "local_step\<^sup>*\<^sup>* m m1" "backlog n (PForward []) m1" using backlog_take [OF m(2)] by blast
  obtain m2 where m2: "local_step m1 m2" "backlog (Suc n) PSelect m2" using backlog_forward [OF m1(2)] Suc.prems by auto
  from m(1) m1(1) m2(1) have "local_step\<^sup>*\<^sup>* NewLocalManager m2" by (meson rtranclp.rtrancl_into_rtrancl rtranclp_trans)
  with m2(2) show ?case by blast
qed

text \<open>C17: 
  The local transport delivers in order. In every reachable state no goroutine has panicked on a
  closed channel, and what was sent over a connection is what was received from it, followed by
  what waits in its two queues and in the hands of its goroutine, with at most 200 messages in
  each queue; and as long as the connection is not closed, all that was sent can be received.
\<close>
theorem local_fifo:
  assumes "local_step\<^sup>*\<^sup>* NewLocalManager m" "a < length (lm_heap m)"
  shows "\<not> lm_panic m \<and>
    lc_sent (lm_heap m ! a) = lc_got (lm_heap m ! a) @ lc_outgoing (lm_heap m ! a) @ in_hand (lc_pc (lm_heap m ! a)) @ lc_incoming (lm_heap m ! a) \<and>
    length (lc_incoming (lm_heap m ! a)) \<le> LocalMaxBuffer \<and> length (lc_outgoing (lm_heap m ! a)) \<le> LocalMaxBuffer \<and>
    (\<not> lc_closeCh (lm_heap m ! a) \<longrightarrow> (\<exists>m'. local_step\<^sup>*\<^sup>* m m' \<and> lc_got (lm_heap m' ! a) = lc_sent (lm_heap m ! a)))"
proof -
  have ok: "lm_ok m" by (rule local_reachable_ok [OF assms(1) new_manager_ok])
  then have "conn_ok a (lm_heap m ! a)" "\<not> lm_panic m" using assms(2) by (simp_all add: lm_ok_def)
  then show ?thesis using deliver_all [OF ok assms(2)] by (simp add: conn_ok_def)
qed

theorem local_fifo_witness:
  "\<exists>m :: unit LocalManager. local_step\<^sup>*\<^sup>* NewLocalManager m \<and> length (lc_outgoing (lm_heap m ! 1)) = 200 \<and>
    (\<exists>m'. local_step\<^sup>*\<^sup>* m m' \<and> lc_got (lm_heap m' ! 1) = lc_sent (lm_heap m ! 1))"
proof -
  obtain m :: "unit LocalManager" where m: "local_step\<^sup>*\<^sup>* NewLocalManager m" "backlog LocalMaxBuffer PSelect m"
    using queue_fills by blast
  then have q: "1 < length (lm_heap m)" "\<not> lc_closeCh (lm_heap m ! 1)" "length (lc_outgoing (lm_heap m ! 1)) = 200"
    by (simp_all add: backlog_def LocalMaxBuffer_def)
  show ?thesis using local_fifo [OF m(1) q(1)] m(1) q(2,3) by blast
qed



end
