(* ===== verification/Spec2Isabelle.thy ===== *)
theory Spec2Isabelle
  imports Ots_Client Net_Codec Dkg Router_Tcp Local_Net
begin

text \<open>
  A verification development for the one-time and on-chain secrets of Calypso and the parts of
  its network library \<open>onet\<close> that carry them. File names are relative to \<open>src/\<close>.

  \<^bold>\<open>The program.\<close> A writer shares a symmetric key among trustees with a publicly verifiable
  secret sharing (one-time secrets, \<open>otsclient\<close>) or encodes it under a collective key
  (long-term secrets, \<open>protocol/onchain.go\<close>), encrypts the message and sends a write request to
  the on-chain-secrets service (\<open>onchain-secrets\<close>), which stores it as a block of a skipchain
  after the verification function accepted it. A reader puts a signed read request on the chain
  and then asks the secret-management cothority (\<open>otssmc\<close>), or the holders of the collective
  key (\<open>protocol/ocs.go\<close>, set up by \<open>protocol/dkg.go\<close>), for the shares re-encrypted to
  him; these check the forward-link from the write to the read block. Services are called over
  websockets (\<open>imported/onet/websocket.go\<close>); the protocols run on trees of servers
  (\<open>tree.go\<close>), as instances (\<open>treenode.go\<close>) that the overlay (\<open>overlay.go\<close>) creates and
  feeds with the messages of the network.

  \<^bold>\<open>Theories and the code they model.\<close> Go structs are records, Go calls functions into
  \<open>go\<close> (value, error or panic) or actions that also return the state they leave.

  \<^item> \<open>Prelude\<close>, \<open>Go_Strings\<close>, \<open>Go_Regexp\<close>: outcomes of Go calls, slices, loops, and
    the functions of the Go library that the program uses.
  \<^item> \<open>Sha256\<close>, \<open>Schnorr\<close>: the hash (executable), the group as a record of operations with
    its laws \<open>suite_laws\<close>, and \<open>crypto/schnorr.go\<close>.
  \<^item> \<open>Embedding\<close>, \<open>Onchain\<close>: the contract of encoding a message in masked points (locale
    \<open>masked_embedding\<close>, interpreted for \<open>EncodeKey\<close> and for the ElGamal encryption of
    \<open>otssmc\<close>), \<open>protocol/onchain.go\<close> and the re-encryption of \<open>protocol/ocs.go\<close>.
  \<^item> \<open>Dkg\<close>: \<open>protocol/dkg.go\<close>, one state per participant and the messages in flight; the
    package \<open>share/dkg\<close> is a parameter with its documented behaviour.
  \<^item> \<open>Roster_Tree\<close>: rosters and trees of \<open>tree.go\<close>, their generation and marshalling.
  \<^item> \<open>Ocs_Data\<close>, \<open>Bunch\<close>, \<open>Ocs_Service\<close>, \<open>Ocs_Api\<close>: blocks, the bunches of
    \<open>bunch.go\<close> on a heap of shared blocks, every handler of \<open>service.go\<close> with the step
    relation of a conode, and the client calls of \<open>api.go\<close>.
  \<^item> \<open>Smc\<close>, \<open>Ots_Client\<close>: the secret-management cothority and the client library of the
    one-time secrets.
  \<^item> \<open>Address\<close>, \<open>Websocket\<close>: \<open>network/address.go\<close>, \<open>websocket.go\<close> and
    \<open>processor.go\<close>.
  \<^item> \<open>Tree_Instance\<close>, \<open>Overlay\<close>, \<open>Overlay_Run\<close>: protocol instances with the
    interleaving of the reader goroutine, the state of the overlay with all its handlers and
    their step relation, and the exchange of two overlays about an unknown tree (locale
    \<open>message_proxy\<close>, interpreted on the default proxy).
  \<^item> \<open>Protobuf_Wire\<close>, \<open>Protobuf_Field\<close>, \<open>Protobuf_Encode\<close>, \<open>Protobuf_Decode\<close>,
    \<open>Protobuf_Types\<close>, \<open>Protobuf_Roundtrip\<close>: the codec of \<open>imported/protobuf\<close> over a datatype
    of Go types and a datatype of Go values.
  \<^item> \<open>Net_Encoding\<close>, \<open>Net_Codec\<close>: the registry of message types with \<open>Marshal\<close> and
    \<open>Unmarshal\<close> (\<open>network/encoding.go\<close>), and the codec they give to the overlay.
  \<^item> \<open>Tcp\<close>, \<open>Local_Net\<close>: the transports. \<open>network/tcp.go\<close>: framing over a stream that
    arrives in any segments, dialling, binding, the listener and its \<open>Stop\<close> as a step
    relation. \<open>network/local.go\<close>: the manager, its lock, and the goroutine of every connection
    as a step relation.
  \<^item> \<open>Router\<close>, \<open>Router_Tcp\<close>: \<open>network/router.go\<close> and \<open>dispatch.go\<close> over the interface
    of connections of \<open>network.go\<close> (locale \<open>conn_contract\<close>, interpreted on the TCP
    connections), with every interleaving of the handlers, of senders and of \<open>Stop\<close>.

  \<^bold>\<open>What the theorems show.\<close> This theory: a secret reaches its reader from end to end, for
  the one-time secrets whatever the order in which the trustees answer, and for the
  long-term secrets. Safety: shares leave a trustee only for a request that the verification
  accepts, and the verification functions are characterised exactly. The storage of a conode
  stays well-formed and loses no block through every sequence of steps. The loops return, but
  for one that is proved not to. The overlay: messages for unknown trees are delivered,
  pending messages are not lost, finished instances stay finished, a stray roster blocks. The
  codec: what is encoded is decoded again, what is decoded has the type of its place, and the
  bounds where this fails. The setup of the distributed key completes. The network: messages
  arrive in order over TCP and over the local transport, \<open>Stop\<close> of a router ends and leaves
  it quiet, the counters are exact once a handler has ended; a packet that is too big takes a
  TCP connection out of step, and closing a local connection can block all the others.

  \<^bold>\<open>Parameters and their hypotheses.\<close> The group, the point embedding, the verifiable secret
  sharing, the cipher, the skipchain service, \<open>share/dkg\<close> and the hash of identifiers are
  outside the repository; they are records of functions, with their documented laws as named
  predicates (\<open>suite_laws\<close>, \<open>embed_laws\<close>, \<open>cipher_laws\<close>, ...), each satisfied by a
  concrete instance in the witnesses.

  \<^bold>\<open>Loops.\<close> Loops that may run for ever are \<open>partial_function (option)\<close>; no fuel is used. The
  termination of the encoder follows the size of the value, that of the decoder the length of
  the buffer and then the size of the type.

  \<^bold>\<open>Not modelled.\<close> Logging, the simulation framework, the command-line and configuration
  helpers, the generator of schema files and the test helpers, which do I/O or text output only;
  the constructors that put a router, a host and a server together; the place that a failed
  decoding leaves half filled; the text of most error messages; the HTTP server below the
  websocket; the operating system below TCP, which appears as what reads and writes see. The
  overlay sends through a parameter (\<open>oe_sendErr\<close>), not through the router.
\<close>

section \<open>A one-time secret from the writer to the reader\<close>


text \<open>A concrete cothority of two trustees, for the witness.\<close>

definition int_code :: "int \<Rightarrow> bytes" where
  "int_code i = replicate (nat \<bar>i\<bar>) 1 @ [if i < 0 then 2 else 0]"

definition int_decode :: "bytes \<Rightarrow> int \<times> bytes" where
  "int_decode bs =
    (let n = length (takeWhile ((=) 1) bs) in
     (if bs ! n = 2 then - int n else int n, drop (Suc n) bs))"

lemma int_decode_code: "int_decode (int_code i @ rest) = (i, rest)"
proof -
  let ?m = "if i < 0 then 2 else 0 :: byte"
  have "takeWhile ((=) 1) (replicate n 1 @ ?m # rest) = replicate n (1 :: byte)" for n
    by (induction n) auto
  then show ?thesis by (simp add: int_code_def int_decode_def nth_append)
qed

definition ex_unmarshalShare :: "bytes \<Rightarrow> (string, int PubVerShare option) go" where
  "ex_unmarshalShare bs =
    (let (i, r) = int_decode bs; (v, r) = int_decode r in
     Ret (Some \<lparr>pvs_S = \<lparr>ps_I = i, ps_V = v\<rparr>, pvs_P = r\<rparr>))"

definition ex_pvss :: "(int, int) pvss_ops" where
  "ex_pvss = \<lparr>pv_EncShares = (\<lambda>h pks secret t.
      Ret (map (\<lambda>i. \<lparr>pvs_S = \<lparr>ps_I = int i, ps_V = secret\<rparr>, pvs_P = []\<rparr>) [0..<length pks], \<lambda>i. \<lparr>ps_I = i, ps_V = secret\<rparr>)),
    pv_RecoverSecret = (\<lambda>g pks encs decs t n. Ret (ps_V (pvs_S (hd decs))))\<rparr>"

definition ex_dp :: "(int, int) DataPVSS" where
  "ex_dp = \<lparr>dp_NumTrustee = 2, dp_Threshold = 0, dp_G = 0, dp_H = 0, dp_Secret = 0, dp_SCPublicKeys = [2, 3],
    dp_EncShares = [], dp_EncProofs = []\<rparr>"

definition ex_dp' :: "(int, int) DataPVSS" where
  "ex_dp' = ex_dp\<lparr>dp_Threshold := 2, dp_G := 1, dp_H := su_PickCipher int_suite (Sum256 [5]), dp_Secret := 9,
    dp_EncShares := map (\<lambda>i. \<lparr>pvs_S = \<lparr>ps_I = int i, ps_V = 9\<rparr>, pvs_P = []\<rparr>) [0..<2], dp_EncProofs := [9, 9]\<rparr>"

definition ex_flow_write :: "int OTSWrite" where
  "ex_flow_write = write_data ex_dp' (Sum256 [4, 2]) 5"

definition ex_flow :: "(int, int) smc_env" where
  "ex_flow = \<lparr>smc_suite = int_suite, smc_ops = plain_ops,
    smc_unmarshal = (\<lambda>b. if b = [1] then Ret (Some (M_DataOCS (empty_DataOCS\<lparr>do_OTSWrite :=
        Some \<lparr>dow_Data = Some ex_flow_write, dow_Signature = None\<rparr>\<rparr>)))
      else Ret (Some (M_DataOCS ex_read_data))),
    smc_MarshalRequest = (\<lambda>d. Ret [7]),
    smc_MarshalShare = (\<lambda>sh. Ret (int_code (ps_I (pvs_S sh)) @ int_code (ps_V (pvs_S sh)) @ pvs_P sh)),
    smc_CosiVerify = (\<lambda>pks h sg. if sg = [9] then Ret () else Err ''bad signature''),
    smc_DecShare = (\<lambda>h X sH x es. Ret es)\<rparr>"

lemma ex_flow_laws: "pvss_laws ex_flow ex_pvss [2, 3]" "share_codec ex_flow ex_unmarshalShare"
proof -
  show "share_codec ex_flow ex_unmarshalShare"
    by (simp add: share_codec_def ex_flow_def ex_unmarshalShare_def int_decode_code)
  show "pvss_laws ex_flow ex_pvss [2, 3]"
    by (auto simp: pvss_laws_def ex_flow_def ex_pvss_def public_of_def int_suite_def less_Suc_eq upt_conv_Cons
        intro!: exI [of _ "map (\<lambda>i. \<lparr>pvs_S = \<lparr>ps_I = int i, ps_V = _\<rparr>, pvs_P = []\<rparr>) [0..<2]"])
qed

lemma ex_flow_setup: "SetupPVSS int_suite ex_pvss 9 ex_dp (public_of int_suite 5) = Ret ex_dp'"
  by (simp add: SetupPVSS_def CreatePointH_def ex_pvss_def ex_dp_def ex_dp'_def enc_proofs_def pvss_threshold_def
      public_of_def int_suite_def index_def upt_rec numeral_2_eq_2 Let_def)

definition ex_flow_tree :: "int Tree" where
  "ex_flow_tree = \<lparr>tree_ID = 0, tree_Roster = Some ex_roster, tree_Root = None\<rparr>"

definition ex_flow_send :: "int ServerIdentity \<Rightarrow> (int, int) DecryptRequest \<Rightarrow> (string, int DecryptReply) go" where
  "ex_flow_send si' req =
    (case Service_DecryptRequest (\<lambda>r n si. Ret (Some ex_flow_tree)) (NewClientErrorCode 0) (\<lambda>t. Ret ())
        (\<lambda>ann. map (leaf_reply ex_flow ann) (map (leaf int_suite (\<lambda>i. 3) (\<lambda>i j. j) [2, 3]) [1]))
        (Dispatch_root ex_flow 3 (\<lambda>j. j) (public_of int_suite ([2, 3] ! 0)) ([2, 3] ! 0)) (ex_si 1) req of
       Some (Ret reply) \<Rightarrow> Ret reply
     | _ \<Rightarrow> Err ''no reply'')"


section \<open>A long-term secret from the writer to the reader\<close>

lemma reencrypt_share:
  assumes "suite_laws S" and "ocs_Shared oc = Some \<lparr>ss_Index = int i, ss_V = vs ! i, ss_X = X\<rparr>"
  shows "reencrypt S oc msg = Ret (Some \<lparr>rr_Ui = reenc_share S vs (re_U msg) (re_Xc msg) i\<rparr>)"
  using assms(2) by (simp add: reencrypt_def getUi_def reenc_share_def Let_def suite_lawsD(3) [OF assms(1)])

text \<open>C2: 
  A symmetric key that a writer encodes under the collective key with \<open>EncodeKey\<close> is what the
  reader gets from \<open>DecryptKeyRequest\<close>. The service finds the read block and the write block
  it names, starts the re-encryption to the reader's public key, and the other nodes answer
  with \<open>reencrypt\<close> on their shares of the secret, in any order. The threshold of the sharing
  is at most one less than the number of nodes, since the service's own share may be lost.
\<close>
theorem long_term_secret_recovered:
  assumes laws: "suite_laws S" "embed_laws S" "S = env_suite E"
    and sharing: "recovers_commit S (env_RecoverCommit E) cs n" "length cs \<le> n - 1" "0 < n"
      "X = su_Mul S (hd cs) (su_Base S)"
    and writer: "EncodeKey S r rnd X key = Some (U, Cs)" "do_Write wd = Some w" "dw_U w = U" "dw_Cs w = Cs"
    and storage: "svc_Storage s = Some st" "SBBStorage_GetByID (sto_OCSs st) order readID = Some ra"
      "NewDataOCS (env_unmarshal E) (sb_Data (sto_heap st ! ra)) = Ret (Some rdd)"
      "do_Read rdd = Some rd" "rd_Public rd = public_of S x"
      "SBBStorage_GetByID (sto_OCSs st) order (rd_DataID rd) = Some fa"
      "NewDataOCS (env_unmarshal E) (sb_Data (sto_heap st ! fa)) = Ret (Some wd)"
      "sb_Roster (sto_heap st ! fa) = Some roster" "length (ro_List roster) = n"
      "sto_Shared st (sb_GenesisID (sto_heap st ! fa)) = Some \<lparr>ss_Index = int j, ss_V = sharing cs n ! j, ss_X = X\<rparr>"
    and protocol: "genTree roster (int n) (svc_ServerIdentity s) = Ret tree" "createOCS tree = Ret oc" "ocs_List oc = n"
      "j < n" "set ids = {..<n} - {j}"
      "\<And>i. ocs_Shared (node i) = Some \<lparr>ss_Index = int i, ss_V = sharing cs n ! i, ss_X = X\<rparr>"
      "\<And>g msg. list_all2 (\<lambda>i rep. reencrypt S (node i) msg = Ret (Some rep)) ids (replies g msg)"
    and url: "scu_Roster url = Some ro" "ro_List ro \<noteq> []"
  shows "Api_DecryptKeyRequest S (\<lambda>si req s. (Service_DecryptKeyRequest E order genTree createOCS replies req s, s))
      url readID x s = (Ret key, s)"
proof -
  let ?pi = "oc\<lparr>ocs_U := Some U, ocs_Xc := public_of S x,
    ocs_Shared := Some \<lparr>ss_Index = int j, ss_V = sharing cs n ! j, ss_X = X\<rparr>\<rparr>"
  have reps: "replies g msg = map (\<lambda>i. \<lparr>rr_Ui = reenc_share S (sharing cs n) (re_U msg) (re_Xc msg) i\<rparr>) ids" for g msg
    using protocol(7) [of msg g] reencrypt_share [OF laws(1) protocol(6)]
    by (auto simp: list_all2_conv_all_nth intro!: nth_equalityI)
  obtain oc' where oc': "reencryptReply S ?pi (map (\<lambda>i. \<lparr>rr_Ui = reenc_share S (sharing cs n) U (public_of S x) i\<rparr>) ids) = Ret oc'"
    "length (ocs_Uis oc') = n"
    "\<forall>i < n. ocs_Uis oc' ! i = (if i = j \<and> j \<noteq> 0 then None else Some (reenc_share S (sharing cs n) U (public_of S x) i))"
    using reencryptReply_slots [of ?pi j "sharing cs n" X U ids S] protocol(3-5) laws(1) by auto
  have rec: "env_RecoverCommit E (ocs_Uis oc') (int n - 1) (int n) = Ret (su_Mul S (hd cs) (U + public_of S x))"
    by (rule recovered_from_replies [OF sharing(1) oc'(2) sharing(3,2) oc'(3)])
  have "Service_DecryptKeyRequest E order genTree createOCS replies \<lparr>dkr_Read = readID\<rparr> s =
      Ret \<lparr>dky_Cs = Cs, dky_XhatEnc = su_Mul S (hd cs) (U + public_of S x), dky_X = X\<rparr>"
    using storage protocol(1,2) writer(2-4) oc'(1) rec laws(3)
    by (simp add: Service_DecryptKeyRequest_def Let_def OCS_Start_def reps)
  moreover have "DecodeKey S X Cs (su_Mul S (hd cs) (U + public_of S x)) x = Ret key"
    using DecodeKey_EncodeKey [OF laws(1,2) sharing(4) writer(1) refl] .
  ultimately show ?thesis using url
    by (simp add: Api_DecryptKeyRequest_def first_server_def act_bind_def index_def)
qed

text \<open>Four nodes that share the secret 7 by a constant polynomial, for the witness.\<close>

definition ex_rec :: "int PubShare option list \<Rightarrow> int \<Rightarrow> int \<Rightarrow> (string, int) go" where
  "ex_rec us t n = Ret (ps_V (the (hd (filter (\<lambda>u. u \<noteq> None) us))))"

lemma ex_sharing: "i < 4 \<Longrightarrow> sharing [7 :: int] 4 ! i = 7"
  by (simp add: sharing_def)

lemma ex_rec_recovers: "recovers_commit int_suite ex_rec [7] 4"
proof -
  have "ex_rec us (int t) 4 = Ret (7 * P)"
    if us: "length us = 4" "1 \<le> t" "t \<le> length (filter (\<lambda>u. u \<noteq> None) us)"
      "slots_ok (\<lambda>i. \<lparr>ps_I = int i, ps_V = su_Mul int_suite (sharing [7] 4 ! i) P\<rparr>) us" for us t P
  proof -
    have "filter (\<lambda>u. u \<noteq> None) us \<noteq> []" using us(2,3) by auto
    then have "hd (filter (\<lambda>u. u \<noteq> None) us) \<in> set (filter (\<lambda>u. u \<noteq> None) us)" by (rule hd_in_set)
    then obtain i u where "i < 4" "us ! i = Some u" "hd (filter (\<lambda>u. u \<noteq> None) us) = Some u"
      using us(1) by (auto simp: in_set_conv_nth)
    then show ?thesis using us(1,4) ex_sharing [of i] by (auto simp: ex_rec_def slots_ok_def int_suite_def)
  qed
  then show ?thesis by (auto simp: recovers_commit_def int_suite_def)
qed

definition ex_lts_env :: "(int, int) env" where
  "ex_lts_env = ex_env\<lparr>env_RecoverCommit := ex_rec,
    env_unmarshal := (\<lambda>b. if b = [1] then Ret (Some (M_DataOCS (empty_DataOCS\<lparr>do_Write :=
        Some \<lparr>dw_Data = [], dw_U = 3, dw_Cs = [25], dw_Readers = []\<rparr>\<rparr>)))
      else Ret (Some (M_DataOCS ex_read_data)))\<rparr>"

definition ex_lts_service :: "(int, int) Service" where
  "ex_lts_service = ex_service\<lparr>svc_Storage :=
    Some (ex_storage\<lparr>sto_Shared := (\<lambda>g. Some \<lparr>ss_Index = 0, ss_V = 7, ss_X = 7\<rparr>)\<rparr>)\<rparr>"

definition ex_node :: "nat \<Rightarrow> (int, int) OCS" where
  "ex_node i = (NewOCS 4 0)\<lparr>ocs_Shared := Some \<lparr>ss_Index = int i, ss_V = sharing [7] 4 ! i, ss_X = 7\<rparr>\<rparr>"

definition ex_replies :: "SkipBlockID \<Rightarrow> int Reencrypt \<Rightarrow> int ReencryptReply list" where
  "ex_replies g msg = map (\<lambda>i. \<lparr>rr_Ui = reenc_share int_suite (sharing [7] 4) (re_U msg) (re_Xc msg) i\<rparr>) [3, 1, 2]"

theorem long_term_secret_recovered_witness:
  "Api_DecryptKeyRequest int_suite (\<lambda>si req s. (Service_DecryptKeyRequest ex_lts_env [[1]] (\<lambda>r n si. Ret None)
      (\<lambda>t. Ret (NewOCS 4 0)) ex_replies req s, s)) \<lparr>scu_Roster = Some ex_roster, scu_Genesis = [1]\<rparr> [3] 5 ex_lts_service
    = (Ret [4], ex_lts_service)"
proof -
  have enc: "EncodeKey int_suite 3 (\<lambda>i. i) 7 [4] = Some (3, [25])"
    by (simp add: EncodeKey_def int_suite_def EncodeKey_loop.simps Let_def)
  have ro: "sb_Roster (ex_data_block i k fls d) = Some ex_roster" "length (ro_List ex_roster) = 4" for i k fls d
    by (simp_all add: ex_block_defs ex_roster_def NewRoster_def)
  have rep: "list_all2 (\<lambda>i rep. reencrypt int_suite (ex_node i) msg = Ret (Some rep)) [3, 1, 2] (ex_replies g msg)" for g msg
    using reencrypt_share [of int_suite "ex_node i" i "sharing [7] 4" 7 msg for i]
    by (simp add: ex_replies_def ex_node_def)
  have sh: "sharing [7 :: int] 4 ! 0 = 7" by (simp add: ex_sharing)
  have int: "su_Mul int_suite a b = a * b" "su_Base int_suite = 1" for a b by (simp_all add: int_suite_def)
  have ids: "set [3, 1, 2 :: nat] = {..<4} - {0}" by auto
  show ?thesis
  proof (rule long_term_secret_recovered [where cs = "[7]" and n = 4 and X = 7 and r = 3 and rnd = "\<lambda>i. i" and U = 3
        and Cs = "[25]" and wd = "empty_DataOCS\<lparr>do_Write := Some \<lparr>dw_Data = [], dw_U = 3, dw_Cs = [25], dw_Readers = []\<rparr>\<rparr>"
        and w = "\<lparr>dw_Data = [], dw_U = 3, dw_Cs = [25], dw_Readers = []\<rparr>" and rdd = ex_read_data and rd = ex_read
        and st = "ex_storage\<lparr>sto_Shared := (\<lambda>g. Some \<lparr>ss_Index = 0, ss_V = 7, ss_X = 7\<rparr>)\<rparr>" and ra = 2 and fa = 1 and j = 0
        and roster = ex_roster and ids = "[3, 1, 2]" and node = ex_node and ro = ex_roster and oc = "NewOCS 4 0" and tree = None])
    show "list_all2 (\<lambda>i rep. reencrypt int_suite (ex_node i) msg = Ret (Some rep)) [3, 1, 2] (ex_replies g msg)" for g msg
      by (rule rep)
  qed (use enc ro sh ids ex_rec_recovers in \<open>simp_all add: ex_lts_env_def ex_lts_service_def ex_storage_def ex_data_block_def
      SBBStorage_GetByID_def Bunch_GetByID_def NewDataOCS_def ex_node_def NewOCS_def ex_read_data_def empty_DataOCS_def
      ex_read_def public_of_def int\<close>)
qed

end
